(* ===== verification/Prelude.thy ===== *)
theory Prelude
  imports Main "HOL-Library.Word" "HOL-Library.Char_ord" "HOL-Library.Sublist"
    "HOL-Library.Code_Target_Nat"
begin

text \<open>
  Shared ground of the SpareNode development: the types every component uses, the parts of the
  C++ standard library the sources call (\<^verbatim>\<open>std::string_view::find\<close>, \<^verbatim>\<open>std::from_chars\<close>, unsigned
  \<^verbatim>\<open>std::size_t\<close> subtraction), generic lemmas on them, and the two interface locales that
  several components implement: a system of operations with an invariant, and one whose size
  stays below a capacity.

  Bytes are \<^typ>\<open>char\<close> (eight bits in HOL), byte sequences and \<^verbatim>\<open>std::string_view\<close> are
  \<^typ>\<open>string\<close>, \<^verbatim>\<open>std::size_t\<close> is \<^typ>\<open>nat\<close> with the wrap-around at \<open>2 ^ 64\<close> written out
  where the source subtracts, and \<^verbatim>\<open>Result<T, E>\<close> is the sum \<open>'e + 'a\<close> with the error on the
  left.
\<close>

section \<open>Types, collections of facts\<close>

type_synonym ('e, 'a) result = "'e + 'a"

named_theorems byte_class "definitions of the byte classifiers"

named_theorems scan_facts "bounds of the scanning functions"

abbreviation CR :: char where "CR \<equiv> CHR 0x0D"

abbreviation LF :: char where "LF \<equiv> CHR 0x0A"

abbreviation HTAB :: char where "HTAB \<equiv> CHR 0x09"

abbreviation DQUOTE :: char where "DQUOTE \<equiv> CHR 0x22"

abbreviation BACKSLASH :: char where "BACKSLASH \<equiv> CHR 0x5C"

abbreviation NUL :: char where "NUL \<equiv> CHR 0x00"

section \<open>Unsigned machine arithmetic\<close>

definition size_max :: nat where
  "size_max = 2 ^ 64 - 1"

definition size_sub :: "nat \<Rightarrow> nat \<Rightarrow> nat" where
  "size_sub a b = (if b \<le> a then a - b else a + 2 ^ 64 - b)"

lemma size_sub_le [simp]: "b \<le> a \<Longrightarrow> size_sub a b = a - b"
  by (simp add: size_sub_def)

section \<open>Searching\<close>

primrec find_index :: "('a \<Rightarrow> bool) \<Rightarrow> 'a list \<Rightarrow> nat option" where
  "find_index p [] = None"
| "find_index p (x # xs) = (if p x then Some 0 else map_option Suc (find_index p xs))"

definition sv_find :: "char \<Rightarrow> string \<Rightarrow> nat \<Rightarrow> nat option" where
  "sv_find c s pos = map_option ((+) pos) (find_index ((=) c) (drop pos s))"

primrec find_sub :: "string \<Rightarrow> string \<Rightarrow> nat option" where
  "find_sub pat [] = (if pat = [] then Some 0 else None)"
| "find_sub pat (x # xs) =
     (if prefix pat (x # xs) then Some 0 else map_option Suc (find_sub pat xs))"

definition sv_find_sub :: "string \<Rightarrow> string \<Rightarrow> nat \<Rightarrow> nat option" where
  "sv_find_sub pat s pos =
     (if length s < pos then None else map_option ((+) pos) (find_sub pat (drop pos s)))"

definition sv_substr :: "string \<Rightarrow> nat \<Rightarrow> nat \<Rightarrow> string" where
  "sv_substr s pos n = take n (drop pos s)"

lemma find_index_Some_iff:
  "find_index p xs = Some i \<longleftrightarrow> i < length xs \<and> p (xs ! i) \<and> (\<forall>j<i. \<not> p (xs ! j))"
proof (induction xs arbitrary: i)
  case Nil
  then show ?case by simp
next
  case (Cons x xs)
  then show ?case by (cases i) (auto simp: less_Suc_eq_0_disj)
qed

lemma map_option_plus_0 [simp]: "map_option ((+) (0::nat)) x = x"
  by (cases x) auto

lemma find_index_None_iff: "find_index p xs = None \<longleftrightarrow> (\<forall>x\<in>set xs. \<not> p x)"
  by (induction xs) auto

lemma find_index_append:
  "find_index p (xs @ ys) =
     (case find_index p xs of
        Some i \<Rightarrow> Some i
      | None \<Rightarrow> map_option ((+) (length xs)) (find_index p ys))"
proof (induction xs)
  case Nil
  then show ?case by simp
next
  case (Cons x xs)
  then show ?case by (cases "find_index p ys") (auto split: option.splits)
qed

lemma find_index_less [scan_facts]: "find_index p xs = Some i \<Longrightarrow> i < length xs"
  by (simp add: find_index_Some_iff)

lemma find_index_takeWhile:
  "find_index p xs =
     (if (\<exists>x\<in>set xs. p x) then Some (length (takeWhile (\<lambda>x. \<not> p x) xs)) else None)"
  by (induction xs) auto

lemma find_index_split:
  "find_index p xs = Some i \<Longrightarrow>
     xs = take i xs @ xs ! i # drop (Suc i) xs \<and> p (xs ! i) \<and> (\<forall>x\<in>set (take i xs). \<not> p x)"
  by (auto simp: find_index_Some_iff id_take_nth_drop [symmetric] in_set_conv_nth)

lemma sv_find_Some [scan_facts]:
  "sv_find c s pos = Some i \<Longrightarrow> pos \<le> i \<and> i < length s \<and> s ! i = c"
  by (auto simp: sv_find_def find_index_Some_iff)

lemma sv_find_0: "sv_find c s 0 = find_index ((=) c) s"
  by (simp add: sv_find_def)

lemma sv_find_None: "sv_find c s 0 = None \<longleftrightarrow> c \<notin> set s"
  by (auto simp: sv_find_0 find_index_None_iff)

section \<open>Conversion of digits\<close>

definition std_digit :: "nat \<Rightarrow> char \<Rightarrow> nat option" where
  "std_digit base c =
     (let v = (if CHR ''0'' \<le> c \<and> c \<le> CHR ''9'' then of_char c - 48
               else if CHR ''a'' \<le> c \<and> c \<le> CHR ''z'' then of_char c - 87
               else if CHR ''A'' \<le> c \<and> c \<le> CHR ''Z'' then of_char c - 55
               else base)
      in if v < base then Some v else None)"

primrec scan_digits :: "nat \<Rightarrow> nat \<Rightarrow> string \<Rightarrow> nat \<times> string" where
  "scan_digits base acc [] = (acc, [])"
| "scan_digits base acc (c # cs) =
     (case std_digit base c of
        None \<Rightarrow> (acc, c # cs)
      | Some d \<Rightarrow> scan_digits base (acc * base + d) cs)"

datatype from_chars_ec = Invalid_argument | Result_out_of_range

text \<open>
  \<^verbatim>\<open>std::from_chars\<close> for an unsigned target with values below \<open>lim\<close>: the longest digit prefix is
  consumed; no digit is an invalid argument, a value not below \<open>lim\<close> is out of range. The second
  component is the text from the returned pointer on.
\<close>

definition from_chars :: "nat \<Rightarrow> nat \<Rightarrow> string \<Rightarrow> (from_chars_ec + nat) \<times> string" where
  "from_chars lim base s =
     (case s of
        [] \<Rightarrow> (Inl Invalid_argument, [])
      | c # _ \<Rightarrow>
          (if std_digit base c = None then (Inl Invalid_argument, s)
           else (case scan_digits base 0 s of
                   (v, rest) \<Rightarrow>
                     (if v < lim then (Inr v, rest) else (Inl Result_out_of_range, rest)))))"

definition digits_value :: "nat \<Rightarrow> string \<Rightarrow> nat" where
  "digits_value base s = foldl (\<lambda>acc c. acc * base + the (std_digit base c)) 0 s"

lemma scan_digits_foldl:
  "list_all (\<lambda>c. std_digit base c \<noteq> None) ds \<Longrightarrow>
     scan_digits base acc (ds @ rest) =
       scan_digits base (foldl (\<lambda>a c. a * base + the (std_digit base c)) acc ds) rest"
  by (induction ds arbitrary: acc) auto

lemma scan_digits_prefix:
  "scan_digits base acc s = (v, rest) \<Longrightarrow>
     \<exists>ds. s = ds @ rest \<and> list_all (\<lambda>c. std_digit base c \<noteq> None) ds \<and>
          v = foldl (\<lambda>a c. a * base + the (std_digit base c)) acc ds \<and>
          (rest = [] \<or> std_digit base (hd rest) = None)"
proof (induction s arbitrary: acc)
  case Nil
  then show ?case by simp
next
  case (Cons c cs)
  show ?case
  proof (cases "std_digit base c")
    case None
    with Cons.prems show ?thesis by auto
  next
    case (Some d)
    with Cons.prems have "scan_digits base (acc * base + d) cs = (v, rest)" by simp
    then obtain ds where "cs = ds @ rest" "list_all (\<lambda>c. std_digit base c \<noteq> None) ds"
      "v = foldl (\<lambda>a c. a * base + the (std_digit base c)) (acc * base + d) ds"
      "rest = [] \<or> std_digit base (hd rest) = None"
      using Cons.IH by blast
    with Some have "c # cs = (c # ds) @ rest \<and>
      list_all (\<lambda>c. std_digit base c \<noteq> None) (c # ds) \<and>
      v = foldl (\<lambda>a c. a * base + the (std_digit base c)) acc (c # ds) \<and>
      (rest = [] \<or> std_digit base (hd rest) = None)" by simp
    then show ?thesis by blast
  qed
qed

lemma from_chars_Inr_iff:
  "from_chars lim base s = (Inr v, rest) \<longleftrightarrow>
     (\<exists>ds. s = ds @ rest \<and> ds \<noteq> [] \<and> list_all (\<lambda>c. std_digit base c \<noteq> None) ds \<and>
           (rest = [] \<or> std_digit base (hd rest) = None) \<and> v = digits_value base ds \<and> v < lim)"
  (is "?l = (\<exists>ds. ?r ds)")
proof
  assume ?l
  then obtain c cs where s: "s = c # cs" and c: "std_digit base c \<noteq> None"
    and sc: "scan_digits base 0 s = (v, rest)" and v: "v < lim"
    by (auto simp: from_chars_def split: list.splits if_splits prod.splits)
  from scan_digits_prefix [OF sc] obtain ds where ds: "s = ds @ rest"
    "list_all (\<lambda>c. std_digit base c \<noteq> None) ds"
    "v = foldl (\<lambda>a c. a * base + the (std_digit base c)) 0 ds"
    "rest = [] \<or> std_digit base (hd rest) = None"
    by blast
  with s c have "ds \<noteq> []" by (cases ds) auto
  with ds v have "?r ds" by (simp add: digits_value_def)
  then show "\<exists>ds. ?r ds" by blast
next
  assume "\<exists>ds. ?r ds"
  then obtain ds where ds: "?r ds" by blast
  have "scan_digits base v rest = (v, rest)"
    using ds by (cases rest) auto
  with ds have sc: "scan_digits base 0 s = (v, rest)"
    by (simp add: scan_digits_foldl digits_value_def)
  from ds obtain c cs where "ds = c # cs" "std_digit base c \<noteq> None"
    by (cases ds) auto
  with ds sc show ?l by (auto simp: from_chars_def)
qed

section \<open>Printing of numbers\<close>

definition digit_char :: "nat \<Rightarrow> char" where
  "digit_char d = (if d < 10 then char_of (48 + d) else char_of (87 + d))"

text \<open>
  \<^verbatim>\<open>std::to_string\<close> is base ten; chunk sizes and IPv6 words are written in base sixteen.
\<close>

fun print_base :: "nat \<Rightarrow> nat \<Rightarrow> string" where
  "print_base base n =
     (if base < 2 \<or> n < base then [digit_char n]
      else print_base base (n div base) @ [digit_char (n mod base)])"

declare print_base.simps [simp del]

lemma std_digit_digit_char [simp]:
  "d < base \<Longrightarrow> base \<le> 16 \<Longrightarrow> std_digit base (digit_char d) = Some d"
  by (auto simp: std_digit_def digit_char_def less_eq_char_def Let_def)

lemma print_base_nonempty [simp]: "print_base base n \<noteq> []"
  by (subst print_base.simps) simp

lemma print_base_digits:
  assumes "2 \<le> base" "base \<le> 16"
  shows "list_all (\<lambda>c. std_digit base c \<noteq> None) (print_base base n)"
proof (induction n rule: less_induct)
  case (less n)
  then show ?case
    using assms by (subst print_base.simps) (auto simp: div_less_dividend)
qed

lemma digits_value_append:
  "digits_value base (ds @ [c]) = digits_value base ds * base + the (std_digit base c)"
  by (simp add: digits_value_def)

lemma digits_value_print_base:
  assumes "2 \<le> base" "base \<le> 16"
  shows "digits_value base (print_base base n) = n"
proof (induction n rule: less_induct)
  case (less n)
  show ?case
  proof (cases "n < base")
    case True
    then show ?thesis
      using assms by (subst print_base.simps) (simp add: digits_value_def)
  next
    case False
    with assms less have "digits_value base (print_base base (n div base)) = n div base"
      by (simp add: div_less_dividend)
    with False assms show ?thesis
      by (subst print_base.simps) (simp add: digits_value_append)
  qed
qed

text \<open>A digit string without a superfluous leading zero is the printed form of its value.\<close>

lemma digit_char_std_digit:
  "base \<le> 10 \<Longrightarrow> std_digit base c = Some d \<Longrightarrow> digit_char d = c"
  by (auto simp: std_digit_def digit_char_def Let_def less_eq_char_def split: if_splits)

lemma std_digit_less: "std_digit base c = Some d \<Longrightarrow> d < base"
  by (auto simp: std_digit_def Let_def split: if_splits)

lemma digits_value_pos:
  assumes "base \<ge> 2" "list_all (\<lambda>c. std_digit base c \<noteq> None) (c # ds)" "std_digit base c \<noteq> Some 0"
  shows "0 < digits_value base (c # ds)"
  using assms(2)
proof (induction ds rule: rev_induct)
  case Nil
  then show ?case using assms(3) by (auto simp: digits_value_def)
next
  case (snoc x xs)
  then have "0 < digits_value base (c # xs)" by simp
  then show ?case
    using digits_value_append [of base "c # xs" x] assms(1) by simp
qed

lemma print_base_digits_value:
  assumes base: "2 \<le> base" "base \<le> 10"
  shows "list_all (\<lambda>c. std_digit base c \<noteq> None) ds \<Longrightarrow> ds \<noteq> [] \<Longrightarrow>
    (1 < length ds \<longrightarrow> std_digit base (hd ds) \<noteq> Some 0) \<Longrightarrow> print_base base (digits_value base ds) = ds"
proof (induction ds rule: rev_induct)
  case Nil
  then show ?case by simp
next
  case (snoc x xs)
  from snoc.prems obtain d where d: "std_digit base x = Some d" by auto
  have dl: "d < base" using std_digit_less [OF d] .
  have dc: "digit_char d = x" using digit_char_std_digit [OF base(2) d] .
  show ?case
  proof (cases xs)
    case Nil
    with d dl dc show ?thesis by (simp add: digits_value_def print_base.simps)
  next
    case (Cons c ys)
    with snoc.prems have lead: "std_digit base c \<noteq> Some 0" by simp
    have IH: "print_base base (digits_value base xs) = xs"
      using snoc Cons by simp
    have pos: "0 < digits_value base xs"
      using digits_value_pos [OF base(1), of c ys] snoc.prems(1) Cons lead by simp
    have v: "digits_value base (xs @ [x]) = digits_value base xs * base + d"
      using d by (simp add: digits_value_append)
    have "base \<le> digits_value base xs * base" using pos by simp
    then have ge: "\<not> digits_value base xs * base + d < base" by linarith
    show ?thesis
      using ge IH dl dc base by (subst v, subst print_base.simps) simp
  qed
qed

lemma hd_print_base_zero:
  assumes "2 \<le> base" "base \<le> 16" "std_digit base (hd (print_base base n)) = Some 0"
  shows "n = 0"
  using assms(3)
proof (induction n rule: less_induct)
  case (less n)
  show ?case
  proof (cases "n < base")
    case True
    with less.prems assms show ?thesis by (simp add: print_base.simps)
  next
    case False
    with assms less.prems have "std_digit base (hd (print_base base (n div base))) = Some 0"
      by (subst (asm) print_base.simps) (simp add: hd_append)
    with less.IH [of "n div base"] False assms have "n div base = 0"
      by (simp add: div_less_dividend)
    with False assms show ?thesis by (simp add: div_eq_0_iff)
  qed
qed

lemma length_print_base:
  assumes "2 \<le> base" "n < base ^ Suc k"
  shows "length (print_base base n) \<le> Suc k"
  using assms(2)
proof (induction k arbitrary: n)
  case 0
  then show ?case by (simp add: print_base.simps)
next
  case (Suc k)
  then have "n div base < base ^ Suc k" by (simp add: less_mult_imp_div_less mult.commute)
  with Suc.IH show ?case by (subst print_base.simps) simp
qed

lemma from_chars_print_base:
  assumes "2 \<le> base" "base \<le> 16" "n < lim" "rest = [] \<or> std_digit base (hd rest) = None"
  shows "from_chars lim base (print_base base n @ rest) = (Inr n, rest)"
  unfolding from_chars_Inr_iff
  using assms by (intro exI [of _ "print_base base n"])
    (simp add: digits_value_print_base print_base_digits del: not_None_eq)

section \<open>Operations with an invariant\<close>

text \<open>
  A component whose public operations are the steps \<open>step x\<close>, each keeping \<open>inv\<close>. Sequences of
  operations, in whatever order callers interleave them under the component's mutex, keep it too.
\<close>

locale op_system =
  fixes step :: "'op \<Rightarrow> 's \<Rightarrow> 's"
    and inv :: "'s \<Rightarrow> bool"
  assumes inv_step: "inv s \<Longrightarrow> inv (step x s)"
begin

lemma inv_run: "inv s \<Longrightarrow> inv (fold step xs s)"
  by (induction xs arbitrary: s) (auto intro: inv_step)

end

text \<open>A component that also stores a number of items bounded by a capacity no operation changes.\<close>

locale bounded_system = op_system step inv
  for step :: "'op \<Rightarrow> 's \<Rightarrow> 's" and inv :: "'s \<Rightarrow> bool" +
  fixes load :: "'s \<Rightarrow> nat"
    and cap :: "'s \<Rightarrow> nat"
  assumes load_le: "inv s \<Longrightarrow> load s \<le> cap s"
    and cap_step: "cap (step x s) = cap s"
begin

lemma cap_run: "cap (fold step xs s) = cap s"
  by (induction xs arbitrary: s) (auto simp: cap_step)

lemma load_run: "inv s \<Longrightarrow> load (fold step xs s) \<le> cap s"
  using load_le [OF inv_run] by (simp add: cap_run)

end

section \<open>Time\<close>

text \<open>
  A monotonic instant is a signed 64-bit count of nanoseconds since the clock's epoch; instants are
  integers here and their largest value is written out where the code checks against it.
\<close>

definition time_point_max :: int where
  "time_point_max = 2 ^ 63 - 1"

section \<open>Incremental parsers\<close>

text \<open>
  A reader appends fragments to a buffer until the parser decides. \<open>Inr None\<close> is "incomplete". When
  decided results do not depend on later bytes, the outcome does not depend on the fragmentation.
\<close>

primrec read_until ::
    "('b list \<Rightarrow> 'e + 'a option) \<Rightarrow> 'b list \<Rightarrow> 'b list list \<Rightarrow> 'b list \<times> ('e + 'a option)" where
  "read_until parse buffer [] = (buffer, parse buffer)"
| "read_until parse buffer (fragment # fragments) =
     (if parse buffer = Inr None then read_until parse (buffer @ fragment) fragments
      else (buffer, parse buffer))"

locale incremental_parser =
  fixes parse :: "'b list \<Rightarrow> 'e + 'a option"
  assumes stable: "parse xs \<noteq> Inr None \<Longrightarrow> parse (xs @ ys) = parse xs"
begin

lemma read_until_result: "snd (read_until parse buffer fragments) = parse (buffer @ concat fragments)"
proof (induction fragments arbitrary: buffer)
  case (Cons f fs)
  then show ?case by (auto simp: stable)
qed simp

lemma fragmentation:
  "concat fs = concat gs \<Longrightarrow>
     snd (read_until parse [] fs) = snd (read_until parse [] gs)"
  by (simp add: read_until_result)

lemma undecided_prefix: "parse (xs @ ys) = Inr None \<Longrightarrow> parse xs = Inr None"
  using stable by metis

end

end
