(* ===== verification/Utf8.thy ===== *)
theory Utf8
  imports Prelude
begin

unbundle bit_operations_syntax

text \<open>
  The strict UTF-8 codec of \<^verbatim>\<open>src/foundation/text/utf8.cpp\<close>. Code points are 32-bit words, as the
  \<^verbatim>\<open>std::uint32_t\<close> of the source, and the masks and shifts are the word operations. The section on
  the codec proves both directions: decoding inverts encoding, and whatever is decoded is exactly
  the canonical encoding of a scalar value, so overlong forms and surrogates are rejected, and
  the validator accepts exactly the concatenations of such encodings.
\<close>

section \<open>Definitions\<close>

type_synonym u32 = "32 word"

definition byte_u32 :: "char \<Rightarrow> u32" where
  "byte_u32 c = of_nat (of_char c)"

definition u32_char :: "u32 \<Rightarrow> char" where
  "u32_char x = char_of (unat x)"

record decoded_scalar =
  scalar_value :: u32
  byte_count :: nat

definition is_scalar_value :: "u32 \<Rightarrow> bool" where
  "is_scalar_value code_point \<longleftrightarrow>
     code_point \<le> 0x10FFFF \<and> (code_point < 0xD800 \<or> code_point > 0xDFFF)"

text \<open>Sequence length, payload of the leading byte and least code point of that length.\<close>

definition utf8_shape :: "u32 \<Rightarrow> (nat \<times> u32 \<times> u32) option" where
  "utf8_shape leading_byte =
     (if leading_byte AND 0xE0 = 0xC0 then Some (2, leading_byte AND 0x1F, 0x80)
      else if leading_byte AND 0xF0 = 0xE0 then Some (3, leading_byte AND 0x0F, 0x800)
      else if leading_byte AND 0xF8 = 0xF0 then Some (4, leading_byte AND 0x07, 0x10000)
      else None)"

fun utf8_continuations :: "u32 \<Rightarrow> string \<Rightarrow> u32 option" where
  "utf8_continuations code_point [] = Some code_point"
| "utf8_continuations code_point (b # bs) =
     (if byte_u32 b AND 0xC0 \<noteq> 0x80 then None
      else utf8_continuations (push_bit 6 code_point OR (byte_u32 b AND 0x3F)) bs)"

definition decode_one :: "string \<Rightarrow> decoded_scalar option" where
  "decode_one input =
     (case input of
        [] \<Rightarrow> None
      | c # _ \<Rightarrow>
          (let leading_byte = byte_u32 c in
           if leading_byte < 0x80 then Some \<lparr>scalar_value = leading_byte, byte_count = 1\<rparr>
           else (case utf8_shape leading_byte of
                   None \<Rightarrow> None
                 | Some (len, payload, minimum) \<Rightarrow>
                     (if length input < len then None
                      else (case utf8_continuations payload (take (len - 1) (drop 1 input)) of
                              None \<Rightarrow> None
                            | Some code_point \<Rightarrow>
                                (if code_point < minimum \<or> \<not> is_scalar_value code_point then None
                                 else Some \<lparr>scalar_value = code_point, byte_count = len\<rparr>))))))"

definition append_code_point :: "string \<Rightarrow> u32 \<Rightarrow> bool \<times> string" where
  "append_code_point output v =
     (if \<not> is_scalar_value v then (False, output)
      else if v < 0x80 then (True, output @ [u32_char v])
      else if v < 0x800 then
        (True, output @ [u32_char (0xC0 OR drop_bit 6 v), u32_char (0x80 OR (v AND 0x3F))])
      else if v < 0x10000 then
        (True, output @ [u32_char (0xE0 OR drop_bit 12 v),
                         u32_char (0x80 OR (drop_bit 6 v AND 0x3F)),
                         u32_char (0x80 OR (v AND 0x3F))])
      else
        (True, output @ [u32_char (0xF0 OR drop_bit 18 v),
                         u32_char (0x80 OR (drop_bit 12 v AND 0x3F)),
                         u32_char (0x80 OR (drop_bit 6 v AND 0x3F)),
                         u32_char (0x80 OR (v AND 0x3F))]))"

definition utf8_encode :: "u32 \<Rightarrow> string" where
  "utf8_encode v = snd (append_code_point [] v)"

lemma decode_one_count:
  "decode_one s = Some d \<Longrightarrow> 1 \<le> byte_count d \<and> byte_count d \<le> 4 \<and> byte_count d \<le> length s"
  by (auto simp: decode_one_def utf8_shape_def Let_def
      Suc_le_eq split: list.splits if_splits option.splits prod.splits)

function utf8_valid_from :: "string \<Rightarrow> nat \<Rightarrow> bool" where
  "utf8_valid_from input index =
     (if index < length input then
        (case decode_one (drop index input) of
           None \<Rightarrow> False
         | Some scalar \<Rightarrow> utf8_valid_from input (index + byte_count scalar))
      else True)"
  by pat_completeness auto
termination
  by (relation "measure (\<lambda>(input, index). length input - index)")
    (auto dest: decode_one_count)

declare utf8_valid_from.simps [simp del]

definition utf8_is_valid :: "string \<Rightarrow> bool" where
  "utf8_is_valid input = utf8_valid_from input 0"

section \<open>Bytes and words\<close>

lemma of_char_lt_big: "of_char c < (4294967296::nat)"
  using nat_of_char_less_256 [of c] by linarith

lemma u32_char_byte [simp]: "u32_char (byte_u32 c) = c"
  by (simp add: u32_char_def byte_u32_def unat_of_nat of_char_lt_big)

lemma byte_u32_char: "x < 256 \<Longrightarrow> byte_u32 (u32_char x) = x"
  by (simp add: u32_char_def byte_u32_def word_less_nat_alt)

lemma byte_and_ff: "byte_u32 c AND 0xFF = byte_u32 c"
proof -
  have "byte_u32 c AND mask 8 = take_bit 8 (byte_u32 c)" by (simp only: take_bit_eq_mask)
  also have "\<dots> = byte_u32 c"
    by (simp add: byte_u32_def take_bit_nat_eq_self flip: of_nat_take_bit)
  finally show ?thesis by (simp add: mask_numeral)
qed

text \<open>A byte is the disjoint union of its prefix bits and its payload bits.\<close>

lemma byte_join:
  "m OR n = (0xFF::u32) \<Longrightarrow> byte_u32 c AND m = p \<Longrightarrow> p OR (byte_u32 c AND n) = byte_u32 c"
  by (metis byte_and_ff bit.conj_disj_distrib)

lemma byte_join_simps:
  "byte_u32 c AND 0xC0 = 0x80 \<Longrightarrow> 0x80 OR (byte_u32 c AND 0x3F) = byte_u32 c"
  "byte_u32 c AND 0xE0 = 0xC0 \<Longrightarrow> 0xC0 OR (byte_u32 c AND 0x1F) = byte_u32 c"
  "byte_u32 c AND 0xF0 = 0xE0 \<Longrightarrow> 0xE0 OR (byte_u32 c AND 0x0F) = byte_u32 c"
  "byte_u32 c AND 0xF8 = 0xF0 \<Longrightarrow> 0xF0 OR (byte_u32 c AND 0x07) = byte_u32 c"
proof -
  have "(0xC0::u32) OR 0x3F = 0xFF" "(0xE0::u32) OR 0x1F = 0xFF"
    "(0xF0::u32) OR 0x0F = 0xFF" "(0xF8::u32) OR 0x07 = 0xFF"
    by simp_all
  then show
    "byte_u32 c AND 0xC0 = 0x80 \<Longrightarrow> 0x80 OR (byte_u32 c AND 0x3F) = byte_u32 c"
    "byte_u32 c AND 0xE0 = 0xC0 \<Longrightarrow> 0xC0 OR (byte_u32 c AND 0x1F) = byte_u32 c"
    "byte_u32 c AND 0xF0 = 0xE0 \<Longrightarrow> 0xE0 OR (byte_u32 c AND 0x0F) = byte_u32 c"
    "byte_u32 c AND 0xF8 = 0xF0 \<Longrightarrow> 0xF0 OR (byte_u32 c AND 0x07) = byte_u32 c"
    by (blast intro: byte_join)+
qed

lemma pack_prefix:
  "y AND n = y \<Longrightarrow> n AND m = 0 \<Longrightarrow> p AND m = p \<Longrightarrow> (p OR y) AND m = (p::u32)"
proof -
  assume y: "y AND n = y" and nm: "n AND m = 0" and p: "p AND m = p"
  have "y AND m = (y AND n) AND m" by (simp only: y)
  also have "\<dots> = 0" by (simp only: and.assoc nm bit.conj_zero_right)
  finally show ?thesis using p by (simp add: bit.conj_disj_distrib2)
qed

lemma pack_payload:
  "y AND n = y \<Longrightarrow> p AND n = 0 \<Longrightarrow> (p OR y) AND n = (y::u32)"
  by (simp add: bit.conj_disj_distrib2)

lemma lt_pow_mask: "x < 2 ^ n \<Longrightarrow> x AND mask n = (x::u32)"
  by (metis less_mask_eq)

lemma drop_bit_mask: "x < 2 ^ (m + k) \<Longrightarrow> drop_bit m x AND mask k = drop_bit m (x::u32)"
  by (metis add.commute less_mask_eq take_bit_drop_bit take_bit_eq_mask)

lemma and_mask_lt: "k < 32 \<Longrightarrow> x AND mask k = x \<Longrightarrow> (x::u32) < 2 ^ k"
  using and_mask_less_size [of k x] by (simp add: word_size)

lemma mask_simps:
  "mask 3 = (0x07::u32)" "mask 4 = (0x0F::u32)" "mask 5 = (0x1F::u32)" "mask 6 = (0x3F::u32)"
  by (simp_all add: mask_numeral)

section \<open>Encoding\<close>

text \<open>Prefix and payload of the bytes the encoder writes.\<close>

lemma or_less_256: "p < 256 \<Longrightarrow> y < 256 \<Longrightarrow> p OR y < (256::u32)"
  using lt_pow_mask [of p 8] lt_pow_mask [of y 8] and_mask_lt [of 8 "p OR y"]
  by (simp add: bit.conj_disj_distrib2)

lemma continuation_byte:
  assumes "y AND 0x3F = y"
  shows "byte_u32 (u32_char (0x80 OR y)) AND 0xC0 = 0x80"
    and "byte_u32 (u32_char (0x80 OR y)) AND 0x3F = y"
proof -
  have "y < 2 ^ 6" by (rule and_mask_lt) (simp_all add: mask_simps assms)
  then have "y < 256" by (simp add: word_less_nat_alt)
  then have eq: "byte_u32 (u32_char (0x80 OR y)) = 0x80 OR y"
    by (simp add: byte_u32_char or_less_256)
  show "byte_u32 (u32_char (0x80 OR y)) AND 0xC0 = 0x80"
    unfolding eq by (rule pack_prefix [OF assms]) simp_all
  show "byte_u32 (u32_char (0x80 OR y)) AND 0x3F = y"
    unfolding eq by (rule pack_payload [OF assms]) simp_all
qed

lemma lead_byte:
  assumes "y AND n = y" "y < 256" "p < 256" "n AND m = 0" "p AND m = p" "p AND n = 0"
  shows "byte_u32 (u32_char (p OR y)) AND m = p" and "byte_u32 (u32_char (p OR y)) AND n = y"
  using assms by (simp_all add: byte_u32_char or_less_256 pack_prefix [of y n] pack_payload)

text \<open>One continuation byte restores the next six bits of the code point.\<close>

definition join6 :: "u32 \<Rightarrow> u32 \<Rightarrow> u32" where
  "join6 p y = push_bit 6 p OR (y AND 0x3F)"

lemma continuations_join6:
  "utf8_continuations p (b # bs) =
     (if byte_u32 b AND 0xC0 \<noteq> 0x80 then None else utf8_continuations (join6 p (byte_u32 b)) bs)"
  by (simp add: join6_def)

declare utf8_continuations.simps(2) [simp del]

lemma join6_cong: "y AND 0x3F = z AND 0x3F \<Longrightarrow> join6 p y = join6 p z"
  by (simp add: join6_def)

lemma continuation_step: "join6 (drop_bit (n + 6) v) (drop_bit n v) = drop_bit n v"
  unfolding join6_def mask_simps [symmetric] take_bit_eq_mask [symmetric]
  by (rule bit_word_eqI) (auto simp: bit_simps)

lemma join6_mask [simp]: "join6 p (z AND 0x3F) = join6 p z"
  by (simp add: join6_def and.assoc)

lemma continuation_join6 [simp]:
  "join6 p (byte_u32 (u32_char (0x80 OR (z AND 0x3F)))) = join6 p z"
  by (rule join6_cong) (simp add: continuation_byte and.assoc)

lemma continuation_prefix [simp]:
  "byte_u32 (u32_char (0x80 OR (z AND 0x3F))) AND 0xC0 = 0x80"
  by (simp add: continuation_byte and.assoc)

lemma continuation_steps:
  "join6 (drop_bit 6 v) v = v"
  "join6 (drop_bit 12 v) (drop_bit 6 v) = drop_bit 6 v"
  "join6 (drop_bit 18 v) (drop_bit 12 v) = drop_bit 12 v"
  using continuation_step [of 0 v] continuation_step [of 6 v] continuation_step [of 12 v]
  by simp_all

lemma and_ge: "x AND m = p \<Longrightarrow> 0x80 \<le> p \<Longrightarrow> \<not> x < (0x80::u32)"
  by (metis leD order_trans word_and_le2)

lemma drop_bits_fit:
  "v < 0x800 \<Longrightarrow> drop_bit 6 v AND 0x1F = drop_bit 6 (v::u32)"
  "v < 0x10000 \<Longrightarrow> drop_bit 12 v AND 0x0F = drop_bit 12 (v::u32)"
  "v < 0x200000 \<Longrightarrow> drop_bit 18 v AND 0x07 = drop_bit 18 (v::u32)"
  using drop_bit_mask [of v 6 5] drop_bit_mask [of v 12 4] drop_bit_mask [of v 18 3]
  by (simp_all add: mask_simps)

lemma mask_less_256:
  "y AND 0x1F = y \<Longrightarrow> y < (256::u32)" "y AND 0x0F = y \<Longrightarrow> y < (256::u32)"
  "y AND 0x07 = y \<Longrightarrow> y < (256::u32)"
  using and_mask_lt [of 5 y] and_mask_lt [of 4 y] and_mask_lt [of 3 y]
  by (simp_all add: mask_simps word_less_nat_alt)

lemma utf8_shape_lead:
  "y AND 0x1F = y \<Longrightarrow> utf8_shape (byte_u32 (u32_char (0xC0 OR y))) = Some (2, y, 0x80)"
  "y AND 0x0F = y \<Longrightarrow> utf8_shape (byte_u32 (u32_char (0xE0 OR y))) = Some (3, y, 0x800)"
  "y AND 0x07 = y \<Longrightarrow> utf8_shape (byte_u32 (u32_char (0xF0 OR y))) = Some (4, y, 0x10000)"
proof -
  have drop: "x AND m = p \<Longrightarrow> m AND l = l \<Longrightarrow> x AND l = p AND l" for x m p l :: u32
    by (metis and.assoc)
  {
    assume y: "y AND 0x1F = y"
    show "utf8_shape (byte_u32 (u32_char (0xC0 OR y))) = Some (2, y, 0x80)"
      using lead_byte [OF y mask_less_256(1) [OF y], of "0xC0" "0xE0"]
      by (simp add: utf8_shape_def)
  }
  {
    assume y: "y AND 0x0F = y"
    let ?b = "byte_u32 (u32_char (0xE0 OR y))"
    have b: "?b AND 0xF0 = 0xE0" "?b AND 0x0F = y"
      using lead_byte [OF y mask_less_256(2) [OF y], of "0xE0" "0xF0"] by simp_all
    have "?b AND 0xE0 = 0xE0" using drop [OF b(1), of "0xE0"] by simp
    with b show "utf8_shape ?b = Some (3, y, 0x800)" by (simp add: utf8_shape_def)
  }
  {
    assume y: "y AND 0x07 = y"
    let ?b = "byte_u32 (u32_char (0xF0 OR y))"
    have b: "?b AND 0xF8 = 0xF0" "?b AND 0x07 = y"
      using lead_byte [OF y mask_less_256(3) [OF y], of "0xF0" "0xF8"] by simp_all
    have "?b AND 0xE0 = 0xE0" "?b AND 0xF0 = 0xF0"
      using drop [OF b(1), of "0xE0"] drop [OF b(1), of "0xF0"] by simp_all
    with b show "utf8_shape ?b = Some (4, y, 0x10000)" by (simp add: utf8_shape_def)
  }
qed

lemma lead_not_ascii:
  "y AND 0x1F = y \<Longrightarrow> \<not> byte_u32 (u32_char (0xC0 OR y)) < 0x80"
  "y AND 0x0F = y \<Longrightarrow> \<not> byte_u32 (u32_char (0xE0 OR y)) < 0x80"
  "y AND 0x07 = y \<Longrightarrow> \<not> byte_u32 (u32_char (0xF0 OR y)) < 0x80"
  using lead_byte [of y "0x1F" "0xC0" "0xE0"] lead_byte [of y "0x0F" "0xE0" "0xF0"]
    lead_byte [of y "0x07" "0xF0" "0xF8"] mask_less_256 [of y]
  by (auto dest!: and_ge)

lemmas encode_simps =
  utf8_shape_lead lead_not_ascii drop_bits_fit continuations_join6 continuation_steps

text \<open>Decoding inverts encoding, whatever bytes follow.\<close>

lemma decode_encode:
  assumes "is_scalar_value v"
  shows "decode_one (utf8_encode v @ rest) =
           Some \<lparr>scalar_value = v, byte_count = length (utf8_encode v)\<rparr>"
proof -
  consider "v < 0x80" | "0x80 \<le> v" "v < 0x800" | "0x800 \<le> v" "v < 0x10000" | "0x10000 \<le> v"
    by (meson leI)
  then show ?thesis
  proof cases
    case 1
    then have "v < 256" by (simp add: word_less_nat_alt)
    with 1 assms show ?thesis
      by (simp add: utf8_encode_def append_code_point_def decode_one_def byte_u32_char)
  next
    case 2
    then have "\<not> v < 0x80" by (simp add: word_less_nat_alt word_le_nat_alt)
    with 2 assms show ?thesis
      by (simp add: utf8_encode_def append_code_point_def decode_one_def encode_simps)
  next
    case 3
    then have "\<not> v < 0x80" "\<not> v < 0x800" by (simp_all add: word_less_nat_alt word_le_nat_alt)
    with 3 assms show ?thesis
      by (simp add: utf8_encode_def append_code_point_def decode_one_def encode_simps)
  next
    case 4
    then have "\<not> v < 0x80" "\<not> v < 0x800" "\<not> v < 0x10000"
      by (simp_all add: word_less_nat_alt word_le_nat_alt)
    moreover have "v < 0x200000"
      using assms by (simp add: is_scalar_value_def word_less_nat_alt word_le_nat_alt)
    ultimately show ?thesis
      using assms
      by (simp add: utf8_encode_def append_code_point_def decode_one_def encode_simps
          numeral_3_eq_3)
  qed
qed

section \<open>Decoding accepts only canonical encodings\<close>

lemma mask_bit: "p AND mask k = p \<Longrightarrow> k \<le> n \<Longrightarrow> \<not> bit (p::u32) n"
  by (metis bit_and_iff bit_mask_iff not_le)

lemma join6_low: "join6 p y AND 0x3F = y AND 0x3F"
  unfolding join6_def mask_simps [symmetric] take_bit_eq_mask [symmetric]
  by (rule bit_word_eqI) (auto simp: bit_simps)

lemma join6_high:
  assumes "p AND mask k = p" "k \<le> 26"
  shows "drop_bit 6 (join6 p y) = p"
proof (rule bit_word_eqI)
  fix n
  show "bit (drop_bit 6 (join6 p y)) n = bit p n"
    using mask_bit [OF assms(1), of n] assms(2)
    unfolding join6_def mask_simps [symmetric] take_bit_eq_mask [symmetric]
    by (cases "n < 26") (auto simp: bit_simps)
qed

lemma join6_fits:
  assumes "p AND mask k = p"
  shows "join6 p y AND mask (k + 6) = join6 p y"
proof (rule bit_word_eqI)
  fix n
  show "bit (join6 p y AND mask (k + 6)) n = bit (join6 p y) n"
    using mask_bit [OF assms, of "n - 6"]
    unfolding join6_def mask_simps [symmetric] take_bit_eq_mask [symmetric]
    by (cases "k \<le> n - 6") (auto simp: bit_simps)
qed

lemma payload_masked: "(b AND mask k) AND mask k = (b AND mask k :: u32)"
  by (simp add: and.assoc)

lemma join6_drops:
  assumes "p AND mask k = p" "k \<le> 5"
  shows "drop_bit 6 (join6 p y) = p"
    and "drop_bit 12 (join6 (join6 p y) z) = p"
    and "drop_bit 18 (join6 (join6 (join6 p y) z) w) = p"
    and "drop_bit 6 (join6 (join6 p y) z) = join6 p y"
    and "drop_bit 12 (join6 (join6 (join6 p y) z) w) = join6 p y"
    and "drop_bit 6 (join6 (join6 (join6 p y) z) w) = join6 (join6 p y) z"
proof -
  note f1 = join6_fits [OF assms(1), of y]
  note f2 = join6_fits [OF f1, of z]
  show d1: "drop_bit 6 (join6 p y) = p"
    by (rule join6_high [OF assms(1)]) (use assms in simp)
  show d2: "drop_bit 6 (join6 (join6 p y) z) = join6 p y"
    by (rule join6_high [OF f1]) (use assms in simp)
  show d3: "drop_bit 6 (join6 (join6 (join6 p y) z) w) = join6 (join6 p y) z"
    by (rule join6_high [OF f2]) (use assms in simp)
  have twelve: "drop_bit 12 x = drop_bit 6 (drop_bit 6 x)" for x :: u32
    by (simp add: drop_bit_drop_bit)
  have eighteen: "drop_bit 18 x = drop_bit 6 (drop_bit 6 (drop_bit 6 x))" for x :: u32
    by (simp add: drop_bit_drop_bit)
  show "drop_bit 12 (join6 (join6 p y) z) = p"
    and "drop_bit 18 (join6 (join6 (join6 p y) z) w) = p"
    and "drop_bit 12 (join6 (join6 (join6 p y) z) w) = join6 p y"
    by (simp_all only: twelve eighteen d1 d2 d3)
qed

lemma fits_less: "k + 6 < 32 \<Longrightarrow> p AND mask k = p \<Longrightarrow> join6 p y < 2 ^ (k + 6)"
  by (rule and_mask_lt [OF _ join6_fits])

text \<open>The three multi-byte shapes, each rebuilt by the encoder from what the decoder returned.\<close>

lemma encode_two:
  assumes "byte_u32 c AND 0xE0 = 0xC0" "byte_u32 c1 AND 0xC0 = 0x80"
    and v: "v = join6 (byte_u32 c AND 0x1F) (byte_u32 c1)" "\<not> v < 0x80" "is_scalar_value v"
  shows "utf8_encode v = [c, c1]"
proof -
  have p: "(byte_u32 c AND 0x1F) AND mask 5 = byte_u32 c AND 0x1F"
    using payload_masked [of _ 5] by (simp add: mask_simps)
  have "v < 0x800" using fits_less [OF _ p] v(1) by simp
  moreover have "drop_bit 6 v = byte_u32 c AND 0x1F" "v AND 0x3F = byte_u32 c1 AND 0x3F"
    by (simp_all add: v(1) join6_drops(1) [OF p] join6_low)
  ultimately show ?thesis
    using v(2,3) assms(1,2)
    by (simp add: utf8_encode_def append_code_point_def byte_join_simps)
qed

lemma encode_three:
  assumes "byte_u32 c AND 0xF0 = 0xE0"
    and "byte_u32 c1 AND 0xC0 = 0x80" "byte_u32 c2 AND 0xC0 = 0x80"
    and v: "v = join6 (join6 (byte_u32 c AND 0x0F) (byte_u32 c1)) (byte_u32 c2)"
      "\<not> v < 0x800" "is_scalar_value v"
  shows "utf8_encode v = [c, c1, c2]"
proof -
  have p: "(byte_u32 c AND 0x0F) AND mask 4 = byte_u32 c AND 0x0F"
    using payload_masked [of _ 4] by (simp add: mask_simps)
  note q = join6_fits [OF p, of "byte_u32 c1"]
  have "v < 0x10000" using fits_less [OF _ q] v(1) by simp
  moreover have "\<not> v < 0x80" using v(2) by (simp add: word_less_nat_alt)
  moreover have "drop_bit 12 v = byte_u32 c AND 0x0F"
    "drop_bit 6 v AND 0x3F = byte_u32 c1 AND 0x3F" "v AND 0x3F = byte_u32 c2 AND 0x3F"
    by (simp_all add: v(1) join6_drops [OF p] join6_low)
  ultimately show ?thesis
    using v(2,3) assms(1-3)
    by (simp add: utf8_encode_def append_code_point_def byte_join_simps)
qed

lemma encode_four:
  assumes "byte_u32 c AND 0xF8 = 0xF0"
    and "byte_u32 c1 AND 0xC0 = 0x80" "byte_u32 c2 AND 0xC0 = 0x80" "byte_u32 c3 AND 0xC0 = 0x80"
    and v: "v = join6 (join6 (join6 (byte_u32 c AND 0x07) (byte_u32 c1)) (byte_u32 c2))
                  (byte_u32 c3)"
      "\<not> v < 0x10000" "is_scalar_value v"
  shows "utf8_encode v = [c, c1, c2, c3]"
proof -
  have p: "(byte_u32 c AND 0x07) AND mask 3 = byte_u32 c AND 0x07"
    using payload_masked [of _ 3] by (simp add: mask_simps)
  have "\<not> v < 0x80" "\<not> v < 0x800" using v(2) by (simp_all add: word_less_nat_alt)
  moreover have "drop_bit 18 v = byte_u32 c AND 0x07"
    "drop_bit 12 v AND 0x3F = byte_u32 c1 AND 0x3F"
    "drop_bit 6 v AND 0x3F = byte_u32 c2 AND 0x3F" "v AND 0x3F = byte_u32 c3 AND 0x3F"
    by (simp_all add: v(1) join6_drops [OF p] join6_low)
  ultimately show ?thesis
    using v(2,3) assms(1-4)
    by (simp add: utf8_encode_def append_code_point_def byte_join_simps)
qed

lemma ascii_encode: "byte_u32 c < 0x80 \<Longrightarrow> is_scalar_value (byte_u32 c) \<and> utf8_encode (byte_u32 c) = [c]"
proof -
  assume a: "byte_u32 c < 0x80"
  then have "is_scalar_value (byte_u32 c)"
    by (simp add: is_scalar_value_def word_less_nat_alt word_le_nat_alt)
  with a show ?thesis by (simp add: utf8_encode_def append_code_point_def)
qed

lemma take_continuations:
  "length s \<ge> n \<Longrightarrow> n \<ge> 1 \<Longrightarrow> s = c # r \<Longrightarrow> take n s = c # take (n - 1) (drop 1 s)"
  by (cases n) auto

lemma utf8_encode_continuations:
  assumes "utf8_shape (byte_u32 c) = Some (len, payload, minimum)" "length cs = len - 1"
    and "utf8_continuations payload cs = Some v" "\<not> v < minimum" "is_scalar_value v"
  shows "utf8_encode v = c # cs"
proof -
  have shapes: "(len = 2 \<and> byte_u32 c AND 0xE0 = 0xC0 \<and> payload = byte_u32 c AND 0x1F \<and> minimum = 0x80) \<or>
     (len = 3 \<and> byte_u32 c AND 0xF0 = 0xE0 \<and> payload = byte_u32 c AND 0x0F \<and> minimum = 0x800) \<or>
     (len = 4 \<and> byte_u32 c AND 0xF8 = 0xF0 \<and> payload = byte_u32 c AND 0x07 \<and> minimum = 0x10000)"
    using assms(1) by (auto simp: utf8_shape_def split: if_splits)
  then show ?thesis
  proof (elim disjE conjE)
    assume two: "len = 2" "byte_u32 c AND 0xE0 = 0xC0" "payload = byte_u32 c AND 0x1F"
      "minimum = 0x80"
    then obtain c1 where "cs = [c1]" using assms(2) by (cases cs) auto
    with two assms show ?thesis
      by (auto simp: continuations_join6 intro!: encode_two split: if_splits)
  next
    assume three: "len = 3" "byte_u32 c AND 0xF0 = 0xE0" "payload = byte_u32 c AND 0x0F"
      "minimum = 0x800"
    then obtain c1 c2 where "cs = [c1, c2]"
      using assms(2) by (auto simp: length_Suc_conv numeral_2_eq_2)
    with three assms show ?thesis
      by (auto simp: continuations_join6 intro!: encode_three split: if_splits)
  next
    assume four: "len = 4" "byte_u32 c AND 0xF8 = 0xF0" "payload = byte_u32 c AND 0x07"
      "minimum = 0x10000"
    then obtain c1 c2 c3 where "cs = [c1, c2, c3]"
      using assms(2) by (auto simp: length_Suc_conv numeral_3_eq_3)
    with four assms show ?thesis
      by (auto simp: continuations_join6 intro!: encode_four split: if_splits)
  qed
qed

text \<open>Whatever the decoder accepts is the canonical encoding of the scalar it returns.\<close>

lemma encode_decode:
  assumes "decode_one s = Some d"
  shows "is_scalar_value (scalar_value d) \<and> take (byte_count d) s = utf8_encode (scalar_value d)"
proof -
  from assms obtain c r where s: "s = c # r" by (auto simp: decode_one_def split: list.splits)
  show ?thesis
  proof (cases "byte_u32 c < 0x80")
    case True
    with assms s show ?thesis by (auto simp: decode_one_def ascii_encode)
  next
    case False
    with assms s obtain len payload minimum v where
      shape: "utf8_shape (byte_u32 c) = Some (len, payload, minimum)" and len: "len \<le> length s"
      and cont: "utf8_continuations payload (take (len - 1) (drop 1 s)) = Some v"
      and ok: "\<not> v < minimum" "is_scalar_value v"
      and d: "d = \<lparr>scalar_value = v, byte_count = len\<rparr>"
      by (auto simp: decode_one_def Let_def split: option.splits if_splits prod.splits)
    from shape have "1 \<le> len" by (auto simp: utf8_shape_def split: if_splits)
    with len s have "take len s = c # take (len - 1) (drop 1 s)" by (rule_tac take_continuations) auto
    moreover have "utf8_encode v = c # take (len - 1) (drop 1 s)"
      by (rule utf8_encode_continuations [OF shape _ cont ok]) (use len s in simp)
    ultimately show ?thesis using d ok by simp
  qed
qed

lemma decode_one_append: "decode_one s = Some d \<Longrightarrow> decode_one (s @ t) = Some d"
proof -
  assume d: "decode_one s = Some d"
  let ?v = "scalar_value d"
  have s: "is_scalar_value ?v" "take (byte_count d) s = utf8_encode ?v"
    using encode_decode [OF d] by auto
  then have "s = utf8_encode ?v @ drop (byte_count d) s" by (metis append_take_drop_id)
  then show ?thesis
    using decode_encode [OF s(1)] d by (metis append_assoc)
qed

lemma utf8_encode_nonempty: "is_scalar_value v \<Longrightarrow> utf8_encode v \<noteq> []"
  by (auto simp: utf8_encode_def append_code_point_def)

lemma utf8_valid_from_concat:
  "list_all is_scalar_value vs \<Longrightarrow> drop i s = concat (map utf8_encode vs) \<Longrightarrow> utf8_valid_from s i"
proof (induction vs arbitrary: i)
  case Nil
  then show ?case by (simp add: utf8_valid_from.simps)
next
  case (Cons v vs)
  let ?rest = "concat (map utf8_encode vs)"
  from Cons.prems have d: "decode_one (drop i s) =
      Some \<lparr>scalar_value = v, byte_count = length (utf8_encode v)\<rparr>"
    by (simp add: decode_encode)
  have "drop (i + length (utf8_encode v)) s = ?rest"
    by (metis Cons.prems(2) add.commute append_eq_conv_conj concat.simps(2) drop_drop
        list.simps(9))
  with Cons have "utf8_valid_from s (i + length (utf8_encode v))" by simp
  with d show ?case by (simp add: utf8_valid_from.simps [of s i])
qed

lemma utf8_valid_from_scalars:
  "utf8_valid_from s i \<Longrightarrow> \<exists>vs. list_all is_scalar_value vs \<and> drop i s = concat (map utf8_encode vs)"
proof (induction s i rule: utf8_valid_from.induct)
  case (1 s i)
  show ?case
  proof (cases "i < length s")
    case False
    then show ?thesis by (intro exI [of _ "[]"]) simp
  next
    case True
    with "1.prems" obtain d where d: "decode_one (drop i s) = Some d"
      and v: "utf8_valid_from s (i + byte_count d)"
      by (subst (asm) utf8_valid_from.simps) (auto split: option.splits)
    from "1.IH" [OF True d v] obtain vs where
      vs: "list_all is_scalar_value vs" "drop (i + byte_count d) s = concat (map utf8_encode vs)"
      by blast
    have "drop i s = utf8_encode (scalar_value d) @ drop (i + byte_count d) s"
      using encode_decode [OF d] by (metis add.commute append_take_drop_id drop_drop)
    with vs encode_decode [OF d] show ?thesis
      by (intro exI [of _ "scalar_value d # vs"]) simp
  qed
qed

lemma utf8_valid_scalars:
  "utf8_is_valid s \<longleftrightarrow> (\<exists>vs. list_all is_scalar_value vs \<and> s = concat (map utf8_encode vs))"
  unfolding utf8_is_valid_def
  using utf8_valid_from_concat [of _ 0 s] utf8_valid_from_scalars [of s 0] by auto

text \<open>Valid text can be cut at an ASCII byte, and joined again.\<close>

lemma ascii_in_encode:
  assumes "is_scalar_value v" "c \<in> set (utf8_encode v)" "byte_u32 c < 0x80"
  shows "utf8_encode v = [c]"
proof -
  have "v < 0x200000" using assms(1) by (auto simp: is_scalar_value_def word_less_nat_alt word_le_nat_alt)
  moreover have "\<not> byte_u32 (u32_char (0x80 OR (z AND 0x3F))) < 0x80" for z
    by (rule and_ge [OF continuation_prefix]) simp
  ultimately show ?thesis
    using assms by (auto simp: utf8_encode_def append_code_point_def lead_not_ascii drop_bits_fit
        split: if_splits)
qed

lemma utf8_valid_append: "utf8_is_valid a \<Longrightarrow> utf8_is_valid b \<Longrightarrow> utf8_is_valid (a @ b)"
  unfolding utf8_valid_scalars by (metis concat_append list_all_append map_append)

lemma utf8_valid_Nil [simp]: "utf8_is_valid []"
  unfolding utf8_valid_scalars by (rule exI [of _ "[]"]) simp

lemma utf8_encode_valid: "is_scalar_value v \<Longrightarrow> utf8_is_valid (utf8_encode v)"
  unfolding utf8_valid_scalars by (rule exI [of _ "[v]"]) simp

lemma scalars_cut:
  assumes "list_all is_scalar_value vs" "concat (map utf8_encode vs) = a @ c # b" "byte_u32 c < 0x80"
  shows "utf8_is_valid a \<and> utf8_is_valid b"
  using assms(1,2)
proof (induction vs arbitrary: a)
  case (Cons v vs)
  from Cons.prems(2) consider us where "a = utf8_encode v @ us" "concat (map utf8_encode vs) = us @ c # b"
    | us where "utf8_encode v = a @ us" "c # b = us @ concat (map utf8_encode vs)"
    by (auto simp: append_eq_append_conv2)
  then show ?case
  proof cases
    case (1 us)
    with Cons show ?thesis by (auto intro: utf8_valid_append utf8_encode_valid)
  next
    case (2 us)
    show ?thesis
    proof (cases us)
      case Nil
      with Cons 2 show ?thesis
        using Cons.IH [of "[]"] utf8_encode_valid [of v] by auto
    next
      case (Cons d ds)
      with 2 have "c \<in> set (utf8_encode v)" by auto
      with Cons.prems assms(3) have "utf8_encode v = [c]" by (auto intro: ascii_in_encode)
      with 2 Cons have "a = []" "b = concat (map utf8_encode vs)" by (cases a; auto)+
      moreover have "utf8_is_valid (concat (map utf8_encode vs))"
        using Cons.prems(1) unfolding utf8_valid_scalars by (intro exI [of _ vs]) simp
      ultimately show ?thesis by simp
    qed
  qed
qed simp

lemma utf8_valid_cut:
  "utf8_is_valid (a @ c # b) \<Longrightarrow> byte_u32 c < 0x80 \<Longrightarrow> utf8_is_valid a \<and> utf8_is_valid b"
  using scalars_cut by (metis utf8_valid_scalars)

text \<open>
  The validator accepts exactly the concatenations of canonical encodings of Unicode scalar
  values: complete sequences, shortest form, no surrogate, nothing above U+10FFFF.
\<close>

lemma utf8_is_valid_iff:
  "utf8_is_valid s \<longleftrightarrow> (\<exists>vs. list_all is_scalar_value vs \<and> s = concat (map utf8_encode vs))"
  by (rule utf8_valid_scalars)

end
