(* ===== verification/Ascii.thy ===== *)
theory Ascii
  imports Prelude
begin

text \<open>
  Locale-independent ASCII primitives: \<^verbatim>\<open>include/sparenode/http/detail/ascii.hpp\<close>,
  \<^verbatim>\<open>include/sparenode/http/detail/number.hpp\<close> and
  \<^verbatim>\<open>include/sparenode/foundation/text/hexadecimal.hpp\<close>. Every byte classifier is a Boolean
  function of one byte, registered in \<open>byte_class\<close>; the loops over a \<^verbatim>\<open>string_view\<close> are
  recursions over the bytes. The lemmas characterise each loop by what it computes.
\<close>

section \<open>Definitions\<close>

definition ascii_lower :: "char \<Rightarrow> char" where
  "ascii_lower byte =
     (if CHR ''A'' \<le> byte \<and> byte \<le> CHR ''Z'' then char_of (of_char byte + 32 :: nat) else byte)"

fun ascii_equal_loop :: "string \<Rightarrow> string \<Rightarrow> bool" where
  "ascii_equal_loop (l # left) (r # right) =
     (if ascii_lower l \<noteq> ascii_lower r then False else ascii_equal_loop left right)"
| "ascii_equal_loop _ _ = True"

definition ascii_case_insensitive_equal :: "string \<Rightarrow> string \<Rightarrow> bool" where
  "ascii_case_insensitive_equal left right =
     (if length left \<noteq> length right then False else ascii_equal_loop left right)"

definition is_ascii_digit :: "char \<Rightarrow> bool" where [byte_class]:
  "is_ascii_digit byte \<longleftrightarrow> CHR ''0'' \<le> byte \<and> byte \<le> CHR ''9''"

definition is_ascii_hexadecimal_digit :: "char \<Rightarrow> bool" where [byte_class]:
  "is_ascii_hexadecimal_digit byte \<longleftrightarrow>
     is_ascii_digit byte \<or> (CHR ''A'' \<le> byte \<and> byte \<le> CHR ''F'') \<or>
     (CHR ''a'' \<le> byte \<and> byte \<le> CHR ''f'')"

definition is_http_token_character :: "char \<Rightarrow> bool" where [byte_class]:
  "is_http_token_character byte \<longleftrightarrow>
     is_ascii_digit byte \<or> (CHR ''A'' \<le> byte \<and> byte \<le> CHR ''Z'') \<or>
     (CHR ''a'' \<le> byte \<and> byte \<le> CHR ''z'') \<or>
     byte \<in> set (''!#$%&'' @ [CHR 0x27] @ ''*+-.^_'' @ [CHR 0x60] @ ''|~'')"

definition is_http_field_value_byte :: "char \<Rightarrow> bool" where [byte_class]:
  "is_http_field_value_byte byte \<longleftrightarrow> byte = HTAB \<or> (CHR 0x20 \<le> byte \<and> byte \<noteq> CHR 0x7F)"

definition is_ows :: "char \<Rightarrow> bool" where
  "is_ows c \<longleftrightarrow> c = CHR '' '' \<or> c = HTAB"

fun trim_front :: "string \<Rightarrow> string" where
  "trim_front [] = []"
| "trim_front (c # cs) = (if is_ows c then trim_front cs else c # cs)"

fun trim_back :: "string \<Rightarrow> string" where
  "trim_back v = (if v \<noteq> [] \<and> is_ows (last v) then trim_back (butlast v) else v)"

declare trim_back.simps [simp del]

definition trim_optional_whitespace :: "string \<Rightarrow> string" where
  "trim_optional_whitespace v = trim_back (trim_front v)"

fun digit_count_loop :: "nat \<Rightarrow> nat \<Rightarrow> nat" where
  "digit_count_loop v count = (if 10 \<le> v then digit_count_loop (v div 10) (Suc count) else count)"

declare digit_count_loop.simps [simp del]

definition decimal_digit_count :: "nat \<Rightarrow> nat" where
  "decimal_digit_count v = digit_count_loop v 1"

definition hex_digit_value :: "char \<Rightarrow> nat option" where
  "hex_digit_value c =
     (if CHR ''0'' \<le> c \<and> c \<le> CHR ''9'' then Some (of_char c - 48)
      else if CHR ''A'' \<le> c \<and> c \<le> CHR ''F'' then Some (of_char c - 65 + 10)
      else if CHR ''a'' \<le> c \<and> c \<le> CHR ''f'' then Some (of_char c - 97 + 10)
      else None)"

section \<open>Case folding\<close>

lemma ascii_equal_loop_map:
  "length l = length r \<Longrightarrow> ascii_equal_loop l r \<longleftrightarrow> map ascii_lower l = map ascii_lower r"
  by (induction l r rule: list_induct2) auto

lemma ascii_case_insensitive_equal_iff:
  "ascii_case_insensitive_equal l r \<longleftrightarrow> map ascii_lower l = map ascii_lower r"
  by (auto simp: ascii_case_insensitive_equal_def ascii_equal_loop_map dest: map_eq_imp_length_eq)

lemma ascii_lower_idem [simp]: "ascii_lower (ascii_lower c) = ascii_lower c"
  by (auto simp: ascii_lower_def less_eq_char_def)

lemma ascii_ci_refl [simp]: "ascii_case_insensitive_equal s s"
  by (simp add: ascii_case_insensitive_equal_iff)

section \<open>Bytes outside the classes\<close>

lemma not_token_character [simp]:
  "\<not> is_http_token_character CR" "\<not> is_http_token_character LF"
  "\<not> is_http_token_character CHR '' ''" "\<not> is_http_token_character HTAB"
  "\<not> is_http_token_character CHR '':''"
  by (simp_all add: byte_class less_eq_char_def)

lemma not_field_value_byte [simp]:
  "\<not> is_http_field_value_byte CR" "\<not> is_http_field_value_byte LF"
  by (simp_all add: byte_class less_eq_char_def)

section \<open>Trimming\<close>

lemma trim_front_dropWhile: "trim_front s = dropWhile is_ows s"
  by (induction s) auto

lemma trim_back_rev: "trim_back s = rev (dropWhile is_ows (rev s))"
proof (induction s rule: rev_induct)
  case Nil
  then show ?case by (simp add: trim_back.simps)
next
  case (snoc x xs)
  then show ?case by (subst trim_back.simps) simp
qed

lemma trim_optional_whitespace_eq:
  "trim_optional_whitespace s = rev (dropWhile is_ows (rev (dropWhile is_ows s)))"
  by (simp add: trim_optional_whitespace_def trim_front_dropWhile trim_back_rev)

lemma rev_dropWhile_split: "s = rev (dropWhile p (rev s)) @ rev (takeWhile p (rev s))"
  by (metis rev_append rev_rev_ident takeWhile_dropWhile_id)

lemma trim_split:
  "\<exists>pre post. s = pre @ trim_optional_whitespace s @ post \<and>
              list_all is_ows pre \<and> list_all is_ows post"
proof -
  let ?d = "dropWhile is_ows s"
  have "s = takeWhile is_ows s @ ?d" by simp
  moreover have "?d = trim_optional_whitespace s @ rev (takeWhile is_ows (rev ?d))"
    unfolding trim_optional_whitespace_eq by (rule rev_dropWhile_split)
  ultimately have "s = takeWhile is_ows s @ trim_optional_whitespace s @
      rev (takeWhile is_ows (rev ?d))" by simp
  then show ?thesis
    by (intro exI conjI) (auto simp: list_all_iff dest: set_takeWhileD)
qed

lemma trim_last:
  "trim_optional_whitespace s \<noteq> [] \<Longrightarrow> \<not> is_ows (last (trim_optional_whitespace s))"
  by (metis trim_optional_whitespace_eq hd_dropWhile last_rev rev.simps(1))

lemma trim_hd:
  assumes ne: "trim_optional_whitespace s \<noteq> []"
  shows "\<not> is_ows (hd (trim_optional_whitespace s))"
proof -
  let ?d = "dropWhile is_ows s"
  have split: "?d = trim_optional_whitespace s @ rev (takeWhile is_ows (rev ?d))"
    unfolding trim_optional_whitespace_eq by (rule rev_dropWhile_split)
  then have "hd ?d = hd (trim_optional_whitespace s)" "?d \<noteq> []"
    using ne by (metis hd_append2, metis append_is_Nil_conv)
  then show ?thesis using hd_dropWhile [of is_ows s] by simp
qed

lemma set_trim: "set (trim_optional_whitespace s) \<subseteq> set s"
  using trim_split [of s] by (metis set_append Un_upper1 Un_upper2 subset_trans)

section \<open>Numbers\<close>

lemma digit_count_loop_eq: "digit_count_loop v c = c + length (print_base 10 v) - 1"
proof (induction v c rule: digit_count_loop.induct)
  case (1 v c)
  show ?case
  proof (cases "10 \<le> v")
    case True
    with 1 show ?thesis
      by (simp add: digit_count_loop.simps [of v] print_base.simps [of 10 v])
  next
    case False
    then show ?thesis
      by (simp add: digit_count_loop.simps [of v] print_base.simps [of 10 v])
  qed
qed

lemma decimal_digit_count_eq: "decimal_digit_count v = length (print_base 10 v)"
  by (simp add: decimal_digit_count_def digit_count_loop_eq)

lemma hex_digit_value_std: "hex_digit_value c = std_digit 16 c"
  by (auto simp: hex_digit_value_def std_digit_def less_eq_char_def Let_def)

lemma is_ascii_digit_std: "is_ascii_digit c \<longleftrightarrow> std_digit 10 c \<noteq> None"
  by (auto simp: std_digit_def less_eq_char_def Let_def is_ascii_digit_def)

lemma is_ascii_hexadecimal_digit_std: "is_ascii_hexadecimal_digit c \<longleftrightarrow> std_digit 16 c \<noteq> None"
  by (auto simp: std_digit_def less_eq_char_def Let_def byte_class)

lemma hex_digit_value_less: "hex_digit_value c = Some d \<Longrightarrow> d < 16"
  by (auto simp: hex_digit_value_std std_digit_def Let_def split: if_splits)

end
