(* ===== verification/Ip_Address.thy ===== *)
theory Ip_Address
  imports Ascii
begin

unbundle bit_operations_syntax

text \<open>
  Numeric IP addresses: \<^verbatim>\<open>src/foundation/text/numeric_ip_address.cpp\<close>. Octets are 8-bit words,
  IPv6 groups 16-bit words; the fixed arrays of the source are lists whose length is the number of
  entries written. The lemmas show that the IPv4 grammar has exactly one spelling per address, and
  that an IPv6 text with or without the compression marker denotes the expected sixteen bytes.
\<close>

section \<open>Definitions\<close>

type_synonym u8 = "8 word"

type_synonym u16 = "16 word"

record numeric_address =
  addr_bytes :: "u8 list"
  addr_ipv4 :: bool

fun octet_digits :: "nat \<Rightarrow> string \<Rightarrow> nat option" where
  "octet_digits number [] = Some number"
| "octet_digits number (digit # ds) =
     (if digit < CHR ''0'' \<or> digit > CHR ''9'' then None
      else octet_digits (number * 10 + (of_char digit - 48)) ds)"

definition parse_octet :: "string \<Rightarrow> u8 option" where
  "parse_octet component =
     (if component = [] \<or> length component > 3 \<or>
         (length component > 1 \<and> hd component = CHR ''0'') then None
      else (case octet_digits 0 component of
              None \<Rightarrow> None
            | Some number \<Rightarrow> if number > 255 then None else Some (of_nat number)))"

function parse_ipv4_from :: "string \<Rightarrow> nat \<Rightarrow> nat \<Rightarrow> u8 list \<Rightarrow> u8 list option" where
  "parse_ipv4_from s start index bytes =
     (if index < 4 then
        (let dot = sv_find CHR ''.'' s start;
             component_end = (case dot of None \<Rightarrow> length s | Some e \<Rightarrow> e);
             component = sv_substr s start (component_end - start)
         in case parse_octet component of
              None \<Rightarrow> None
            | Some number \<Rightarrow>
                (if index + 1 < 4 then
                   (case dot of
                      None \<Rightarrow> None
                    | Some e \<Rightarrow> parse_ipv4_from s (e + 1) (index + 1) (bytes @ [number]))
                 else (case dot of
                         Some _ \<Rightarrow> None
                       | None \<Rightarrow> parse_ipv4_from s start (index + 1) (bytes @ [number]))))
      else Some bytes)"
  by pat_completeness auto
termination
  by (relation "measure (\<lambda>(s, start, index, bytes). 4 - index)") auto

declare parse_ipv4_from.simps [simp del]

definition parse_ipv4 :: "string \<Rightarrow> u8 list option" where
  "parse_ipv4 s = parse_ipv4_from s 0 0 []"

fun ipv6_word_digits :: "u16 \<Rightarrow> string \<Rightarrow> u16 option" where
  "ipv6_word_digits w [] = Some w"
| "ipv6_word_digits w (digit # ds) =
     (case hex_digit_value digit of
        None \<Rightarrow> None
      | Some nibble \<Rightarrow> ipv6_word_digits (push_bit 4 w OR of_nat nibble) ds)"

definition parse_ipv6_word :: "string \<Rightarrow> u16 option" where
  "parse_ipv6_word s = (if s = [] \<or> length s > 4 then None else ipv6_word_digits 0 s)"

definition is_ipv4_mapped_address :: "numeric_address \<Rightarrow> bool" where
  "is_ipv4_mapped_address a \<longleftrightarrow>
     \<not> addr_ipv4 a \<and> list_all (\<lambda>b. b = 0) (take 10 (addr_bytes a)) \<and>
     addr_bytes a ! 10 = 0xFF \<and> addr_bytes a ! 11 = 0xFF"

definition octet_pair :: "u8 \<Rightarrow> u8 \<Rightarrow> u16" where
  "octet_pair hi lo = push_bit 8 (ucast hi) OR ucast lo"

function append_ipv6_from :: "string \<Rightarrow> nat \<Rightarrow> u16 list \<Rightarrow> bool \<Rightarrow> u16 list option" where
  "append_ipv6_from s start words allow_ipv4_tail =
     (if start \<le> length s then
        (let colon = sv_find CHR '':'' s start;
             component_end = (case colon of None \<Rightarrow> length s | Some e \<Rightarrow> e);
             component = sv_substr s start (component_end - start)
         in if CHR ''.'' \<in> set component then
              (if \<not> allow_ipv4_tail \<or> colon \<noteq> None then None
               else (case parse_ipv4 component of
                       None \<Rightarrow> None
                     | Some ipv4 \<Rightarrow>
                         (if length words > 8 - 2 then None
                          else Some (words @ [octet_pair (ipv4 ! 0) (ipv4 ! 1),
                                              octet_pair (ipv4 ! 2) (ipv4 ! 3)]))))
            else (case parse_ipv6_word component of
                    None \<Rightarrow> None
                  | Some w \<Rightarrow>
                      (if length words = 8 then None
                       else (case colon of
                               None \<Rightarrow> Some (words @ [w])
                             | Some e \<Rightarrow> append_ipv6_from s (e + 1) (words @ [w]) allow_ipv4_tail))))
      else Some words)"
  by pat_completeness auto
termination
  by (relation "measure (\<lambda>(s, start, words, allow). Suc (length s) - start)")
    (auto dest!: sv_find_Some [OF sym])

declare append_ipv6_from.simps [simp del]

definition append_ipv6_words :: "string \<Rightarrow> bool \<Rightarrow> u16 list option" where
  "append_ipv6_words s allow_ipv4_tail =
     (if s = [] then Some [] else append_ipv6_from s 0 [] allow_ipv4_tail)"

definition word_bytes :: "u16 \<Rightarrow> u8 list" where
  "word_bytes w = [ucast (drop_bit 8 w), ucast (w AND 0xFF)]"

definition ipv6_bytes :: "u16 list \<Rightarrow> u16 list \<Rightarrow> u8 list" where
  "ipv6_bytes left right =
     concat (map word_bytes (left @ replicate (8 - (length left + length right)) 0 @ right))"

definition parse_numeric_address :: "string \<Rightarrow> numeric_address option" where
  "parse_numeric_address s =
     (case parse_ipv4 s of
        Some ipv4 \<Rightarrow> Some \<lparr>addr_bytes = ipv4 @ replicate 12 0, addr_ipv4 = True\<rparr>
      | None \<Rightarrow>
          (let compression = sv_find_sub ''::'' s 0 in
           if (case compression of None \<Rightarrow> False | Some c \<Rightarrow> sv_find_sub ''::'' s (c + 2) \<noteq> None)
           then None
           else
             (let compressed = (compression \<noteq> None);
                  left_text = (case compression of None \<Rightarrow> s | Some c \<Rightarrow> take c s);
                  right_text = (case compression of None \<Rightarrow> [] | Some c \<Rightarrow> drop (c + 2) s)
              in case append_ipv6_words left_text (\<not> compressed) of
                   None \<Rightarrow> None
                 | Some left \<Rightarrow>
                     (case append_ipv6_words right_text True of
                        None \<Rightarrow> None
                      | Some right \<Rightarrow>
                          (let word_count = length left + length right in
                           if (\<not> compressed \<and> word_count \<noteq> 8) \<or> (compressed \<and> word_count \<ge> 8)
                           then None
                           else Some \<lparr>addr_bytes = ipv6_bytes left right, addr_ipv4 = False\<rparr>)))))"

definition is_valid_ipv4_address :: "string \<Rightarrow> bool" where
  "is_valid_ipv4_address s \<longleftrightarrow> parse_ipv4 s \<noteq> None"

definition is_valid_ipv6_address :: "string \<Rightarrow> bool" where
  "is_valid_ipv6_address s \<longleftrightarrow>
     (case parse_numeric_address s of None \<Rightarrow> False | Some a \<Rightarrow> \<not> addr_ipv4 a)"

definition is_loopback_address :: "numeric_address \<Rightarrow> bool" where
  "is_loopback_address a \<longleftrightarrow>
     (if addr_ipv4 a then hd (addr_bytes a) = 127
      else list_all (\<lambda>b. b = 0) (butlast (addr_bytes a)) \<and> last (addr_bytes a) = 1)"

definition is_unspecified_address :: "numeric_address \<Rightarrow> bool" where
  "is_unspecified_address a \<longleftrightarrow>
     (let mapped = is_ipv4_mapped_address a;
          start = (if mapped then 12 else 0);
          n = (if addr_ipv4 a \<or> mapped then 4 else length (addr_bytes a))
      in list_all (\<lambda>b. b = 0) (take n (drop start (addr_bytes a))))"

section \<open>Printing\<close>

definition ipv4_text :: "u8 list \<Rightarrow> string" where
  "ipv4_text bs = (case map (\<lambda>b. print_base 10 (unat b)) bs of
      [a, b, c, d] \<Rightarrow> a @ ''.'' @ b @ ''.'' @ c @ ''.'' @ d
    | _ \<Rightarrow> [])"

fun ipv6_text :: "u16 list \<Rightarrow> string" where
  "ipv6_text [] = []"
| "ipv6_text [w] = print_base 16 (unat w)"
| "ipv6_text (w # ws) = print_base 16 (unat w) @ '':'' @ ipv6_text ws"

section \<open>IPv4: one spelling per address\<close>

lemma octet_digits_iff:
  "octet_digits acc ds = Some n \<longleftrightarrow>
     list_all (\<lambda>c. std_digit 10 c \<noteq> None) ds \<and>
     n = foldl (\<lambda>a c. a * 10 + the (std_digit 10 c)) acc ds"
proof (induction ds arbitrary: acc)
  case Nil
  then show ?case by auto
next
  case (Cons c ds)
  have "std_digit 10 c = (if c < CHR ''0'' \<or> c > CHR ''9'' then None else Some (of_char c - 48))"
    by (auto simp: std_digit_def Let_def less_eq_char_def less_char_def)
  with Cons show ?case by auto
qed

lemma parse_octet_iff: "parse_octet s = Some b \<longleftrightarrow> s = print_base 10 (unat b)"
proof
  assume p: "parse_octet s = Some b"
  then have s: "s \<noteq> []" "\<not> (length s > 1 \<and> hd s = CHR ''0'')"
    and d: "list_all (\<lambda>c. std_digit 10 c \<noteq> None) s"
    and b: "digits_value 10 s \<le> 255" "b = of_nat (digits_value 10 s)"
    by (auto simp: parse_octet_def octet_digits_iff digits_value_def
        split: if_splits option.splits)
  have hd0: "std_digit 10 c = Some 0 \<Longrightarrow> c = CHR ''0''" for c
    by (rule of_char_eqI [where ?'a = nat])
      (auto simp: std_digit_def Let_def less_eq_char_def split: if_splits)
  have "unat b = digits_value 10 s" using b by (simp add: unat_of_nat)
  moreover have "print_base 10 (digits_value 10 s) = s"
    by (rule print_base_digits_value) (use s d hd0 in auto)
  ultimately show "s = print_base 10 (unat b)" by simp
next
  assume s: "s = print_base 10 (unat b)"
  have lt: "unat b < 256" using unsigned_less [of b] by simp
  then have "length s \<le> 3" using s length_print_base [of 10 "unat b" 2] by simp
  moreover have "\<not> (length s > 1 \<and> hd s = CHR ''0'')"
  proof
    assume a: "length s > 1 \<and> hd s = CHR ''0''"
    then have "std_digit 10 (hd s) = Some 0" by (simp add: std_digit_def)
    with s have "unat b = 0" using hd_print_base_zero [of 10 "unat b"] by simp
    with s a show False by (simp add: print_base.simps)
  qed
  moreover have "octet_digits 0 s = Some (unat b)"
    unfolding octet_digits_iff
    using s digits_value_print_base [of 10 "unat b"] print_base_digits [of 10 "unat b"]
    by (simp add: digits_value_def del: not_None_eq)
  ultimately show "parse_octet s = Some b"
    using s lt by (simp add: parse_octet_def)
qed

text \<open>Reading one dotted component and moving behind its dot.\<close>

lemma no_dot_digits: "list_all (\<lambda>c. std_digit b c \<noteq> None) ds \<Longrightarrow> CHR ''.'' \<notin> set ds"
  "list_all (\<lambda>c. std_digit b c \<noteq> None) ds \<Longrightarrow> CHR '':'' \<notin> set ds"
  by (auto simp: list_all_iff std_digit_def less_eq_char_def Let_def)

lemma sv_find_component:
  assumes "drop i s = xs @ c # ys" "c \<notin> set xs"
  shows "sv_find c s i = Some (i + length xs)" and "sv_substr s i (i + length xs - i) = xs"
    and "drop (i + length xs + 1) s = ys"
proof -
  have "find_index ((=) c) xs = None" using assms(2) by (auto simp: find_index_None_iff)
  with assms show "sv_find c s i = Some (i + length xs)"
    by (simp add: sv_find_def find_index_append)
  show "sv_substr s i (i + length xs - i) = xs" using assms by (simp add: sv_substr_def)
  have "drop (Suc (length xs)) (drop i s) = ys" unfolding assms(1) by simp
  then show "drop (i + length xs + 1) s = ys" by (simp add: add.commute)
qed

lemma sv_find_last:
  assumes "c \<notin> set (drop i s)"
  shows "sv_find c s i = None" and "sv_substr s i (length s - i) = drop i s"
  using assms by (auto simp: sv_find_def find_index_None_iff sv_substr_def)

lemma sv_find_SomeE:
  assumes "sv_find c s i = Some e"
  obtains ys where "drop i s = sv_substr s i (e - i) @ c # ys" "drop (e + 1) s = ys" "i \<le> e"
    "c \<notin> set (sv_substr s i (e - i))"
proof -
  from assms obtain k where k: "find_index ((=) c) (drop i s) = Some k" "e = i + k"
    by (auto simp: sv_find_def)
  with find_index_split [OF k(1)] have
    "drop i s = take k (drop i s) @ c # drop (Suc k) (drop i s)" "c \<notin> set (take k (drop i s))"
    by auto
  with k(2) show ?thesis by (intro that) (auto simp: sv_substr_def add.commute)
qed

lemma parse_ipv4_step_dot:
  assumes "drop i s = print_base 10 (unat b) @ CHR ''.'' # ys" "k < 3"
  shows "\<exists>j. drop j s = ys \<and> parse_ipv4_from s i k bytes = parse_ipv4_from s j (k + 1) (bytes @ [b])"
proof -
  have "CHR ''.'' \<notin> set (print_base 10 (unat b))"
    by (rule no_dot_digits(1) [of 10]) (rule print_base_digits; simp)
  note c = sv_find_component [OF assms(1) this]
  have "parse_octet (print_base 10 (unat b)) = Some b" by (simp add: parse_octet_iff)
  with c assms(2) show ?thesis
    by (intro exI [of _ "i + length (print_base 10 (unat b)) + 1"])
      (simp add: parse_ipv4_from.simps [of s i])
qed

lemma parse_ipv4_step_last:
  assumes "drop i s = print_base 10 (unat b)"
  shows "parse_ipv4_from s i 3 bytes = Some (bytes @ [b])"
proof -
  have "CHR ''.'' \<notin> set (drop i s)"
    unfolding assms by (rule no_dot_digits(1) [of 10]) (rule print_base_digits; simp)
  note c = sv_find_last [OF this]
  have "parse_octet (print_base 10 (unat b)) = Some b" by (simp add: parse_octet_iff)
  with c assms show ?thesis
    by (simp add: parse_ipv4_from.simps [of s i] parse_ipv4_from.simps [of s i "Suc 3"])
qed

lemma parse_ipv4_print: "parse_ipv4 (ipv4_text [a, b, c, d]) = Some [a, b, c, d]"
proof -
  let ?p = "\<lambda>x. print_base 10 (unat (x::u8))"
  let ?s = "ipv4_text [a, b, c, d]"
  have s: "drop 0 ?s = ?p a @ CHR ''.'' # ?p b @ ''.'' @ ?p c @ ''.'' @ ?p d"
    by (simp add: ipv4_text_def)
  obtain i where i: "drop i ?s = ?p b @ CHR ''.'' # ?p c @ ''.'' @ ?p d"
    "parse_ipv4_from ?s 0 0 [] = parse_ipv4_from ?s i 1 [a]"
    using parse_ipv4_step_dot [OF s, of 0 "[]"] by auto
  obtain j where j: "drop j ?s = ?p c @ CHR ''.'' # ?p d"
    "parse_ipv4_from ?s i 1 [a] = parse_ipv4_from ?s j 2 [a, b]"
    using parse_ipv4_step_dot [OF i(1), of 1 "[a]"] by (auto simp: numeral_2_eq_2)
  obtain k where k: "drop k ?s = ?p d"
    "parse_ipv4_from ?s j 2 [a, b] = parse_ipv4_from ?s k 3 [a, b, c]"
    using parse_ipv4_step_dot [OF j(1), of 2 "[a, b]"] by (auto simp: numeral_3_eq_3)
  show ?thesis
    using i(2) j(2) k(2) parse_ipv4_step_last [OF k(1)] by (simp add: parse_ipv4_def)
qed

lemma parse_ipv4_unstep_dot:
  assumes "parse_ipv4_from s i k bytes = Some r" "k < 3"
  obtains b j where "drop i s = print_base 10 (unat b) @ CHR ''.'' # drop j s"
    "parse_ipv4_from s j (k + 1) (bytes @ [b]) = Some r"
proof -
  from assms obtain e b where e: "sv_find CHR ''.'' s i = Some e"
    and b: "parse_octet (sv_substr s i (e - i)) = Some b"
    and r: "parse_ipv4_from s (e + 1) (k + 1) (bytes @ [b]) = Some r"
    by (subst (asm) parse_ipv4_from.simps)
      (auto simp: Let_def split: option.splits if_splits)
  from e obtain ys where "drop i s = sv_substr s i (e - i) @ CHR ''.'' # ys" "drop (e + 1) s = ys"
    by (rule sv_find_SomeE)
  with b r show ?thesis by (intro that) (auto simp: parse_octet_iff)
qed

lemma parse_ipv4_unstep_last:
  assumes "parse_ipv4_from s i 3 bytes = Some r"
  obtains b where "drop i s = print_base 10 (unat b)" "r = bytes @ [b]"
proof -
  from assms obtain b where f: "sv_find CHR ''.'' s i = None"
    and b: "parse_octet (sv_substr s i (length s - i)) = Some b" and r: "r = bytes @ [b]"
    by (subst (asm) parse_ipv4_from.simps)
      (auto simp: Let_def parse_ipv4_from.simps [of s i 4] split: option.splits if_splits)
  have "sv_substr s i (length s - i) = drop i s" by (simp add: sv_substr_def)
  with b r show ?thesis by (intro that) (auto simp: parse_octet_iff)
qed

lemma parse_ipv4_Some:
  assumes "parse_ipv4 s = Some bs"
  shows "\<exists>a b c d. bs = [a, b, c, d] \<and> s = ipv4_text [a, b, c, d]"
proof -
  let ?p = "\<lambda>x. print_base 10 (unat (x::u8))"
  from assms have "parse_ipv4_from s 0 0 [] = Some bs" by (simp add: parse_ipv4_def)
  then obtain a i where a: "drop 0 s = ?p a @ CHR ''.'' # drop i s"
    "parse_ipv4_from s i 1 [a] = Some bs"
    by (rule parse_ipv4_unstep_dot) auto
  from a(2) obtain b j where b: "drop i s = ?p b @ CHR ''.'' # drop j s"
    "parse_ipv4_from s j 2 [a, b] = Some bs"
    by (rule parse_ipv4_unstep_dot) (auto simp: numeral_2_eq_2)
  from b(2) obtain c k where c: "drop j s = ?p c @ CHR ''.'' # drop k s"
    "parse_ipv4_from s k 3 [a, b, c] = Some bs"
    by (rule parse_ipv4_unstep_dot) (auto simp: numeral_3_eq_3)
  from c(2) obtain d where d: "drop k s = ?p d" "bs = [a, b, c, d]"
    by (rule parse_ipv4_unstep_last) auto
  from a(1) b(1) c(1) d show ?thesis by (auto simp: ipv4_text_def)
qed

lemma parse_ipv4_exact:
  "parse_ipv4 s = Some bs \<longleftrightarrow> length bs = 4 \<and> s = ipv4_text bs"
proof
  assume "parse_ipv4 s = Some bs"
  then show "length bs = 4 \<and> s = ipv4_text bs" using parse_ipv4_Some by fastforce
next
  assume a: "length bs = 4 \<and> s = ipv4_text bs"
  then obtain a b c d where "bs = [a, b, c, d]"
    by (auto simp: numeral_eq_Suc length_Suc_conv)
  with a show "parse_ipv4 s = Some bs" by (simp add: parse_ipv4_print)
qed

section \<open>IPv6\<close>

lemma append_ipv6_from_length:
  "append_ipv6_from s i ws t = Some r \<Longrightarrow> length ws \<le> 8 \<Longrightarrow> length r \<le> 8"
proof (induction s i ws t rule: append_ipv6_from.induct)
  case (1 s i ws t)
  show ?case
    using "1.prems" "1.IH"
    by (subst (asm) append_ipv6_from.simps)
      (auto simp: Let_def split: if_splits option.splits)
qed

lemma append_ipv6_words_length: "append_ipv6_words s t = Some r \<Longrightarrow> length r \<le> 8"
  using append_ipv6_from_length [of s 0 "[]" t r]
  by (auto simp: append_ipv6_words_def split: if_splits)

lemma length_word_bytes [simp]: "length (word_bytes w) = 2"
  by (simp add: word_bytes_def)

lemma length_concat_word_bytes: "length (concat (map word_bytes ws)) = 2 * length ws"
  by (induction ws) auto

lemma length_ipv6_bytes: "length l + length r \<le> 8 \<Longrightarrow> length (ipv6_bytes l r) = 16"
  unfolding ipv6_bytes_def length_concat_word_bytes by simp

lemma parse_numeric_address_length:
  assumes "parse_numeric_address s = Some a"
  shows "length (addr_bytes a) = 16"
proof (cases "parse_ipv4 s")
  case (Some bs)
  then have "length bs = 4" using parse_ipv4_Some by fastforce
  with Some assms show ?thesis by (auto simp: parse_numeric_address_def)
next
  case None
  with assms show ?thesis
    by (auto simp: parse_numeric_address_def Let_def length_ipv6_bytes
        split: if_splits option.splits)
qed

lemma push_nibble:
  assumes "d < 16"
  shows "push_bit 4 w OR of_nat d = w * 16 + (of_nat d :: u16)"
proof -
  have "(of_nat d :: u16) = take_bit 4 (of_nat d)"
    using assms by (simp add: take_bit_nat_eq_self flip: of_nat_take_bit)
  moreover have "push_bit 4 w AND take_bit 4 x = 0" for x :: u16
    by (rule bit_word_eqI) (auto simp: bit_simps)
  ultimately have "push_bit 4 w AND of_nat d = (0::u16)" by metis
  then show ?thesis
    using word_plus_and_or [of "push_bit 4 w" "of_nat d"]
    by (simp add: push_bit_eq_mult mult.commute)
qed

lemma ipv6_word_digits_value:
  "list_all (\<lambda>c. std_digit 16 c \<noteq> None) ds \<Longrightarrow>
     ipv6_word_digits (of_nat acc) ds =
       Some (of_nat (foldl (\<lambda>a c. a * 16 + the (std_digit 16 c)) acc ds))"
proof (induction ds arbitrary: acc)
  case Nil
  then show ?case by simp
next
  case (Cons c ds)
  then obtain d where d: "std_digit 16 c = Some d" by auto
  then have "push_bit 4 (of_nat acc) OR of_nat d = (of_nat (acc * 16 + d) :: u16)"
    using std_digit_less [OF d] by (simp add: push_nibble)
  moreover have "ipv6_word_digits (of_nat (acc * 16 + d)) ds =
      Some (of_nat (foldl (\<lambda>a c. a * 16 + the (std_digit 16 c)) (acc * 16 + d) ds))"
    by (rule Cons.IH) (use Cons.prems in simp)
  ultimately show ?case using d by (simp add: hex_digit_value_std del: of_nat_add of_nat_mult)
qed

lemma parse_ipv6_word_print: "parse_ipv6_word (print_base 16 (unat w)) = Some w"
proof -
  have "unat w < 16 ^ Suc 3" using unsigned_less [of w] by simp
  then have "length (print_base 16 (unat w)) \<le> 4" using length_print_base [of 16 "unat w" 3] by simp
  moreover have "ipv6_word_digits 0 (print_base 16 (unat w)) = Some w"
    using ipv6_word_digits_value [of "print_base 16 (unat w)" 0]
      print_base_digits [of 16 "unat w"] digits_value_print_base [of 16 "unat w"]
    by (simp add: digits_value_def)
  ultimately show ?thesis by (simp add: parse_ipv6_word_def)
qed

lemma print_word_chars:
  "CHR ''.'' \<notin> set (print_base 16 n)" "CHR '':'' \<notin> set (print_base 16 n)"
  by (rule no_dot_digits [of 16], rule print_base_digits; simp)+

lemma ipv6_text_Cons:
  "ws \<noteq> [] \<Longrightarrow> ipv6_text (w # ws) = print_base 16 (unat w) @ CHR '':'' # ipv6_text ws"
  by (cases ws) auto

lemma append_ipv6_from_text:
  "drop i s = ipv6_text ws \<Longrightarrow> ws \<noteq> [] \<Longrightarrow> i \<le> length s \<Longrightarrow> length acc + length ws \<le> 8 \<Longrightarrow>
     append_ipv6_from s i acc t = Some (acc @ ws)"
proof (induction ws arbitrary: i acc)
  case Nil
  then show ?case by simp
next
  case (Cons w ws)
  show ?case
  proof (cases "ws = []")
    case True
    with Cons.prems have d: "drop i s = print_base 16 (unat w)" by simp
    then have "CHR '':'' \<notin> set (drop i s)" by (simp add: print_word_chars)
    note c = sv_find_last [OF this]
    show ?thesis
      using c d True Cons.prems
      by (simp add: append_ipv6_from.simps [of s i] print_word_chars parse_ipv6_word_print)
  next
    case False
    with Cons.prems have d: "drop i s = print_base 16 (unat w) @ CHR '':'' # ipv6_text ws"
      by (simp add: ipv6_text_Cons)
    note c = sv_find_component [OF d print_word_chars(2)]
    have "length (drop i s) \<ge> length (print_base 16 (unat w)) + 1" by (subst d) simp
    then have len: "i + length (print_base 16 (unat w)) + 1 \<le> length s" by simp
    have "append_ipv6_from s (i + length (print_base 16 (unat w)) + 1) (acc @ [w]) t =
        Some ((acc @ [w]) @ ws)"
      by (rule Cons.IH [OF c(3) False len]) (use Cons.prems in simp)
    then show ?thesis
      using c(1,2) Cons.prems
      by (simp add: append_ipv6_from.simps [of s i] print_word_chars parse_ipv6_word_print)
  qed
qed

lemma ipv6_text_nonempty: "ipv6_text ws = [] \<longleftrightarrow> ws = []"
  by (cases ws rule: ipv6_text.cases) auto

lemma append_ipv6_words_text: "length ws \<le> 8 \<Longrightarrow> append_ipv6_words (ipv6_text ws) t = Some ws"
  using append_ipv6_from_text [of 0 "ipv6_text ws" ws "[]" t]
  by (auto simp: append_ipv6_words_def ipv6_text_nonempty)

text \<open>The compression marker is found exactly between the two halves.\<close>

lemma find_sub_skip:
  "CHR '':'' \<notin> set ds \<Longrightarrow> find_sub ''::'' (ds @ t) = map_option ((+) (length ds)) (find_sub ''::'' t)"
  by (cases "find_sub ''::'' t"; induction ds) auto

lemma ipv6_text_hd: "ws \<noteq> [] \<Longrightarrow> hd (ipv6_text ws @ t) \<noteq> CHR '':''"
proof (cases ws)
  case (Cons w ws')
  have "hd (print_base 16 (unat w)) \<in> set (print_base 16 (unat w))" by simp
  with print_word_chars(2) [of "unat w"] have "hd (print_base 16 (unat w)) \<noteq> CHR '':''" by metis
  with Cons show ?thesis by (cases ws') auto
qed simp

lemma find_sub_text:
  "ws \<noteq> [] \<Longrightarrow> find_sub ''::'' (ipv6_text ws @ t) =
     map_option ((+) (length (ipv6_text ws))) (find_sub ''::'' t)"
proof (induction ws)
  case Nil
  then show ?case by simp
next
  case (Cons w ws)
  show ?case
  proof (cases "ws = []")
    case True
    then show ?thesis by (simp add: find_sub_skip print_word_chars)
  next
    case False
    then obtain x xs where x: "ipv6_text ws @ t = x # xs" "x \<noteq> CHR '':''"
      using ipv6_text_hd [of ws t] ipv6_text_nonempty [of ws] by (cases "ipv6_text ws @ t") auto
    have "find_sub ''::'' (CHR '':'' # ipv6_text ws @ t) =
        map_option Suc (find_sub ''::'' (ipv6_text ws @ t))"
      unfolding x(1) using x(2) by simp
    with False Cons.IH show ?thesis
      by (simp add: ipv6_text_Cons find_sub_skip print_word_chars option.map_comp comp_def add.assoc)
  qed
qed

lemma colon_not_ipv4: "CHR '':'' \<in> set s \<Longrightarrow> parse_ipv4 s = None"
proof (rule ccontr)
  assume c: "CHR '':'' \<in> set s" and "parse_ipv4 s \<noteq> None"
  then obtain a b c' d where "s = ipv4_text [a, b, c', d]" using parse_ipv4_Some by fastforce
  moreover have "CHR '':'' \<notin> set (print_base 10 n)" for n
    by (rule no_dot_digits(2) [of 10], rule print_base_digits; simp)
  ultimately show False using c by (simp add: ipv4_text_def)
qed

lemma parse_compressed:
  assumes "length l + length r \<le> 7"
  shows "parse_numeric_address (ipv6_text l @ ''::'' @ ipv6_text r) =
           Some \<lparr>addr_bytes = ipv6_bytes l r, addr_ipv4 = False\<rparr>"
proof -
  let ?s = "ipv6_text l @ ''::'' @ ipv6_text r"
  have f: "sv_find_sub ''::'' ?s 0 = Some (length (ipv6_text l))"
    by (cases "l = []") (simp_all add: sv_find_sub_def find_sub_text)
  have "find_sub ''::'' (ipv6_text r) = None"
    using find_sub_text [of r "[]"] by (cases "r = []") simp_all
  then have g: "sv_find_sub ''::'' ?s (length (ipv6_text l) + 2) = None"
    by (simp add: sv_find_sub_def)
  have "parse_ipv4 ?s = None" by (rule colon_not_ipv4) simp
  with f g assms show ?thesis
    by (simp add: parse_numeric_address_def append_ipv6_words_text)
qed

lemma parse_uncompressed:
  assumes "length ws = 8"
  shows "parse_numeric_address (ipv6_text ws) =
           Some \<lparr>addr_bytes = concat (map word_bytes ws), addr_ipv4 = False\<rparr>"
proof -
  from assms obtain a b ws' where ws: "ws = a # b # ws'" by (auto simp: numeral_eq_Suc length_Suc_conv)
  then have "parse_ipv4 (ipv6_text ws) = None"
    by (intro colon_not_ipv4) (simp add: ipv6_text_Cons)
  moreover have "sv_find_sub ''::'' (ipv6_text ws) 0 = None"
    using find_sub_text [of ws "[]"] ws by (simp add: sv_find_sub_def)
  ultimately show ?thesis
    using assms
    by (simp add: parse_numeric_address_def append_ipv6_words_text)
      (simp add: append_ipv6_words_def ipv6_bytes_def)
qed

section \<open>Properties\<close>

text \<open>
  Strict dotted-decimal parsing has exactly one accepted spelling per IPv4 address: the four
  octets in base ten without leading zeros. Octal, shortened and overflowing spellings are refused.
\<close>

lemma parse_ipv4_iff: "parse_ipv4 s = Some bs \<longleftrightarrow> length bs = 4 \<and> s = ipv4_text bs"
  by (rule parse_ipv4_exact)

text \<open>
  A compressed IPv6 text of fewer than eight groups denotes the groups left of the marker,
  zeros, and the groups right of it, as sixteen bytes in network order.
\<close>

lemma parse_ipv6_compressed:
  assumes "length l + length r \<le> 7"
  shows "parse_numeric_address (ipv6_text l @ ''::'' @ ipv6_text r) =
           Some \<lparr>addr_bytes = ipv6_bytes l r, addr_ipv4 = False\<rparr> \<and>
         length (ipv6_bytes l r) = 16"
  using parse_compressed [OF assms] length_ipv6_bytes [of l r] assms by simp

lemma parse_ipv6_link_local:
  "parse_numeric_address (ipv6_text [0xFE80] @ ''::'' @ ipv6_text [1]) =
     Some \<lparr>addr_bytes = [0xFE, 0x80, 0, 0, 0, 0, 0, 0, 0, 0, 0, 0, 0, 0, 0, 1], addr_ipv4 = False\<rparr>"
proof -
  have "replicate 6 (word_bytes 0) = [[0, 0], [0, 0], [0, 0], [0, 0], [0, 0], [0, 0]]"
    by (simp add: eval_nat_numeral word_bytes_def)
  then show ?thesis
    using parse_ipv6_compressed [of "[0xFE80]" "[1]"]
    by (simp add: ipv6_bytes_def word_bytes_def)
qed

end
