(* ===== verification/Http_Types.thy ===== *)
theory Http_Types
  imports Ascii
begin

text \<open>
  Data shared by the HTTP request components: methods, header fields, parser limits, parse errors
  and the parsed request head of \<^verbatim>\<open>include/sparenode/http/request/http_request.hpp\<close>,
  \<^verbatim>\<open>http_request_parser.hpp\<close> and \<^verbatim>\<open>src/http/request/http_request.cpp\<close>. Views that borrow the input
  buffer are strings; the \<^verbatim>\<open>shared_ptr\<close> members that only keep such storage alive have no
  counterpart.
\<close>

section \<open>Definitions\<close>

datatype http_method = Get | Head | Post | Put | Delete_method | Options

definition method_to_string :: "http_method \<Rightarrow> string" where
  "method_to_string m =
     (case m of
        Get \<Rightarrow> ''GET'' | Head \<Rightarrow> ''HEAD'' | Post \<Rightarrow> ''POST'' | Put \<Rightarrow> ''PUT''
      | Delete_method \<Rightarrow> ''DELETE'' | Options \<Rightarrow> ''OPTIONS'')"

record http_header =
  field_name :: string
  field_value :: string

definition request_header :: "http_header list \<Rightarrow> string \<Rightarrow> string" where
  "request_header flds name =
     (case find (\<lambda>field. ascii_case_insensitive_equal (field_name field) name) flds of
        None \<Rightarrow> []
      | Some field \<Rightarrow> field_value field)"

definition request_headers :: "http_header list \<Rightarrow> string \<Rightarrow> string list" where
  "request_headers flds name =
     map field_value
       (filter (\<lambda>field. ascii_case_insensitive_equal (field_name field) name) flds)"

record request_limits =
  max_request_line_bytes :: nat
  max_header_bytes :: nat
  max_header_count :: nat
  max_body_bytes :: nat
  max_chunk_line_bytes :: nat
  max_chunk_metadata_bytes :: nat
  max_trailer_bytes :: nat
  max_trailer_count :: nat

definition default_limits :: request_limits where
  "default_limits =
     \<lparr>max_request_line_bytes = 8192, max_header_bytes = 32768, max_header_count = 100,
      max_body_bytes = 1024 * 1024, max_chunk_line_bytes = 1024,
      max_chunk_metadata_bytes = 65536, max_trailer_bytes = 8192, max_trailer_count = 32\<rparr>"

definition maximum_http_request_head_bytes :: "request_limits \<Rightarrow> nat" where
  "maximum_http_request_head_bytes limits =
     (if max_request_line_bytes limits > size_max - 2 then 0
      else (let line_and_ending = max_request_line_bytes limits + 2 in
            if max_header_bytes limits > size_max - line_and_ending then 0
            else line_and_ending + max_header_bytes limits))"

datatype parse_error_code =
    Request_line_too_large | Headers_too_large | Too_many_headers | Body_too_large
  | Invalid_line_ending | Malformed_request_line | Invalid_method | Unsupported_method
  | Invalid_request_target | Unsupported_http_version | Malformed_header | Folded_header
  | Missing_host | Duplicate_host | Invalid_host | Invalid_content_length
  | Duplicate_content_length | Unsupported_transfer_encoding | Invalid_transfer_encoding
  | Conflicting_message_length | Malformed_chunk | Chunk_metadata_too_large | Invalid_trailer
  | Trailers_too_large | Incomplete_body | Malformed_http_version

record parse_error =
  error_code :: parse_error_code
  byte_offset :: nat

abbreviation parse_fail :: "parse_error_code \<Rightarrow> nat \<Rightarrow> parse_error + 'a" where
  "parse_fail c n \<equiv> Inl \<lparr>error_code = c, byte_offset = n\<rparr>"

record request_head =
  head_method :: http_method
  head_target :: string
  head_fields :: "http_header list"
  consumed_bytes :: nat
  content_length :: nat
  head_chunked :: bool

section \<open>Lemmas\<close>

lemma method_to_string_token: "list_all is_http_token_character (method_to_string m)"
  by (cases m) (simp_all add: method_to_string_def byte_class less_eq_char_def)

lemma method_to_string_nonempty [simp]: "method_to_string m \<noteq> []"
  by (cases m) (simp_all add: method_to_string_def)

lemma method_to_string_inj: "method_to_string m = method_to_string n \<longleftrightarrow> m = n"
  by (cases m; cases n) (simp_all add: method_to_string_def)

lemma request_header_first:
  "request_header flds name =
     (case request_headers flds name of [] \<Rightarrow> [] | v # _ \<Rightarrow> v)"
  by (induction flds) (auto simp: request_header_def request_headers_def)

lemma maximum_head_no_overflow:
  assumes "max_request_line_bytes l + 2 + max_header_bytes l \<le> size_max"
  shows "maximum_http_request_head_bytes l = max_request_line_bytes l + 2 + max_header_bytes l"
  using assms by (auto simp: maximum_http_request_head_bytes_def Let_def)

end
