(* ===== verification/Host_Authority.thy ===== *)
theory Host_Authority
  imports Ip_Address
begin

text \<open>
  The Host authority grammar of \<^verbatim>\<open>src/http/request/detail/host_authority.cpp\<close>: DNS names with an
  optional root dot, strict IPv4, bracketed IPv6, each with an optional decimal port.
\<close>

section \<open>Definitions\<close>

definition is_hostname_boundary :: "char \<Rightarrow> bool" where [byte_class]:
  "is_hostname_boundary byte \<longleftrightarrow>
     is_ascii_digit byte \<or> (CHR ''A'' \<le> byte \<and> byte \<le> CHR ''Z'') \<or>
     (CHR ''a'' \<le> byte \<and> byte \<le> CHR ''z'')"

definition is_hostname_character :: "char \<Rightarrow> bool" where [byte_class]:
  "is_hostname_character byte \<longleftrightarrow> is_hostname_boundary byte \<or> byte = CHR ''-''"

definition parse_decimal :: "string \<Rightarrow> nat \<Rightarrow> nat option" where
  "parse_decimal text maximum =
     (if text = [] then None
      else (case from_chars (2 ^ 32) 10 text of
              (Inl _, _) \<Rightarrow> None
            | (Inr v, rest) \<Rightarrow> if rest = [] \<and> v \<le> maximum then Some v else None))"

function hostname_labels_from :: "string \<Rightarrow> nat \<Rightarrow> bool" where
  "hostname_labels_from hostname label_start =
     (if label_start < length hostname then
        (let dot = sv_find CHR ''.'' hostname label_start;
             label_end = (case dot of None \<Rightarrow> length hostname | Some d \<Rightarrow> d);
             label = sv_substr hostname label_start (label_end - label_start)
         in if label = [] \<or> length label > 63 \<or> \<not> is_hostname_boundary (hd label) \<or>
               \<not> is_hostname_boundary (last label) then False
            else if \<not> list_all is_hostname_character label then False
            else (case dot of
                    None \<Rightarrow> True
                  | Some d \<Rightarrow> hostname_labels_from hostname (d + 1)))
      else True)"
  by pat_completeness auto
termination
  by (relation "measure (\<lambda>(h, start). length h - start)") (auto dest!: sv_find_Some [OF sym])

declare hostname_labels_from.simps [simp del]

definition is_valid_hostname :: "string \<Rightarrow> bool" where
  "is_valid_hostname hostname =
     (if hostname = [] then False
      else if last hostname = CHR ''.'' then
        (let stripped = butlast hostname in
         if stripped = [] \<or> last stripped = CHR ''.'' then False
         else length stripped \<le> 253 \<and> hostname_labels_from stripped 0)
      else length hostname \<le> 253 \<and> hostname_labels_from hostname 0)"

definition looks_like_ipv4 :: "string \<Rightarrow> bool" where
  "looks_like_ipv4 host =
     (if CHR ''.'' \<notin> set host then False
      else list_all (\<lambda>byte. is_ascii_digit byte \<or> byte = CHR ''.'') host)"

definition is_valid_port :: "string \<Rightarrow> bool" where
  "is_valid_port port \<longleftrightarrow> parse_decimal port 65535 \<noteq> None"

definition is_valid_ip_literal_authority :: "string \<Rightarrow> bool" where
  "is_valid_ip_literal_authority authority =
     (case sv_find CHR '']'' authority 0 of
        None \<Rightarrow> False
      | Some closing_bracket \<Rightarrow>
          (if closing_bracket = 1 \<or>
              \<not> is_valid_ipv6_address (sv_substr authority 1 (closing_bracket - 1)) then False
           else (let remainder = drop (closing_bracket + 1) authority in
                 remainder = [] \<or> (prefix '':'' remainder \<and> is_valid_port (drop 1 remainder)))))"

definition is_valid_host_authority :: "string \<Rightarrow> bool" where
  "is_valid_host_authority authority =
     (if authority = [] then False
      else if hd authority = CHR ''['' then is_valid_ip_literal_authority authority
      else if CHR ''['' \<in> set authority \<or> CHR '']'' \<in> set authority then False
      else
        (let colon = sv_find CHR '':'' authority 0 in
         if (case colon of None \<Rightarrow> False | Some c \<Rightarrow> sv_find CHR '':'' authority (c + 1) \<noteq> None)
         then False
         else
           (let host = (case colon of None \<Rightarrow> authority | Some c \<Rightarrow> take c authority);
                port = (case colon of None \<Rightarrow> [] | Some c \<Rightarrow> drop (c + 1) authority)
            in if host = [] \<or> (colon \<noteq> None \<and> \<not> is_valid_port port) then False
               else if looks_like_ipv4 host then is_valid_ipv4_address host
               else is_valid_hostname host)))"

section \<open>Ports\<close>

lemma parse_decimal_Some:
  "parse_decimal t m = Some v \<longleftrightarrow>
     t \<noteq> [] \<and> list_all (\<lambda>c. std_digit 10 c \<noteq> None) t \<and> v = digits_value 10 t \<and> v < 2 ^ 32 \<and> v \<le> m"
  (is "?l \<longleftrightarrow> ?r")
proof
  assume ?l
  then have "t \<noteq> []" "from_chars (2 ^ 32) 10 t = (Inr v, [])" "v \<le> m"
    by (auto simp: parse_decimal_def split: if_splits prod.splits sum.splits)
  then show ?r by (simp add: from_chars_Inr_iff)
next
  assume r: ?r
  then have "from_chars (2 ^ 32) 10 t = (Inr v, [])" by (simp add: from_chars_Inr_iff)
  with r show ?l by (simp add: parse_decimal_def)
qed

lemma is_valid_port_iff:
  "is_valid_port p \<longleftrightarrow> p \<noteq> [] \<and> list_all is_ascii_digit p \<and> digits_value 10 p \<le> 65535"
proof -
  have "list_all is_ascii_digit p \<longleftrightarrow> list_all (\<lambda>c. std_digit 10 c \<noteq> None) p"
    by (simp add: list_all_iff is_ascii_digit_std)
  then show ?thesis by (auto simp: is_valid_port_def parse_decimal_Some)
qed

section \<open>Bytes of an accepted authority\<close>

definition authority_char :: "char \<Rightarrow> bool" where
  "authority_char c \<longleftrightarrow> is_hostname_character c \<or> c \<in> set ''.:[]''"

lemma std_digit_authority:
  "list_all (\<lambda>c. std_digit 10 c \<noteq> None) ds \<Longrightarrow> list_all authority_char ds"
  "list_all (\<lambda>c. std_digit 16 c \<noteq> None) ds \<Longrightarrow> list_all authority_char ds"
  by (auto simp: list_all_iff authority_char_def byte_class std_digit_def Let_def less_eq_char_def
      split: if_splits)

lemma hostname_labels_chars:
  "hostname_labels_from h i \<Longrightarrow> list_all authority_char (drop i h)"
proof (induction h i rule: hostname_labels_from.induct)
  case (1 h i)
  show ?case
  proof (cases "i < length h")
    case False
    then show ?thesis by simp
  next
    case True
    show ?thesis
    proof (cases "sv_find CHR ''.'' h i")
      case None
      with True "1.prems" have "list_all is_hostname_character (drop i h)"
        by (subst (asm) hostname_labels_from.simps) (auto simp: sv_substr_def Let_def split: if_splits)
      then show ?thesis by (auto simp: list_all_iff authority_char_def)
    next
      case (Some d)
      let ?label = "sv_substr h i (d - i)"
      from True Some "1.prems" have label: "list_all is_hostname_character ?label"
        and rest: "hostname_labels_from h (d + 1)"
        and side: "\<not> (?label = [] \<or> length ?label > 63 \<or> \<not> is_hostname_boundary (hd ?label) \<or>
               \<not> is_hostname_boundary (last ?label))"
        by (subst (asm) hostname_labels_from.simps, simp add: Let_def split: if_splits)+
      have "list_all authority_char (drop (d + 1) h)"
        using "1.IH" [OF True refl refl refl] Some label side rest by simp
      moreover from Some obtain ys where "drop i h = ?label @ CHR ''.'' # ys" "drop (d + 1) h = ys"
        by (rule sv_find_SomeE)
      ultimately show ?thesis
        using label by (auto simp: list_all_iff authority_char_def)
    qed
  qed
qed

lemma ipv6_word_digits_hex:
  "ipv6_word_digits w ds = Some v \<Longrightarrow> list_all (\<lambda>c. std_digit 16 c \<noteq> None) ds"
  by (induction w ds rule: ipv6_word_digits.induct)
    (auto simp: hex_digit_value_std split: option.splits)

lemma parse_ipv4_chars: "parse_ipv4 s = Some bs \<Longrightarrow> list_all authority_char s"
proof -
  assume "parse_ipv4 s = Some bs"
  then obtain a b c d where "s = ipv4_text [a, b, c, d]" using parse_ipv4_Some by blast
  moreover have "list_all authority_char (print_base 10 n)" for n
    by (rule std_digit_authority(1), rule print_base_digits) simp_all
  moreover have "authority_char CHR ''.''" by (simp add: authority_char_def)
  ultimately show ?thesis by (simp add: ipv4_text_def)
qed

lemma append_ipv6_from_chars:
  "append_ipv6_from s i ws t = Some r \<Longrightarrow> list_all authority_char (drop i s)"
proof (induction s i ws t rule: append_ipv6_from.induct)
  case (1 s i ws t)
  show ?case
  proof (cases "i \<le> length s")
    case False
    then show ?thesis by simp
  next
    case True
    have colon: "authority_char CHR '':''" by (simp add: authority_char_def)
    show ?thesis
    proof (cases "sv_find CHR '':'' s i")
      case None
      let ?c = "sv_substr s i (length s - i)"
      have "?c = drop i s" by (simp add: sv_substr_def)
      moreover have "(\<exists>bs. parse_ipv4 ?c = Some bs) \<or> (\<exists>w. parse_ipv6_word ?c = Some w)"
        using "1.prems" True None
        by (subst (asm) append_ipv6_from.simps) (auto simp: Let_def split: if_splits option.splits)
      ultimately show ?thesis
        by (auto simp: parse_ipv6_word_def split: if_splits
            dest: parse_ipv4_chars std_digit_authority(2) [OF ipv6_word_digits_hex])
    next
      case (Some e)
      let ?c = "sv_substr s i (e - i)"
      from "1.prems" True Some obtain w where c: "CHR ''.'' \<notin> set ?c"
        and w: "parse_ipv6_word ?c = Some w" "length ws \<noteq> 8"
        and r: "append_ipv6_from s (e + 1) (ws @ [w]) t = Some r"
        by (subst (asm) append_ipv6_from.simps) (auto simp: Let_def split: if_splits option.splits)
      have "list_all authority_char (drop (e + 1) s)"
        using "1.IH" [OF True refl refl refl] Some c w r by simp
      moreover have "list_all authority_char ?c"
        using w(1) by (auto simp: parse_ipv6_word_def split: if_splits
            dest: std_digit_authority(2) [OF ipv6_word_digits_hex])
      moreover from Some obtain ys where "drop i s = ?c @ CHR '':'' # ys" "drop (e + 1) s = ys"
        by (rule sv_find_SomeE)
      ultimately show ?thesis using colon by simp
    qed
  qed
qed

lemma append_ipv6_words_chars: "append_ipv6_words s t = Some r \<Longrightarrow> list_all authority_char s"
  using append_ipv6_from_chars [of s 0] by (auto simp: append_ipv6_words_def split: if_splits)

lemma find_sub_SomeD: "find_sub pat s = Some i \<Longrightarrow> s = take i s @ pat @ drop (i + length pat) s"
proof (induction s arbitrary: i)
  case Nil
  then show ?case by (simp split: if_splits)
next
  case (Cons x xs)
  show ?case
  proof (cases "prefix pat (x # xs)")
    case True
    with Cons.prems show ?thesis by (auto simp: prefix_def)
  next
    case False
    with Cons.prems obtain j where "find_sub pat xs = Some j" "i = Suc j" by auto
    with Cons.IH show ?thesis by simp
  qed
qed

lemma ipv6_address_chars: "is_valid_ipv6_address s \<Longrightarrow> list_all authority_char s"
proof -
  assume v: "is_valid_ipv6_address s"
  then have none: "parse_ipv4 s = None"
    by (auto simp: is_valid_ipv6_address_def parse_numeric_address_def split: option.splits)
  show ?thesis
  proof (cases "sv_find_sub ''::'' s 0")
    case None
    with v none obtain r where "append_ipv6_words s True = Some r"
      by (auto simp: is_valid_ipv6_address_def parse_numeric_address_def Let_def split: option.splits)
    then show ?thesis by (rule append_ipv6_words_chars)
  next
    case (Some c)
    with v none obtain l r where "append_ipv6_words (take c s) False = Some l"
      "append_ipv6_words (drop (c + 2) s) True = Some r"
      by (auto simp: is_valid_ipv6_address_def parse_numeric_address_def Let_def
          split: option.splits if_splits)
    then have "list_all authority_char (take c s)" "list_all authority_char (drop (c + 2) s)"
      using append_ipv6_words_chars by blast+
    moreover have "s = take c s @ ''::'' @ drop (c + 2) s"
      using Some find_sub_SomeD [of "''::''" s c] by (simp add: sv_find_sub_def)
    moreover have "list_all authority_char ''::''" by (simp add: authority_char_def)
    ultimately show ?thesis by (metis list_all_append)
  qed
qed

lemma port_chars: "is_valid_port p \<Longrightarrow> list_all authority_char p"
  by (auto simp: is_valid_port_iff list_all_iff authority_char_def byte_class)

lemma hostname_chars: "is_valid_hostname h \<Longrightarrow> list_all authority_char h"
proof -
  assume v: "is_valid_hostname h"
  then have ne: "h \<noteq> []" by (auto simp: is_valid_hostname_def)
  show ?thesis
  proof (cases "last h = CHR ''.''")
    case True
    with v ne have "list_all authority_char (butlast h)"
      using hostname_labels_chars [of "butlast h" 0]
      by (auto simp: is_valid_hostname_def Let_def split: if_splits)
    moreover have "h = butlast h @ [CHR ''.'']" using ne True by (metis append_butlast_last_id)
    moreover have "list_all authority_char [CHR ''.'']" by (simp add: authority_char_def)
    ultimately show ?thesis by (metis list_all_append)
  next
    case False
    with v ne show ?thesis
      using hostname_labels_chars [of h 0] by (auto simp: is_valid_hostname_def split: if_splits)
  qed
qed

lemma sv_find_0_split: "sv_find c s 0 = Some i \<Longrightarrow> s = take i s @ c # drop (i + 1) s"
  using find_index_split [of "(=) c" s i] by (auto simp: sv_find_0)

lemma ip_literal_chars:
  assumes v: "is_valid_ip_literal_authority a" and h: "hd a = CHR ''[''"
  shows "list_all authority_char a"
proof -
  have ac: "authority_char CHR ''[''" "authority_char CHR '']''" "authority_char CHR '':''"
    by (simp_all add: authority_char_def)
  from v obtain k r where k: "sv_find CHR '']'' a 0 = Some k"
    and ip: "is_valid_ipv6_address (sv_substr a 1 (k - 1))"
    and r: "r = drop (k + 1) a" and rem: "r = [] \<or> prefix '':'' r \<and> is_valid_port (drop 1 r)"
    by (auto simp: is_valid_ip_literal_authority_def Let_def split: option.splits if_splits)
  have split: "a = take k a @ CHR '']'' # drop (k + 1) a" using sv_find_0_split [OF k] .
  have "k \<noteq> 0"
  proof
    assume "k = 0"
    then have "hd a = CHR '']''" by (subst split) simp
    with h show False by simp
  qed
  with h split have "take k a = CHR ''['' # sv_substr a 1 (k - 1)"
    by (cases a; cases k) (auto simp: sv_substr_def)
  with ip ac have "list_all authority_char (take k a)" by (simp add: ipv6_address_chars)
  moreover have "list_all authority_char (drop (k + 1) a)"
    unfolding r [symmetric] using rem ac by (cases r) (auto dest: port_chars)
  ultimately show ?thesis using split ac by (metis list_all_append list.pred_inject(2))
qed

lemma host_authority_chars:
  assumes "is_valid_host_authority a"
  shows "a \<noteq> [] \<and> list_all authority_char a"
proof (cases "hd a = CHR ''[''")
  case True
  with assms show ?thesis
    by (auto simp: is_valid_host_authority_def ip_literal_chars split: if_splits)
next
  case False
  have host: "looks_like_ipv4 h \<Longrightarrow> is_valid_ipv4_address h \<Longrightarrow> list_all authority_char h" for h
    by (auto simp: is_valid_ipv4_address_def dest: parse_ipv4_chars)
  show ?thesis
  proof (cases "sv_find CHR '':'' a 0")
    case None
    with assms False show ?thesis
      by (auto simp: is_valid_host_authority_def Let_def host hostname_chars split: if_splits)
  next
    case (Some c)
    with assms False have "list_all authority_char (take c a)" "is_valid_port (drop (c + 1) a)" "a \<noteq> []"
      by (auto simp: is_valid_host_authority_def Let_def host hostname_chars split: if_splits)
    moreover have "authority_char CHR '':''" by (simp add: authority_char_def)
    ultimately show ?thesis
      using sv_find_0_split [OF Some] by (metis list_all_append list.pred_inject(2) port_chars)
  qed
qed

text \<open>
  An accepted Host authority is nonempty and consists of letters, digits, hyphens, dots, colons
  and brackets only: no control byte, space, slash, at-sign, percent or non-ASCII byte reaches the
  consumers of the Host value.
\<close>

lemma host_authority_safe:
  assumes "is_valid_host_authority a"
  shows "a \<noteq> [] \<and> (\<forall>c\<in>set a. is_hostname_character c \<or> c \<in> {CHR ''.'', CHR '':'', CHR ''['', CHR '']''})"
  using host_authority_chars [OF assms] by (auto simp: list_all_iff authority_char_def)

end
