(* ===== verification/Request_Target.thy ===== *)
theory Request_Target
  imports Http_Types Host_Authority
begin

text \<open>
  Request targets and versions: \<^verbatim>\<open>src/http/request/detail/request_target.cpp\<close>. The scan over the
  target keeps the source's flag that a query has started; a percent escape consumes three bytes.
\<close>

section \<open>Definitions\<close>

record parsed_target =
  routing_target :: string
  target_authority :: string

definition is_path_character :: "char \<Rightarrow> bool" where [byte_class]:
  "is_path_character byte \<longleftrightarrow>
     ((CHR ''0'' \<le> byte \<and> byte \<le> CHR ''9'') \<or> (CHR ''A'' \<le> byte \<and> byte \<le> CHR ''Z'') \<or>
      (CHR ''a'' \<le> byte \<and> byte \<le> CHR ''z'')) \<or>
     byte \<in> set (''-._~!$&'' @ [CHR 0x27] @ ''()*+,;=:@'')"

fun target_bytes :: "bool \<Rightarrow> string \<Rightarrow> bool" where
  "target_bytes query_started [] = True"
| "target_bytes query_started (byte # rest) =
     (if byte = CHR ''%'' then
        (case rest of
           d1 # d2 # rest' \<Rightarrow>
             (if is_ascii_hexadecimal_digit d1 \<and> is_ascii_hexadecimal_digit d2
              then target_bytes query_started rest' else False)
         | _ \<Rightarrow> False)
      else if \<not> query_started \<and> byte = CHR ''?'' then target_bytes True rest
      else if byte = CHR ''/'' \<or> (query_started \<and> byte = CHR ''?'') then target_bytes query_started rest
      else if \<not> is_path_character byte then False
      else target_bytes query_started rest)"

definition valid_request_target :: "string \<Rightarrow> bool" where
  "valid_request_target target =
     (if target = [] \<or> hd target \<noteq> CHR ''/'' then False else target_bytes False target)"

definition http_scheme_prefix :: "string \<Rightarrow> bool" where
  "http_scheme_prefix target \<longleftrightarrow>
     \<not> (length target < 7 \<or> (target ! 0 \<noteq> CHR ''h'' \<and> target ! 0 \<noteq> CHR ''H'') \<or>
        (target ! 1 \<noteq> CHR ''t'' \<and> target ! 1 \<noteq> CHR ''T'') \<or>
        (target ! 2 \<noteq> CHR ''t'' \<and> target ! 2 \<noteq> CHR ''T'') \<or>
        (target ! 3 \<noteq> CHR ''p'' \<and> target ! 3 \<noteq> CHR ''P'') \<or>
        sv_substr target 4 3 \<noteq> ''://'')"

definition parse_request_target ::
    "string \<Rightarrow> http_method \<Rightarrow> nat \<Rightarrow> (parse_error, parsed_target) result" where
  "parse_request_target target meth offset =
     (if target = ''*'' then
        (if meth \<noteq> Options then parse_fail Invalid_request_target offset
         else Inr \<lparr>routing_target = target, target_authority = []\<rparr>)
      else if prefix ''/'' target then
        (if valid_request_target target
         then Inr \<lparr>routing_target = target, target_authority = []\<rparr>
         else parse_fail Invalid_request_target offset)
      else if \<not> http_scheme_prefix target then parse_fail Invalid_request_target offset
      else
        (let absolute = drop 7 target;
             path_start = find_index (\<lambda>c. c \<in> set ''/?#'') absolute;
             authority = (case path_start of None \<Rightarrow> absolute | Some p \<Rightarrow> take p absolute)
         in if \<not> is_valid_host_authority authority then parse_fail Invalid_request_target offset
            else (case path_start of
                    None \<Rightarrow> Inr \<lparr>routing_target = ''/'', target_authority = authority\<rparr>
                  | Some p \<Rightarrow>
                      (let path = drop p absolute;
                           routing = (if prefix ''?'' path then CHR ''/'' # path else path)
                       in if \<not> valid_request_target routing
                          then parse_fail Invalid_request_target offset
                          else Inr \<lparr>routing_target = routing, target_authority = authority\<rparr>))))"

definition validate_request_version :: "string \<Rightarrow> nat \<Rightarrow> (parse_error, unit) result" where
  "validate_request_version version offset =
     (if length version \<noteq> 8 \<or> \<not> prefix ''HTTP/'' version \<or> version ! 6 \<noteq> CHR ''.'' \<or>
         version ! 5 < CHR ''0'' \<or> version ! 5 > CHR ''9'' \<or>
         version ! 7 < CHR ''0'' \<or> version ! 7 > CHR ''9''
      then parse_fail Malformed_http_version offset
      else if version ! 5 \<noteq> CHR ''1'' \<or> version ! 7 = CHR ''0''
      then parse_fail Unsupported_http_version offset
      else Inr ())"

section \<open>Lemmas\<close>

definition target_char :: "char \<Rightarrow> bool" where
  "target_char c \<longleftrightarrow> is_path_character c \<or> c \<in> set ''%/?''"

lemma target_bytes_chars: "target_bytes q s \<Longrightarrow> list_all target_char s"
proof (induction q s rule: target_bytes.induct)
  case (2 q byte rest)
  have hex: "is_ascii_hexadecimal_digit d \<Longrightarrow> target_char d" for d
    by (auto simp: target_char_def byte_class less_eq_char_def)
  show ?case
    using 2 hex by (auto simp: target_char_def split: if_splits list.splits)
qed simp

lemma target_char_no_space: "target_char c \<Longrightarrow> CHR 0x20 < c \<and> c < CHR 0x7F"
  by (auto simp: target_char_def byte_class less_eq_char_def less_char_def)

text \<open>
  Every accepted target routes as an origin-form path or as the server-wide asterisk of OPTIONS,
  and an authority is present only when it is a valid one.
\<close>

lemma parse_request_target_ok:
  assumes "parse_request_target t m off = Inr r"
  shows "(routing_target r = ''*'' \<and> m = Options \<and> target_authority r = []) \<or>
         (valid_request_target (routing_target r) \<and>
          (target_authority r = [] \<or> is_valid_host_authority (target_authority r)))"
proof -
  have "valid_request_target ''/''" by (simp add: valid_request_target_def)
  with assms show ?thesis
    by (auto simp: parse_request_target_def Let_def split: if_splits option.splits)
qed

lemma validate_request_version_1_1 [simp]: "validate_request_version ''HTTP/1.1'' off = Inr ()"
  by (simp add: validate_request_version_def less_char_def)

end
