(* ===== verification/Request_Parser.thy ===== *)
theory Request_Parser
  imports Request_Target
begin

text \<open>
  The request-head parser of \<^verbatim>\<open>src/http/request/http_request_parser.cpp\<close>: bounded scanning for line
  terminators, the request line, header fields, the Host and framing rules, and
  \<open>parse_http_request_head\<close> itself. \<open>Inr None\<close> is the source's "incomplete" result.
\<close>

section \<open>Definitions\<close>

function find_request_line_end_from ::
    "string \<Rightarrow> nat \<Rightarrow> nat \<Rightarrow> (parse_error, nat option) result" where
  "find_request_line_end_from input maximum_size index =
     (if index < length input then
        (if input ! index = LF then parse_fail Invalid_line_ending index
         else if input ! index = CR then
           (if index + 1 \<ge> length input then Inr None
            else if input ! (index + 1) \<noteq> LF then parse_fail Invalid_line_ending index
            else if index > maximum_size then parse_fail Request_line_too_large maximum_size
            else Inr (Some index))
         else if index \<ge> maximum_size then parse_fail Request_line_too_large maximum_size
         else find_request_line_end_from input maximum_size (index + 1))
      else Inr None)"
  by pat_completeness auto
termination
  by (relation "measure (\<lambda>(input, m, index). length input - index)") auto

declare find_request_line_end_from.simps [simp del]

definition find_request_line_end :: "string \<Rightarrow> nat \<Rightarrow> (parse_error, nat option) result" where
  "find_request_line_end input maximum_size = find_request_line_end_from input maximum_size 0"

record header_line_search =
  search_header_start :: nat
  search_maximum :: nat

function find_header_line_end_from ::
    "string \<Rightarrow> header_line_search \<Rightarrow> nat \<Rightarrow> (parse_error, nat option) result" where
  "find_header_line_end_from input search index =
     (if index < length input then
        (if index - search_header_start search \<ge> search_maximum search
         then parse_fail Headers_too_large (search_header_start search + search_maximum search)
         else if input ! index = LF then parse_fail Invalid_line_ending index
         else if input ! index \<noteq> CR then find_header_line_end_from input search (index + 1)
         else if index + 1 \<ge> length input then Inr None
         else if input ! (index + 1) \<noteq> LF then parse_fail Invalid_line_ending index
         else if index + 2 - search_header_start search > search_maximum search
         then parse_fail Headers_too_large (search_header_start search + search_maximum search)
         else Inr (Some index))
      else Inr None)"
  by pat_completeness auto
termination
  by (relation "measure (\<lambda>(input, search, index). length input - index)") auto

declare find_header_line_end_from.simps [simp del]

definition parse_method :: "string \<Rightarrow> nat \<Rightarrow> (parse_error, http_method) result" where
  "parse_method meth offset =
     (if meth = [] then parse_fail Malformed_request_line offset
      else if \<not> list_all is_http_token_character meth then parse_fail Invalid_method offset
      else if meth = ''GET'' then Inr Get
      else if meth = ''HEAD'' then Inr Head
      else if meth = ''POST'' then Inr Post
      else if meth = ''PUT'' then Inr Put
      else if meth = ''DELETE'' then Inr Delete_method
      else if meth = ''OPTIONS'' then Inr Options
      else parse_fail Unsupported_method offset)"

definition parse_content_length :: "string \<Rightarrow> nat \<Rightarrow> (parse_error, nat) result" where
  "parse_content_length v offset =
     (if v = [] then parse_fail Invalid_content_length offset
      else (case from_chars (2 ^ 64) 10 v of
              (Inl _, _) \<Rightarrow> parse_fail Invalid_content_length offset
            | (Inr n, rest) \<Rightarrow>
                if rest \<noteq> [] then parse_fail Invalid_content_length offset else Inr n))"

definition parse_request_line ::
    "string \<Rightarrow> (parse_error, http_method \<times> parsed_target) result" where
  "parse_request_line line =
     (case sv_find CHR '' '' line 0 of
        None \<Rightarrow> parse_fail Malformed_request_line 0
      | Some first_space \<Rightarrow>
          (case sv_find CHR '' '' line (first_space + 1) of
             None \<Rightarrow> parse_fail Malformed_request_line (first_space + 1)
           | Some second_space \<Rightarrow>
               (if sv_find CHR '' '' line (second_space + 1) \<noteq> None
                then parse_fail Malformed_request_line (first_space + 1)
                else
                  (case parse_method (take first_space line) 0 of
                     Inl e \<Rightarrow> Inl e
                   | Inr meth \<Rightarrow>
                       (case parse_request_target
                               (sv_substr line (first_space + 1) (second_space - first_space - 1))
                               meth (first_space + 1) of
                          Inl e \<Rightarrow> Inl e
                        | Inr target \<Rightarrow>
                            (case validate_request_version (drop (second_space + 1) line)
                                    (second_space + 1) of
                               Inl e \<Rightarrow> Inl e
                             | Inr _ \<Rightarrow> Inr (meth, target)))))))"

record parsed_header_field =
  parsed_field :: http_header
  parsed_line_start :: nat
  parsed_value_start :: nat

definition parse_header_field :: "string \<Rightarrow> nat \<Rightarrow> (parse_error, parsed_header_field) result" where
  "parse_header_field line line_start =
     (if line \<noteq> [] \<and> (hd line = CHR '' '' \<or> hd line = HTAB) then parse_fail Folded_header line_start
      else (case sv_find CHR '':'' line 0 of
              None \<Rightarrow> parse_fail Malformed_header line_start
            | Some colon \<Rightarrow>
                (if colon = 0 then parse_fail Malformed_header line_start
                 else
                   (let name = take colon line in
                    if \<not> list_all is_http_token_character name
                    then parse_fail Malformed_header line_start
                    else
                      (let untrimmed_value = drop (colon + 1) line;
                           leading_whitespace =
                             find_index (\<lambda>c. c \<noteq> CHR '' '' \<and> c \<noteq> HTAB) untrimmed_value;
                           v = trim_optional_whitespace untrimmed_value
                       in if \<not> list_all is_http_field_value_byte v
                          then parse_fail Malformed_header (line_start + colon + 1)
                          else Inr
                            \<lparr>parsed_field = \<lparr>field_name = name, field_value = v\<rparr>,
                             parsed_line_start = line_start,
                             parsed_value_start =
                               line_start + colon + 1 +
                               (case leading_whitespace of
                                  None \<Rightarrow> length untrimmed_value
                                | Some w \<Rightarrow> w)\<rparr>)))))"

record header_parse_state =
  state_headers :: "http_header list"
  state_body_size :: "nat option"
  state_host_seen :: bool
  state_te_seen :: bool
  state_te :: string
  state_te_offset :: nat

definition initial_header_state :: header_parse_state where
  "initial_header_state =
     \<lparr>state_headers = [], state_body_size = None, state_host_seen = False, state_te_seen = False,
      state_te = [], state_te_offset = 0\<rparr>"

definition apply_header_field ::
    "parsed_header_field \<Rightarrow> request_limits \<Rightarrow> header_parse_state \<Rightarrow>
     (parse_error, header_parse_state) result" where
  "apply_header_field parsed limits state =
     (let field = parsed_field parsed;
          push = (\<lambda>st. st\<lparr>state_headers := state_headers st @ [field]\<rparr>)
      in if ascii_case_insensitive_equal (field_name field) ''Host'' then
           (if state_host_seen state then parse_fail Duplicate_host (parsed_line_start parsed)
            else if field_value field = [] then parse_fail Missing_host (parsed_value_start parsed)
            else if \<not> is_valid_host_authority (field_value field)
            then parse_fail Invalid_host (parsed_value_start parsed)
            else Inr (push (state\<lparr>state_host_seen := True\<rparr>)))
         else if ascii_case_insensitive_equal (field_name field) ''Content-Length'' then
           (if state_body_size state \<noteq> None
            then parse_fail Duplicate_content_length (parsed_line_start parsed)
            else (case parse_content_length (field_value field) (parsed_value_start parsed) of
                    Inl e \<Rightarrow> Inl e
                  | Inr len \<Rightarrow>
                      (if len > max_body_bytes limits
                       then parse_fail Body_too_large (parsed_value_start parsed)
                       else Inr (push (state\<lparr>state_body_size := Some len\<rparr>)))))
         else if ascii_case_insensitive_equal (field_name field) ''Transfer-Encoding'' then
           (if state_te_seen state
            then parse_fail Invalid_transfer_encoding (parsed_line_start parsed)
            else Inr (push (state\<lparr>state_te_seen := True, state_te := field_value field,
                                  state_te_offset := parsed_value_start parsed\<rparr>)))
         else Inr (push state))"

definition validate_framing :: "header_parse_state \<Rightarrow> (parse_error, unit) result" where
  "validate_framing state =
     (if \<not> state_te_seen state then Inr ()
      else if state_body_size state \<noteq> None
      then parse_fail Conflicting_message_length (state_te_offset state)
      else if ascii_case_insensitive_equal (state_te state) ''chunked'' then Inr ()
      else parse_fail
             (if state_te state \<noteq> [] \<and> list_all is_http_token_character (state_te state)
              then Unsupported_transfer_encoding else Invalid_transfer_encoding)
             (state_te_offset state))"

record parsed_header_section =
  section_headers :: "http_header list"
  section_body_start :: nat
  section_body_size :: nat
  section_chunked :: bool

lemma find_header_line_end_bounds [scan_facts]:
  "find_header_line_end_from input search i = Inr (Some e) \<Longrightarrow>
     i \<le> e \<and> e + 1 < length input \<and> input ! e = CR \<and> input ! (e + 1) = LF \<and>
     e + 2 - search_header_start search \<le> search_maximum search"
proof (induction input search i rule: find_header_line_end_from.induct)
  case (1 input search i)
  then show ?case
    by (subst (asm) (2) find_header_line_end_from.simps) (fastforce split: if_splits)
qed

function parse_header_section_from ::
    "string \<Rightarrow> nat \<Rightarrow> request_limits \<Rightarrow> nat \<Rightarrow> header_parse_state \<Rightarrow>
     (parse_error, parsed_header_section option) result" where
  "parse_header_section_from input header_start limits line_start state =
     (case find_header_line_end_from input
             \<lparr>search_header_start = header_start, search_maximum = max_header_bytes limits\<rparr>
             line_start of
        Inl e \<Rightarrow> Inl e
      | Inr None \<Rightarrow> Inr None
      | Inr (Some line_end) \<Rightarrow>
          (if line_end = line_start then
             (if \<not> state_host_seen state then parse_fail Missing_host header_start
              else (case validate_framing state of
                      Inl e \<Rightarrow> Inl e
                    | Inr _ \<Rightarrow>
                        Inr (Some \<lparr>section_headers = state_headers state,
                                   section_body_start = line_end + 2,
                                   section_body_size =
                                     (case state_body_size state of None \<Rightarrow> 0 | Some n \<Rightarrow> n),
                                   section_chunked = state_te_seen state\<rparr>)))
           else if length (state_headers state) \<ge> max_header_count limits
           then parse_fail Too_many_headers line_start
           else (case parse_header_field
                        (sv_substr input line_start (line_end - line_start)) line_start of
                   Inl e \<Rightarrow> Inl e
                 | Inr field \<Rightarrow>
                     (case apply_header_field field limits state of
                        Inl e \<Rightarrow> Inl e
                      | Inr state' \<Rightarrow>
                          parse_header_section_from input header_start limits (line_end + 2)
                            state'))))"
  by pat_completeness auto
termination
  by (relation "measure (\<lambda>(input, hs, limits, line_start, state). length input - line_start)")
    (auto dest!: find_header_line_end_bounds)

declare parse_header_section_from.simps [simp del]

definition parse_header_section ::
    "string \<Rightarrow> nat \<Rightarrow> request_limits \<Rightarrow> (parse_error, parsed_header_section option) result" where
  "parse_header_section input header_start limits =
     parse_header_section_from input header_start limits header_start initial_header_state"

text \<open>RFC 9112 absolute-form authority overrides Host for all downstream consumers.\<close>

definition override_host :: "string \<Rightarrow> http_header list \<Rightarrow> http_header list" where
  "override_host authority hs =
     (if authority = [] then hs
      else map (\<lambda>f. if ascii_case_insensitive_equal (field_name f) ''Host''
                    then f\<lparr>field_value := authority\<rparr> else f) hs)"

definition parse_http_request_head ::
    "string \<Rightarrow> request_limits \<Rightarrow> (parse_error, request_head option) result" where
  "parse_http_request_head input limits =
     (if input = [] then Inr None
      else (case find_request_line_end input (max_request_line_bytes limits) of
              Inl e \<Rightarrow> Inl e
            | Inr None \<Rightarrow> Inr None
            | Inr (Some request_line_end) \<Rightarrow>
                (case parse_request_line (take request_line_end input) of
                   Inl e \<Rightarrow> Inl e
                 | Inr (meth, target) \<Rightarrow>
                     (case parse_header_section input (request_line_end + 2) limits of
                        Inl e \<Rightarrow> Inl e
                      | Inr None \<Rightarrow> Inr None
                      | Inr (Some parsed) \<Rightarrow>
                          Inr (Some
                            \<lparr>head_method = meth, head_target = routing_target target,
                             head_fields =
                               override_host (target_authority target) (section_headers parsed),
                             consumed_bytes = section_body_start parsed,
                             content_length = section_body_size parsed,
                             head_chunked = section_chunked parsed\<rparr>)))))"

section \<open>Scanning\<close>

lemma find_request_line_end_bounds [scan_facts]:
  "find_request_line_end_from input m i = Inr (Some e) \<Longrightarrow>
     i \<le> e \<and> e + 1 < length input \<and> e \<le> m \<and> input ! e = CR \<and> input ! (e + 1) = LF"
proof (induction input m i rule: find_request_line_end_from.induct)
  case (1 input m i)
  then show ?case
    by (subst (asm) (2) find_request_line_end_from.simps) (fastforce split: if_splits)
qed

lemma find_request_line_end_none:
  "find_request_line_end_from input m i = Inr None \<Longrightarrow> i \<le> m \<Longrightarrow> length input \<le> m + 1"
proof (induction input m i rule: find_request_line_end_from.induct)
  case (1 input m i)
  then show ?case
    by (subst (asm) (2) find_request_line_end_from.simps) (fastforce split: if_splits)
qed

lemma find_header_line_end_none:
  "find_header_line_end_from input search i = Inr None \<Longrightarrow> i \<le> search_header_start search + search_maximum search \<Longrightarrow>
     length input \<le> search_header_start search + search_maximum search"
proof (induction input search i rule: find_header_line_end_from.induct)
  case (1 input search i)
  show ?case
  proof (cases "i < length input")
    case False
    with "1.prems" show ?thesis by simp
  next
    case True
    with "1.prems" have lt: "i - search_header_start search < search_maximum search"
      by (subst (asm) find_header_line_end_from.simps) (auto split: if_splits)
    show ?thesis
    proof (cases "input ! i = CR")
      case True
      with \<open>i < length input\<close> lt "1.prems" have "i + 1 \<ge> length input"
        by (subst (asm) find_header_line_end_from.simps) (auto split: if_splits)
      with lt show ?thesis by linarith
    next
      case False
      with \<open>i < length input\<close> lt "1.prems" have
        "input ! i \<noteq> LF" "find_header_line_end_from input search (i + 1) = Inr None"
        by (subst (asm) find_header_line_end_from.simps, auto split: if_splits)+
      with 1 True False lt show ?thesis by simp
    qed
  qed
qed

text \<open>A decided scan stays decided, with the same result, when more bytes arrive.\<close>

lemma find_request_line_end_append:
  "find_request_line_end_from input m i \<noteq> Inr None \<Longrightarrow>
     find_request_line_end_from (input @ later) m i = find_request_line_end_from input m i"
proof (induction input m i rule: find_request_line_end_from.induct)
  case (1 input m i)
  then show ?case
    by (subst find_request_line_end_from.simps, subst (2) find_request_line_end_from.simps,
        subst (asm) (3) find_request_line_end_from.simps)
      (auto simp: nth_append split: if_splits)
qed

lemma find_header_line_end_append:
  "find_header_line_end_from input search i \<noteq> Inr None \<Longrightarrow>
     find_header_line_end_from (input @ later) search i = find_header_line_end_from input search i"
proof (induction input search i rule: find_header_line_end_from.induct)
  case (1 input search i)
  then show ?case
    by (subst find_header_line_end_from.simps, subst (2) find_header_line_end_from.simps,
        subst (asm) (3) find_header_line_end_from.simps)
      (auto simp: nth_append split: if_splits)
qed

lemma parse_header_section_append:
  "parse_header_section_from input hs limits ls st \<noteq> Inr None \<Longrightarrow>
     parse_header_section_from (input @ later) hs limits ls st =
       parse_header_section_from input hs limits ls st"
proof (induction input hs limits ls st rule: parse_header_section_from.induct)
  case (1 input hs limits ls st)
  let ?search = "\<lparr>search_header_start = hs, search_maximum = max_header_bytes limits\<rparr>"
  let ?find = "find_header_line_end_from input ?search ls"
  have "?find \<noteq> Inr None"
    using "1.prems" by (subst (asm) parse_header_section_from.simps) auto
  note same = find_header_line_end_append [OF this, of later]
  show ?case
  proof (cases ?find)
    case (Inl e)
    with same show ?thesis by (simp add: parse_header_section_from.simps [of _ hs limits ls st])
  next
    case (Inr oe)
    with \<open>?find \<noteq> Inr None\<close> obtain e where e: "?find = Inr (Some e)" by auto
    then have "sv_substr (input @ later) ls (e - ls) = sv_substr input ls (e - ls)"
      using find_header_line_end_bounds [OF e] by (simp add: sv_substr_def)
    with 1 same e show ?thesis
      by (auto simp: parse_header_section_from.simps [of _ hs limits ls st]
          split: sum.splits if_splits)
  qed
qed

lemma parse_http_request_head_append:
  assumes "parse_http_request_head input limits \<noteq> Inr None"
  shows "parse_http_request_head (input @ later) limits = parse_http_request_head input limits"
proof -
  let ?find = "find_request_line_end input (max_request_line_bytes limits)"
  from assms have ne: "input \<noteq> []" "?find \<noteq> Inr None"
    by (auto simp: parse_http_request_head_def split: if_splits)
  have same: "find_request_line_end (input @ later) (max_request_line_bytes limits) = ?find"
    using ne(2) by (simp add: find_request_line_end_def find_request_line_end_append)
  show ?thesis
  proof (cases ?find)
    case (Inl e)
    with same ne show ?thesis by (simp add: parse_http_request_head_def)
  next
    case (Inr oe)
    with ne obtain e where e: "?find = Inr (Some e)" by auto
    then have "take e (input @ later) = take e input"
      using find_request_line_end_bounds [of input "max_request_line_bytes limits" 0 e]
      by (simp add: find_request_line_end_def)
    with e same ne assms show ?thesis
      by (auto simp: parse_http_request_head_def parse_header_section_def
          parse_header_section_append split: sum.splits option.splits)
  qed
qed

section \<open>The header state\<close>

text \<open>
  What the accumulated header state says about the fields seen so far: at most one Host, which is a
  valid authority; a Content-Length exactly when a size is recorded, and then only one, whose value
  is that size within the body limit; a Transfer-Encoding exactly when it was seen, and only one.
\<close>

definition framing_fields :: "request_limits \<Rightarrow> header_parse_state \<Rightarrow> bool" where
  "framing_fields limits st \<longleftrightarrow>
     (case request_headers (state_headers st) ''Host'' of
        [] \<Rightarrow> \<not> state_host_seen st
      | [h] \<Rightarrow> state_host_seen st \<and> is_valid_host_authority h
      | _ \<Rightarrow> False) \<and>
     (case state_body_size st of
        None \<Rightarrow> request_headers (state_headers st) ''Content-Length'' = []
      | Some n \<Rightarrow> (\<exists>v. request_headers (state_headers st) ''Content-Length'' = [v] \<and>
                      v \<noteq> [] \<and> list_all is_ascii_digit v \<and> n = digits_value 10 v) \<and>
                   n < 2 ^ 64 \<and> n \<le> max_body_bytes limits) \<and>
     request_headers (state_headers st) ''Transfer-Encoding'' =
       (if state_te_seen st then [state_te st] else [])"

definition well_formed_field :: "http_header \<Rightarrow> bool" where
  "well_formed_field f \<longleftrightarrow>
     field_name f \<noteq> [] \<and> list_all is_http_token_character (field_name f) \<and>
     list_all is_http_field_value_byte (field_value f) \<and>
     trim_optional_whitespace (field_value f) = field_value f"

definition header_state_ok :: "request_limits \<Rightarrow> header_parse_state \<Rightarrow> bool" where
  "header_state_ok limits st \<longleftrightarrow>
     framing_fields limits st \<and> list_all well_formed_field (state_headers st) \<and>
     length (state_headers st) \<le> max_header_count limits"

lemma ci_equal_length: "ascii_case_insensitive_equal a b \<Longrightarrow> length a = length b"
  by (auto simp: ascii_case_insensitive_equal_def split: if_splits)

lemma ci_names_distinct:
  "ascii_case_insensitive_equal n ''Host'' \<Longrightarrow>
     \<not> ascii_case_insensitive_equal n ''Content-Length'' \<and>
     \<not> ascii_case_insensitive_equal n ''Transfer-Encoding''"
  "ascii_case_insensitive_equal n ''Content-Length'' \<Longrightarrow>
     \<not> ascii_case_insensitive_equal n ''Host'' \<and>
     \<not> ascii_case_insensitive_equal n ''Transfer-Encoding''"
  "ascii_case_insensitive_equal n ''Transfer-Encoding'' \<Longrightarrow>
     \<not> ascii_case_insensitive_equal n ''Host'' \<and>
     \<not> ascii_case_insensitive_equal n ''Content-Length''"
  by (auto dest!: ci_equal_length)

lemma request_headers_snoc:
  "request_headers (hs @ [f]) n =
     request_headers hs n @
       (if ascii_case_insensitive_equal (field_name f) n then [field_value f] else [])"
  by (simp add: request_headers_def)

lemma parse_content_length_Inr_iff:
  "parse_content_length v off = Inr n \<longleftrightarrow>
     v \<noteq> [] \<and> list_all is_ascii_digit v \<and> n = digits_value 10 v \<and> n < 2 ^ 64"
proof -
  have "list_all is_ascii_digit v \<longleftrightarrow> list_all (\<lambda>c. std_digit 10 c \<noteq> None) v"
    by (simp add: list_all_iff is_ascii_digit_std)
  moreover have "parse_content_length v off = Inr n \<longleftrightarrow>
      v \<noteq> [] \<and> from_chars (2 ^ 64) 10 v = (Inr n, [])"
    by (auto simp: parse_content_length_def split: prod.splits sum.splits)
  ultimately show ?thesis by (auto simp: from_chars_Inr_iff)
qed

lemma trim_idem: "trim_optional_whitespace (trim_optional_whitespace s) = trim_optional_whitespace s"
proof (cases "trim_optional_whitespace s = []")
  case True
  show ?thesis unfolding True by (simp add: trim_optional_whitespace_eq)
next
  case False
  let ?t = "trim_optional_whitespace s"
  have "dropWhile is_ows ?t = ?t" using trim_hd [OF False] False by (cases ?t) auto
  moreover have "dropWhile is_ows (rev ?t) = rev ?t"
    using trim_last [OF False] False by (cases "rev ?t") (auto simp: last_rev hd_rev [symmetric])
  ultimately show ?thesis by (subst trim_optional_whitespace_eq) simp
qed

lemma parse_header_field_ok:
  "parse_header_field line ls = Inr p \<Longrightarrow> well_formed_field (parsed_field p)"
  by (auto simp: parse_header_field_def well_formed_field_def Let_def trim_idem
      split: if_splits option.splits dest: sv_find_Some)

lemma apply_header_field_headers:
  "apply_header_field p limits st = Inr st' \<Longrightarrow>
     state_headers st' = state_headers st @ [parsed_field p]"
  by (auto simp: apply_header_field_def Let_def split: if_splits sum.splits)

lemma apply_header_field_framing:
  assumes "framing_fields limits st" "apply_header_field p limits st = Inr st'"
  shows "framing_fields limits st'"
proof -
  let ?n = "field_name (parsed_field p)" and ?v = "field_value (parsed_field p)"
  consider (host) "ascii_case_insensitive_equal ?n ''Host''"
    | (len) "ascii_case_insensitive_equal ?n ''Content-Length''"
    | (te) "ascii_case_insensitive_equal ?n ''Transfer-Encoding''"
    | (other) "\<not> ascii_case_insensitive_equal ?n ''Host''"
        "\<not> ascii_case_insensitive_equal ?n ''Content-Length''"
        "\<not> ascii_case_insensitive_equal ?n ''Transfer-Encoding''"
    by blast
  then show ?thesis
  proof cases
    case host
    note no = ci_names_distinct(1) [OF host]
    from host assms(2) have "\<not> state_host_seen st" "is_valid_host_authority ?v"
      "st' = st\<lparr>state_host_seen := True, state_headers := state_headers st @ [parsed_field p]\<rparr>"
      by (auto simp: apply_header_field_def Let_def split: if_splits)
    moreover from this(1) assms(1) have "request_headers (state_headers st) ''Host'' = []"
      by (auto simp: framing_fields_def split: list.splits)
    ultimately show ?thesis using assms(1) host no
      by (simp add: framing_fields_def request_headers_snoc
          cong: list.case_cong option.case_cong)
  next
    case len
    note no = ci_names_distinct(2) [OF len]
    from len no assms(2) obtain n where "state_body_size st = None" "n \<le> max_body_bytes limits"
      "parse_content_length ?v (parsed_value_start p) = Inr n"
      "st' = st\<lparr>state_body_size := Some n, state_headers := state_headers st @ [parsed_field p]\<rparr>"
      by (auto simp: apply_header_field_def Let_def split: if_splits sum.splits)
    with assms(1) len no show ?thesis
      by (simp add: framing_fields_def request_headers_snoc parse_content_length_Inr_iff
          cong: list.case_cong option.case_cong)
  next
    case te
    note no = ci_names_distinct(3) [OF te]
    from te no assms(2) have "\<not> state_te_seen st"
      "st' = st\<lparr>state_te_seen := True, state_te := ?v, state_te_offset := parsed_value_start p,
               state_headers := state_headers st @ [parsed_field p]\<rparr>"
      by (auto simp: apply_header_field_def Let_def split: if_splits)
    with assms(1) te no show ?thesis
      by (simp add: framing_fields_def request_headers_snoc
          cong: list.case_cong option.case_cong)
  next
    case other
    with assms show ?thesis
      by (auto simp: framing_fields_def apply_header_field_def Let_def request_headers_snoc
          cong: list.case_cong option.case_cong)
  qed
qed

text \<open>What a parsed header section guarantees: it is the image of a valid final header state.\<close>

lemma parse_header_section_ok:
  assumes "header_state_ok limits st"
    and "parse_header_section_from input hs limits ls st = Inr (Some r)"
  shows "\<exists>st'. header_state_ok limits st' \<and> state_host_seen st' \<and> validate_framing st' = Inr () \<and>
           section_headers r = state_headers st' \<and>
           section_body_size r = (case state_body_size st' of None \<Rightarrow> 0 | Some n \<Rightarrow> n) \<and>
           section_chunked r = state_te_seen st' \<and>
           section_body_start r \<le> length input \<and>
           section_body_start r - hs \<le> max_header_bytes limits"
  using assms
proof (induction input hs limits ls st rule: parse_header_section_from.induct)
  case (1 input hs limits ls st)
  let ?search = "\<lparr>search_header_start = hs, search_maximum = max_header_bytes limits\<rparr>"
  obtain e where e: "find_header_line_end_from input ?search ls = Inr (Some e)"
    using "1.prems"(2) by (subst (asm) parse_header_section_from.simps) (auto split: sum.splits option.splits)
  note bounds = find_header_line_end_bounds [OF e]
  show ?case
  proof (cases "e = ls")
    case True
    with "1.prems" e have "state_host_seen st" "validate_framing st = Inr ()"
      "r = \<lparr>section_headers = state_headers st, section_body_start = e + 2,
            section_body_size = (case state_body_size st of None \<Rightarrow> 0 | Some n \<Rightarrow> n),
            section_chunked = state_te_seen st\<rparr>"
      by (auto simp: parse_header_section_from.simps [of input hs limits ls st]
          split: if_splits sum.splits)
    with "1.prems" bounds show ?thesis by (intro exI [of _ st]) auto
  next
    case False
    with "1.prems" e obtain p st' where p:
      "parse_header_field (sv_substr input ls (e - ls)) ls = Inr p"
      "apply_header_field p limits st = Inr st'"
      "length (state_headers st) < max_header_count limits"
      "parse_header_section_from input hs limits (e + 2) st' = Inr (Some r)"
      by (auto simp: parse_header_section_from.simps [of input hs limits ls st]
          split: if_splits sum.splits)
    have "header_state_ok limits st'"
      using "1.prems"(1) p parse_header_field_ok [OF p(1)] apply_header_field_framing [OF _ p(2)]
      by (simp add: header_state_ok_def apply_header_field_headers [OF p(2)])
    with "1.IH" [OF e refl False _ p(1) p(2)] p show ?thesis by simp
  qed
qed

lemma initial_header_state_ok: "header_state_ok limits initial_header_state"
  by (simp add: header_state_ok_def framing_fields_def initial_header_state_def
      request_headers_def)

section \<open>Accepted heads\<close>

text \<open>Limits small enough for the kernel to evaluate examples.\<close>

definition small_limits :: request_limits where
  "small_limits =
     \<lparr>max_request_line_bytes = 24, max_header_bytes = 48, max_header_count = 3,
      max_body_bytes = 9, max_chunk_line_bytes = 8, max_chunk_metadata_bytes = 40,
      max_trailer_bytes = 16, max_trailer_count = 2\<rparr>"

lemma parse_http_request_head_SomeE:
  assumes "parse_http_request_head input limits = Inr (Some h)"
  obtains e m t st where
    "find_request_line_end_from input (max_request_line_bytes limits) 0 = Inr (Some e)"
    "parse_request_line (take e input) = Inr (m, t)"
    "header_state_ok limits st" "state_host_seen st" "validate_framing st = Inr ()"
    "head_method h = m" "head_target h = routing_target t"
    "head_fields h = override_host (target_authority t) (state_headers st)"
    "content_length h = (case state_body_size st of None \<Rightarrow> 0 | Some n \<Rightarrow> n)"
    "head_chunked h = state_te_seen st"
    "consumed_bytes h \<le> length input"
    "consumed_bytes h \<le> e + 2 + max_header_bytes limits"
proof -
  from assms obtain e m t r where r:
    "find_request_line_end input (max_request_line_bytes limits) = Inr (Some e)"
    "parse_request_line (take e input) = Inr (m, t)"
    "parse_header_section input (e + 2) limits = Inr (Some r)"
    "h = \<lparr>head_method = m, head_target = routing_target t,
          head_fields = override_host (target_authority t) (section_headers r),
          consumed_bytes = section_body_start r, content_length = section_body_size r,
          head_chunked = section_chunked r\<rparr>"
    by (auto simp: parse_http_request_head_def split: if_splits sum.splits option.splits)
  from parse_header_section_ok [OF initial_header_state_ok r(3) [unfolded parse_header_section_def]]
  obtain st where "header_state_ok limits st" "state_host_seen st" "validate_framing st = Inr ()"
    "section_headers r = state_headers st"
    "section_body_size r = (case state_body_size st of None \<Rightarrow> 0 | Some n \<Rightarrow> n)"
    "section_chunked r = state_te_seen st" "section_body_start r \<le> length input"
    "section_body_start r - (e + 2) \<le> max_header_bytes limits"
    by blast
  with r show thesis by (intro that [of e m t st]) (auto simp: find_request_line_end_def)
qed

lemma request_headers_override:
  "request_headers (override_host a hs) n =
     (if a \<noteq> [] \<and> ascii_case_insensitive_equal n ''Host''
      then map (\<lambda>_. a) (request_headers hs n) else request_headers hs n)"
proof (cases "a = []")
  case True
  then show ?thesis by (simp add: override_host_def)
next
  case False
  then show ?thesis
    by (induction hs)
      (auto simp: override_host_def request_headers_def ascii_case_insensitive_equal_iff)
qed

lemma length_override_host [simp]: "length (override_host a hs) = length hs"
  by (simp add: override_host_def)

lemma parse_request_line_target:
  "parse_request_line line = Inr (m, t) \<Longrightarrow>
     \<exists>s off. parse_request_target s m off = Inr t"
  by (auto simp: parse_request_line_def split: option.splits if_splits sum.splits)

lemma parse_header_section_none:
  "parse_header_section_from input hs limits ls st = Inr None \<Longrightarrow>
     ls \<le> hs + max_header_bytes limits \<Longrightarrow> length input \<le> hs + max_header_bytes limits"
proof (induction input hs limits ls st rule: parse_header_section_from.induct)
  case (1 input hs limits ls st)
  let ?search = "\<lparr>search_header_start = hs, search_maximum = max_header_bytes limits\<rparr>"
  let ?find = "find_header_line_end_from input ?search ls"
  consider "?find = Inr None" | e where "?find = Inr (Some e)"
    using "1.prems"(1) by (subst (asm) parse_header_section_from.simps) (auto split: sum.splits option.splits)
  then show ?case
  proof cases
    case 1
    from find_header_line_end_none [OF this] "1.prems"(2) show ?thesis by simp
  next
    case (2 e)
    with "1.prems" obtain p st' where p: "e \<noteq> ls"
      "parse_header_field (sv_substr input ls (e - ls)) ls = Inr p"
      "apply_header_field p limits st = Inr st'"
      "\<not> max_header_count limits \<le> length (state_headers st)"
      "parse_header_section_from input hs limits (e + 2) st' = Inr None"
      by (auto simp: parse_header_section_from.simps [of input hs limits ls st]
          split: if_splits sum.splits)
    have "e + 2 \<le> hs + max_header_bytes limits"
      using find_header_line_end_bounds [OF 2] by simp linarith
    with "1.IH" [OF 2 refl p(1,4,2,3,5)] show ?thesis by simp
  qed
qed

lemma parse_http_request_head_none:
  assumes "parse_http_request_head input limits = Inr None"
  shows "length input \<le> max_request_line_bytes limits + 2 + max_header_bytes limits"
proof (cases "input = []")
  case False
  let ?find = "find_request_line_end_from input (max_request_line_bytes limits) 0"
  from assms False consider "?find = Inr None"
    | e where "?find = Inr (Some e)"
        "parse_header_section_from input (e + 2) limits (e + 2) initial_header_state = Inr None"
    by (auto simp: parse_http_request_head_def find_request_line_end_def parse_header_section_def
        split: sum.splits option.splits)
  then show ?thesis
  proof cases
    case 1
    from find_request_line_end_none [OF this] show ?thesis by simp
  next
    case (2 e)
    from parse_header_section_none [OF 2(2)] find_request_line_end_bounds [OF 2(1)]
    show ?thesis by simp
  qed
qed simp

text \<open>
  C31. Resource bounds of the head parser: an accepted head lies inside the input and inside the
  configured request-line and header budgets, has at most the configured number of fields, declares
  a body no larger than the body limit, and an undecided input never exceeds the head budget, so a
  reader that buffers until the parser decides is bounded.
\<close>

theorem request_head_bounds:
  "case parse_http_request_head input limits of
     Inl _ \<Rightarrow> True
   | Inr None \<Rightarrow> length input \<le> max_request_line_bytes limits + 2 + max_header_bytes limits
   | Inr (Some h) \<Rightarrow>
       consumed_bytes h \<le> length input \<and>
       consumed_bytes h \<le> max_request_line_bytes limits + 2 + max_header_bytes limits \<and>
       length (head_fields h) \<le> max_header_count limits \<and>
       content_length h \<le> max_body_bytes limits \<and> content_length h < 2 ^ 64"
proof (cases "parse_http_request_head input limits")
  case (Inr oh)
  show ?thesis
  proof (cases oh)
    case None
    with Inr show ?thesis using parse_http_request_head_none [of input limits] by simp
  next
    case (Some h)
    from Inr [unfolded Some] obtain e st and t :: parsed_target where
      "find_request_line_end_from input (max_request_line_bytes limits) 0 = Inr (Some e)"
      "header_state_ok limits st"
      "head_fields h = override_host (target_authority t) (state_headers st)"
      "content_length h = (case state_body_size st of None \<Rightarrow> 0 | Some n \<Rightarrow> n)"
      "consumed_bytes h \<le> length input" "consumed_bytes h \<le> e + 2 + max_header_bytes limits"
      by (elim parse_http_request_head_SomeE) blast
    moreover from this(1) have "e \<le> max_request_line_bytes limits"
      using find_request_line_end_bounds by blast
    ultimately show ?thesis using Inr Some
      by (auto simp: header_state_ok_def framing_fields_def split: option.splits)
  qed
qed simp

text \<open>
  C17. Unambiguous framing of every accepted head: exactly one Host, holding a valid authority (the
  one of an absolute-form target when there is one); the body is chunked exactly when there is a
  Transfer-Encoding, which is then the single value \<^verbatim>\<open>chunked\<close> and excludes Content-Length; otherwise
  the declared length is the value of the only Content-Length, and zero when there is none.
\<close>

theorem request_head_framing:
  assumes "parse_http_request_head input limits = Inr (Some h)"
  shows "(\<exists>host. request_headers (head_fields h) ''Host'' = [host] \<and>
                 is_valid_host_authority host) \<and>
         (if head_chunked h
         then (\<exists>te. request_headers (head_fields h) ''Transfer-Encoding'' = [te] \<and>
                    ascii_case_insensitive_equal te ''chunked'') \<and>
              request_headers (head_fields h) ''Content-Length'' = [] \<and> content_length h = 0
         else request_headers (head_fields h) ''Transfer-Encoding'' = [] \<and>
              (request_headers (head_fields h) ''Content-Length'' = [] \<and> content_length h = 0 \<or>
               (\<exists>v. request_headers (head_fields h) ''Content-Length'' = [v] \<and> v \<noteq> [] \<and>
                    list_all is_ascii_digit v \<and> content_length h = digits_value 10 v)))"
proof -
  from assms obtain e m t st where st:
    "parse_request_line (take e input) = Inr (m, t)"
    "header_state_ok limits st" "state_host_seen st" "validate_framing st = Inr ()"
    "head_fields h = override_host (target_authority t) (state_headers st)"
    "content_length h = (case state_body_size st of None \<Rightarrow> 0 | Some n \<Rightarrow> n)"
    "head_chunked h = state_te_seen st"
    by (elim parse_http_request_head_SomeE) (rule that; assumption)
  have auth: "target_authority t = [] \<or> is_valid_host_authority (target_authority t)"
    using parse_request_line_target [OF st(1)] parse_request_target_ok by blast
  have framing: "framing_fields limits st" using st(2) by (simp add: header_state_ok_def)
  have host: "\<exists>host. request_headers (head_fields h) ''Host'' = [host] \<and>
      is_valid_host_authority host"
    using framing st(3) auth
    by (auto simp: st(5) request_headers_override framing_fields_def split: list.splits)
  have names: "\<not> ascii_case_insensitive_equal ''Content-Length'' ''Host''"
    "\<not> ascii_case_insensitive_equal ''Transfer-Encoding'' ''Host''"
    by (auto dest: ci_equal_length)
  moreover have "if head_chunked h
         then (\<exists>te. request_headers (head_fields h) ''Transfer-Encoding'' = [te] \<and>
                    ascii_case_insensitive_equal te ''chunked'') \<and>
              request_headers (head_fields h) ''Content-Length'' = [] \<and> content_length h = 0
         else request_headers (head_fields h) ''Transfer-Encoding'' = [] \<and>
              (request_headers (head_fields h) ''Content-Length'' = [] \<and> content_length h = 0 \<or>
               (\<exists>v. request_headers (head_fields h) ''Content-Length'' = [v] \<and> v \<noteq> [] \<and>
                    list_all is_ascii_digit v \<and> content_length h = digits_value 10 v))"
    using framing st(4,6,7) names
    by (auto simp: st(5) request_headers_override framing_fields_def validate_framing_def
        split: list.splits option.splits if_splits)
  ultimately show ?thesis using host by blast
qed

theorem request_head_framing_witness:
  "\<exists>host. request_headers
      (head_fields (the (projr (parse_http_request_head
         (''GET / HTTP/1.1'' @ [CR, LF] @ ''Host: a'' @ [CR, LF, CR, LF]) small_limits))))
      ''Host'' = [host] \<and> is_valid_host_authority host"
proof -
  have "parse_http_request_head
      (''GET / HTTP/1.1'' @ [CR, LF] @ ''Host: a'' @ [CR, LF, CR, LF]) small_limits =
    Inr (Some \<lparr>head_method = Get, head_target = ''/'',
               head_fields = [\<lparr>field_name = ''Host'', field_value = ''a''\<rparr>],
               consumed_bytes = 27, content_length = 0, head_chunked = False\<rparr>)"
    by code_simp
  from request_head_framing [OF this] this show ?thesis by simp
qed

interpretation head: incremental_parser "\<lambda>input. parse_http_request_head input limits" for limits
  by unfold_locales (rule parse_http_request_head_append)

section \<open>Rendered heads\<close>

text \<open>
  The printer the parser is measured against: origin-form targets, one space after each colon. A
  field list is acceptable when Host, Content-Length and Transfer-Encoding obey the framing rules.
\<close>

definition render_field :: "http_header \<Rightarrow> string" where
  "render_field f = field_name f @ '': '' @ field_value f"

definition render_head :: "http_method \<Rightarrow> string \<Rightarrow> http_header list \<Rightarrow> string" where
  "render_head m target fs =
     (method_to_string m @ '' '' @ target @ '' HTTP/1.1'') @ CR # LF #
     concat (map (\<lambda>f. render_field f @ [CR, LF]) fs) @ [CR, LF]"

definition framing_acceptable :: "request_limits \<Rightarrow> http_header list \<Rightarrow> bool" where
  "framing_acceptable limits hs \<longleftrightarrow>
     (case request_headers hs ''Host'' of
        [h] \<Rightarrow> h \<noteq> [] \<and> is_valid_host_authority h | _ \<Rightarrow> False) \<and>
     (case request_headers hs ''Content-Length'' of
        [] \<Rightarrow> True
      | [v] \<Rightarrow> v \<noteq> [] \<and> list_all is_ascii_digit v \<and> digits_value 10 v < 2 ^ 64 \<and>
               digits_value 10 v \<le> max_body_bytes limits
      | _ \<Rightarrow> False) \<and>
     (case request_headers hs ''Transfer-Encoding'' of
        [] \<Rightarrow> True
      | [te] \<Rightarrow> ascii_case_insensitive_equal te ''chunked'' \<and>
                request_headers hs ''Content-Length'' = []
      | _ \<Rightarrow> False)"

definition declared_length :: "http_header list \<Rightarrow> nat" where
  "declared_length hs =
     (case request_headers hs ''Content-Length'' of [] \<Rightarrow> 0 | v # _ \<Rightarrow> digits_value 10 v)"

lemma find_request_line_end_line:
  assumes "CR \<notin> set line" "LF \<notin> set line" "length line \<le> m" "i \<le> length line"
  shows "find_request_line_end_from (line @ CR # LF # rest) m i = Inr (Some (length line))"
  using assms(4)
proof (induction "length line - i" arbitrary: i)
  case 0
  with assms(3) show ?case by (subst find_request_line_end_from.simps) (simp add: nth_append)
next
  case (Suc d)
  then have "i < length line" by simp
  moreover from this assms(1,2) have "line ! i \<noteq> CR" "line ! i \<noteq> LF" by (auto dest: nth_mem)
  ultimately show ?case
    using Suc assms(3) by (subst find_request_line_end_from.simps) (simp add: nth_append)
qed

lemma find_header_line_end_line:
  assumes "CR \<notin> set line" "LF \<notin> set line" "hs \<le> length pre"
    and "length pre + length line + 2 \<le> hs + max_bytes" "j \<le> length line"
  shows "find_header_line_end_from (pre @ line @ CR # LF # rest)
           \<lparr>search_header_start = hs, search_maximum = max_bytes\<rparr> (length pre + j) =
         Inr (Some (length pre + length line))"
  using assms(5)
proof (induction "length line - j" arbitrary: j)
  case 0
  with assms(3,4) show ?case
    by (subst find_header_line_end_from.simps) (auto simp: nth_append)
next
  case (Suc d)
  then have j: "j < length line" by simp
  with assms(1,2) have "line ! j \<noteq> CR" "line ! j \<noteq> LF" by (auto dest: nth_mem)
  with j Suc.hyps(1) [of "Suc j"] Suc.hyps(2) assms(3,4) show ?case
    by (subst find_header_line_end_from.simps) (auto simp: nth_append)
qed

lemma sv_find_at:
  "c \<notin> set a \<Longrightarrow> sv_find c (pre @ a @ c # b) (length pre) = Some (length pre + length a)"
  using find_index_None_iff [of "(=) c" a] by (auto simp: sv_find_def find_index_append)

lemma sv_find_none_after: "c \<notin> set a \<Longrightarrow> sv_find c (pre @ a) (length pre) = None"
  by (auto simp: sv_find_def find_index_None_iff)

lemma trim_space: "trim_optional_whitespace (CHR '' '' # v) = trim_optional_whitespace v"
  by (simp add: trim_optional_whitespace_eq is_ows_def)

lemma parse_rendered_field:
  assumes "well_formed_field f"
  shows "\<exists>p. parse_header_field (render_field f) ls = Inr p \<and> parsed_field p = f"
proof -
  from assms have f: "field_name f \<noteq> []" "list_all is_http_token_character (field_name f)"
    "list_all is_http_field_value_byte (field_value f)"
    "trim_optional_whitespace (field_value f) = field_value f"
    by (auto simp: well_formed_field_def)
  then have colon: "CHR '':'' \<notin> set (field_name f)" by (auto simp: list_all_iff)
  from f have "is_http_token_character (hd (field_name f))"
    by (auto simp: list_all_iff)
  then have hd: "hd (render_field f) \<noteq> CHR '' ''" "hd (render_field f) \<noteq> HTAB"
    using f(1) by (metis hd_append2 not_token_character(3,4) render_field_def)+
  have "sv_find CHR '':'' (render_field f) 0 = Some (length (field_name f))"
    using sv_find_at [OF colon, of "[]"] by (simp add: render_field_def)
  with f hd show ?thesis
    by (auto simp: parse_header_field_def Let_def trim_space render_field_def)
qed

lemma render_field_no_crlf:
  assumes "well_formed_field f" shows "CR \<notin> set (render_field f)" "LF \<notin> set (render_field f)"
  using assms
  by (auto simp: well_formed_field_def render_field_def list_all_iff)

lemma request_headers_middle:
  "request_headers (a @ f # b) n =
     request_headers a n @
     (if ascii_case_insensitive_equal (field_name f) n then [field_value f] else []) @
     request_headers b n"
  by (simp add: request_headers_def)

lemma parse_content_length_InlD:
  "parse_content_length v off = Inl e \<Longrightarrow>
     v = [] \<or> \<not> list_all is_ascii_digit v \<or> \<not> digits_value 10 v < 2 ^ 64"
  using parse_content_length_Inr_iff [of v off "digits_value 10 v"] by auto

lemma apply_header_field_acceptable:
  assumes "framing_fields limits st"
    and "framing_acceptable limits (state_headers st @ parsed_field p # fs)"
  shows "\<exists>st'. apply_header_field p limits st = Inr st'"
  using assms
  by (auto simp: apply_header_field_def Let_def framing_fields_def framing_acceptable_def
      request_headers_middle parse_content_length_Inr_iff
      split: if_splits list.splits option.splits sum.splits dest!: parse_content_length_InlD)

lemma framing_fields_final:
  assumes "framing_fields limits st" "framing_acceptable limits (state_headers st)"
  shows "state_host_seen st" "validate_framing st = Inr ()"
    "(case state_body_size st of None \<Rightarrow> 0 | Some n \<Rightarrow> n) = declared_length (state_headers st)"
    "state_te_seen st \<longleftrightarrow> request_headers (state_headers st) ''Transfer-Encoding'' \<noteq> []"
  using assms
  by (auto simp: framing_fields_def framing_acceptable_def validate_framing_def declared_length_def
      split: list.splits option.splits if_splits)

lemma parse_rendered_section:
  assumes "header_state_ok limits st" "list_all well_formed_field fs" "hs \<le> length pre"
    and "framing_acceptable limits (state_headers st @ fs)"
    and "length (state_headers st @ fs) \<le> max_header_count limits"
    and "length pre + length (concat (map (\<lambda>f. render_field f @ [CR, LF]) fs)) + 2 \<le>
         hs + max_header_bytes limits"
  shows "parse_header_section_from
           (pre @ concat (map (\<lambda>f. render_field f @ [CR, LF]) fs) @ CR # LF # rest) hs limits
           (length pre) st =
         Inr (Some \<lparr>section_headers = state_headers st @ fs,
                    section_body_start = length pre +
                      length (concat (map (\<lambda>f. render_field f @ [CR, LF]) fs)) + 2,
                    section_body_size = declared_length (state_headers st @ fs),
                    section_chunked =
                      request_headers (state_headers st @ fs) ''Transfer-Encoding'' \<noteq> []\<rparr>)"
  using assms
proof (induction fs arbitrary: pre st)
  case Nil
  then have "framing_fields limits st" by (simp add: header_state_ok_def)
  note final = framing_fields_final [OF this]
  from Nil find_header_line_end_line [of "[]" hs pre "max_header_bytes limits" 0 rest]
  show ?case by (subst parse_header_section_from.simps) (simp add: final)
next
  case (Cons f fs)
  let ?r = "concat (map (\<lambda>f. render_field f @ [CR, LF]) fs) @ CR # LF # rest"
  let ?input = "pre @ render_field f @ CR # LF # ?r"
  from Cons.prems obtain p where p:
    "parse_header_field (render_field f) (length pre) = Inr p" "parsed_field p = f"
    using parse_rendered_field by auto
  with Cons.prems obtain st' where st': "apply_header_field p limits st = Inr st'"
    using apply_header_field_acceptable [of limits st p fs] by (auto simp: header_state_ok_def)
  note hs' = apply_header_field_headers [OF st', unfolded p(2)]
  have ok: "header_state_ok limits st'"
    using Cons.prems apply_header_field_framing [OF _ st'] by (auto simp: header_state_ok_def hs')
  have find: "find_header_line_end_from ?input
      \<lparr>search_header_start = hs, search_maximum = max_header_bytes limits\<rparr> (length pre) =
    Inr (Some (length pre + length (render_field f)))"
    using Cons.prems render_field_no_crlf [of f]
      find_header_line_end_line [of "render_field f" hs pre "max_header_bytes limits" 0 ?r]
    by simp
  have ne: "render_field f \<noteq> []" by (simp add: render_field_def)
  have "parse_header_section_from ?input hs limits (length pre) st =
      parse_header_section_from ?input hs limits (length pre + length (render_field f) + 2) st'"
    using Cons.prems p(1) st' ne
    by (subst parse_header_section_from.simps) (simp add: find sv_substr_def)
  also have "\<dots> = parse_header_section_from ((pre @ render_field f @ [CR, LF]) @ ?r) hs limits
      (length (pre @ render_field f @ [CR, LF])) st'" by simp
  also have "\<dots> = Inr (Some \<lparr>section_headers = state_headers st' @ fs,
      section_body_start = length (pre @ render_field f @ [CR, LF]) +
        length (concat (map (\<lambda>f. render_field f @ [CR, LF]) fs)) + 2,
      section_body_size = declared_length (state_headers st' @ fs),
      section_chunked = request_headers (state_headers st' @ fs) ''Transfer-Encoding'' \<noteq> []\<rparr>)"
    using Cons.prems by (intro Cons.IH ok) (simp_all add: hs')
  finally show ?case by (simp add: hs')
qed

lemma parse_method_to_string: "parse_method (method_to_string m) off = Inr m"
  using method_to_string_token [of m]
  by (cases m) (simp_all add: parse_method_def method_to_string_def)

lemma parse_rendered_request_line:
  assumes "valid_request_target target"
  shows "parse_request_line (method_to_string m @ '' '' @ target @ '' HTTP/1.1'') =
         Inr (m, \<lparr>routing_target = target, target_authority = []\<rparr>)"
proof -
  let ?m = "method_to_string m"
  from assms have t: "target \<noteq> []" "hd target = CHR ''/''" "target_bytes False target"
    by (auto simp: valid_request_target_def split: if_splits)
  have no: "CHR '' '' \<notin> set ?m" "CHR '' '' \<notin> set target"
    using method_to_string_token [of m] target_bytes_chars [OF t(3)]
    by (auto simp: list_all_iff dest!: bspec dest: target_char_no_space)
  have f1: "sv_find CHR '' '' (?m @ '' '' @ target @ '' HTTP/1.1'') 0 = Some (length ?m)"
    using sv_find_at [OF no(1), of "[]"] by simp
  have f2: "sv_find CHR '' '' (?m @ '' '' @ target @ '' HTTP/1.1'') (length ?m + 1) =
      Some (length ?m + 1 + length target)"
    using sv_find_at [OF no(2), of "?m @ '' ''" "''HTTP/1.1''"] by simp
  have f3: "sv_find CHR '' '' (?m @ '' '' @ target @ '' HTTP/1.1'')
      (length ?m + 1 + length target + 1) = None"
    using sv_find_none_after [of "CHR '' ''" "''HTTP/1.1''" "?m @ '' '' @ target @ '' ''"] by simp
  from t have "prefix ''/'' target" "target \<noteq> ''*''" by (cases target, auto)+
  with assms have "parse_request_target target m (length ?m + 1) =
      Inr \<lparr>routing_target = target, target_authority = []\<rparr>"
    by (simp add: parse_request_target_def)
  with f1 f2 f3 show ?thesis
    by (simp add: parse_request_line_def parse_method_to_string sv_substr_def)
qed

lemma parse_rendered_head:
  assumes "valid_request_target target" "list_all well_formed_field fs"
    and "framing_acceptable limits fs" "length fs \<le> max_header_count limits"
    and "length (method_to_string m @ '' '' @ target @ '' HTTP/1.1'') \<le> max_request_line_bytes limits"
    and "length (concat (map (\<lambda>f. render_field f @ [CR, LF]) fs)) + 2 \<le> max_header_bytes limits"
  shows "parse_http_request_head (render_head m target fs @ rest) limits =
         Inr (Some \<lparr>head_method = m, head_target = target, head_fields = fs,
                    consumed_bytes = length (render_head m target fs),
                    content_length = declared_length fs,
                    head_chunked = request_headers fs ''Transfer-Encoding'' \<noteq> []\<rparr>)"
proof -
  let ?line = "method_to_string m @ '' '' @ target @ '' HTTP/1.1''"
  let ?fields = "concat (map (\<lambda>f. render_field f @ [CR, LF]) fs)"
  have input: "render_head m target fs @ rest = ?line @ CR # LF # ?fields @ CR # LF # rest"
    by (simp add: render_head_def)
  from assms(1) have "target_bytes False target"
    by (auto simp: valid_request_target_def split: if_splits)
  then have no: "CR \<notin> set ?line" "LF \<notin> set ?line"
    using method_to_string_token [of m] target_bytes_chars [of False target]
    by (auto simp: list_all_iff less_char_def dest!: bspec dest: target_char_no_space)
  have find: "find_request_line_end (render_head m target fs @ rest)
      (max_request_line_bytes limits) = Inr (Some (length ?line))"
    unfolding find_request_line_end_def input
    by (rule find_request_line_end_line [OF no assms(5)]) simp
  have "take (length a) (a @ b) = a" for a b :: string by simp
  then have line: "take (length ?line) (render_head m target fs @ rest) = ?line"
    unfolding input by blast
  have "parse_header_section (render_head m target fs @ rest) (length ?line + 2) limits =
      Inr (Some \<lparr>section_headers = fs, section_body_start = length ?line + 2 + length ?fields + 2,
                 section_body_size = declared_length fs,
                 section_chunked = request_headers fs ''Transfer-Encoding'' \<noteq> []\<rparr>)"
    using assms(2,3,4,6) initial_header_state_ok [of limits]
      parse_rendered_section [of limits initial_header_state fs "length ?line + 2"
        "?line @ [CR, LF]" rest]
    by (simp add: parse_header_section_def input initial_header_state_def)
  with find line parse_rendered_request_line [OF assms(1), of m] show ?thesis
    unfolding parse_http_request_head_def
    by (simp add: override_host_def render_head_def del: append_assoc)
qed

text \<open>
  C30. Round trip: a rendered request head with a valid origin-form target, well-formed fields and
  acceptable framing, within the limits, followed by any bytes, parses back to its method, target
  and fields, consumes exactly the head, and reports its declared framing.
\<close>

theorem request_head_roundtrip:
  assumes "valid_request_target target" "list_all well_formed_field fs"
    and "framing_acceptable limits fs" "length fs \<le> max_header_count limits"
    and "length (method_to_string m @ '' '' @ target @ '' HTTP/1.1'') \<le> max_request_line_bytes limits"
    and "length (concat (map (\<lambda>f. render_field f @ [CR, LF]) fs)) + 2 \<le> max_header_bytes limits"
  shows "parse_http_request_head (render_head m target fs @ rest) limits =
         Inr (Some \<lparr>head_method = m, head_target = target, head_fields = fs,
                    consumed_bytes = length (render_head m target fs),
                    content_length = declared_length fs,
                    head_chunked = request_headers fs ''Transfer-Encoding'' \<noteq> []\<rparr>)"
  using assms by (rule parse_rendered_head)

theorem request_head_roundtrip_witness:
  "parse_http_request_head
     (render_head Get ''/''
        [\<lparr>field_name = ''Host'', field_value = ''a''\<rparr>,
         \<lparr>field_name = ''Transfer-Encoding'', field_value = ''chunked''\<rparr>] @ ''0'') small_limits =
   Inr (Some \<lparr>head_method = Get, head_target = ''/'',
              head_fields = [\<lparr>field_name = ''Host'', field_value = ''a''\<rparr>,
                \<lparr>field_name = ''Transfer-Encoding'', field_value = ''chunked''\<rparr>],
              consumed_bytes = 55, content_length = 0, head_chunked = True\<rparr>)"
proof -
  let ?fs = "[\<lparr>field_name = ''Host'', field_value = ''a''\<rparr>,
              \<lparr>field_name = ''Transfer-Encoding'', field_value = ''chunked''\<rparr>]"
  have "valid_request_target ''/''" by code_simp
  moreover have "list_all well_formed_field ?fs" by code_simp
  moreover have "framing_acceptable small_limits ?fs" by code_simp
  moreover have "length ?fs \<le> max_header_count small_limits" by code_simp
  moreover have "length (method_to_string Get @ '' '' @ ''/'' @ '' HTTP/1.1'') \<le>
      max_request_line_bytes small_limits" by code_simp
  moreover have "length (concat (map (\<lambda>f. render_field f @ [CR, LF]) ?fs)) + 2 \<le>
      max_header_bytes small_limits" by code_simp
  ultimately have "parse_http_request_head (render_head Get ''/'' ?fs @ ''0'') small_limits =
      Inr (Some \<lparr>head_method = Get, head_target = ''/'', head_fields = ?fs,
                 consumed_bytes = length (render_head Get ''/'' ?fs),
                 content_length = declared_length ?fs,
                 head_chunked = request_headers ?fs ''Transfer-Encoding'' \<noteq> []\<rparr>)"
    by (rule request_head_roundtrip)
  moreover have "length (render_head Get ''/'' ?fs) = 55" "declared_length ?fs = 0"
    "request_headers ?fs ''Transfer-Encoding'' = [''chunked'']" by code_simp+
  ultimately show ?thesis by simp
qed

end
