(* ===== verification/Body_Decoder.thy ===== *)
theory Body_Decoder
  imports Request_Parser
begin

text \<open>
  The incremental body decoder of \<^verbatim>\<open>src/http/request/http_body_decoder.cpp\<close> and the one-shot
  \<^verbatim>\<open>parse_http_request\<close> of \<^verbatim>\<open>http_request_parser.cpp\<close> that drives it. The decoder's members are
  the fields of \<open>body_decoder\<close>; \<open>feed\<close> loops over the bytes not yet consumed and the output
  space left, so that its two arguments are the source's \<^verbatim>\<open>input.subspan(progress.consumed)\<close> and
  \<^verbatim>\<open>output.size() - progress.produced\<close>. \<open>body_step\<close> is the reference: one byte at a time.
\<close>

section \<open>Chunk extensions and trailers\<close>

definition take_token :: "string \<Rightarrow> string option" where
  "take_token text =
     (let count = length (takeWhile is_http_token_character text)
      in if count \<noteq> 0 then Some (drop count text) else None)"

fun take_quoted_text :: "string \<Rightarrow> string option" where
  "take_quoted_text [] = None"
| "take_quoted_text (byte # text) =
     (if byte = DQUOTE then Some text
      else if byte = BACKSLASH then
        (case text of
           [] \<Rightarrow> None
         | byte2 # text2 \<Rightarrow>
             if \<not> is_http_field_value_byte byte2 then None else take_quoted_text text2)
      else if \<not> is_http_field_value_byte byte then None
      else take_quoted_text text)"

definition take_quoted :: "string \<Rightarrow> string option" where
  "take_quoted text = take_quoted_text (tl text)"

lemma take_token_shorter: "take_token s = Some r \<Longrightarrow> length r < length s"
  by (cases s) (auto simp: take_token_def Let_def split: if_splits)

lemma take_quoted_text_shorter: "take_quoted_text s = Some r \<Longrightarrow> length r < length s"
  by (induction s rule: take_quoted_text.induct) (fastforce split: if_splits list.splits)+

lemma take_quoted_shorter: "take_quoted s = Some r \<Longrightarrow> length r < length s"
  by (cases s) (auto simp: take_quoted_def dest: take_quoted_text_shorter)

lemma trim_front_length: "length (trim_front s) \<le> length s"
  by (simp add: trim_front_dropWhile length_dropWhile_le)

function valid_extensions :: "string \<Rightarrow> bool" where
  "valid_extensions text =
     (if text = [] then True
      else
        (let text1 = trim_front text in
         if text1 = [] \<or> hd text1 \<noteq> CHR '';'' then False
         else
           (case take_token (trim_front (tl text1)) of
              None \<Rightarrow> False
            | Some text2 \<Rightarrow>
                (let after_name = trim_front text2 in
                 if after_name \<noteq> [] \<and> hd after_name = CHR ''='' then
                   (let text3 = trim_front (tl after_name) in
                    if text3 = [] then False
                    else (case (if hd text3 = DQUOTE then take_quoted text3
                                else take_token text3) of
                            None \<Rightarrow> False
                          | Some text4 \<Rightarrow> valid_extensions text4))
                 else valid_extensions text2))))"
  by pat_completeness auto
termination
proof (relation "measure length", goal_cases)
  case 1
  then show ?case by simp
next
  case (2 txt0 text1 text2 after_name text3 text4)
  have "length text4 < length text3"
    using 2 by (auto split: if_splits dest: take_quoted_shorter take_token_shorter)
  also have "\<dots> \<le> length text2"
    using 2 trim_front_length [of "tl after_name"] trim_front_length [of text2] by fastforce
  also have "\<dots> < length txt0"
    using 2 take_token_shorter [of _ text2] trim_front_length [of "tl text1"]
      trim_front_length [of txt0] by fastforce
  finally show ?case by simp
next
  case (3 txt0 text1 text2 after_name)
  have "length text2 < length txt0"
    using 3 take_token_shorter [of _ text2] trim_front_length [of "tl text1"]
      trim_front_length [of txt0] by fastforce
  then show ?case by simp
qed

declare valid_extensions.simps [simp del]

definition forbidden_trailers :: "string list" where
  "forbidden_trailers =
     [''content-length'', ''transfer-encoding'', ''host'', ''connection'', ''trailer'', ''te'',
      ''authorization'', ''proxy-authorization'', ''cookie'', ''expect'', ''upgrade'',
      ''content-encoding'', ''content-type'', ''content-range'']"

definition valid_trailer :: "string \<Rightarrow> bool" where
  "valid_trailer line =
     (case sv_find CHR '':'' line 0 of
        None \<Rightarrow> False
      | Some colon \<Rightarrow>
          (if colon = 0 \<or> \<not> list_all is_http_token_character (take colon line) then False
           else if map ascii_lower (take colon line) \<in> set forbidden_trailers then False
           else list_all is_http_field_value_byte (drop (colon + 1) line)))"

section \<open>The decoder\<close>

datatype body_phase = Size_line | Data | Data_cr | Data_lf | Trailers | Done

record body_decoder =
  dec_limits :: request_limits
  dec_phase :: body_phase
  dec_chunked :: bool
  dec_remaining :: nat
  dec_decoded :: nat
  dec_offset :: nat
  dec_metadata_bytes :: nat
  dec_trailer_bytes :: nat
  dec_trailer_count :: nat
  dec_line :: string
  dec_line_cr :: bool
  dec_failure :: "parse_error option"

definition body_error :: "body_decoder \<Rightarrow> parse_error_code \<Rightarrow> parse_error" where
  "body_error d c = \<lparr>error_code = c, byte_offset = dec_offset d\<rparr>"

definition make_body_decoder :: "request_head \<Rightarrow> request_limits \<Rightarrow> body_decoder" where
  "make_body_decoder head limits =
     (let d = \<lparr>dec_limits = limits,
               dec_phase = (if head_chunked head then Size_line
                            else if content_length head = 0 then Done else Data),
               dec_chunked = head_chunked head, dec_remaining = content_length head,
               dec_decoded = 0, dec_offset = consumed_bytes head, dec_metadata_bytes = 0,
               dec_trailer_bytes = 0, dec_trailer_count = 0, dec_line = [], dec_line_cr = False,
               dec_failure = None\<rparr>
      in if \<not> dec_chunked d \<and> dec_remaining d > max_body_bytes limits
         then d\<lparr>dec_failure := Some (body_error d Body_too_large)\<rparr> else d)"

definition body_complete :: "body_decoder \<Rightarrow> bool" where
  "body_complete d \<longleftrightarrow> dec_phase d = Done \<and> dec_failure d = None"

definition body_finish :: "body_decoder \<Rightarrow> body_decoder \<times> (parse_error, unit) result" where
  "body_finish d =
     (case dec_failure d of
        Some e \<Rightarrow> (d, Inl e)
      | None \<Rightarrow>
          (if \<not> body_complete d
           then (d\<lparr>dec_failure := Some (body_error d Incomplete_body)\<rparr>,
                 Inl (body_error d Incomplete_body))
           else (d, Inr ())))"

definition finish_line :: "body_decoder \<Rightarrow> body_decoder \<times> (parse_error, unit) result" where
  "finish_line d =
     (if dec_phase d = Trailers then
        (if dec_line d = [] then (d\<lparr>dec_phase := Done\<rparr>, Inr ())
         else if dec_trailer_count d \<ge> max_trailer_count (dec_limits d)
         then (d, Inl (body_error d Trailers_too_large))
         else
           (let d1 = d\<lparr>dec_trailer_count := dec_trailer_count d + 1\<rparr>
            in if \<not> valid_trailer (dec_line d1) then (d1, Inl (body_error d1 Invalid_trailer))
               else (d1, Inr ())))
      else
        (case from_chars (2 ^ 64) 16 (dec_line d) of
           (Inl _, _) \<Rightarrow> (d, Inl (body_error d Malformed_chunk))
         | (Inr chunk_size, rest) \<Rightarrow>
             (if \<not> valid_extensions rest then (d, Inl (body_error d Malformed_chunk))
              else if chunk_size > size_sub (max_body_bytes (dec_limits d)) (dec_decoded d)
              then (d, Inl (body_error d Body_too_large))
              else (d\<lparr>dec_remaining := chunk_size,
                      dec_phase := if chunk_size = 0 then Trailers else Data\<rparr>,
                    Inr ()))))"

definition body_metadata :: "body_decoder \<Rightarrow> char \<Rightarrow> body_decoder \<times> (parse_error, unit) result" where
  "body_metadata d byte =
     (if dec_metadata_bytes d \<ge> max_chunk_metadata_bytes (dec_limits d)
      then (d, Inl (body_error d Chunk_metadata_too_large))
      else
        (let d1 = d\<lparr>dec_metadata_bytes := dec_metadata_bytes d + 1\<rparr> in
         if dec_phase d1 = Data_cr \<or> dec_phase d1 = Data_lf then
           (let needs_cr = (dec_phase d1 = Data_cr) in
            if byte \<noteq> (if needs_cr then CR else LF) then (d1, Inl (body_error d1 Malformed_chunk))
            else (d1\<lparr>dec_phase := if needs_cr then Data_lf else Size_line\<rparr>, Inr ()))
         else if dec_phase d1 = Trailers \<and>
                 dec_trailer_bytes d1 \<ge> max_trailer_bytes (dec_limits d1)
         then (d1, Inl (body_error d1 Trailers_too_large))
         else
           (let d2 = (if dec_phase d1 = Trailers
                      then d1\<lparr>dec_trailer_bytes := dec_trailer_bytes d1 + 1\<rparr> else d1) in
            if dec_line_cr d2 then
              (if byte \<noteq> LF then (d2, Inl (body_error d2 Malformed_chunk))
               else (case finish_line d2 of
                       (d3, result) \<Rightarrow> (d3\<lparr>dec_line := [], dec_line_cr := False\<rparr>, result)))
            else if byte = CR then (d2\<lparr>dec_line_cr := True\<rparr>, Inr ())
            else if byte = LF then (d2, Inl (body_error d2 Malformed_chunk))
            else
              (let limit = (if dec_phase d2 = Trailers then max_trailer_bytes (dec_limits d2)
                            else max_chunk_line_bytes (dec_limits d2)) in
               if length (dec_line d2) \<ge> limit
               then (d2, Inl (body_error d2 Chunk_metadata_too_large))
               else (d2\<lparr>dec_line := dec_line d2 @ [byte]\<rparr>, Inr ())))))"

text \<open>The members after copying \<open>count\<close> payload bytes.\<close>

definition copy_count :: "body_decoder \<Rightarrow> nat \<Rightarrow> nat \<Rightarrow> nat" where
  "copy_count d available space =
     min (min (dec_remaining d) available) (min space (size_max - dec_offset d))"

definition copy_data :: "body_decoder \<Rightarrow> nat \<Rightarrow> body_decoder" where
  "copy_data d count =
     (let d1 = d\<lparr>dec_remaining := dec_remaining d - count, dec_decoded := dec_decoded d + count,
                dec_offset := dec_offset d + count\<rparr>
      in if dec_remaining d1 = 0
         then d1\<lparr>dec_phase := if dec_chunked d1 then Data_cr else Done\<rparr> else d1)"

record decode_progress =
  progress_consumed :: nat
  progress_produced :: string
  progress_complete :: bool

text \<open>
  The loop of \<^verbatim>\<open>feed\<close>. An offset at the top of \<^verbatim>\<open>std::size_t\<close> is a failure before the next byte
  is touched. The output is returned as the list of bytes written.
\<close>

function feed_loop ::
    "body_decoder \<Rightarrow> string \<Rightarrow> nat \<Rightarrow> decode_progress \<Rightarrow>
     body_decoder \<times> (parse_error, decode_progress) result" where
  "feed_loop d input space progress =
     (if input \<noteq> [] \<and> dec_phase d \<noteq> Done then
        (if dec_offset d \<ge> size_max
         then (d\<lparr>dec_failure := Some (body_error d Chunk_metadata_too_large)\<rparr>,
               Inl (body_error d Chunk_metadata_too_large))
         else if dec_phase d = Data then
           (if space = 0 then (d, Inr progress)
            else
              (let count = copy_count d (length input) space in
               feed_loop (copy_data d count) (drop count input) (space - count)
                 (progress\<lparr>progress_consumed := progress_consumed progress + count,
                  progress_produced := progress_produced progress @ take count input\<rparr>)))
         else
           (case body_metadata d (hd input) of
              (d1, Inl e) \<Rightarrow> (d1\<lparr>dec_failure := Some e\<rparr>, Inl e)
            | (d1, Inr _) \<Rightarrow>
                feed_loop (d1\<lparr>dec_offset := dec_offset d1 + 1\<rparr>) (tl input) space
                  (progress\<lparr>progress_consumed := progress_consumed progress + 1\<rparr>)))
      else (d, Inr progress))"
  by pat_completeness auto
termination
  by (relation "measures [\<lambda>(d, input, space, p). length input,
                          \<lambda>(d, input, space, p). if dec_phase d = Data then 1 else 0]")
    (auto simp: copy_count_def copy_data_def Let_def)

declare feed_loop.simps [simp del]

definition feed ::
    "body_decoder \<Rightarrow> string \<Rightarrow> nat \<Rightarrow> body_decoder \<times> (parse_error, decode_progress) result" where
  "feed d input output_size =
     (case dec_failure d of
        Some e \<Rightarrow> (d, Inl e)
      | None \<Rightarrow>
          (case feed_loop d input output_size
                  \<lparr>progress_consumed = 0, progress_produced = [], progress_complete = False\<rparr> of
             (d1, Inl e) \<Rightarrow> (d1, Inl e)
           | (d1, Inr progress) \<Rightarrow>
               (d1, Inr (progress\<lparr>progress_complete := body_complete d1\<rparr>))))"

section \<open>Invariant\<close>

definition line_limit :: "body_decoder \<Rightarrow> nat" where
  "line_limit d = (if dec_phase d = Trailers then max_trailer_bytes (dec_limits d)
                   else max_chunk_line_bytes (dec_limits d))"

text \<open>
  The resource invariant: payload announced but not yet emitted still fits the body limit, the
  retained line and every counter stay within their limits, and a line is only retained while one
  is being read.
\<close>

definition decoder_ok :: "body_decoder \<Rightarrow> bool" where
  "decoder_ok d \<longleftrightarrow>
     dec_decoded d \<le> max_body_bytes (dec_limits d) \<and>
     (dec_phase d = Data \<and> dec_failure d = None \<longrightarrow>
        0 < dec_remaining d \<and>
        dec_decoded d + dec_remaining d \<le> max_body_bytes (dec_limits d)) \<and>
     (dec_phase d \<in> {Data, Data_cr, Data_lf, Done} \<longrightarrow> dec_line d = [] \<and> \<not> dec_line_cr d) \<and>
     length (dec_line d) \<le> line_limit d \<and>
     dec_metadata_bytes d \<le> max_chunk_metadata_bytes (dec_limits d) \<and>
     dec_trailer_bytes d \<le> max_trailer_bytes (dec_limits d) \<and>
     dec_trailer_count d \<le> max_trailer_count (dec_limits d)"

lemma finish_line_frame:
  assumes "finish_line d = (d', r)"
  shows "dec_limits d' = dec_limits d \<and> dec_decoded d' = dec_decoded d \<and>
         dec_metadata_bytes d' = dec_metadata_bytes d \<and>
         dec_trailer_bytes d' = dec_trailer_bytes d \<and> dec_failure d' = dec_failure d \<and>
         dec_offset d' = dec_offset d \<and> dec_chunked d' = dec_chunked d"
  using assms by (auto simp: finish_line_def Let_def split: if_splits prod.splits sum.splits)

lemma finish_line_ok:
  assumes "finish_line d = (d', r)" "decoder_ok d" "dec_phase d \<in> {Size_line, Trailers}"
  shows "decoder_ok (d'\<lparr>dec_line := [], dec_line_cr := False\<rparr>)"
  using assms
  by (auto simp: finish_line_def decoder_ok_def line_limit_def Let_def
      split: if_splits prod.splits sum.splits)

lemma body_metadata_frame:
  assumes "body_metadata d c = (d', r)"
  shows "dec_limits d' = dec_limits d \<and> dec_decoded d' = dec_decoded d \<and>
         dec_failure d' = dec_failure d \<and> dec_offset d' = dec_offset d \<and>
         dec_chunked d' = dec_chunked d"
  using assms
  by (auto simp: body_metadata_def Let_def split: if_splits prod.splits dest!: finish_line_frame)

text \<open>The decoder after a line byte has been accounted for, and what that byte then does.\<close>

definition accounted :: "body_decoder \<Rightarrow> body_decoder" where
  "accounted d =
     (if dec_phase d = Trailers
      then d\<lparr>dec_metadata_bytes := dec_metadata_bytes d + 1,
             dec_trailer_bytes := dec_trailer_bytes d + 1\<rparr>
      else d\<lparr>dec_metadata_bytes := dec_metadata_bytes d + 1\<rparr>)"

definition line_byte :: "body_decoder \<Rightarrow> char \<Rightarrow> body_decoder \<times> (parse_error, unit) result" where
  "line_byte d c =
     (if dec_line_cr d then
        (if c \<noteq> LF then (d, Inl (body_error d Malformed_chunk))
         else (case finish_line d of
                 (d', result) \<Rightarrow> (d'\<lparr>dec_line := [], dec_line_cr := False\<rparr>, result)))
      else if c = CR then (d\<lparr>dec_line_cr := True\<rparr>, Inr ())
      else if c = LF then (d, Inl (body_error d Malformed_chunk))
      else if length (dec_line d) \<ge> line_limit d
      then (d, Inl (body_error d Chunk_metadata_too_large))
      else (d\<lparr>dec_line := dec_line d @ [c]\<rparr>, Inr ()))"

lemma body_metadata_line:
  assumes "dec_metadata_bytes d < max_chunk_metadata_bytes (dec_limits d)"
    and "dec_phase d = Size_line \<or>
         dec_phase d = Trailers \<and> dec_trailer_bytes d < max_trailer_bytes (dec_limits d)"
  shows "body_metadata d c = line_byte (accounted d) c"
  using assms(2)
proof (elim disjE conjE)
  assume "dec_phase d = Size_line"
  with assms(1) show ?thesis
    by (simp add: body_metadata_def line_byte_def line_limit_def accounted_def Let_def)
next
  assume "dec_phase d = Trailers" "dec_trailer_bytes d < max_trailer_bytes (dec_limits d)"
  with assms(1) show ?thesis
    by (simp add: body_metadata_def line_byte_def line_limit_def accounted_def Let_def)
qed

lemma accounted_ok:
  assumes "decoder_ok d" "dec_metadata_bytes d < max_chunk_metadata_bytes (dec_limits d)"
    and "dec_phase d = Trailers \<longrightarrow> dec_trailer_bytes d < max_trailer_bytes (dec_limits d)"
  shows "decoder_ok (accounted d)"
  using assms by (auto simp: accounted_def decoder_ok_def line_limit_def)

lemma accounted_simps [simp]:
  "dec_phase (accounted d) = dec_phase d" "dec_limits (accounted d) = dec_limits d"
  "dec_line (accounted d) = dec_line d" "dec_line_cr (accounted d) = dec_line_cr d"
  "dec_decoded (accounted d) = dec_decoded d" "dec_offset (accounted d) = dec_offset d"
  "dec_failure (accounted d) = dec_failure d" "dec_remaining (accounted d) = dec_remaining d"
  "dec_chunked (accounted d) = dec_chunked d"
  by (simp_all add: accounted_def)

lemma line_byte_ok:
  assumes "line_byte d c = (d', r)" "decoder_ok d" "dec_phase d \<in> {Size_line, Trailers}"
  shows "decoder_ok d'"
proof (cases "dec_line_cr d \<and> c = LF")
  case True
  with assms show ?thesis
    by (auto simp: line_byte_def split: prod.splits intro: finish_line_ok)
next
  case False
  with assms show ?thesis
    by (auto simp: line_byte_def decoder_ok_def line_limit_def split: if_splits)
qed

lemma body_metadata_ok:
  assumes "body_metadata d c = (d', r)" "decoder_ok d" "dec_phase d \<noteq> Data" "dec_phase d \<noteq> Done"
  shows "decoder_ok d'"
proof (cases "dec_metadata_bytes d \<ge> max_chunk_metadata_bytes (dec_limits d) \<or>
    dec_phase d = Data_cr \<or> dec_phase d = Data_lf \<or>
    dec_phase d = Trailers \<and> dec_trailer_bytes d \<ge> max_trailer_bytes (dec_limits d)")
  case True
  with assms show ?thesis
    by (auto simp: body_metadata_def decoder_ok_def line_limit_def Let_def split: if_splits)
next
  case False
  with assms(3,4) have "dec_phase d \<in> {Size_line, Trailers}" by (cases "dec_phase d") auto
  moreover from this False have "line_byte (accounted d) c = (d', r)"
    using assms(1) body_metadata_line [of d c] by auto
  ultimately show ?thesis
    using False assms(2) by (auto intro!: line_byte_ok [of "accounted d" c d' r] accounted_ok)
qed

section \<open>One byte at a time\<close>

definition body_step :: "body_decoder \<Rightarrow> char \<Rightarrow> body_decoder \<times> (parse_error, string) result" where
  "body_step d c =
     (if dec_offset d \<ge> size_max
      then (d\<lparr>dec_failure := Some (body_error d Chunk_metadata_too_large)\<rparr>,
            Inl (body_error d Chunk_metadata_too_large))
      else if dec_phase d = Data then (copy_data d 1, Inr [c])
      else (case body_metadata d c of
              (d1, Inl e) \<Rightarrow> (d1\<lparr>dec_failure := Some e\<rparr>, Inl e)
            | (d1, Inr _) \<Rightarrow> (d1\<lparr>dec_offset := dec_offset d1 + 1\<rparr>, Inr [])))"

type_synonym body_run_result = "body_decoder \<times> (parse_error, nat \<times> string) result"

definition extend_run :: "nat \<Rightarrow> string \<Rightarrow> body_run_result \<Rightarrow> body_run_result" where
  "extend_run n out r =
     (case r of (d, Inl e) \<Rightarrow> (d, Inl e) | (d, Inr (m, out')) \<Rightarrow> (d, Inr (n + m, out @ out')))"

fun body_run :: "body_decoder \<Rightarrow> string \<Rightarrow> body_run_result" where
  "body_run d [] = (d, Inr (0, []))"
| "body_run d (c # cs) =
     (if dec_phase d = Done then (d, Inr (0, []))
      else (case body_step d c of
              (d1, Inl e) \<Rightarrow> (d1, Inl e)
            | (d1, Inr out) \<Rightarrow> extend_run 1 out (body_run d1 cs)))"

lemma extend_run_simps [simp]:
  "extend_run n out (d, Inl e) = (d, Inl e)"
  "extend_run n out (d, Inr (m, out')) = (d, Inr (n + m, out @ out'))"
  "extend_run 0 [] r = r"
  "extend_run n out (extend_run m out' r) = extend_run (n + m) (out @ out') r"
  by (auto simp: extend_run_def split: prod.splits sum.splits)

lemma extend_run_cases:
  "extend_run n out r = (d, Inl e) \<longleftrightarrow> r = (d, Inl e)"
  "extend_run n out r = (d, Inr (k, out')) \<longleftrightarrow>
     (\<exists>m o'. r = (d, Inr (m, o')) \<and> k = n + m \<and> out' = out @ o')"
  by (auto simp: extend_run_def split: prod.splits sum.splits)

lemma body_run_done [simp]: "dec_phase d = Done \<Longrightarrow> body_run d cs = (d, Inr (0, []))"
  by (cases cs) auto

lemma body_run_append:
  "body_run d (xs @ ys) =
     (case body_run d xs of
        (d1, Inl e) \<Rightarrow> (d1, Inl e)
      | (d1, Inr (n, out)) \<Rightarrow> extend_run n out (body_run d1 ys))"
proof (induction xs arbitrary: d)
  case (Cons x xs)
  then show ?case by (auto split: prod.splits sum.splits)
qed simp

lemma body_run_seq:
  "body_run d xs = (d1, Inr (n, a)) \<Longrightarrow> body_run d1 ys = (d2, Inr (m, b)) \<Longrightarrow>
     body_run d (xs @ ys) = (d2, Inr (n + m, a @ b))"
  by (simp add: body_run_append)

lemma body_run_consumed:
  "body_run d xs = (d', Inr (n, out)) \<Longrightarrow> n \<le> length xs \<and> (n < length xs \<longrightarrow> dec_phase d' = Done)"
proof (induction xs arbitrary: d n out)
  case (Cons x xs)
  then show ?case
    by (fastforce simp: extend_run_cases split: if_splits prod.splits sum.splits)
qed simp

lemma copy_data_simps:
  "dec_limits (copy_data d k) = dec_limits d" "dec_chunked (copy_data d k) = dec_chunked d"
  "dec_decoded (copy_data d k) = dec_decoded d + k" "dec_offset (copy_data d k) = dec_offset d + k"
  "dec_remaining (copy_data d k) = dec_remaining d - k"
  "dec_failure (copy_data d k) = dec_failure d"
  "dec_phase (copy_data d k) =
     (if dec_remaining d - k = 0 then if dec_chunked d then Data_cr else Done else dec_phase d)"
  by (simp_all add: copy_data_def Let_def)

lemma copy_data_add: "copy_data (copy_data d j) k = copy_data d (j + k)"
  by (simp add: copy_data_def Let_def)

lemma copy_data_ok: "decoder_ok d \<Longrightarrow> dec_phase d = Data \<Longrightarrow> dec_failure d = None \<Longrightarrow>
    k \<le> dec_remaining d \<Longrightarrow> decoder_ok (copy_data d k)"
  by (auto simp: decoder_ok_def line_limit_def copy_data_def Let_def)

lemma body_step_ok:
  assumes "body_step d c = (d', r)" "decoder_ok d" "dec_failure d = None" "dec_phase d \<noteq> Done"
  shows "decoder_ok d' \<and> dec_limits d' = dec_limits d \<and>
         dec_failure d' = (case r of Inl e \<Rightarrow> Some e | Inr _ \<Rightarrow> None) \<and>
         dec_decoded d' = dec_decoded d + (case r of Inl _ \<Rightarrow> 0 | Inr out \<Rightarrow> length out)"
proof -
  have keep: "decoder_ok x \<Longrightarrow> decoder_ok (x\<lparr>dec_failure := Some e\<rparr>)"
    "decoder_ok x \<Longrightarrow> decoder_ok (x\<lparr>dec_offset := n\<rparr>)" for x e n
    by (auto simp: decoder_ok_def line_limit_def)
  consider "dec_offset d \<ge> size_max" | "dec_offset d < size_max" "dec_phase d = Data"
    | "dec_offset d < size_max" "dec_phase d \<noteq> Data" by linarith
  then show ?thesis
  proof cases
    case 2
    with assms have "0 < dec_remaining d" by (auto simp: decoder_ok_def)
    with 2 assms show ?thesis by (auto simp: body_step_def copy_data_simps copy_data_ok)
  next
    case 3
    obtain d1 q where q: "body_metadata d c = (d1, q)" by force
    with 3 assms keep body_metadata_ok [OF q] body_metadata_frame [OF q] show ?thesis
      by (auto simp: body_step_def split: sum.splits)
  qed (use assms keep in \<open>auto simp: body_step_def\<close>)
qed

lemma body_run_ok:
  assumes "body_run d xs = (d', r)" "decoder_ok d" "dec_failure d = None"
  shows "decoder_ok d' \<and> dec_limits d' = dec_limits d \<and>
         (case r of
            Inl e \<Rightarrow> dec_failure d' = Some e
          | Inr (n, out) \<Rightarrow> dec_failure d' = None \<and> dec_decoded d' = dec_decoded d + length out)"
  using assms
proof (induction xs arbitrary: d d' r)
  case (Cons x xs)
  show ?case
  proof (cases "dec_phase d = Done")
    case False
    obtain d1 q where q: "body_step d x = (d1, q)" by force
    note ok = body_step_ok [OF q Cons.prems(2,3) False]
    show ?thesis
    proof (cases q)
      case (Inl e)
      with Cons.prems q ok False show ?thesis by auto
    next
      case (Inr out)
      obtain d2 r2 where r2: "body_run d1 xs = (d2, r2)" by force
      from Cons.prems(1) q Inr False r2 have r: "(d', r) = extend_run 1 out (d2, r2)" by simp
      from Cons.IH [OF r2] ok Inr r show ?thesis
        by (auto simp: extend_run_def split: sum.splits prod.splits)
    qed
  qed (use Cons.prems in auto)
qed auto

text \<open>Payload bytes copied in one block are the same bytes stepped one by one.\<close>

lemma body_run_copy:
  assumes "dec_phase d = Data" "k \<le> dec_remaining d" "k \<le> length xs" "dec_offset d + k \<le> size_max"
    and "0 < k"
  shows "body_run d xs = extend_run k (take k xs) (body_run (copy_data d k) (drop k xs))"
  using assms
proof (induction k arbitrary: d xs)
  case (Suc k)
  then obtain y ys where xs: "xs = y # ys" by (cases xs) auto
  have step: "body_run d xs = extend_run 1 [y] (body_run (copy_data d 1) ys)"
    using Suc.prems by (simp add: xs body_step_def)
  show ?case
  proof (cases "k = 0")
    case True
    with step show ?thesis by (simp add: xs)
  next
    case False
    have "body_run (copy_data d 1) ys =
        extend_run k (take k ys) (body_run (copy_data (copy_data d 1) k) (drop k ys))"
      using Suc.prems False by (intro Suc.IH) (auto simp: copy_data_simps xs)
    with step show ?thesis by (simp add: xs copy_data_add)
  qed
qed simp

lemma body_run_take:
  assumes "dec_phase d = Data" "k \<le> dec_remaining d" "k \<le> length xs" "dec_offset d + k \<le> size_max"
    and "0 < k"
  shows "body_run d (take k xs) = (copy_data d k, Inr (k, take k xs))"
  using body_run_copy [of d k "take k xs"] assms by simp

text \<open>
  Where \<open>feed\<close> stops: it has run the reference over a prefix, and stopped because the input or the
  body ended or because the output is full and payload comes next.
\<close>

definition feed_stop ::
    "body_decoder \<Rightarrow> string \<Rightarrow> nat \<Rightarrow> body_decoder \<Rightarrow> nat \<Rightarrow> string \<Rightarrow> bool" where
  "feed_stop d input space d' n out \<longleftrightarrow>
     n \<le> length input \<and> length out \<le> n \<and> length out \<le> space \<and>
     body_run d (take n input) = (d', Inr (n, out)) \<and>
     (n = length input \<or> dec_phase d' = Done \<or> dec_phase d' = Data \<and> length out = space)"

definition feed_refines ::
    "body_decoder \<Rightarrow> string \<Rightarrow> nat \<Rightarrow> decode_progress \<Rightarrow>
     body_decoder \<times> (parse_error, decode_progress) result \<Rightarrow> bool" where
  "feed_refines d input space p r \<longleftrightarrow>
     (case r of
        (d', Inl e) \<Rightarrow> body_run d input = (d', Inl e)
      | (d', Inr p') \<Rightarrow>
          (\<exists>n out. p' = p\<lparr>progress_consumed := progress_consumed p + n,
                         progress_produced := progress_produced p @ out\<rparr> \<and>
                  feed_stop d input space d' n out))"

lemma feed_refines_extend:
  assumes refines: "feed_refines d1 (drop k input) (space - length pre)
      (p\<lparr>progress_consumed := progress_consumed p + k,
         progress_produced := progress_produced p @ pre\<rparr>) r"
    and run: "body_run d (take k input) = (d1, Inr (k, pre))"
    and len: "length pre \<le> space" "length pre \<le> k" "k \<le> length input"
  shows "feed_refines d input space p r"
proof (cases r)
  case (Pair d' q)
  have all: "body_run d input = extend_run k pre (body_run d1 (drop k input))"
    using body_run_append [of d "take k input" "drop k input"] run by simp
  show ?thesis
  proof (cases q)
    case (Inl e)
    with Pair refines all show ?thesis by (simp add: feed_refines_def)
  next
    case (Inr p')
    with Pair refines obtain n out where
      p': "p' = p\<lparr>progress_consumed := progress_consumed p + (k + n),
                 progress_produced := progress_produced p @ pre @ out\<rparr>"
      and "feed_stop d1 (drop k input) (space - length pre) d' n out"
      by (auto simp: feed_refines_def add.assoc)
    then have "feed_stop d input space d' (k + n) (pre @ out)"
      using run len by (auto simp: feed_stop_def take_add body_run_append)
    with p' Pair Inr show ?thesis unfolding feed_refines_def by auto
  qed
qed

lemma feed_refines_here:
  "input = [] \<or> dec_phase d = Done \<or> dec_phase d = Data \<and> space = 0 \<Longrightarrow>
     feed_refines d input space p (d, Inr p)"
  by (auto simp: feed_refines_def feed_stop_def intro!: exI [of _ 0] exI [of _ "[]"])

lemma feed_loop_refines:
  assumes "decoder_ok d" "dec_failure d = None"
  shows "feed_refines d input space p (feed_loop d input space p)"
  using assms
proof (induction d input space p rule: feed_loop.induct)
  case (1 d input space p)
  show ?case
  proof (cases "input \<noteq> [] \<and> dec_phase d \<noteq> Done")
    case False
    then have "feed_loop d input space p = (d, Inr p)"
      by (subst feed_loop.simps) (simp only: if_False)
    with False show ?thesis by (auto intro: feed_refines_here)
  next
    case True
    then obtain y ys where input: "input = y # ys" by (cases input) auto
    consider (max) "dec_offset d \<ge> size_max"
      | (full) "\<not> size_max \<le> dec_offset d" "dec_phase d = Data" "space = 0"
      | (copy) "\<not> size_max \<le> dec_offset d" "dec_phase d = Data" "space > 0"
      | (meta) "\<not> size_max \<le> dec_offset d" "dec_phase d \<noteq> Data" by linarith
    then show ?thesis
    proof cases
      case max
      with True show ?thesis
        by (subst feed_loop.simps) (simp add: input body_step_def feed_refines_def)
    next
      case full
      with True show ?thesis by (subst feed_loop.simps) (simp add: feed_refines_here)
    next
      case copy
      define k where "k = copy_count d (length input) space"
      from 1(3,4) copy have "0 < dec_remaining d" by (simp add: decoder_ok_def)
      with copy True have k: "0 < k" "k \<le> dec_remaining d" "k \<le> length input" "k \<le> space"
        "dec_offset d + k \<le> size_max"
        by (auto simp: k_def copy_count_def)
      have loop: "feed_loop d input space p =
          feed_loop (copy_data d k) (drop k input) (space - k)
            (p\<lparr>progress_consumed := progress_consumed p + k,
               progress_produced := progress_produced p @ take k input\<rparr>)"
        using True copy by (subst feed_loop.simps) (simp add: k_def Let_def)
      have "decoder_ok (copy_data d k)" "dec_failure (copy_data d k) = None"
        using 1(3,4) copy k by (auto simp: copy_data_ok copy_data_simps)
      from 1(1) [OF True copy(1,2) _ k_def this] copy(3) show ?thesis
        unfolding loop using k
        by - (rule feed_refines_extend [OF _ body_run_take [OF copy(2) k(2,3,5,1)]], simp_all)
    next
      case meta
      obtain d1 q where q: "body_metadata d y = (d1, q)" by force
      let ?d = "d1\<lparr>dec_offset := dec_offset d1 + 1\<rparr>"
      let ?p = "p\<lparr>progress_consumed := progress_consumed p + 1\<rparr>"
      show ?thesis
      proof (cases q)
        case (Inl e)
        with meta q True show ?thesis
          by (subst feed_loop.simps) (simp add: input body_step_def feed_refines_def)
      next
        case (Inr u)
        then have step: "body_step d y = (?d, Inr [])" using meta q by (simp add: body_step_def)
        have loop: "feed_loop d input space p = feed_loop ?d ys space ?p"
          using True meta q Inr by (subst feed_loop.simps) (simp add: input)
        have "decoder_ok ?d" "dec_failure ?d = None"
          using body_step_ok [OF step 1(3,4)] True by auto
        from 1(2) [OF True meta _ Inr this] q have
          "feed_refines ?d ys space ?p (feed_loop ?d ys space ?p)" by (simp add: input)
        moreover have "body_run d (take 1 input) = (?d, Inr (1, []))"
          using step True by (simp add: input)
        ultimately show ?thesis
          unfolding loop by - (rule feed_refines_extend [of ?d 1 _ _ "[]"], simp_all add: input)
      qed
    qed
  qed
qed

lemma feed_refines:
  assumes "decoder_ok d" "dec_failure d = None"
  shows "case feed d input space of
           (d', Inl e) \<Rightarrow> body_run d input = (d', Inl e)
         | (d', Inr p) \<Rightarrow>
             feed_stop d input space d' (progress_consumed p) (progress_produced p) \<and>
             progress_complete p = body_complete d'"
  using feed_loop_refines [OF assms, of input space
      "\<lparr>progress_consumed = 0, progress_produced = [], progress_complete = False\<rparr>"] assms(2)
  by (auto simp: feed_def feed_refines_def split: prod.splits sum.splits)

lemma feed_with_room:
  assumes "decoder_ok d" "dec_failure d = None" "length input \<le> space"
  shows "feed d input space =
     (case body_run d input of
        (d', Inl e) \<Rightarrow> (d', Inl e)
      | (d', Inr (n, out)) \<Rightarrow>
          (d', Inr \<lparr>progress_consumed = n, progress_produced = out,
                    progress_complete = body_complete d'\<rparr>))"
proof -
  obtain d' r where r: "feed d input space = (d', r)" by force
  show ?thesis
  proof (cases r)
    case (Inl e)
    with r feed_refines [OF assms(1,2), of input space] show ?thesis by simp
  next
    case (Inr p)
    let ?k = "progress_consumed p" and ?out = "progress_produced p"
    from Inr r feed_refines [OF assms(1,2), of input space]
    have stop: "feed_stop d input space d' ?k ?out" "progress_complete p = body_complete d'" by auto
    have "body_run d input = extend_run ?k ?out (body_run d' (drop ?k input))"
      using body_run_append [of d "take ?k input" "drop ?k input"] stop
      by (simp add: feed_stop_def)
    moreover have "?k = length input \<or> dec_phase d' = Done"
      using stop(1) assms(3) by (auto simp: feed_stop_def)
    ultimately have "body_run d input = (d', Inr (?k, ?out))" by auto
    with r Inr stop(2) show ?thesis by simp
  qed
qed

section \<open>Bounds over any sequence of feeds\<close>

lemma make_body_decoder_ok: "decoder_ok (make_body_decoder head limits)"
  by (auto simp: make_body_decoder_def decoder_ok_def line_limit_def Let_def)

lemma feed_ok:
  assumes "decoder_ok d" shows "decoder_ok (fst (feed d input space))"
proof (cases "dec_failure d")
  case None
  note run = body_run_ok [OF _ assms None]
  show ?thesis
    using feed_refines [OF assms None, of input space]
    by (auto simp: feed_stop_def split: prod.splits sum.splits dest!: run)
qed (simp add: feed_def assms)

lemma feed_loop_limits: "dec_limits (fst (feed_loop d input space p)) = dec_limits d"
proof (induction d input space p rule: feed_loop.induct)
  case (1 d input space p)
  then show ?case
    by (subst feed_loop.simps)
      (auto simp: Let_def copy_data_simps split: prod.splits sum.splits
        dest: body_metadata_frame)
qed

lemma feed_limits: "dec_limits (fst (feed d input space)) = dec_limits d"
proof -
  let ?p = "\<lparr>progress_consumed = 0, progress_produced = [], progress_complete = False\<rparr>"
  have "fst (feed d input space) = d \<or> fst (feed d input space) = fst (feed_loop d input space ?p)"
    by (simp add: feed_def split: option.splits prod.splits sum.splits)
  then show ?thesis using feed_loop_limits by metis
qed

lemma decoder_ok_decoded: "decoder_ok d \<Longrightarrow> dec_decoded d \<le> max_body_bytes (dec_limits d)"
  by (simp add: decoder_ok_def)

interpretation decoder: bounded_system "\<lambda>(input, space) d. fst (feed d input space)" decoder_ok
  dec_decoded "\<lambda>d. max_body_bytes (dec_limits d)"
  by unfold_locales (auto simp: feed_ok feed_limits decoder_ok_decoded)

section \<open>The complete request\<close>

definition body_decode_buffer_bytes :: nat where
  "body_decode_buffer_bytes = 16 * 1024"

lemma feed_loop_unfold:
  "input \<noteq> [] \<Longrightarrow> dec_phase d = Data \<Longrightarrow> dec_offset d < size_max \<Longrightarrow> 0 < space \<Longrightarrow>
     feed_loop d input space p =
       (let count = copy_count d (length input) space in
        feed_loop (copy_data d count) (drop count input) (space - count)
          (p\<lparr>progress_consumed := progress_consumed p + count,
             progress_produced := progress_produced p @ take count input\<rparr>))"
  "input \<noteq> [] \<Longrightarrow> dec_phase d \<noteq> Data \<Longrightarrow> dec_phase d \<noteq> Done \<Longrightarrow> dec_offset d < size_max \<Longrightarrow>
     feed_loop d input space p =
       (case body_metadata d (hd input) of
          (d1, Inl e) \<Rightarrow> (d1\<lparr>dec_failure := Some e\<rparr>, Inl e)
        | (d1, Inr _) \<Rightarrow>
            feed_loop (d1\<lparr>dec_offset := dec_offset d1 + 1\<rparr>) (tl input) space
              (p\<lparr>progress_consumed := progress_consumed p + 1\<rparr>))"
  by (simp_all add: feed_loop.simps [of d input space p] cong: sum.case_cong prod.case_cong)

lemma feed_loop_InrD:
  "feed_loop d input space p = (d', Inr p') \<Longrightarrow> input = [] \<or> dec_phase d = Done \<or> dec_offset d < size_max"
  by (subst (asm) feed_loop.simps) (auto split: if_splits)

lemma feed_loop_consumed:
  "feed_loop d input space p = (d', Inr p') \<Longrightarrow>
     progress_consumed p \<le> progress_consumed p' \<and> dec_failure d' = dec_failure d"
proof (induction d input space p rule: feed_loop.induct)
  case (1 d input space p)
  show ?case
  proof (cases "input \<noteq> [] \<and> dec_phase d \<noteq> Done \<and> \<not> size_max \<le> dec_offset d \<and>
      (dec_phase d = Data \<longrightarrow> space \<noteq> 0)")
    case False
    with "1.prems" show ?thesis by (subst (asm) feed_loop.simps) (auto split: if_splits)
  next
    case True
    show ?thesis
    proof (cases "dec_phase d = Data")
      case data: True
      with "1.prems" True "1.IH"(1) show ?thesis
        by (fastforce simp: feed_loop_unfold Let_def copy_data_simps)
    next
      case False
      obtain d1 r where r: "body_metadata d (hd input) = (d1, r)" by force
      with False "1.prems" True obtain u where u: "r = Inr u"
        by (cases r) (auto simp: feed_loop_unfold)
      from "1.IH"(2) [OF _ _ False r [symmetric] u] True r u False "1.prems" show ?thesis
        using body_metadata_frame [OF r] by (auto simp: feed_loop_unfold)
    qed
  qed
qed

lemma feed_loop_meta_progress:
  assumes "feed_loop d input space p = (d', Inr q)" "input \<noteq> []"
    and "dec_phase d \<noteq> Data" "dec_phase d \<noteq> Done"
  shows "progress_consumed p < progress_consumed q"
proof -
  have lt: "dec_offset d < size_max" using feed_loop_InrD [OF assms(1)] assms by auto
  obtain d1 r where r: "body_metadata d (hd input) = (d1, r)" by force
  with assms lt show ?thesis
    by (cases r) (auto simp: feed_loop_unfold dest!: feed_loop_consumed)
qed

lemma feed_progress:
  assumes "feed d input space = (d', Inr p)" "input \<noteq> []" "\<not> body_complete d" "0 < space"
  shows "0 < progress_consumed p \<or> body_complete d'"
proof -
  let ?p = "\<lparr>progress_consumed = 0, progress_produced = [], progress_complete = False\<rparr>"
  from assms(1) obtain q where q: "feed_loop d input space ?p = (d', Inr q)"
    "progress_consumed p = progress_consumed q" and none: "dec_failure d = None"
    by (auto simp: feed_def split: option.splits prod.splits sum.splits)
  from none assms(3) have nd: "dec_phase d \<noteq> Done" by (simp add: body_complete_def)
  show ?thesis
  proof (cases "dec_phase d = Data")
    case False
    with feed_loop_meta_progress [OF q(1) assms(2)] nd q(2) show ?thesis by simp
  next
    case True
    let ?k = "copy_count d (length input) space"
    have lt: "dec_offset d < size_max" using feed_loop_InrD [OF q(1)] assms(2) nd by auto
    from q(1) have loop: "feed_loop (copy_data d ?k) (drop ?k input) (space - ?k)
        (?p\<lparr>progress_consumed := ?k, progress_produced := take ?k input\<rparr>) = (d', Inr q)"
      using feed_loop_unfold(1) [OF assms(2) True lt assms(4)] by (simp add: Let_def)
    show ?thesis
    proof (cases "?k = 0")
      case False
      with feed_loop_consumed [OF loop] q(2) show ?thesis by simp
    next
      case k0: True
      then have "dec_remaining d = 0" using assms(2,4) lt
        by (auto simp: copy_count_def min_def split: if_splits)
      then have ph: "dec_phase (copy_data d 0) \<noteq> Data" by (simp add: copy_data_simps)
      show ?thesis
      proof (cases "dec_phase (copy_data d 0) = Done")
        case True
        with loop k0 have "d' = copy_data d 0" by (subst (asm) feed_loop.simps) simp
        with True none show ?thesis by (simp add: body_complete_def copy_data_simps)
      next
        case False
        with feed_loop_meta_progress [of "copy_data d 0" input] loop k0 ph assms(2) q(2)
        show ?thesis by fastforce
      qed
    qed
  qed
qed

function decode_loop ::
    "body_decoder \<Rightarrow> string \<Rightarrow> string \<Rightarrow> nat \<Rightarrow>
     (parse_error, body_decoder \<times> string \<times> nat) result" where
  "decode_loop d input storage consumed =
     (if input \<noteq> [] \<and> \<not> body_complete d then
        (case feed d input body_decode_buffer_bytes of
           (d1, Inl e) \<Rightarrow> Inl e
         | (d1, Inr progress) \<Rightarrow>
             decode_loop d1 (drop (progress_consumed progress) input)
               (storage @ progress_produced progress) (consumed + progress_consumed progress))
      else Inr (d, storage, consumed))"
  by pat_completeness auto
termination
proof (relation "measures [\<lambda>(d, input, s, n). length input,
                           \<lambda>(d, input, s, n). if body_complete d then 0 else 1]", goal_cases)
  case (2 d input storage consumed d1 r progress)
  then have "0 < progress_consumed progress \<or> body_complete d1"
    using feed_progress [of d input body_decode_buffer_bytes d1 progress]
    by (simp add: body_decode_buffer_bytes_def)
  with 2 show ?case by auto
qed simp

declare decode_loop.simps [simp del]

record http_request =
  request_head_of :: request_head
  request_body :: string

definition parse_http_request ::
    "string \<Rightarrow> request_limits \<Rightarrow> (parse_error, (nat \<times> http_request) option) result" where
  "parse_http_request input limits =
     (case parse_http_request_head input limits of
        Inl e \<Rightarrow> Inl e
      | Inr None \<Rightarrow> Inr None
      | Inr (Some head) \<Rightarrow>
          (if \<not> head_chunked head then
             (if size_sub (length input) (consumed_bytes head) < content_length head then Inr None
              else Inr (Some (consumed_bytes head + content_length head,
                     \<lparr>request_head_of = head,
                      request_body =
                        take (content_length head) (drop (consumed_bytes head) input)\<rparr>)))
           else
             (case decode_loop (make_body_decoder head limits) (drop (consumed_bytes head) input)
                     [] (consumed_bytes head) of
                Inl e \<Rightarrow> Inl e
              | Inr (d, storage, consumed) \<Rightarrow>
                  (if \<not> body_complete d then Inr None
                   else Inr (Some (consumed,
                          \<lparr>request_head_of = head, request_body = storage\<rparr>))))))"

lemma decode_loop_run:
  assumes "decoder_ok d" "dec_failure d = None"
  shows "decode_loop d input storage n =
     (case body_run d input of
        (d', Inl e) \<Rightarrow> Inl e
      | (d', Inr (m, out)) \<Rightarrow> Inr (d', storage @ out, n + m))"
  using assms
proof (induction d input storage n rule: decode_loop.induct)
  case (1 d input storage n)
  show ?case
  proof (cases "input \<noteq> [] \<and> \<not> body_complete d")
    case False
    with 1(3) have "body_run d input = (d, Inr (0, []))" by (auto simp: body_complete_def)
    with False show ?thesis by (subst decode_loop.simps) auto
  next
    case True
    obtain d1 r where r: "feed d input body_decode_buffer_bytes = (d1, r)" by force
    show ?thesis
    proof (cases r)
      case (Inl e)
      with r True feed_refines [OF 1(2,3), of input body_decode_buffer_bytes] show ?thesis
        by (subst decode_loop.simps) simp
    next
      case (Inr p)
      let ?k = "progress_consumed p" and ?out = "progress_produced p"
      from Inr r feed_refines [OF 1(2,3), of input body_decode_buffer_bytes]
      have run: "body_run d (take ?k input) = (d1, Inr (?k, ?out))" by (simp add: feed_stop_def)
      from body_run_ok [OF run 1(2,3)] have "decoder_ok d1" "dec_failure d1 = None" by auto
      note ih = 1(1) [OF True r [symmetric] Inr this]
      have "body_run d input = extend_run ?k ?out (body_run d1 (drop ?k input))"
        using body_run_append [of d "take ?k input" "drop ?k input"] run by simp
      with ih True r Inr show ?thesis
        by (subst decode_loop.simps) (simp add: extend_run_def split: prod.splits sum.splits)
    qed
  qed
qed

text \<open>The body part of a request, by the reference decoder.\<close>

lemma parse_http_request_chunked:
  assumes "parse_http_request_head input limits = Inr (Some head)" "head_chunked head"
  shows "parse_http_request input limits =
     (case body_run (make_body_decoder head limits) (drop (consumed_bytes head) input) of
        (d, Inl e) \<Rightarrow> Inl e
      | (d, Inr (m, out)) \<Rightarrow>
          if dec_phase d = Done
          then Inr (Some (consumed_bytes head + m, \<lparr>request_head_of = head, request_body = out\<rparr>))
          else Inr None)"
proof -
  have none: "dec_failure (make_body_decoder head limits) = None"
    using assms(2) by (simp add: make_body_decoder_def Let_def)
  obtain d r where r: "body_run (make_body_decoder head limits) (drop (consumed_bytes head) input) =
    (d, r)" by force
  note ok = body_run_ok [OF r make_body_decoder_ok none]
  with r assms show ?thesis
    by (auto simp: parse_http_request_def decode_loop_run [OF make_body_decoder_ok none]
        body_complete_def split: sum.splits)
qed

section \<open>Chunked encoding\<close>

definition encode_chunk :: "string \<Rightarrow> string" where
  "encode_chunk c = (print_base 16 (length c) @ [CR, LF]) @ c @ [CR, LF]"

definition encode_body :: "string list \<Rightarrow> string" where
  "encode_body cs = concat (map encode_chunk cs) @ (''0'' @ [CR, LF]) @ [CR, LF]"

lemma run_line_text:
  assumes "dec_phase d = Size_line" "\<not> dec_line_cr d" "CR \<notin> set t" "LF \<notin> set t"
    and "dec_metadata_bytes d + length t \<le> max_chunk_metadata_bytes (dec_limits d)"
    and "length (dec_line d) + length t \<le> max_chunk_line_bytes (dec_limits d)"
    and "dec_offset d + length t \<le> size_max"
  shows "body_run d t =
    (d\<lparr>dec_line := dec_line d @ t, dec_metadata_bytes := dec_metadata_bytes d + length t,
       dec_offset := dec_offset d + length t\<rparr>, Inr (length t, []))"
  using assms
proof (induction t arbitrary: d)
  case (Cons c t)
  have "body_metadata d c =
      (d\<lparr>dec_metadata_bytes := dec_metadata_bytes d + 1, dec_line := dec_line d @ [c]\<rparr>, Inr ())"
    using Cons.prems by (auto simp: body_metadata_line line_byte_def line_limit_def accounted_def)
  then have "body_step d c = (d\<lparr>dec_metadata_bytes := dec_metadata_bytes d + 1,
      dec_line := dec_line d @ [c], dec_offset := dec_offset d + 1\<rparr>, Inr [])"
    using Cons.prems by (simp add: body_step_def)
  with Cons show ?case by simp
qed simp

lemma run_size_line:
  assumes d: "dec_phase d = Size_line" "\<not> dec_line_cr d" "dec_line d = []"
    and t: "CR \<notin> set t" "LF \<notin> set t" "from_chars (2 ^ 64) 16 t = (Inr n, rest)" "valid_extensions rest"
    and n: "dec_decoded d + n \<le> max_body_bytes (dec_limits d)"
    and lim: "dec_metadata_bytes d + length t + 2 \<le> max_chunk_metadata_bytes (dec_limits d)"
      "length t \<le> max_chunk_line_bytes (dec_limits d)" "dec_offset d + length t + 2 \<le> size_max"
  shows "body_run d (t @ [CR, LF]) =
    (d\<lparr>dec_remaining := n, dec_phase := if n = 0 then Trailers else Data,
       dec_metadata_bytes := dec_metadata_bytes d + length t + 2,
       dec_offset := dec_offset d + length t + 2\<rparr>, Inr (length t + 2, []))"
proof -
  let ?d = "d\<lparr>dec_line := t, dec_metadata_bytes := dec_metadata_bytes d + length t,
              dec_offset := dec_offset d + length t\<rparr>"
  let ?e = "?d\<lparr>dec_metadata_bytes := dec_metadata_bytes ?d + 1, dec_line_cr := True,
              dec_offset := dec_offset ?d + 1\<rparr>"
  have run: "body_run d t = (?d, Inr (length t, []))"
    using run_line_text [of d t] d t lim by simp
  have cr: "body_step ?d CR = (?e, Inr [])"
    using d lim by (simp add: body_step_def body_metadata_line line_byte_def accounted_def)
  have "finish_line (accounted ?e) = ((accounted ?e)\<lparr>dec_remaining := n,
      dec_phase := if n = 0 then Trailers else Data\<rparr>, Inr ())"
    using d t n by (simp add: finish_line_def accounted_def)
  then have "body_step ?e LF = (d\<lparr>dec_remaining := n, dec_phase := if n = 0 then Trailers else Data,
       dec_metadata_bytes := dec_metadata_bytes d + length t + 2,
       dec_offset := dec_offset d + length t + 2\<rparr>, Inr [])"
    using d lim by (simp add: body_step_def body_metadata_line line_byte_def accounted_def)
  with run cr d show ?thesis by (simp add: body_run_append)
qed

lemma run_data_end:
  assumes "dec_phase d = Data_cr"
    and "dec_metadata_bytes d + 2 \<le> max_chunk_metadata_bytes (dec_limits d)"
    and "dec_offset d + 2 \<le> size_max"
  shows "body_run d [CR, LF] =
    (d\<lparr>dec_phase := Size_line, dec_metadata_bytes := dec_metadata_bytes d + 2,
       dec_offset := dec_offset d + 2\<rparr>, Inr (2, []))"
  using assms by (simp add: body_step_def body_metadata_def Let_def)

lemma print_base_16_no_crlf: "CR \<notin> set (print_base 16 n)" "LF \<notin> set (print_base 16 n)"
  using print_base_digits [of 16 n] by (auto simp: list_all_iff std_digit_def Let_def less_eq_char_def)

lemma valid_extensions_Nil [simp]: "valid_extensions []"
  by (simp add: valid_extensions.simps)

lemma run_chunk:
  assumes d: "dec_phase d = Size_line" "\<not> dec_line_cr d" "dec_line d = []" "dec_chunked d"
    and c: "c \<noteq> []" "dec_decoded d + length c \<le> max_body_bytes (dec_limits d)"
    and lim: "dec_metadata_bytes d + length (print_base 16 (length c)) + 4 \<le>
        max_chunk_metadata_bytes (dec_limits d)"
      "length (print_base 16 (length c)) \<le> max_chunk_line_bytes (dec_limits d)"
      "dec_offset d + length (encode_chunk c) \<le> size_max"
  shows "body_run d (encode_chunk c) =
    (d\<lparr>dec_remaining := 0, dec_decoded := dec_decoded d + length c,
       dec_metadata_bytes := dec_metadata_bytes d + length (print_base 16 (length c)) + 4,
       dec_offset := dec_offset d + length (encode_chunk c)\<rparr>, Inr (length (encode_chunk c), c))"
proof -
  let ?t = "print_base 16 (length c)"
  let ?d1 = "d\<lparr>dec_remaining := length c, dec_phase := Data,
       dec_metadata_bytes := dec_metadata_bytes d + length ?t + 2,
       dec_offset := dec_offset d + length ?t + 2\<rparr>"
  have len: "length c < 2 ^ 64" "dec_offset d + length ?t + length c + 4 \<le> size_max"
    using lim(3) by (simp_all add: encode_chunk_def size_max_def)
  then have fc: "from_chars (2 ^ 64) 16 ?t = (Inr (length c), [])"
    using from_chars_print_base [of 16 "length c" "2 ^ 64" "[]"] by simp
  have line: "body_run d (?t @ [CR, LF]) = (?d1, Inr (length ?t + 2, []))"
    using run_size_line [OF d(1-3) print_base_16_no_crlf fc valid_extensions_Nil c(2)] lim len c(1)
    by simp
  have data: "body_run ?d1 c = (copy_data ?d1 (length c), Inr (length c, c))"
    using body_run_take [of ?d1 "length c" c] c(1) len by simp
  have "body_run (copy_data ?d1 (length c)) [CR, LF] =
      ((copy_data ?d1 (length c))\<lparr>dec_phase := Size_line,
         dec_metadata_bytes := dec_metadata_bytes ?d1 + 2,
         dec_offset := dec_offset ?d1 + length c + 2\<rparr>, Inr (2, []))"
    using run_data_end [of "copy_data ?d1 (length c)"] d(4) lim len by (simp add: copy_data_def)
  with line data d show ?thesis
    unfolding encode_chunk_def by (simp add: body_run_append copy_data_def del: append_assoc)
qed

definition chunk_overhead :: "string list \<Rightarrow> nat" where
  "chunk_overhead cs = sum_list (map (\<lambda>c. length (print_base 16 (length c)) + 4) cs) + 5"

lemma run_last_chunk:
  assumes d: "dec_phase d = Size_line" "\<not> dec_line_cr d" "dec_line d = []"
    and "dec_decoded d \<le> max_body_bytes (dec_limits d)" "dec_trailer_bytes d = 0"
    and lim: "dec_metadata_bytes d + 5 \<le> max_chunk_metadata_bytes (dec_limits d)"
      "1 \<le> max_chunk_line_bytes (dec_limits d)" "2 \<le> max_trailer_bytes (dec_limits d)"
      "dec_offset d + 5 \<le> size_max"
  shows "\<exists>d'. body_run d ((''0'' @ [CR, LF]) @ [CR, LF]) = (d', Inr (5, [])) \<and> dec_phase d' = Done"
proof -
  let ?d1 = "d\<lparr>dec_remaining := 0, dec_phase := Trailers,
       dec_metadata_bytes := dec_metadata_bytes d + 3, dec_offset := dec_offset d + 3\<rparr>"
  have fc: "from_chars (2 ^ 64) 16 ''0'' = (Inr 0, [])"
    by (simp add: from_chars_def std_digit_def Let_def)
  have zero: "body_run d (''0'' @ [CR, LF]) = (?d1, Inr (3, []))"
    using run_size_line [OF d _ _ fc valid_extensions_Nil] assms by simp
  have "\<exists>d'. body_run ?d1 [CR, LF] = (d', Inr (2, [])) \<and> dec_phase d' = Done"
    using assms by (simp add: body_step_def body_metadata_line line_byte_def accounted_def
        finish_line_def)
  then show ?thesis using body_run_seq [OF zero] by force
qed

lemma run_encoded_body:
  assumes "dec_phase d = Size_line" "\<not> dec_line_cr d" "dec_line d = []" "dec_chunked d"
    and "dec_trailer_bytes d = 0" "\<forall>c\<in>set cs. c \<noteq> []"
    and "dec_decoded d + length (concat cs) \<le> max_body_bytes (dec_limits d)"
    and "dec_metadata_bytes d + chunk_overhead cs \<le> max_chunk_metadata_bytes (dec_limits d)"
    and "\<forall>c\<in>set cs. length (print_base 16 (length c)) \<le> max_chunk_line_bytes (dec_limits d)"
    and "1 \<le> max_chunk_line_bytes (dec_limits d)" "2 \<le> max_trailer_bytes (dec_limits d)"
    and "dec_offset d + length (encode_body cs) \<le> size_max"
  shows "\<exists>d'. body_run d (encode_body cs) = (d', Inr (length (encode_body cs), concat cs)) \<and>
              dec_phase d' = Done"
  using assms
proof (induction cs arbitrary: d)
  case Nil
  have enc: "encode_body [] = (''0'' @ [CR, LF]) @ [CR, LF]" "length (encode_body []) = 5"
    by (simp_all add: encode_body_def)
  have "\<exists>d'. body_run d ((''0'' @ [CR, LF]) @ [CR, LF]) = (d', Inr (5, [])) \<and> dec_phase d' = Done"
    using Nil enc(2) by (intro run_last_chunk) (simp_all add: chunk_overhead_def)
  then show ?case unfolding enc(2) unfolding enc(1) by simp
next
  case (Cons c cs)
  let ?d = "d\<lparr>dec_remaining := 0, dec_decoded := dec_decoded d + length c,
       dec_metadata_bytes := dec_metadata_bytes d + length (print_base 16 (length c)) + 4,
       dec_offset := dec_offset d + length (encode_chunk c)\<rparr>"
  have enc: "encode_body (c # cs) = encode_chunk c @ encode_body cs" by (simp add: encode_body_def)
  have run: "body_run d (encode_chunk c) = (?d, Inr (length (encode_chunk c), c))"
    using Cons.prems by (intro run_chunk) (simp_all add: chunk_overhead_def enc)
  have "\<exists>d'. body_run ?d (encode_body cs) = (d', Inr (length (encode_body cs), concat cs)) \<and>
             dec_phase d' = Done"
    using Cons.prems by (intro Cons.IH) (simp_all add: chunk_overhead_def enc)
  with run show ?case by (auto simp: enc body_run_append)
qed

section \<open>Properties\<close>

definition small_chunked :: request_head where
  "small_chunked = \<lparr>head_method = Put, head_target = ''/'', head_fields = [], consumed_bytes = 0,
                    content_length = 0, head_chunked = True\<rparr>"

text \<open>
  Bounded decoding: whatever fragments and output buffers a caller feeds to a new decoder, the
  payload it emits stays within the body limit, and the line it retains and its metadata and trailer
  counters stay within theirs.
\<close>

lemma body_decoder_bounded:
  "let d = fold (\<lambda>(input, space) d. fst (feed d input space)) feeds (make_body_decoder head limits)
   in dec_decoded d \<le> max_body_bytes limits \<and>
      length (dec_line d) \<le> max (max_chunk_line_bytes limits) (max_trailer_bytes limits) \<and>
      dec_metadata_bytes d \<le> max_chunk_metadata_bytes limits \<and>
      dec_trailer_bytes d \<le> max_trailer_bytes limits \<and>
      dec_trailer_count d \<le> max_trailer_count limits"
proof -
  let ?d0 = "make_body_decoder head limits"
  let ?d = "fold (\<lambda>(input, space) d. fst (feed d input space)) feeds ?d0"
  have "decoder_ok ?d" by (rule decoder.inv_run [OF make_body_decoder_ok])
  moreover have "dec_limits ?d = limits"
    by (induction feeds rule: rev_induct)
      (auto simp: feed_limits make_body_decoder_def Let_def)
  ultimately show ?thesis by (auto simp: decoder_ok_def line_limit_def Let_def split: if_splits)
qed

text \<open>
  C27. The block decoder is the byte decoder: \<^verbatim>\<open>feed\<close>, which copies payload in blocks, ends in the
  state and with the output that stepping the consumed prefix byte by byte gives, fails exactly as
  the byte decoder does, never writes past the output, and stops early only at the end of the body
  or when the output is full and payload is next.
\<close>

theorem feed_is_byte_decoder:
  assumes "decoder_ok d" "dec_failure d = None"
  shows "case feed d input space of
           (d', Inl e) \<Rightarrow> body_run d input = (d', Inl e)
         | (d', Inr p) \<Rightarrow>
             body_run d (take (progress_consumed p) input) =
               (d', Inr (progress_consumed p, progress_produced p)) \<and>
             progress_consumed p \<le> length input \<and> length (progress_produced p) \<le> space \<and>
             (progress_consumed p = length input \<or> dec_phase d' = Done \<or>
              dec_phase d' = Data \<and> length (progress_produced p) = space) \<and>
             (progress_complete p \<longleftrightarrow> body_complete d')"
  using feed_refines [OF assms, of input space]
  by (auto simp: feed_stop_def split: prod.splits sum.splits)

theorem feed_is_byte_decoder_witness:
  "body_run (make_body_decoder small_chunked small_limits)
     ([CHR ''1'', CR, LF] @ ''x'') =
   (fst (feed (make_body_decoder small_chunked small_limits) ([CHR ''1'', CR, LF] @ ''x'') 2),
    Inr (4, ''x''))"
proof -
  let ?d = "make_body_decoder small_chunked small_limits"
  let ?in = "[CHR ''1'', CR, LF] @ ''x''"
  have none: "dec_failure ?d = None" by code_simp
  have "snd (feed ?d ?in 2) =
      Inr \<lparr>progress_consumed = 4, progress_produced = ''x'', progress_complete = False\<rparr>"
    by code_simp
  with feed_is_byte_decoder [OF make_body_decoder_ok none, of ?in 2]
  show ?thesis by (cases "feed ?d ?in 2") (simp del: body_run.simps)
qed

text \<open>
  Fragmentation does not matter: feeding \<open>a\<close> completely and then \<open>b\<close> gives the state, the
  output and the error that feeding \<open>a @ b\<close> at once gives, whenever the buffers have room.
\<close>

lemma feed_split:
  assumes ok: "decoder_ok d" "dec_failure d = None"
    and a: "feed d a sa = (d1, Inr pa)" "progress_consumed pa = length a"
    and room: "length b \<le> sb" "length a + length b \<le> sab"
  shows "feed d (a @ b) sab =
     (case feed d1 b sb of
        (d2, Inl e) \<Rightarrow> (d2, Inl e)
      | (d2, Inr pb) \<Rightarrow>
          (d2, Inr \<lparr>progress_consumed = length a + progress_consumed pb,
                    progress_produced = progress_produced pa @ progress_produced pb,
                    progress_complete = progress_complete pb\<rparr>))"
proof -
  have run_a: "body_run d a = (d1, Inr (length a, progress_produced pa))"
    using feed_refines [OF ok, of a sa] a by (auto simp: feed_stop_def)
  note ok1 = body_run_ok [OF run_a ok, simplified]
  have run: "body_run d (a @ b) = extend_run (length a) (progress_produced pa) (body_run d1 b)"
    by (simp add: body_run_append run_a)
  from ok1 room(1) have "feed d1 b sb =
     (case body_run d1 b of
        (d', Inl e) \<Rightarrow> (d', Inl e)
      | (d', Inr (n, out)) \<Rightarrow>
          (d', Inr \<lparr>progress_consumed = n, progress_produced = out,
                    progress_complete = body_complete d'\<rparr>))"
    by (intro feed_with_room) auto
  moreover have "feed d (a @ b) sab =
     (case body_run d (a @ b) of
        (d', Inl e) \<Rightarrow> (d', Inl e)
      | (d', Inr (n, out)) \<Rightarrow>
          (d', Inr \<lparr>progress_consumed = n, progress_produced = out,
                    progress_complete = body_complete d'\<rparr>))"
    using room(2) by (intro feed_with_room ok) simp
  ultimately show ?thesis
    by (simp add: run extend_run_def split: prod.splits sum.splits)
qed

lemma parse_http_request_append:
  assumes "parse_http_request input limits \<noteq> Inr None"
  shows "parse_http_request (input @ later) limits = parse_http_request input limits"
proof -
  from assms have "parse_http_request_head input limits \<noteq> Inr None"
    by (auto simp: parse_http_request_def)
  note same = parse_http_request_head_append [OF this, of later]
  show ?thesis
  proof (cases "parse_http_request_head input limits")
    case (Inl e)
    with same show ?thesis by (simp add: parse_http_request_def)
  next
    case (Inr oh)
    with assms obtain h where h: "parse_http_request_head input limits = Inr (Some h)"
      by (cases oh) (auto simp: parse_http_request_def)
    then have le: "consumed_bytes h \<le> length input"
      by (elim parse_http_request_head_SomeE)
    show ?thesis
    proof (cases "head_chunked h")
      case False
      with h same assms le show ?thesis by (auto simp: parse_http_request_def split: if_splits)
    next
      case True
      obtain d r where r:
        "body_run (make_body_decoder h limits) (drop (consumed_bytes h) input) = (d, r)" by force
      show ?thesis
      proof (cases r)
        case (Inl e)
        with True h same le r show ?thesis
          by (simp add: parse_http_request_chunked body_run_append)
      next
        case (Inr q)
        with True h same le r assms show ?thesis
          by (cases q) (auto simp: parse_http_request_chunked body_run_append split: if_splits)
      qed
    qed
  qed
qed

interpretation request: incremental_parser "\<lambda>input. parse_http_request input limits" for limits
  by unfold_locales (rule parse_http_request_append)

text \<open>
  C26. Fragmentation of whole requests: a reader that appends whatever fragments arrive to its buffer
  and parses after each gets the result of parsing all the bytes at once, body included, and so any
  two fragmentations of the same bytes agree.
\<close>

theorem request_fragmentation:
  "snd (read_until (\<lambda>input. parse_http_request input limits) [] fragments) =
     parse_http_request (concat fragments) limits"
  using request.read_until_result [of limits "[]" fragments] by simp

text \<open>What a rendered chunked request is: its head and the decoder's state after it.\<close>

definition chunked_request_ok ::
    "request_limits \<Rightarrow> http_method \<Rightarrow> string \<Rightarrow> http_header list \<Rightarrow> string list \<Rightarrow> bool" where
  "chunked_request_ok limits m target fs cs \<longleftrightarrow>
     valid_request_target target \<and> list_all well_formed_field fs \<and> framing_acceptable limits fs \<and>
     request_headers fs ''Transfer-Encoding'' \<noteq> [] \<and>
     length fs \<le> max_header_count limits \<and>
     length (method_to_string m @ '' '' @ target @ '' HTTP/1.1'') \<le> max_request_line_bytes limits \<and>
     length (concat (map (\<lambda>f. render_field f @ [CR, LF]) fs)) + 2 \<le> max_header_bytes limits \<and>
     list_all (\<lambda>c. c \<noteq> [] \<and> length (print_base 16 (length c)) \<le> max_chunk_line_bytes limits) cs \<and>
     length (concat cs) \<le> max_body_bytes limits \<and>
     chunk_overhead cs \<le> max_chunk_metadata_bytes limits \<and>
     1 \<le> max_chunk_line_bytes limits \<and> 2 \<le> max_trailer_bytes limits \<and>
     length (render_head m target fs @ encode_body cs) \<le> size_max"

lemma chunked_request_run:
  assumes "chunked_request_ok limits m target fs cs"
  obtains h d' where "parse_http_request_head (render_head m target fs @ rest) limits = Inr (Some h)"
    "head_method h = m" "head_target h = target" "head_fields h = fs"
    "head_chunked h" "consumed_bytes h = length (render_head m target fs)" "content_length h = 0"
    "body_run (make_body_decoder h limits) (encode_body cs) =
       (d', Inr (length (encode_body cs), concat cs))" "dec_phase d' = Done"
proof -
  let ?h = "\<lparr>head_method = m, head_target = target, head_fields = fs,
             consumed_bytes = length (render_head m target fs),
             content_length = declared_length fs,
             head_chunked = request_headers fs ''Transfer-Encoding'' \<noteq> []\<rparr>"
  have head: "parse_http_request_head (render_head m target fs @ rest) limits = Inr (Some ?h)"
    using assms by (intro parse_rendered_head) (simp_all add: chunked_request_ok_def)
  have "declared_length fs = 0"
    using assms by (auto simp: chunked_request_ok_def framing_acceptable_def declared_length_def
        split: list.splits)
  moreover have "\<exists>d'. body_run (make_body_decoder ?h limits) (encode_body cs) =
      (d', Inr (length (encode_body cs), concat cs)) \<and> dec_phase d' = Done"
    using assms
    by (intro run_encoded_body)
      (simp_all add: chunked_request_ok_def make_body_decoder_def Let_def list_all_iff)
  ultimately show thesis using head assms that [of ?h] by (auto simp: chunked_request_ok_def)
qed

definition small_fields :: "http_header list" where
  "small_fields = [\<lparr>field_name = ''Host'', field_value = ''a''\<rparr>,
                   \<lparr>field_name = ''Transfer-Encoding'', field_value = ''chunked''\<rparr>]"

lemma small_request_ok: "chunked_request_ok small_limits Put ''/'' small_fields [''hi'', ''x'']"
  by code_simp

text \<open>
  C20. Round trip of chunked requests: the rendered head followed by the chunked encoding of any
  nonempty pieces within the limits, and by any pipelined bytes, parses to that head with the
  concatenated pieces as its body, consuming exactly the request.
\<close>

theorem chunked_request_roundtrip:
  assumes "chunked_request_ok limits m target fs cs"
  shows "parse_http_request (render_head m target fs @ encode_body cs @ pipelined) limits =
     Inr (Some (length (render_head m target fs @ encode_body cs),
       \<lparr>request_head_of = \<lparr>head_method = m, head_target = target, head_fields = fs,
                           consumed_bytes = length (render_head m target fs),
                           content_length = 0, head_chunked = True\<rparr>,
        request_body = concat cs\<rparr>))"
proof -
  from chunked_request_run [OF assms, of "encode_body cs @ pipelined"] obtain h d' where h:
    "parse_http_request_head (render_head m target fs @ encode_body cs @ pipelined) limits =
       Inr (Some h)"
    "head_method h = m" "head_target h = target" "head_fields h = fs"
    "head_chunked h" "consumed_bytes h = length (render_head m target fs)" "content_length h = 0"
    "body_run (make_body_decoder h limits) (encode_body cs) =
       (d', Inr (length (encode_body cs), concat cs))" "dec_phase d' = Done" by metis
  moreover have "h = \<lparr>head_method = m, head_target = target, head_fields = fs,
      consumed_bytes = length (render_head m target fs), content_length = 0, head_chunked = True\<rparr>"
    using h by (cases h) simp
  ultimately show ?thesis
    by (simp add: parse_http_request_chunked [OF h(1,5)] body_run_append)
qed

theorem chunked_request_roundtrip_witness:
  "parse_http_request
     (render_head Put ''/'' small_fields @ encode_body [''hi'', ''x''] @ ''GET'') small_limits =
   Inr (Some (73, \<lparr>request_head_of = \<lparr>head_method = Put, head_target = ''/'',
        head_fields = small_fields, consumed_bytes = 55, content_length = 0, head_chunked = True\<rparr>,
      request_body = ''hix''\<rparr>))"
proof -
  have "length (render_head Put ''/'' small_fields) = 55"
    "length (render_head Put ''/'' small_fields @ encode_body [''hi'', ''x'']) = 73" by code_simp+
  with chunked_request_roundtrip [OF small_request_ok, of "''GET''"] show ?thesis by simp
qed

text \<open>
  Truncation is never success: every proper prefix of such a body leaves the request undecided.
\<close>

lemma chunked_request_truncated:
  assumes "chunked_request_ok limits m target fs cs" "encode_body cs = received @ missing"
    and "missing \<noteq> []"
  shows "parse_http_request (render_head m target fs @ received) limits = Inr None"
proof -
  from chunked_request_run [OF assms(1), of received] obtain h d' where h:
    "parse_http_request_head (render_head m target fs @ received) limits = Inr (Some h)"
    "head_chunked h" "consumed_bytes h = length (render_head m target fs)"
    "body_run (make_body_decoder h limits) (encode_body cs) =
       (d', Inr (length (encode_body cs), concat cs))" by metis
  obtain d1 r where r: "body_run (make_body_decoder h limits) received = (d1, r)" by force
  with h(4) assms(2) obtain n out where n: "r = Inr (n, out)"
    by (cases r) (auto simp: body_run_append)
  have "dec_phase d1 \<noteq> Done"
    using h(4) assms(2,3) r n body_run_consumed [of _ received d1 n out]
    by (fastforce simp: body_run_append)
  with r n h show ?thesis by (simp add: parse_http_request_chunked [OF h(1,2)])
qed

end
