(* ===== verification/Http_Response.thy ===== *)
theory Http_Response
  imports Http_Types
begin

text \<open>
  Responses: status codes and reason phrases (\<^verbatim>\<open>src/http/http_status_code.cpp\<close>), validation and
  construction (\<^verbatim>\<open>src/http/response/http_response.cpp\<close>), the Date field
  (\<^verbatim>\<open>src/http/response/detail/response_date.cpp\<close>) and the writer
  (\<^verbatim>\<open>src/http/transport/http_response_writer.cpp\<close>). A status is the number its enumerator has, since
  the validation also sees values outside the enumeration. The system clock, the connection's send
  and the body reader are arguments; allocation failures are not modelled.
\<close>

section \<open>Status codes\<close>

definition reason_phrases :: "(nat \<times> string) list" where
  "reason_phrases =
     [(100, ''Continue''), (101, ''Switching Protocols''), (102, ''Processing''),
      (103, ''Early Hints''), (200, ''OK''), (201, ''Created''), (202, ''Accepted''),
      (203, ''Non-Authoritative Information''), (204, ''No Content''), (205, ''Reset Content''),
      (206, ''Partial Content''), (207, ''Multi-Status''), (208, ''Already Reported''),
      (226, ''IM Used''), (300, ''Multiple Choices''), (301, ''Moved Permanently''),
      (302, ''Found''), (303, ''See Other''), (304, ''Not Modified''), (305, ''Use Proxy''),
      (307, ''Temporary Redirect''), (308, ''Permanent Redirect''), (400, ''Bad Request''),
      (401, ''Unauthorized''), (402, ''Payment Required''), (403, ''Forbidden''),
      (404, ''Not Found''), (405, ''Method Not Allowed''), (406, ''Not Acceptable''),
      (407, ''Proxy Authentication Required''), (408, ''Request Timeout''), (409, ''Conflict''),
      (410, ''Gone''), (411, ''Length Required''), (412, ''Precondition Failed''),
      (413, ''Content Too Large''), (414, ''URI Too Long''), (415, ''Unsupported Media Type''),
      (416, ''Range Not Satisfiable''), (417, ''Expectation Failed''),
      (418, ''I'' @ [CHR 0x27] @ ''m a Teapot''), (421, ''Misdirected Request''),
      (422, ''Unprocessable Content''), (423, ''Locked''), (424, ''Failed Dependency''),
      (425, ''Too Early''), (426, ''Upgrade Required''), (428, ''Precondition Required''),
      (429, ''Too Many Requests''), (431, ''Request Header Fields Too Large''),
      (451, ''Unavailable For Legal Reasons''), (500, ''Internal Server Error''),
      (501, ''Not Implemented''), (502, ''Bad Gateway''), (503, ''Service Unavailable''),
      (504, ''Gateway Timeout''), (505, ''HTTP Version Not Supported''),
      (506, ''Variant Also Negotiates''), (507, ''Insufficient Storage''),
      (508, ''Loop Detected''), (510, ''Not Extended''),
      (511, ''Network Authentication Required'')]"

text \<open>\<^verbatim>\<open>std::lower_bound\<close> on the sorted table, then the check that the status was found.\<close>

definition http_reason_phrase :: "nat \<Rightarrow> string" where
  "http_reason_phrase status =
     (case dropWhile (\<lambda>entry. fst entry < status) reason_phrases of
        [] \<Rightarrow> ''Unknown Status''
      | entry # _ \<Rightarrow> if fst entry = status then snd entry else ''Unknown Status'')"

section \<open>The Date field\<close>

text \<open>
  \<^verbatim>\<open>std::chrono::year_month_day\<close> from a day count since 1970-01-01, in the proleptic Gregorian calendar.
\<close>

definition civil_from_days :: "int \<Rightarrow> int \<times> int \<times> int" where
  "civil_from_days days =
     (let z = days + 719468;
          era = z div 146097;
          doe = z mod 146097;
          yoe = (doe - doe div 1460 + doe div 36524 - doe div 146096) div 365;
          doy = doe - (365 * yoe + yoe div 4 - yoe div 100);
          mp = (5 * doy + 2) div 153;
          d = doy - (153 * mp + 2) div 5 + 1;
          m = (if mp < 10 then mp + 3 else mp - 9)
      in (yoe + era * 400 + (if m \<le> 2 then 1 else 0), m, d))"

definition pad_number :: "nat \<Rightarrow> nat \<Rightarrow> string" where
  "pad_number width n =
     (let s = print_base 10 n in replicate (width - length s) CHR ''0'' @ s)"

definition weekdays :: "string list" where
  "weekdays = [''Sun'', ''Mon'', ''Tue'', ''Wed'', ''Thu'', ''Fri'', ''Sat'']"

definition months :: "string list" where
  "months = [''Jan'', ''Feb'', ''Mar'', ''Apr'', ''May'', ''Jun'', ''Jul'', ''Aug'', ''Sep'', ''Oct'', ''Nov'',
             ''Dec'']"

text \<open>The instant in seconds since the epoch; \<open>None\<close> is the \<^verbatim>\<open>out_of_range\<close> exception.\<close>

definition format_response_date :: "int \<Rightarrow> string option" where
  "format_response_date instant =
     (let date = instant div 86400; time = instant mod 86400 in
      case civil_from_days date of
        (year, month, day) \<Rightarrow>
          if year < 0 \<or> year > 9999 then None
          else Some (weekdays ! nat ((date + 4) mod 7) @ '', '' @ pad_number 2 (nat day) @ '' '' @
                     months ! nat (month - 1) @ '' '' @ pad_number 4 (nat year) @ '' '' @
                     pad_number 2 (nat (time div 3600)) @ '':'' @
                     pad_number 2 (nat (time mod 3600 div 60)) @ '':'' @
                     pad_number 2 (nat (time mod 60)) @ '' GMT''))"

definition response_date_field_bytes :: nat where
  "response_date_field_bytes = 37"

section \<open>Responses\<close>

datatype response_error_code =
    Invalid_status_code | Invalid_reason_phrase | Too_many_response_headers | Invalid_header_name
  | Invalid_header_value | Managed_framing_header | Managed_connection_header | Body_not_allowed
  | Response_head_too_large | Memory_body_too_large | Missing_body_reader | Managed_date_header

type_synonym response_error = "response_error_code \<times> nat"

record http_response =
  resp_status :: nat
  resp_reason :: string
  resp_headers :: "http_header list"
  resp_body :: string
  resp_content_length :: nat
  resp_date :: string
  resp_streaming :: bool

definition maximum_response_header_count :: nat where
  "maximum_response_header_count = 100"

definition maximum_head_bytes :: nat where
  "maximum_head_bytes = 32768"

definition maximum_memory_body_bytes :: nat where
  "maximum_memory_body_bytes = 1024 * 1024"

definition valid_reason_phrase :: "string \<Rightarrow> bool" where
  "valid_reason_phrase v \<longleftrightarrow> list_all is_http_field_value_byte v"

definition status_has_no_message_body :: "nat \<Rightarrow> bool" where
  "status_has_no_message_body v \<longleftrightarrow> (100 \<le> v \<and> v < 200) \<or> v = 204 \<or> v = 205 \<or> v = 304"

definition validate_header :: "http_header \<Rightarrow> nat \<Rightarrow> nat \<Rightarrow> (response_error, nat) result" where
  "validate_header header index remaining =
     (let name = field_name header; v = field_value header in
      if name = [] \<or> \<not> list_all is_http_token_character name then Inl (Invalid_header_name, index)
      else if \<not> list_all is_http_field_value_byte v then Inl (Invalid_header_value, index)
      else if ascii_case_insensitive_equal name ''Content-Length'' \<or>
              ascii_case_insensitive_equal name ''Transfer-Encoding''
      then Inl (Managed_framing_header, index)
      else if ascii_case_insensitive_equal name ''Connection'' \<or>
              ascii_case_insensitive_equal name ''Keep-Alive''
      then Inl (Managed_connection_header, index)
      else if ascii_case_insensitive_equal name ''Date'' then Inl (Managed_date_header, index)
      else if length name > remaining \<or> length v > size_sub remaining (length name) \<or>
              size_sub (size_sub remaining (length name)) (length v) < 4
      then Inl (Response_head_too_large, index)
      else Inr (length name + length v + 4))"

fun validate_headers :: "http_header list \<Rightarrow> nat \<Rightarrow> nat \<Rightarrow> (response_error, unit) result" where
  "validate_headers [] index head_size = Inr ()"
| "validate_headers (header # headers) index head_size =
     (case validate_header header index (size_sub maximum_head_bytes head_size) of
        Inl e \<Rightarrow> Inl e
      | Inr field_size \<Rightarrow> validate_headers headers (index + 1) (head_size + field_size))"

definition initial_head_size :: "nat \<Rightarrow> string \<Rightarrow> nat \<Rightarrow> nat" where
  "initial_head_size status reason content_len =
     15 + length reason +
     (if status_has_no_message_body status then 2 else 18 + decimal_digit_count content_len + 2) +
     (if status \<ge> 200 then length (''Connection: close'' @ [CR, LF]) + response_date_field_bytes
      else 0) +
     (if status = 205 then 18 + 1 else 0)"

definition validate_response ::
    "nat \<Rightarrow> string \<Rightarrow> http_header list \<Rightarrow> nat \<Rightarrow> (response_error, unit) result" where
  "validate_response status reason headers content_len =
     (if status < 100 \<or> status > 599 then Inl (Invalid_status_code, 0)
      else if \<not> valid_reason_phrase reason then Inl (Invalid_reason_phrase, 0)
      else if status_has_no_message_body status \<and> content_len \<noteq> 0 then Inl (Body_not_allowed, 0)
      else if length headers > maximum_response_header_count then Inl (Too_many_response_headers, 0)
      else
        (let head_size = initial_head_size status reason content_len in
         if head_size > maximum_head_bytes then Inl (Response_head_too_large, 0)
         else validate_headers headers 0 head_size))"

text \<open>The private constructor; \<open>date\<close> is the formatted current time.\<close>

definition make_http_response ::
    "nat \<Rightarrow> string \<Rightarrow> http_header list \<Rightarrow> string \<Rightarrow> nat \<Rightarrow> string \<Rightarrow> bool \<Rightarrow> http_response" where
  "make_http_response status reason headers body content_len date streaming =
     \<lparr>resp_status = status, resp_reason = reason, resp_headers = headers, resp_body = body,
      resp_content_length = content_len, resp_date = (if status \<ge> 200 then date else []),
      resp_streaming = streaming\<rparr>"

definition create_response ::
    "string \<Rightarrow> nat \<Rightarrow> string \<Rightarrow> http_header list \<Rightarrow> string \<Rightarrow>
     (response_error, http_response) result" where
  "create_response date status reason headers body =
     (if length body > maximum_memory_body_bytes then Inl (Memory_body_too_large, 0)
      else (case validate_response status reason headers (length body) of
              Inl e \<Rightarrow> Inl e
            | Inr _ \<Rightarrow>
                Inr (make_http_response status reason headers body (length body) date False)))"

definition create_streaming ::
    "string \<Rightarrow> nat \<Rightarrow> string \<Rightarrow> http_header list \<Rightarrow> nat \<Rightarrow> bool \<Rightarrow>
     (response_error, http_response) result" where
  "create_streaming date status reason headers content_len has_reader =
     (if \<not> has_reader then Inl (Missing_body_reader, 0)
      else if status_has_no_message_body status then Inl (Body_not_allowed, 0)
      else (case validate_response status reason headers content_len of
              Inl e \<Rightarrow> Inl e
            | Inr _ \<Rightarrow>
                Inr (make_http_response status reason headers [] content_len date True)))"

section \<open>Serialization\<close>

definition status_omits_content_length :: "nat \<Rightarrow> bool" where
  "status_omits_content_length v \<longleftrightarrow> (100 \<le> v \<and> v < 200) \<or> v = 204 \<or> v = 304"

definition serialized_head_size :: "http_response \<Rightarrow> nat" where
  "serialized_head_size r =
     15 + length (resp_reason r) + 2 +
     foldl (\<lambda>current header. current + length (field_name header) + length (field_value header) + 4)
       0 (resp_headers r) +
     (if status_omits_content_length (resp_status r) then 0
      else 18 + decimal_digit_count (resp_content_length r)) +
     (if resp_status r \<ge> 200
      then length (''Connection: close'' @ [CR, LF]) + response_date_field_bytes else 0)"

definition serialize_http_response_head :: "http_response \<Rightarrow> string" where
  "serialize_http_response_head r =
     ''HTTP/1.1 '' @ print_base 10 (resp_status r) @ '' '' @ resp_reason r @ [CR, LF] @
     concat (map (\<lambda>h. field_name h @ '': '' @ field_value h @ [CR, LF]) (resp_headers r)) @
     (if \<not> status_omits_content_length (resp_status r)
      then ''Content-Length: '' @ print_base 10 (resp_content_length r) @ [CR, LF] else []) @
     (if resp_status r \<ge> 200
      then ''Connection: close'' @ [CR, LF] @ ''Date: '' @ resp_date r @ [CR, LF] else []) @
     [CR, LF]"

section \<open>The Date field has a fixed width\<close>

lemma era_split:
  fixes D :: int
  assumes "0 \<le> D" "D \<le> 146096"
  obtains c q y t where "D = 36524 * c + 1461 * q + 365 * y + t" "0 \<le> c" "c \<le> 3" "0 \<le> q" "q \<le> 24"
    "0 \<le> y" "y \<le> 3" "0 \<le> t" "t \<le> 365" "t = 365 \<longrightarrow> y = 3" "D div 36524 - D div 146096 = c"
proof -
  define c where "c = min (D div 36524) 3"
  define r where "r = D - 36524 * c"
  define s where "s = r mod 1461"
  define y where "y = min (s div 365) 3"
  have c: "0 \<le> c" "c \<le> 3" "0 \<le> r" "r \<le> 36524" "D div 36524 - D div 146096 = c"
    using assms unfolding c_def r_def by (auto simp: min_def) 
  have s: "0 \<le> s" "s < 1461" "r = 1461 * (r div 1461) + s" by (auto simp: s_def)
  have y: "0 \<le> y" "y \<le> 3" "0 \<le> s - 365 * y" "s - 365 * y \<le> 365" "s - 365 * y = 365 \<longrightarrow> y = 3"
    using s unfolding y_def by (auto simp: min_def)
  show thesis
    by (rule that [of c "r div 1461" y "s - 365 * y"])
      (use c s y in \<open>auto simp: r_def\<close>)
qed

lemma day_of_year:
  fixes D :: int
  assumes "0 \<le> D" "D \<le> 146096"
  defines "yoe \<equiv> (D - D div 1460 + D div 36524 - D div 146096) div 365"
  shows "0 \<le> D - (365 * yoe + yoe div 4 - yoe div 100)"
    "D - (365 * yoe + yoe div 4 - yoe div 100) \<le> 365"
proof -
  obtain c q y t where D: "D = 36524 * c + 1461 * q + 365 * y + t" and
    b: "0 \<le> c" "c \<le> 3" "0 \<le> q" "q \<le> 24" "0 \<le> y" "y \<le> 3" "0 \<le> t" "t \<le> 365"
    "t = 365 \<longrightarrow> y = 3" and cc: "D div 36524 - D div 146096 = c"
    using assms(1,2) by (rule era_split)
  define \<delta> where "\<delta> = (24 * c + q + 365 * y + t) div 1460"
  have D': "D = (24 * c + q + 365 * y + t) + (25 * c + q) * 1460" using D by simp
  have a: "D div 1460 = 25 * c + q + \<delta>"
    unfolding \<delta>_def D' by (simp add: div_mult_self2)
  have "y \<le> 2 \<or> y = 3" using b by linarith
  then have t: "0 \<le> t - \<delta>" "t - \<delta> < 365" unfolding \<delta>_def using b by auto
  have "D - D div 1460 + D div 36524 - D div 146096 = (t - \<delta>) + (100 * c + 4 * q + y) * 365"
    using a cc D by simp
  then have yoe: "yoe = 100 * c + 4 * q + y" unfolding yoe_def using t by simp
  have "yoe div 4 = 25 * c + q" "yoe div 100 = c" unfolding yoe using b by auto
  then have "D - (365 * yoe + yoe div 4 - yoe div 100) = t" unfolding yoe D by simp
  with b show "0 \<le> D - (365 * yoe + yoe div 4 - yoe div 100)"
    "D - (365 * yoe + yoe div 4 - yoe div 100) \<le> 365" by simp_all
qed

lemma civil_from_days_range:
  assumes "civil_from_days days = (y, m, d)"
  shows "1 \<le> m \<and> m \<le> 12 \<and> 0 \<le> d \<and> d < 32"
proof -
  define doe where "doe = (days + 719468) mod 146097"
  define yoe where "yoe = (doe - doe div 1460 + doe div 36524 - doe div 146096) div 365"
  define doy where "doy = doe - (365 * yoe + yoe div 4 - yoe div 100)"
  have "0 \<le> doe" "doe \<le> 146096" using pos_mod_bound [of 146097 "days + 719468"]
    by (auto simp: doe_def)
  then have doy: "0 \<le> doy" "doy \<le> 365" using day_of_year [of doe]
    unfolding doy_def yoe_def by blast+
  define mp where "mp = (5 * doy + 2) div 153"
  define e where "e = (153 * mp + 2) div 5"
  have "5 * doy + 2 = 153 * mp + (5 * doy + 2) mod 153" "153 * mp + 2 = 5 * e + (153 * mp + 2) mod 5"
    by (simp_all add: mp_def e_def)
  moreover have "0 \<le> (5 * doy + 2) mod 153" "(5 * doy + 2) mod 153 < 153"
    "0 \<le> (153 * mp + 2) mod 5" "(153 * mp + 2) mod 5 < 5" by simp_all
  ultimately have b: "0 \<le> mp" "mp \<le> 11" "0 \<le> doy - e" "doy - e < 31" using doy by linarith+
  have "m = (if mp < 10 then mp + 3 else mp - 9)" "d = doy - e + 1"
    using assms unfolding civil_from_days_def Let_def doe_def [symmetric] yoe_def [symmetric]
      doy_def [symmetric] mp_def [symmetric] e_def [symmetric] by blast+
  with b show ?thesis by simp
qed

lemma length_pad_number: "n < 10 ^ Suc k \<Longrightarrow> length (pad_number (Suc k) n) = Suc k"
  using length_print_base [of 10 n k] by (simp add: pad_number_def Let_def)

lemma length_pad_2: "n < 100 \<Longrightarrow> length (pad_number 2 n) = 2"
  using length_pad_number [of n 1] by (simp add: numeral_2_eq_2)

lemma length_pad_int: "x < 100 \<Longrightarrow> length (pad_number 2 (nat x)) = 2"
  by (rule length_pad_2) linarith

lemma length_pad_4: "n < 10000 \<Longrightarrow> length (pad_number 4 n) = 4"
  using length_pad_number [of n 3] by simp

lemma length_weekday: "i < 7 \<Longrightarrow> length (weekdays ! i) = 3"
  by (auto simp: weekdays_def less_Suc_eq numeral_eq_Suc)

lemma length_month: "i < 12 \<Longrightarrow> length (months ! i) = 3"
  by (auto simp: months_def less_Suc_eq numeral_eq_Suc)

lemma format_response_date_length:
  assumes "format_response_date instant = Some date"
  shows "length date = 29"
proof -
  obtain y m d where c: "civil_from_days (instant div 86400) = (y, m, d)" by (metis prod_cases3)
  note range = civil_from_days_range [OF c]
  let ?t = "instant mod 86400"
  have y: "\<not> (y < 0 \<or> y > 9999)" and date: "date = weekdays ! nat ((instant div 86400 + 4) mod 7) @
      '', '' @ pad_number 2 (nat d) @ '' '' @ months ! nat (m - 1) @ '' '' @ pad_number 4 (nat y) @ '' '' @
      pad_number 2 (nat (?t div 3600)) @ '':'' @ pad_number 2 (nat (?t mod 3600 div 60)) @ '':'' @
      pad_number 2 (nat (?t mod 60)) @ '' GMT''"
    using assms unfolding format_response_date_def Let_def c prod.case
    by (metis option.distinct(1), metis option.distinct(1) option.inject)
  have "0 \<le> ?t" "?t < 86400" by simp_all
  then have "?t div 3600 < 100" "?t mod 3600 div 60 < 100" "?t mod 60 < 100" by simp_all
  then have time: "length (pad_number 2 (nat (?t div 3600))) = 2"
    "length (pad_number 2 (nat (?t mod 3600 div 60))) = 2" "length (pad_number 2 (nat (?t mod 60))) = 2"
    by (auto intro!: length_pad_int)
  have "length (pad_number 2 (nat d)) = 2" "length (pad_number 4 (nat y)) = 4"
    using range y length_pad_int [of d] length_pad_4 [of "nat y"] by auto
  moreover have "length (weekdays ! nat ((instant div 86400 + 4) mod 7)) = 3"
    by (rule length_weekday) (simp add: nat_less_iff)
  moreover have "length (months ! nat (m - 1)) = 3" using range by (intro length_month) auto
  ultimately show ?thesis unfolding date using time by (simp only: length_append list.size)
qed

section \<open>Validated responses\<close>

text \<open>What validation establishes about application fields.\<close>

definition managed_name :: "string \<Rightarrow> bool" where
  "managed_name name \<longleftrightarrow>
     list_ex (ascii_case_insensitive_equal name)
       [''Content-Length'', ''Transfer-Encoding'', ''Connection'', ''Keep-Alive'', ''Date'']"

definition response_field_ok :: "http_header \<Rightarrow> bool" where
  "response_field_ok h \<longleftrightarrow>
     field_name h \<noteq> [] \<and> list_all is_http_token_character (field_name h) \<and>
     list_all is_http_field_value_byte (field_value h) \<and> \<not> managed_name (field_name h)"

definition field_bytes :: "http_header list \<Rightarrow> nat" where
  "field_bytes hs = sum_list (map (\<lambda>h. length (field_name h) + length (field_value h) + 4) hs)"

lemma validate_header_ok:
  "validate_header h i remaining = Inr n \<Longrightarrow>
     response_field_ok h \<and> n = length (field_name h) + length (field_value h) + 4 \<and> n \<le> remaining"
  by (auto simp: validate_header_def response_field_ok_def managed_name_def Let_def split: if_splits)

lemma validate_headers_ok:
  "validate_headers hs i size0 = Inr () \<Longrightarrow> size0 \<le> maximum_head_bytes \<Longrightarrow>
     list_all response_field_ok hs \<and> size0 + field_bytes hs \<le> maximum_head_bytes"
proof (induction hs arbitrary: i size0)
  case (Cons h hs)
  then obtain n where n: "validate_header h i (maximum_head_bytes - size0) = Inr n"
    "validate_headers hs (i + 1) (size0 + n) = Inr ()"
    by (auto split: sum.splits)
  note ok = validate_header_ok [OF n(1)]
  with Cons.prems(2) have "size0 + n \<le> maximum_head_bytes" by linarith
  with Cons.IH [OF n(2)] ok show ?case by (auto simp: field_bytes_def)
qed (simp add: field_bytes_def)

definition response_ok :: "http_response \<Rightarrow> bool" where
  "response_ok r \<longleftrightarrow>
     100 \<le> resp_status r \<and> resp_status r \<le> 599 \<and> valid_reason_phrase (resp_reason r) \<and>
     list_all response_field_ok (resp_headers r) \<and>
     (status_has_no_message_body (resp_status r) \<longrightarrow> resp_content_length r = 0) \<and>
     initial_head_size (resp_status r) (resp_reason r) (resp_content_length r) +
       field_bytes (resp_headers r) \<le> maximum_head_bytes \<and>
     (if resp_streaming r then resp_body r = []
      else length (resp_body r) = resp_content_length r \<and>
           resp_content_length r \<le> maximum_memory_body_bytes)"

lemma validate_response_ok:
  assumes "validate_response status reason hs n = Inr ()"
  shows "100 \<le> status \<and> status \<le> 599 \<and> valid_reason_phrase reason \<and> list_all response_field_ok hs \<and>
         (status_has_no_message_body status \<longrightarrow> n = 0) \<and>
         initial_head_size status reason n + field_bytes hs \<le> maximum_head_bytes"
  using assms validate_headers_ok [of hs 0 "initial_head_size status reason n"]
  by (auto simp: validate_response_def Let_def split: if_splits)

lemma create_response_ok:
  "create_response date status reason hs body = Inr r \<Longrightarrow> response_ok r"
  by (auto simp: create_response_def response_ok_def make_http_response_def
      split: if_splits sum.splits dest!: validate_response_ok)

lemma create_streaming_ok:
  "create_streaming date status reason hs n reader = Inr r \<Longrightarrow> response_ok r"
  by (auto simp: create_streaming_def response_ok_def make_http_response_def
      split: if_splits sum.splits dest!: validate_response_ok)

lemma foldl_field_bytes:
  "foldl (\<lambda>n h. n + length (field_name h) + length (field_value h) + 4) k hs = k + field_bytes hs"
  by (induction hs arbitrary: k) (auto simp: field_bytes_def)

lemma length_status: "100 \<le> n \<Longrightarrow> n \<le> 599 \<Longrightarrow> length (print_base 10 n) = 3"
  by (simp add: print_base.simps div_less_iff_less_mult)

lemma length_fields:
  "length (concat (map (\<lambda>h. field_name h @ CHR '':'' # CHR '' '' # field_value h @ [CR, LF]) hs)) =
     field_bytes hs"
  by (induction hs) (auto simp: field_bytes_def)

lemma decimal_digit_count_0: "decimal_digit_count 0 = 1"
  by (simp add: decimal_digit_count_eq print_base.simps)

lemma serialized_head_size_initial:
  "response_ok r \<Longrightarrow> serialized_head_size r =
     initial_head_size (resp_status r) (resp_reason r) (resp_content_length r) +
     field_bytes (resp_headers r)"
  by (auto simp: serialized_head_size_def initial_head_size_def foldl_field_bytes response_ok_def
      status_omits_content_length_def status_has_no_message_body_def decimal_digit_count_0)

lemma length_serialized:
  assumes "response_ok r" "resp_status r \<ge> 200 \<longrightarrow> length (resp_date r) = 29"
  shows "length (serialize_http_response_head r) = serialized_head_size r"
  using assms length_status [of "resp_status r"]
  by (auto simp: serialize_http_response_head_def serialized_head_size_def length_fields
      foldl_field_bytes response_date_field_bytes_def decimal_digit_count_eq response_ok_def)

text \<open>
  The head boundary is exact: for every response either factory accepts, with the current time
  formatted as Date, the serialized head has exactly the length reserved for it, and that length is
  within the 32768-byte boundary the validation predicted.
\<close>

lemma response_head_exact:
  assumes "create_response date status reason hs body = Inr r \<or>
           create_streaming date status reason hs n reader = Inr r"
    and "format_response_date instant = Some date"
  shows "length (serialize_http_response_head r) = serialized_head_size r \<and>
         serialized_head_size r \<le> maximum_head_bytes"
proof -
  have ok: "response_ok r" using assms(1) create_response_ok create_streaming_ok by blast
  have "resp_status r \<ge> 200 \<longrightarrow> resp_date r = date"
    using assms(1) by (auto simp: create_response_def create_streaming_def make_http_response_def
        split: if_splits sum.splits)
  with format_response_date_length [OF assms(2)] ok show ?thesis
    by (simp add: length_serialized serialized_head_size_initial) (simp add: response_ok_def)
qed

section \<open>No response splitting\<close>

definition header_line :: "http_header \<Rightarrow> string" where
  "header_line h = field_name h @ '': '' @ field_value h"

definition no_crlf :: "string \<Rightarrow> bool" where
  "no_crlf s \<longleftrightarrow> CR \<notin> set s \<and> LF \<notin> set s"

lemma no_crlf_append [simp]: "no_crlf (a @ b) \<longleftrightarrow> no_crlf a \<and> no_crlf b"
  by (auto simp: no_crlf_def)

lemma no_crlf_print_base: "no_crlf (print_base 10 n)"
proof -
  have "std_digit 10 CR = None" "std_digit 10 LF = None"
    by (simp_all add: std_digit_def Let_def less_eq_char_def)
  then show ?thesis using print_base_digits [of 10 n] by (auto simp: no_crlf_def list_all_iff)
qed

lemma no_crlf_field_bytes: "list_all is_http_field_value_byte s \<Longrightarrow> no_crlf s"
  by (auto simp: no_crlf_def list_all_iff)

lemma no_crlf_token: "list_all is_http_token_character s \<Longrightarrow> no_crlf s"
  by (auto simp: no_crlf_def list_all_iff)

lemma response_field_ok_line: "response_field_ok h \<Longrightarrow> no_crlf (header_line h)"
  using no_crlf_token [of "field_name h"] no_crlf_field_bytes [of "field_value h"]
  by (simp add: response_field_ok_def header_line_def no_crlf_def)

lemma no_crlf_literals:
  "no_crlf '', ''" "no_crlf '' ''" "no_crlf '':''" "no_crlf '' GMT''" "no_crlf '': ''" "no_crlf ''HTTP/1.1 ''"
  "no_crlf ''Content-Length: ''" "no_crlf ''Connection: close''" "no_crlf ''Date: ''"
  by (simp_all add: no_crlf_def)

lemma no_crlf_names:
  "i < 7 \<Longrightarrow> no_crlf (weekdays ! i)" "j < 12 \<Longrightarrow> no_crlf (months ! j)"
  by (auto simp: weekdays_def months_def no_crlf_def less_Suc_eq numeral_eq_Suc)

lemma no_crlf_pad: "no_crlf (pad_number w n)"
  using no_crlf_print_base [of n] by (auto simp: pad_number_def Let_def no_crlf_def)

lemma format_response_date_no_crlf:
  assumes "format_response_date instant = Some date"
  shows "no_crlf date"
proof -
  obtain y m d where c: "civil_from_days (instant div 86400) = (y, m, d)" by (metis prod_cases3)
  have "nat ((instant div 86400 + 4) mod 7) < 7" by (simp add: nat_less_iff)
  moreover have "nat (m - 1) < 12" using civil_from_days_range [OF c] by auto
  ultimately show ?thesis
    using assms unfolding format_response_date_def Let_def c prod.case
    by (auto split: if_splits simp: no_crlf_pad no_crlf_literals no_crlf_names simp del: append.simps)
qed

definition response_lines :: "http_response \<Rightarrow> string list" where
  "response_lines r =
     (''HTTP/1.1 '' @ print_base 10 (resp_status r) @ '' '' @ resp_reason r) #
     map header_line (resp_headers r) @
     (if status_omits_content_length (resp_status r) then []
      else [''Content-Length: '' @ print_base 10 (resp_content_length r)]) @
     (if resp_status r \<ge> 200 then [''Connection: close'', ''Date: '' @ resp_date r] else [])"

lemma serialize_lines:
  "serialize_http_response_head r = concat (map (\<lambda>l. l @ [CR, LF]) (response_lines r)) @ [CR, LF]"
proof -
  have "concat (map (\<lambda>h. field_name h @ '': '' @ field_value h @ [CR, LF]) hs) =
      concat (map (\<lambda>l. l @ [CR, LF]) (map header_line hs))" for hs :: "http_header list"
    by (induction hs) (simp_all add: header_line_def)
  then show ?thesis by (simp add: serialize_http_response_head_def response_lines_def)
qed

text \<open>
  C18. No response splitting: whatever reason phrase and fields an application supplies, the head a
  created response serializes to is its status line, one line per application field in order, and
  the transport's own Content-Length, Connection and Date lines, no line containing CR or LF; and no
  application field bears a name the transport manages, so the framing lines are the only ones.
\<close>

theorem response_head_lines:
  assumes "create_response date status reason hs body = Inr r \<or>
           create_streaming date status reason hs n reader = Inr r"
    and "format_response_date instant = Some date"
  shows "serialize_http_response_head r =
           concat (map (\<lambda>l. l @ [CR, LF]) (response_lines r)) @ [CR, LF] \<and>
         list_all no_crlf (response_lines r) \<and>
         list_all (\<lambda>h. \<not> managed_name (field_name h)) (resp_headers r)"
proof -
  have ok: "response_ok r" using assms(1) create_response_ok create_streaming_ok by blast
  have "resp_status r \<ge> 200 \<longrightarrow> resp_date r = date"
    using assms(1) by (auto simp: create_response_def create_streaming_def make_http_response_def
        split: if_splits sum.splits)
  with format_response_date_no_crlf [OF assms(2)] have "resp_status r \<ge> 200 \<longrightarrow> no_crlf (resp_date r)"
    by simp
  moreover from ok have "no_crlf (resp_reason r)"
    by (simp add: response_ok_def valid_reason_phrase_def no_crlf_field_bytes)
  moreover from ok have "list_all no_crlf (map header_line (resp_headers r))"
    by (auto simp: response_ok_def list_all_iff response_field_ok_line)
  ultimately have "list_all no_crlf (response_lines r)"
    by (auto simp: response_lines_def no_crlf_print_base no_crlf_literals simp del: append.simps)
  with ok show ?thesis
    by (auto simp: serialize_lines response_ok_def list_all_iff response_field_ok_def)
qed

theorem response_head_lines_witness:
  "list_all no_crlf (response_lines
      (make_http_response 404 ''Not Found'' [] [] 0 ''Thu, 01 Jan 1970 00:00:00 GMT'' False))"
proof -
  let ?date = "''Thu, 01 Jan 1970 00:00:00 GMT''"
  let ?r = "make_http_response 404 ''Not Found'' [] [] 0 ?date False"
  have "create_response ?date 404 ''Not Found'' [] [] = Inr ?r" by code_simp
  moreover have "format_response_date 0 = Some ?date" by code_simp
  ultimately show ?thesis using response_head_lines [of ?date 404 "''Not Found''" "[]" "[]" ?r 0 False 0]
    by blast
qed

section \<open>The writer\<close>

text \<open>
  The connection and the body reader are arguments: \<open>send c bytes\<close> is the connection after an
  attempt and either its error or the number of bytes taken; \<open>read s n\<close> is the reader after a
  request for at most \<open>n\<close> bytes, with \<open>None\<close> when it throws, and otherwise its error or the bytes
  it put into the buffer.
\<close>

datatype ('e, 'b) write_error =
    Network_failure 'e | Connection_closed | Body_source_failure 'b | Body_source_exception
  | Body_source_contract_violation | Body_ended_early

definition stream_buffer_size :: nat where
  "stream_buffer_size = 16 * 1024"

function send_all ::
    "('c \<Rightarrow> string \<Rightarrow> 'c \<times> ('e + nat)) \<Rightarrow> 'c \<Rightarrow> string \<Rightarrow> 'c \<times> (('e, 'b) write_error, unit) result"
  where
  "send_all send c bytes =
     (if bytes = [] then (c, Inr ())
      else (case send c bytes of
              (c1, Inl e) \<Rightarrow> (c1, Inl (Network_failure e))
            | (c1, Inr sent) \<Rightarrow>
                (if sent = 0 then (c1, Inl Connection_closed)
                 else send_all send c1 (drop sent bytes))))"
  by pat_completeness auto
termination
  by (relation "measure (\<lambda>(send, c, bytes). length bytes)") auto

declare send_all.simps [simp del]

function write_streaming_body ::
    "('c \<Rightarrow> string \<Rightarrow> 'c \<times> ('e + nat)) \<Rightarrow> ('s \<Rightarrow> nat \<Rightarrow> 's \<times> ('b + string) option) \<Rightarrow>
     'c \<Rightarrow> 's \<Rightarrow> nat \<Rightarrow> 'c \<times> (('e, 'b) write_error, unit) result" where
  "write_streaming_body send read c s remaining =
     (if remaining > 0 then
        (let requested = min remaining stream_buffer_size in
         case read s requested of
           (s1, None) \<Rightarrow> (c, Inl Body_source_exception)
         | (s1, Some (Inl e)) \<Rightarrow> (c, Inl (Body_source_failure e))
         | (s1, Some (Inr produced)) \<Rightarrow>
             (if length produced > requested then (c, Inl Body_source_contract_violation)
              else if length produced = 0 then (c, Inl Body_ended_early)
              else (case send_all send c produced of
                      (c1, Inl e) \<Rightarrow> (c1, Inl e)
                    | (c1, Inr _) \<Rightarrow>
                        write_streaming_body send read c1 s1 (remaining - length produced))))
      else (c, Inr ()))"
  by pat_completeness auto
termination
  by (relation "measure (\<lambda>(send, read, c, s, remaining). remaining)") auto

declare write_streaming_body.simps [simp del]

text \<open>The response is returned without its reader when the guard has released it.\<close>

definition write_http_response ::
    "('c \<Rightarrow> string \<Rightarrow> 'c \<times> ('e + nat)) \<Rightarrow> ('s \<Rightarrow> nat \<Rightarrow> 's \<times> ('b + string) option) \<Rightarrow>
     'c \<Rightarrow> 's \<Rightarrow> http_response \<Rightarrow> http_method \<Rightarrow>
     'c \<times> http_response \<times> (('e, 'b) write_error, unit) result" where
  "write_http_response send read c s r meth =
     (let released = (if meth \<noteq> Head \<and> resp_streaming r then r\<lparr>resp_streaming := False\<rparr> else r) in
      case send_all send c (serialize_http_response_head r) of
        (c1, Inl e) \<Rightarrow> (c1, released, Inl e)
      | (c1, Inr _) \<Rightarrow>
          (if meth = Head then (c1, released, Inr ())
           else if resp_streaming r then
             (case write_streaming_body send read c1 s (resp_content_length r) of
                (c2, result) \<Rightarrow> (c2, released, result))
           else (case send_all send c1 (resp_body r) of
                   (c2, result) \<Rightarrow> (c2, released, result))))"

text \<open>
  What the writer relies on: \<open>wire c\<close> is what the peer has been sent, a successful send reports how
  many of the offered bytes were appended to it, a failed one appends nothing.
\<close>

definition sends_to_wire :: "('c \<Rightarrow> string) \<Rightarrow> ('c \<Rightarrow> string \<Rightarrow> 'c \<times> ('e + nat)) \<Rightarrow> bool" where
  "sends_to_wire wire send \<longleftrightarrow>
     (\<forall>c bytes. case send c bytes of
        (c', Inl _) \<Rightarrow> wire c' = wire c
      | (c', Inr n) \<Rightarrow> n \<le> length bytes \<and> wire c' = wire c @ take n bytes)"

lemma sends_to_wireD:
  assumes "sends_to_wire wire send"
  shows "send c bytes = (c', Inl e) \<Longrightarrow> wire c' = wire c"
    "send c bytes = (c', Inr n) \<Longrightarrow> n \<le> length bytes \<and> wire c' = wire c @ take n bytes"
  using assms [unfolded sends_to_wire_def, rule_format, of c bytes] by auto

lemma send_all_wire:
  assumes "sends_to_wire wire send" "send_all send c bytes = (c', r)"
  shows "\<exists>sent. wire c' = wire c @ sent \<and> prefix sent bytes \<and> (r = Inr () \<longrightarrow> sent = bytes)"
  using assms(2)
proof (induction "length bytes" arbitrary: c bytes rule: less_induct)
  case less
  show ?case
  proof (cases "bytes = []")
    case True
    with less.prems show ?thesis by (subst (asm) send_all.simps) auto
  next
    case False
    obtain c1 q where q: "send c bytes = (c1, q)" by force
    show ?thesis
    proof (cases q)
      case (Inl e)
      with less.prems False q sends_to_wireD(1) [OF assms(1)] show ?thesis
        by (subst (asm) send_all.simps) auto
    next
      case (Inr n)
      with q have w: "n \<le> length bytes" "wire c1 = wire c @ take n bytes"
        using sends_to_wireD(2) [OF assms(1)] by blast+
      show ?thesis
      proof (cases "n = 0")
        case True
        with less.prems False q Inr w show ?thesis by (subst (asm) send_all.simps) auto
      next
        case n: False
        with less.prems False q Inr have "send_all send c1 (drop n bytes) = (c', r)"
          by (subst (asm) send_all.simps) auto
        with less.hyps [of "drop n bytes" c1] n False obtain sent where
          "wire c' = wire c1 @ sent" "prefix sent (drop n bytes)" "r = Inr () \<longrightarrow> sent = drop n bytes"
          by auto
        moreover from this(2) have "prefix (take n bytes @ sent) (take n bytes @ drop n bytes)"
          by (simp del: append_take_drop_id)
        ultimately show ?thesis using w by (intro exI [of _ "take n bytes @ sent"]) auto
      qed
    qed
  qed
qed

lemma write_streaming_wire:
  fixes send :: "'c \<Rightarrow> string \<Rightarrow> 'c \<times> ('e + nat)"
    and read :: "'s \<Rightarrow> nat \<Rightarrow> 's \<times> ('b + string) option"
  assumes "sends_to_wire wire send" "write_streaming_body send read c s n = (c', r)"
  shows "\<exists>sent. wire c' = wire c @ sent \<and> length sent \<le> n \<and> (r = Inr () \<longrightarrow> length sent = n)"
  using assms(2)
proof (induction n arbitrary: c s rule: less_induct)
  case (less n)
  show ?case
  proof (cases "n > 0")
    case False
    with less.prems show ?thesis by (subst (asm) write_streaming_body.simps) auto
  next
    case True
    let ?k = "min n stream_buffer_size"
    obtain s1 p where p: "read s ?k = (s1, p)" by force
    show ?thesis
    proof (cases "\<exists>bytes. p = Some (Inr bytes) \<and> length bytes \<le> ?k \<and> bytes \<noteq> []")
      case False
      with less.prems True p have "c' = c \<and> r \<noteq> Inr ()"
        by (subst (asm) write_streaming_body.simps)
          (auto simp: Let_def split: option.splits sum.splits if_splits)
      then show ?thesis by auto
    next
      case bytes: True
      then obtain bytes where b: "p = Some (Inr bytes)" "length bytes \<le> ?k" "bytes \<noteq> []" by blast
      obtain c1 and q :: "(('e, 'b) write_error, unit) result"
        where q: "send_all send c bytes = (c1, q)" by force
      from send_all_wire [OF assms(1) q] obtain sent where
        sent: "wire c1 = wire c @ sent" "prefix sent bytes" "q = Inr () \<longrightarrow> sent = bytes" by blast
      show ?thesis
      proof (cases q)
        case (Inl e)
        with less.prems True p b q have "(c', r) = (c1, Inl e)"
          by (subst (asm) write_streaming_body.simps) (simp add: Let_def)
        with sent b prefix_length_le [OF sent(2)] show ?thesis by auto
      next
        case (Inr u)
        with less.prems True p b q have
          "write_streaming_body send read c1 s1 (n - length bytes) = (c', r)"
          by (subst (asm) write_streaming_body.simps) (simp add: Let_def)
        with less.IH [of "n - length bytes"] b obtain more where
          "wire c' = wire c1 @ more" "length more \<le> n - length bytes"
          "r = Inr () \<longrightarrow> length more = n - length bytes" using True by auto
        with sent b Inr show ?thesis by (intro exI [of _ "bytes @ more"]) auto
      qed
    qed
  qed
qed

lemma write_response_wire:
  fixes send :: "'c \<Rightarrow> string \<Rightarrow> 'c \<times> ('e + nat)"
    and read :: "'s \<Rightarrow> nat \<Rightarrow> 's \<times> ('b + string) option"
  assumes "sends_to_wire wire send"
    and "write_http_response send read c s r meth = (c', r', result)"
    and "\<not> resp_streaming r \<longrightarrow> length (resp_body r) = resp_content_length r"
  shows "(\<exists>sent. wire c' = wire c @ sent \<and>
            (prefix sent (serialize_http_response_head r) \<or>
             (\<exists>body. sent = serialize_http_response_head r @ body \<and> meth \<noteq> Head \<and>
                     length body \<le> resp_content_length r)) \<and>
            (result = Inr () \<longrightarrow>
               (\<exists>body. sent = serialize_http_response_head r @ body \<and>
                  (if meth = Head then body = []
                   else if resp_streaming r then length body = resp_content_length r
                   else body = resp_body r)))) \<and>
         (meth \<noteq> Head \<longrightarrow> \<not> resp_streaming r')"
proof -
  let ?head = "serialize_http_response_head r"
  have released: "meth \<noteq> Head \<longrightarrow> \<not> resp_streaming r'"
    using assms(2) by (auto simp: write_http_response_def Let_def split: prod.splits sum.splits if_splits)
  obtain c1 q where q: "(send_all send c ?head :: _ \<times> (('e, 'b) write_error, unit) result) = (c1, q)"
    by force
  from send_all_wire [OF assms(1) q] obtain sent where
    sent: "wire c1 = wire c @ sent" "prefix sent ?head" "q = Inr () \<longrightarrow> sent = ?head" by blast
  show ?thesis
  proof (cases q)
    case (Inl e)
    with assms(2) q have "(c', result) = (c1, Inl e)" by (simp add: write_http_response_def Let_def)
    with sent released show ?thesis by blast
  next
    case (Inr u)
    with sent have w: "wire c1 = wire c @ ?head" by simp
    consider "meth = Head" | "meth \<noteq> Head" "resp_streaming r" | "meth \<noteq> Head" "\<not> resp_streaming r"
      by blast
    then show ?thesis
    proof cases
      case 1
      with assms(2) q Inr have "c' = c1" by (simp add: write_http_response_def Let_def)
      with w 1 show ?thesis by auto
    next
      case 2
      with assms(2) q Inr have
        "write_streaming_body send read c1 s (resp_content_length r) = (c', result)"
        by (auto simp: write_http_response_def Let_def split: prod.splits)
      from write_streaming_wire [OF assms(1) this] obtain body where "wire c' = wire c1 @ body"
        "length body \<le> resp_content_length r"
        "result = Inr () \<longrightarrow> length body = resp_content_length r" by blast
      with w 2 released show ?thesis by (intro conjI exI [of _ "?head @ body"]) auto
    next
      case 3
      with assms(2) q Inr have "send_all send c1 (resp_body r) = (c', result)"
        by (auto simp: write_http_response_def Let_def split: prod.splits)
      from send_all_wire [OF assms(1) this] obtain body where "wire c' = wire c1 @ body"
        "prefix body (resp_body r)" "result = Inr () \<longrightarrow> body = resp_body r" by blast
      with w 3 assms(3) released prefix_length_le [of body "resp_body r"] show ?thesis
        by (intro conjI exI [of _ "?head @ body"]) auto
    qed
  qed
qed

text \<open>
  C29. Framing on the wire: over any connection that appends what it reports as sent, a response is
  written as its head followed by at most Content-Length body bytes, and a write that reports
  success has sent exactly the head for HEAD, the stored body for a memory response, and exactly
  Content-Length produced bytes for a streaming one. The streaming reader is released unless the
  request was HEAD.
\<close>

theorem write_response_framing:
  fixes send :: "'c \<Rightarrow> string \<Rightarrow> 'c \<times> ('e + nat)"
    and read :: "'s \<Rightarrow> nat \<Rightarrow> 's \<times> ('b + string) option"
  assumes "sends_to_wire wire send"
    and "write_http_response send read c s r meth = (c', r', result)"
    and "\<not> resp_streaming r \<longrightarrow> length (resp_body r) = resp_content_length r"
  shows "(\<exists>sent. wire c' = wire c @ sent \<and>
            (prefix sent (serialize_http_response_head r) \<or>
             (\<exists>body. sent = serialize_http_response_head r @ body \<and> meth \<noteq> Head \<and>
                     length body \<le> resp_content_length r)) \<and>
            (result = Inr () \<longrightarrow>
               (\<exists>body. sent = serialize_http_response_head r @ body \<and>
                  (if meth = Head then body = []
                   else if resp_streaming r then length body = resp_content_length r
                   else body = resp_body r)))) \<and>
         (meth \<noteq> Head \<longrightarrow> \<not> resp_streaming r')"
  using assms by (rule write_response_wire)

text \<open>A connection that accepts one byte per call, for the example.\<close>

definition one_byte_send :: "string \<Rightarrow> string \<Rightarrow> string \<times> (nat + nat)" where
  "one_byte_send w bytes = (w @ take 1 bytes, Inr (min 1 (length bytes)))"

definition small_response :: http_response where
  "small_response = make_http_response 100 ''Continue'' [] [] 0 [] False"

theorem write_response_framing_witness:
  "\<exists>sent. fst (write_http_response one_byte_send (\<lambda>s n. ((), None :: (nat + string) option)) ''x'' ()
             small_response Head) = ''x'' @ sent \<and>
     prefix sent (serialize_http_response_head small_response)"
proof -
  let ?read = "\<lambda>s n. ((), None :: (nat + string) option)"
  obtain c' r' res where w: "write_http_response one_byte_send ?read ''x'' () small_response Head =
    (c', r', res)" by (metis prod_cases3)
  have "sends_to_wire id one_byte_send"
    by (simp add: sends_to_wire_def one_byte_send_def min_def)
  from write_response_framing [OF this w] w show ?thesis
    by (auto simp: small_response_def make_http_response_def)
qed

end
