(* ===== verification/Http_Router.thy ===== *)
theory Http_Router
  imports Http_Response Request_Target "HOL-Library.Product_Lexorder" "HOL-Library.Multiset"
begin

text \<open>
  The route table of \<^verbatim>\<open>src/http/routing/http_router.cpp\<close>: registration, selection of the most
  specific route, and dispatch with its 204, 404 and 405 answers. A handler is a function of the
  request and the captured suffix. The request type and the type of a handler's outcome are
  parameters of the model, so that a handler can thread state; the first argument of \<open>dispatch\<close> gives
  the outcome of an answer of the router's own. Methods outside the
  enumeration, which \<^verbatim>\<open>register_route\<close> also rejects, are not values of \<open>http_method\<close>.
\<close>

section \<open>Definitions\<close>

definition is_route_path_character :: "char \<Rightarrow> bool" where [byte_class]:
  "is_route_path_character byte \<longleftrightarrow>
     ((CHR ''0'' \<le> byte \<and> byte \<le> CHR ''9'') \<or> (CHR ''A'' \<le> byte \<and> byte \<le> CHR ''Z'') \<or>
      (CHR ''a'' \<le> byte \<and> byte \<le> CHR ''z'')) \<or>
     byte \<in> set (''-._~!$&'' @ [CHR 0x27] @ ''()+,;=:@'')"

fun pattern_bytes :: "string \<Rightarrow> bool" where
  "pattern_bytes [] = True"
| "pattern_bytes (byte # rest) =
     (if byte = CHR ''/'' then pattern_bytes rest
      else if byte = CHR ''%'' then
        (case rest of
           d1 # d2 # rest' \<Rightarrow>
             (if \<not> is_ascii_hexadecimal_digit d1 \<or> \<not> is_ascii_hexadecimal_digit d2 then False
              else pattern_bytes rest')
         | _ \<Rightarrow> False)
      else if \<not> is_route_path_character byte then False
      else pattern_bytes rest)"

definition is_valid_pattern :: "string \<Rightarrow> bool" where
  "is_valid_pattern pattern =
     (if pattern = [] \<or> hd pattern \<noteq> CHR ''/'' \<or> CHR ''?'' \<in> set pattern \<or> CHR ''#'' \<in> set pattern
      then False
      else (case sv_find CHR ''*'' pattern 0 of
              None \<Rightarrow> pattern_bytes pattern
            | Some wildcard \<Rightarrow>
                if wildcard \<noteq> length pattern - 1 \<or> wildcard = 0 \<or> pattern ! (wildcard - 1) \<noteq> CHR ''/''
                then False else pattern_bytes (take wildcard pattern)))"

definition request_path :: "string \<Rightarrow> string" where
  "request_path target =
     (case sv_find CHR ''?'' target 0 of None \<Rightarrow> target | Some query \<Rightarrow> take query target)"

definition path_matches :: "bool \<Rightarrow> string \<Rightarrow> string \<Rightarrow> bool" where
  "path_matches wildcard route_prefix path =
     (if wildcard then prefix route_prefix path else path = route_prefix)"

definition captured_suffix :: "bool \<Rightarrow> string \<Rightarrow> string \<Rightarrow> string" where
  "captured_suffix wildcard route_prefix path =
     (if wildcard then drop (length route_prefix) path else [])"

definition is_more_specific :: "bool \<Rightarrow> nat \<Rightarrow> bool \<Rightarrow> nat \<Rightarrow> bool" where
  "is_more_specific candidate_wildcard candidate_size current_wildcard current_size =
     (if candidate_wildcard \<noteq> current_wildcard then \<not> candidate_wildcard
      else candidate_size > current_size)"

datatype route_error = Handler_failure int | Response_validation_failure response_error_code

type_synonym ('r, 'o) route_handler = "'r \<Rightarrow> string \<Rightarrow> 'o"

record ('r, 'o) route =
  route_method :: http_method
  route_prefix :: string
  route_wildcard :: bool
  route_handler :: "('r, 'o) route_handler"

datatype route_registration_error =
  Invalid_pattern | Duplicate_route | Empty_handler | Too_many_routes

definition maximum_route_count :: nat where
  "maximum_route_count = 128"

definition register_route ::
    "http_method \<Rightarrow> string \<Rightarrow> ('r, 'o) route_handler option \<Rightarrow> ('r, 'o) route list \<Rightarrow>
     ('r, 'o) route list \<times> (route_registration_error, unit) result" where
  "register_route meth pattern handler routes =
     (if \<not> is_valid_pattern pattern then (routes, Inl Invalid_pattern)
      else (case handler of
              None \<Rightarrow> (routes, Inl Empty_handler)
            | Some h \<Rightarrow>
                (let wildcard = suffix ''/*'' pattern;
                     pre = (if wildcard then take (length pattern - 1) pattern else pattern)
                 in if list_ex (\<lambda>r. route_method r = meth \<and> route_wildcard r = wildcard \<and>
                                    route_prefix r = pre) routes
                    then (routes, Inl Duplicate_route)
                    else if length routes \<ge> maximum_route_count then (routes, Inl Too_many_routes)
                    else (routes @ [\<lparr>route_method = meth, route_prefix = pre,
                                     route_wildcard = wildcard, route_handler = h\<rparr>], Inr ()))))"

definition consider_route ::
    "http_method \<Rightarrow> string \<Rightarrow> ('r, 'o) route option \<Rightarrow> ('r, 'o) route \<Rightarrow> ('r, 'o) route option" where
  "consider_route meth path selected r =
     (let method_matches = (route_method r = meth \<or> (meth = Head \<and> route_method r = Get)) in
      if \<not> method_matches \<or> \<not> path_matches (route_wildcard r) (route_prefix r) path then selected
      else (case selected of
              None \<Rightarrow> Some r
            | Some s \<Rightarrow>
                (let explicit_head_tie =
                       (route_method r = Head \<and> route_method s = Get \<and>
                        route_wildcard r = route_wildcard s \<and>
                        length (route_prefix r) = length (route_prefix s))
                 in if explicit_head_tie \<or>
                       is_more_specific (route_wildcard r) (length (route_prefix r))
                         (route_wildcard s) (length (route_prefix s))
                    then Some r else Some s)))"

definition select_route :: "('r, 'o) route list \<Rightarrow> http_method \<Rightarrow> string \<Rightarrow> ('r, 'o) route option" where
  "select_route routes meth path = foldl (consider_route meth path) None routes"

definition make_routing_response ::
    "string \<Rightarrow> nat \<Rightarrow> http_header list \<Rightarrow> (route_error, http_response) result" where
  "make_routing_response date status headers =
     (case create_response date status (http_reason_phrase status) headers [] of
        Inl e \<Rightarrow> Inl (Response_validation_failure (fst e))
      | Inr r \<Rightarrow> Inr r)"

definition all_methods :: "http_method list" where
  "all_methods = [Get, Head, Post, Put, Delete_method, Options]"

text \<open>The dense array of flags is the predicate \<open>allowed\<close>.\<close>

definition method_allowed :: "('r, 'o) route list \<Rightarrow> string \<Rightarrow> http_method \<Rightarrow> bool" where
  "method_allowed routes path m =
     list_ex (\<lambda>r. path_matches (route_wildcard r) (route_prefix r) path \<and>
                  (route_method r = m \<or> (route_method r = Get \<and> m = Head))) routes"

definition append_allowed :: "string \<Rightarrow> http_method \<Rightarrow> string" where
  "append_allowed allow m =
     (if allow \<noteq> [] then allow @ '', '' else allow) @ method_to_string m"

definition dispatch ::
    "((route_error, http_response) result \<Rightarrow> 'o) \<Rightarrow> string \<Rightarrow> ('r \<Rightarrow> http_method) \<Rightarrow> ('r \<Rightarrow> string) \<Rightarrow>
     ('r, 'o) route list \<Rightarrow> 'r \<Rightarrow> 'o" where
  "dispatch answer date method_of target_of routes request =
     (if method_of request = Options \<and> target_of request = ''*''
      then answer (make_routing_response date 204 [])
      else
        (let path = request_path (target_of request) in
         case select_route routes (method_of request) path of
           Some r \<Rightarrow>
             route_handler r request (captured_suffix (route_wildcard r) (route_prefix r) path)
         | None \<Rightarrow>
             (if \<not> list_ex (\<lambda>r. path_matches (route_wildcard r) (route_prefix r) path) routes
              then answer (make_routing_response date 404 [])
              else
                (let allow = foldl append_allowed [] (filter (method_allowed routes path) all_methods)
                 in answer (make_routing_response date 405
                      [\<lparr>field_name = ''Allow'', field_value = allow\<rparr>])))))"

section \<open>The route table\<close>

definition route_key :: "('r, 'o) route \<Rightarrow> http_method \<times> bool \<times> string" where
  "route_key r = (route_method r, route_wildcard r, route_prefix r)"

definition routes_ok :: "('r, 'o) route list \<Rightarrow> bool" where
  "routes_ok routes \<longleftrightarrow> distinct (map route_key routes) \<and> length routes \<le> maximum_route_count"

lemma register_route_ok:
  assumes "routes_ok routes"
  shows "routes_ok (fst (register_route meth pattern handler routes))"
  using assms
  by (auto simp: register_route_def routes_ok_def route_key_def list_ex_iff Let_def
      split: option.splits)

interpretation router: bounded_system
  "\<lambda>(meth, pattern, handler) routes. fst (register_route meth pattern handler routes)"
  routes_ok length "\<lambda>_. maximum_route_count"
  by unfold_locales (auto simp: register_route_ok, simp add: routes_ok_def)

section \<open>Selection\<close>

definition route_candidate :: "http_method \<Rightarrow> string \<Rightarrow> ('r, 'o) route \<Rightarrow> bool" where
  "route_candidate meth path r \<longleftrightarrow>
     (route_method r = meth \<or> (meth = Head \<and> route_method r = Get)) \<and>
     path_matches (route_wildcard r) (route_prefix r) path"

text \<open>Exact routes above wildcards, longer prefixes above shorter, HEAD above GET.\<close>

definition route_rank :: "('r, 'o) route \<Rightarrow> bool \<times> nat \<times> bool" where
  "route_rank r = (\<not> route_wildcard r, length (route_prefix r), route_method r = Head)"

lemma consider_route_rank:
  assumes "case sel of None \<Rightarrow> True | Some s \<Rightarrow> route_candidate meth path s"
  shows "consider_route meth path sel r =
     (if \<not> route_candidate meth path r then sel
      else (case sel of
              None \<Rightarrow> Some r
            | Some s \<Rightarrow> if route_rank s < route_rank r then Some r else Some s))"
  using assms
  by (auto simp: consider_route_def route_candidate_def route_rank_def is_more_specific_def
      less_prod_def Let_def split: option.splits)

lemma select_route_max:
  "case select_route routes meth path of
     None \<Rightarrow> \<forall>r\<in>set routes. \<not> route_candidate meth path r
   | Some s \<Rightarrow> s \<in> set routes \<and> route_candidate meth path s \<and>
       (\<forall>r\<in>set routes. route_candidate meth path r \<longrightarrow> route_rank r \<le> route_rank s)"
proof (induction routes rule: rev_induct)
  case Nil
  then show ?case by (simp add: select_route_def)
next
  case (snoc r routes)
  let ?sel = "select_route routes meth path"
  have step: "select_route (routes @ [r]) meth path = consider_route meth path ?sel r"
    by (simp add: select_route_def)
  have "case ?sel of None \<Rightarrow> True | Some s \<Rightarrow> route_candidate meth path s"
    using snoc.IH by (auto split: option.splits)
  note rank = consider_route_rank [OF this, of r]
  show ?case
    using snoc.IH unfolding step rank by (fastforce split: option.splits)
qed

lemma select_route_None_iff:
  "select_route routes meth path = None \<longleftrightarrow> (\<forall>r\<in>set routes. \<not> route_candidate meth path r)"
  using select_route_max [of routes meth path] by (auto split: option.splits)

lemma same_rank_same_key:
  assumes "route_candidate meth path a" "route_candidate meth path b" "route_rank a = route_rank b"
  shows "route_key a = route_key b"
proof -
  from assms have w: "route_wildcard a = route_wildcard b"
    and len: "length (route_prefix a) = length (route_prefix b)"
    by (auto simp: route_rank_def)
  have "route_prefix a = route_prefix b"
    using assms(1,2) w len
    by (cases "route_wildcard a")
      (auto simp: route_candidate_def path_matches_def prefix_def append_eq_append_conv)
  moreover have "route_method a = route_method b"
    using assms by (auto simp: route_candidate_def route_rank_def)
  ultimately show ?thesis using w by (simp add: route_key_def)
qed

text \<open>
  C28. Route selection: the router selects a route exactly when one accepts the method (HEAD also
  through GET) and the path, and the selected one ranks highest: exact before wildcard, then the
  longest prefix, then explicit HEAD before GET.
\<close>

theorem select_route_most_specific:
  "case select_route routes meth path of
     None \<Rightarrow> \<forall>r\<in>set routes. \<not> route_candidate meth path r
   | Some s \<Rightarrow> s \<in> set routes \<and> route_candidate meth path s \<and>
       (\<forall>r\<in>set routes. route_candidate meth path r \<longrightarrow> route_rank r \<le> route_rank s)"
  by (rule select_route_max)

theorem select_route_most_specific_witness:
  "case select_route
      [\<lparr>route_method = Get, route_prefix = ''/a/'', route_wildcard = True,
        route_handler = (\<lambda>(r :: unit) s. (1 :: nat))\<rparr>,
       \<lparr>route_method = Get, route_prefix = ''/a/b'', route_wildcard = False,
        route_handler = (\<lambda>r s. 2)\<rparr>] Head ''/a/b'' of
     None \<Rightarrow> False
   | Some s \<Rightarrow> route_prefix s = ''/a/b'' \<and> route_candidate Head ''/a/b'' s"
proof -
  let ?rs = "[\<lparr>route_method = Get, route_prefix = ''/a/'', route_wildcard = True,
        route_handler = (\<lambda>(r :: unit) s. (1 :: nat))\<rparr>,
       \<lparr>route_method = Get, route_prefix = ''/a/b'', route_wildcard = False,
        route_handler = (\<lambda>r s. 2)\<rparr>]"
  have "map_option route_prefix (select_route ?rs Head ''/a/b'') = Some ''/a/b''" by code_simp
  then show ?thesis using select_route_most_specific [of ?rs Head "''/a/b''"]
    by (cases "select_route ?rs Head ''/a/b''") auto
qed

lemma select_route_permute:
  assumes "distinct (map route_key routes)" "mset routes' = mset routes"
  shows "select_route routes' meth path = select_route routes meth path"
proof -
  have set: "set routes' = set routes" using assms(2) by (metis set_mset_mset)
  show ?thesis
  proof (cases "select_route routes meth path")
    case None
    then show ?thesis using select_route_None_iff set by metis
  next
    case (Some a)
    then obtain b where b: "select_route routes' meth path = Some b"
      using select_route_None_iff set by (metis option.exhaust)
    from Some select_route_max [of routes meth path] have a: "a \<in> set routes"
      "route_candidate meth path a"
      "\<And>r. r \<in> set routes \<Longrightarrow> route_candidate meth path r \<Longrightarrow> route_rank r \<le> route_rank a" by auto
    from b select_route_max [of routes' meth path] have b': "b \<in> set routes"
      "route_candidate meth path b"
      "\<And>r. r \<in> set routes \<Longrightarrow> route_candidate meth path r \<Longrightarrow> route_rank r \<le> route_rank b"
      using set by auto
    have "route_rank a = route_rank b" using a b' by (simp add: antisym)
    with same_rank_same_key [OF a(2) b'(2)] have "route_key a = route_key b" by simp
    with assms(1) a(1) b'(1) have "a = b" by (auto simp: distinct_map inj_on_def)
    with Some b show ?thesis by simp
  qed
qed

text \<open>
  Registration order does not matter: after any registrations on an empty router, every
  reordering of the table selects the same route for every request, and the table has at most 128
  entries.
\<close>

lemma route_order_irrelevant:
  assumes "routes = fold (\<lambda>(meth, pattern, handler) rs. fst (register_route meth pattern handler rs))
             registrations []"
    and "mset routes' = mset routes"
  shows "select_route routes' meth path = select_route routes meth path \<and>
         length routes \<le> maximum_route_count"
proof -
  have "routes_ok routes"
    unfolding assms(1) by (rule router.inv_run) (simp add: routes_ok_def)
  then show ?thesis using select_route_permute [OF _ assms(2)] by (simp add: routes_ok_def)
qed

definition sample_handler :: "(nat, (route_error, http_response) result) route_handler" where
  "sample_handler r s = Inl (Handler_failure 1)"

section \<open>Dispatch\<close>

lemma method_allowed_iff:
  "method_allowed routes path m \<longleftrightarrow> select_route routes m path \<noteq> None"
  by (auto simp: select_route_None_iff method_allowed_def list_ex_iff route_candidate_def)

lemma append_allowed_bytes:
  "list_all is_http_field_value_byte a \<Longrightarrow>
     list_all is_http_field_value_byte (foldl append_allowed a ms) \<and>
     length (foldl append_allowed a ms) \<le> length a + 9 * length ms"
proof (induction ms arbitrary: a)
  case (Cons m ms)
  have "list_all is_http_field_value_byte (method_to_string m)" "length (method_to_string m) \<le> 7"
    by (cases m; simp add: method_to_string_def byte_class less_eq_char_def)+
  moreover have "list_all is_http_field_value_byte '', ''" by (simp add: byte_class less_eq_char_def)
  ultimately have "list_all is_http_field_value_byte (append_allowed a m)"
    "length (append_allowed a m) \<le> length a + 9"
    using Cons.prems by (auto simp: append_allowed_def)
  with Cons.IH [of "append_allowed a m"] show ?case by simp
qed simp

lemma routing_statuses:
  "validate_response 204 (http_reason_phrase 204) [] 0 = Inr ()"
  "validate_response 404 (http_reason_phrase 404) [] 0 = Inr ()"
  "http_reason_phrase 204 = ''No Content''" "http_reason_phrase 404 = ''Not Found''"
  "http_reason_phrase 405 = ''Method Not Allowed''"
  by code_simp+

lemma routing_responses:
  "make_routing_response date 204 [] = Inr (make_http_response 204 ''No Content'' [] [] 0 date False)"
  "make_routing_response date 404 [] = Inr (make_http_response 404 ''Not Found'' [] [] 0 date False)"
  using routing_statuses
  by (simp_all add: make_routing_response_def create_response_def maximum_memory_body_bytes_def)

lemma allow_response:
  assumes "list_all is_http_field_value_byte allow" "length allow \<le> 54"
  shows "make_routing_response date 405 [\<lparr>field_name = ''Allow'', field_value = allow\<rparr>] =
    Inr (make_http_response 405 ''Method Not Allowed''
      [\<lparr>field_name = ''Allow'', field_value = allow\<rparr>] [] 0 date False)"
proof -
  have "initial_head_size 405 ''Method Not Allowed'' 0 = 110" by code_simp
  moreover have "\<not> status_has_no_message_body 405" "valid_reason_phrase ''Method Not Allowed''"
    by code_simp+
  moreover have "validate_header \<lparr>field_name = ''Allow'', field_value = allow\<rparr> 0
      (maximum_head_bytes - 110) = Inr (length allow + 9)"
  proof -
    have "list_all is_http_token_character ''Allow''" "\<not> managed_name ''Allow''" by code_simp+
    then show ?thesis using assms
      by (simp add: validate_header_def managed_name_def maximum_head_bytes_def)
  qed
  ultimately have "validate_response 405 ''Method Not Allowed''
      [\<lparr>field_name = ''Allow'', field_value = allow\<rparr>] 0 = Inr ()"
    by (simp add: validate_response_def maximum_response_header_count_def maximum_head_bytes_def)
  then show ?thesis
    by (simp add: make_routing_response_def create_response_def routing_statuses
        maximum_memory_body_bytes_def)
qed

text \<open>
  Dispatch without a route: the router answers 404 when no route accepts the path, and 405 when
  only other methods do, with an Allow field naming, in method order, exactly the methods the router
  would find a route for; these answers are always valid responses. The server-wide OPTIONS is
  answered 204.
\<close>

lemma dispatch_unrouted:
  assumes "select_route routes (method_of request) (request_path (target_of request)) = None"
  shows "dispatch answer date method_of target_of routes request =
     answer (let path = request_path (target_of request) in
      if method_of request = Options \<and> target_of request = ''*''
      then Inr (make_http_response 204 ''No Content'' [] [] 0 date False)
      else if \<forall>m. select_route routes m path = None
      then Inr (make_http_response 404 ''Not Found'' [] [] 0 date False)
      else Inr (make_http_response 405 ''Method Not Allowed''
             [\<lparr>field_name = ''Allow'',
               field_value = foldl append_allowed []
                 (filter (\<lambda>m. select_route routes m path \<noteq> None) all_methods)\<rparr>] [] 0 date False))"
proof -
  let ?path = "request_path (target_of request)"
  let ?ms = "filter (\<lambda>m. select_route routes m ?path \<noteq> None) all_methods"
  have "list_ex (\<lambda>r. path_matches (route_wildcard r) (route_prefix r) ?path) routes \<longleftrightarrow>
      \<not> (\<forall>m. select_route routes m ?path = None)"
    by (auto simp: select_route_None_iff list_ex_iff route_candidate_def)
  moreover have "length ?ms \<le> 6"
    using length_filter_le [of _ all_methods] by (simp add: all_methods_def)
  then have "make_routing_response date 405
      [\<lparr>field_name = ''Allow'', field_value = foldl append_allowed [] ?ms\<rparr>] =
    Inr (make_http_response 405 ''Method Not Allowed''
      [\<lparr>field_name = ''Allow'', field_value = foldl append_allowed [] ?ms\<rparr>] [] 0 date False)"
    using append_allowed_bytes [of "[]" ?ms] by (intro allow_response) auto
  moreover have "method_allowed routes ?path = (\<lambda>m. select_route routes m ?path \<noteq> None)"
    by (simp add: fun_eq_iff method_allowed_iff)
  ultimately show ?thesis
    using assms by (simp add: dispatch_def routing_responses Let_def)
qed

end
