(* ===== verification/Session_Store.thy ===== *)
theory Session_Store
  imports Prelude
begin

text \<open>
  Owner sessions: the credential codec (\<^verbatim>\<open>src/session/sodium_session_credential_codec.cpp\<close>) and
  the bounded store (\<^verbatim>\<open>src/session/session_store.cpp\<close>). libsodium's random bytes, hash and
  hexadecimal conversions are arguments; so is the monotonic clock. Both live in a world \<open>'w\<close> that
  each call threads through. Time is an integer number of ticks. Allocation failures are not
  modelled; each operation runs under the store's mutex and is one atomic step.
\<close>

section \<open>Credential codec\<close>

datatype credential_error = Invalid_credential | Cryptography_unavailable

definition credential_bytes :: nat where
  "credential_bytes = 32"

definition encoded_credential_bytes :: nat where
  "encoded_credential_bytes = credential_bytes * 2"

definition valid_encoded_credential :: "string \<Rightarrow> bool" where
  "valid_encoded_credential credential \<longleftrightarrow>
     length credential = encoded_credential_bytes \<and>
     list_all (\<lambda>byte. (CHR ''0'' \<le> byte \<and> byte \<le> CHR ''9'') \<or> (CHR ''a'' \<le> byte \<and> byte \<le> CHR ''f''))
       credential"

definition codec_generate ::
    "('w \<Rightarrow> 'w \<times> string) \<Rightarrow> (string \<Rightarrow> string) \<Rightarrow> (string \<Rightarrow> 'd) \<Rightarrow> 'w \<Rightarrow>
     'w \<times> (credential_error, string \<times> 'd) result" where
  "codec_generate random_bytes bin2hex generichash w =
     (case random_bytes w of
        (w1, bytes) \<Rightarrow> (w1, Inr (bin2hex bytes, generichash bytes)))"

definition codec_digest ::
    "(string \<Rightarrow> string option) \<Rightarrow> (string \<Rightarrow> 'd) \<Rightarrow> string \<Rightarrow> (credential_error, 'd) result" where
  "codec_digest hex2bin generichash credential =
     (if \<not> valid_encoded_credential credential then Inl Invalid_credential
      else (case hex2bin credential of
              None \<Rightarrow> Inl Invalid_credential
            | Some decoded \<Rightarrow>
                if length decoded \<noteq> credential_bytes then Inl Invalid_credential
                else Inr (generichash decoded)))"

section \<open>The store\<close>

record session_policy =
  absolute_lifetime :: int
  idle_timeout :: int
  maximum_sessions :: nat

record ('d, 'p) session_entry =
  entry_digest :: 'd
  entry_principal :: 'p
  entry_created :: int
  entry_last_activity :: int

record ('d, 'p) session_store =
  store_policy :: session_policy
  store_entries :: "('d, 'p) session_entry list"

datatype session_store_error =
  Invalid_policy | Credential_generation_failed | Credential_digest_failed

definition maximum_generation_attempts :: nat where
  "maximum_generation_attempts = 4"

definition create_store ::
    "session_policy \<Rightarrow> (session_store_error, ('d, 'p) session_store) result" where
  "create_store policy =
     (if maximum_sessions policy = 0 \<or> absolute_lifetime policy \<le> 0 \<or> idle_timeout policy \<le> 0
      then Inl Invalid_policy
      else Inr \<lparr>store_policy = policy, store_entries = []\<rparr>)"

definition session_expired :: "session_policy \<Rightarrow> int \<Rightarrow> ('d, 'p) session_entry \<Rightarrow> bool" where
  "session_expired policy now e \<longleftrightarrow>
     now - entry_created e \<ge> absolute_lifetime policy \<or>
     now - entry_last_activity e \<ge> idle_timeout policy"

definition store_contains :: "('d, 'p) session_store \<Rightarrow> 'd \<Rightarrow> bool" where
  "store_contains s d \<longleftrightarrow> list_ex (\<lambda>e. entry_digest e = d) (store_entries s)"

definition remove_expired :: "int \<Rightarrow> ('d, 'p) session_store \<Rightarrow> ('d, 'p) session_store" where
  "remove_expired now s =
     s\<lparr>store_entries := filter (\<lambda>e. \<not> session_expired (store_policy s) now e) (store_entries s)\<rparr>"

text \<open>\<^verbatim>\<open>std::ranges::min_element\<close>: the first of the least recently active entries, then its erasure.\<close>

fun least_recent :: "('d, 'p) session_entry list \<Rightarrow> nat" where
  "least_recent [] = 0"
| "least_recent [e] = 0"
| "least_recent (e # f # es) =
     (let i = least_recent (f # es)
      in if entry_last_activity ((f # es) ! i) < entry_last_activity e then Suc i else 0)"

definition erase_at :: "nat \<Rightarrow> 'a list \<Rightarrow> 'a list" where
  "erase_at i xs = take i xs @ drop (Suc i) xs"

definition evict_least_recent_if_full :: "('d, 'p) session_store \<Rightarrow> ('d, 'p) session_store" where
  "evict_least_recent_if_full s =
     (if length (store_entries s) \<noteq> maximum_sessions (store_policy s) then s
      else s\<lparr>store_entries := erase_at (least_recent (store_entries s)) (store_entries s)\<rparr>)"

fun create_attempts ::
    "('w \<Rightarrow> 'w \<times> (credential_error, string \<times> 'd) result) \<Rightarrow> ('w \<Rightarrow> 'w \<times> int) \<Rightarrow> 'p \<Rightarrow> nat \<Rightarrow>
     'w \<times> ('d, 'p) session_store \<Rightarrow>
     ('w \<times> ('d, 'p) session_store) \<times> (session_store_error, string) result" where
  "create_attempts generate clock owner 0 ws = (ws, Inl Credential_generation_failed)"
| "create_attempts generate clock owner (Suc attempts) ws =
     (case generate (fst ws) of
        (w1, Inl _) \<Rightarrow> ((w1, snd ws), Inl Credential_generation_failed)
      | (w1, Inr (credential, digest)) \<Rightarrow>
          (case clock w1 of
             (w2, now) \<Rightarrow>
               (let s1 = remove_expired now (snd ws) in
                if store_contains s1 digest
                then create_attempts generate clock owner attempts (w2, s1)
                else
                  (let s2 = evict_least_recent_if_full s1 in
                   ((w2, s2\<lparr>store_entries := store_entries s2 @
                          [\<lparr>entry_digest = digest, entry_principal = owner,
                            entry_created = now, entry_last_activity = now\<rparr>]\<rparr>),
                    Inr credential)))))"

definition create_session where
  "create_session generate clock owner ws =
     create_attempts generate clock owner maximum_generation_attempts ws"

definition session_authenticate ::
    "(string \<Rightarrow> (credential_error, 'd) result) \<Rightarrow> ('w \<Rightarrow> 'w \<times> int) \<Rightarrow> string \<Rightarrow>
     'w \<times> ('d, 'p) session_store \<Rightarrow>
     ('w \<times> ('d, 'p) session_store) \<times> (session_store_error, 'p option) result" where
  "session_authenticate digest clock credential ws =
     (case digest credential of
        Inl e \<Rightarrow> (ws, if e = Invalid_credential then Inr None else Inl Credential_digest_failed)
      | Inr d \<Rightarrow>
          (case clock (fst ws) of
             (w1, now) \<Rightarrow>
               (let s1 = remove_expired now (snd ws) in
                case find_index (\<lambda>e. entry_digest e = d) (store_entries s1) of
                  None \<Rightarrow> ((w1, s1), Inr None)
                | Some i \<Rightarrow>
                    ((w1, s1\<lparr>store_entries := (store_entries s1)
                         [i := (store_entries s1 ! i)\<lparr>entry_last_activity := now\<rparr>]\<rparr>),
                     Inr (Some (entry_principal (store_entries s1 ! i)))))))"

definition session_invalidate ::
    "(string \<Rightarrow> (credential_error, 'd) result) \<Rightarrow> ('w \<Rightarrow> 'w \<times> int) \<Rightarrow> string \<Rightarrow>
     'w \<times> ('d, 'p) session_store \<Rightarrow>
     ('w \<times> ('d, 'p) session_store) \<times> (session_store_error, 'p option) result" where
  "session_invalidate digest clock credential ws =
     (case digest credential of
        Inl e \<Rightarrow> (ws, if e = Invalid_credential then Inr None else Inl Credential_digest_failed)
      | Inr d \<Rightarrow>
          (case clock (fst ws) of
             (w1, now) \<Rightarrow>
               (let s1 = remove_expired now (snd ws) in
                case find_index (\<lambda>e. entry_digest e = d) (store_entries s1) of
                  None \<Rightarrow> ((w1, s1), Inr None)
                | Some i \<Rightarrow>
                    ((w1, s1\<lparr>store_entries := erase_at i (store_entries s1)\<rparr>),
                     Inr (Some (entry_principal (store_entries s1 ! i)))))))"

section \<open>Invariant\<close>

definition store_ok :: "('d, 'p) session_store \<Rightarrow> bool" where
  "store_ok s \<longleftrightarrow>
     0 < maximum_sessions (store_policy s) \<and>
     length (store_entries s) \<le> maximum_sessions (store_policy s) \<and>
     distinct (map entry_digest (store_entries s))"

lemma remove_expired_policy [simp]: "store_policy (remove_expired now s) = store_policy s"
  by (simp add: remove_expired_def)

lemma set_remove_expired:
  "set (store_entries (remove_expired now s)) =
     {e \<in> set (store_entries s). \<not> session_expired (store_policy s) now e}"
  by (auto simp: remove_expired_def)

lemma remove_expired_ok: "store_ok s \<Longrightarrow> store_ok (remove_expired now s)"
  by (auto simp: store_ok_def remove_expired_def distinct_map_filter
      intro: order_trans [OF length_filter_le])

lemma set_erase_at: "set (erase_at i xs) \<subseteq> set xs"
  by (auto simp: erase_at_def dest: in_set_takeD in_set_dropD)

lemma length_erase_at: "i < length xs \<Longrightarrow> length (erase_at i xs) = length xs - 1"
  by (auto simp: erase_at_def)

lemma map_erase_at: "map f (erase_at i xs) = erase_at i (map f xs)"
  by (simp add: erase_at_def take_map drop_map)

lemma distinct_erase_at:
  assumes "distinct xs" "i < length xs"
  shows "distinct (erase_at i xs) \<and> set (erase_at i xs) = set xs - {xs ! i}"
proof -
  have xs: "xs = take i xs @ xs ! i # drop (Suc i) xs" using assms(2) by (rule id_take_nth_drop)
  have "distinct (take i xs @ xs ! i # drop (Suc i) xs)" using assms(1) xs by simp
  then have "distinct (erase_at i xs)" "xs ! i \<notin> set (erase_at i xs)"
    by (auto simp: erase_at_def)
  moreover have "set xs = insert (xs ! i) (set (erase_at i xs))"
    unfolding erase_at_def by (subst xs) auto
  ultimately show ?thesis by blast
qed

lemma least_recent_less: "es \<noteq> [] \<Longrightarrow> least_recent es < length es"
  by (induction es rule: least_recent.induct) (auto simp: Let_def)

lemma least_recent_le:
  "e \<in> set es \<Longrightarrow> entry_last_activity (es ! least_recent es) \<le> entry_last_activity e"
  by (induction es rule: least_recent.induct) (fastforce simp: Let_def)+

lemma evict_policy [simp]: "store_policy (evict_least_recent_if_full s) = store_policy s"
  by (simp add: evict_least_recent_if_full_def)

lemma evict_ok:
  assumes "store_ok s"
  shows "store_ok (evict_least_recent_if_full s) \<and>
         length (store_entries (evict_least_recent_if_full s)) < maximum_sessions (store_policy s) \<and>
         set (store_entries (evict_least_recent_if_full s)) \<subseteq> set (store_entries s)"
proof (cases "length (store_entries s) = maximum_sessions (store_policy s)")
  case True
  with assms have "least_recent (store_entries s) < length (store_entries s)"
    by (intro least_recent_less) (auto simp: store_ok_def)
  with True assms show ?thesis
    using set_erase_at [of "least_recent (store_entries s)" "store_entries s"]
      distinct_erase_at [of "map entry_digest (store_entries s)" "least_recent (store_entries s)"]
    by (auto simp: store_ok_def evict_least_recent_if_full_def length_erase_at map_erase_at)
next
  case False
  with assms show ?thesis by (auto simp: store_ok_def evict_least_recent_if_full_def)
qed

lemma create_attempts_ok:
  "store_ok (snd ws) \<Longrightarrow>
     store_ok (snd (fst (create_attempts generate clock owner n ws))) \<and>
     store_policy (snd (fst (create_attempts generate clock owner n ws))) = store_policy (snd ws)"
proof (induction n arbitrary: ws)
  case (Suc n)
  obtain w1 g where g: "generate (fst ws) = (w1, g)" by force
  show ?case
  proof (cases g)
    case (Inl e)
    with g Suc.prems show ?thesis by simp
  next
    case (Inr cd)
    obtain credential d where cd: "cd = (credential, d)" by force
    obtain w2 now where c: "clock w1 = (w2, now)" by force
    let ?s1 = "remove_expired now (snd ws)"
    have ok: "store_ok ?s1" using Suc.prems by (rule remove_expired_ok)
    show ?thesis
    proof (cases "store_contains ?s1 d")
      case True
      with Suc.IH [of "(w2, ?s1)"] ok g Inr cd c show ?thesis by simp
    next
      case False
      with ok evict_ok [OF ok] g Inr cd c show ?thesis
        by (auto simp: store_ok_def store_contains_def list_ex_iff Let_def)
    qed
  qed
qed simp

lemma find_entry:
  assumes "find_index (\<lambda>e. entry_digest e = d) es = Some i"
  shows "i < length es" "entry_digest (es ! i) = d"
  using assms by (auto simp: find_index_Some_iff)

lemma touch_ok:
  assumes "store_ok s" "i < length (store_entries s)"
  shows "store_ok (s\<lparr>store_entries := (store_entries s)
           [i := (store_entries s ! i)\<lparr>entry_last_activity := now\<rparr>]\<rparr>)"
proof -
  have "map entry_digest ((store_entries s)[i := (store_entries s ! i)\<lparr>entry_last_activity := now\<rparr>]) =
      map entry_digest (store_entries s)"
    using assms(2) by (simp add: map_update list_update_same_conv)
  with assms(1) show ?thesis by (simp add: store_ok_def)
qed

lemma erase_ok:
  assumes "store_ok s" "i < length (store_entries s)"
  shows "store_ok (s\<lparr>store_entries := erase_at i (store_entries s)\<rparr>)"
  using assms distinct_erase_at [of "map entry_digest (store_entries s)" i]
  by (auto simp: store_ok_def length_erase_at map_erase_at)

lemma session_authenticate_ok:
  "store_ok (snd ws) \<Longrightarrow> store_ok (snd (fst (session_authenticate digest clock credential ws)))"
  by (auto simp: session_authenticate_def Let_def remove_expired_ok
      split: sum.splits prod.splits option.splits intro!: touch_ok dest: find_entry(1))

lemma session_invalidate_ok:
  "store_ok (snd ws) \<Longrightarrow> store_ok (snd (fst (session_invalidate digest clock credential ws)))"
  by (auto simp: session_invalidate_def Let_def remove_expired_ok
      split: sum.splits prod.splits option.splits intro!: erase_ok dest: find_entry(1))

lemma create_attempts_policy [simp]:
  "store_policy (snd (fst (create_attempts generate clock owner n ws))) = store_policy (snd ws)"
  by (induction n arbitrary: ws) (auto simp: Let_def split: prod.splits sum.splits)

lemma session_policies [simp]:
  "store_policy (snd (fst (session_authenticate digest clock credential ws))) = store_policy (snd ws)"
  "store_policy (snd (fst (session_invalidate digest clock credential ws))) = store_policy (snd ws)"
  by (auto simp: session_authenticate_def session_invalidate_def Let_def
      split: prod.splits sum.splits option.splits)

text \<open>The operations, in whatever order the requests interleave them.\<close>

datatype 'p session_op =
  Create_session 'p | Authenticate_session string | Invalidate_session string

fun session_step where
  "session_step generate digest clock (Create_session p) ws = fst (create_session generate clock p ws)"
| "session_step generate digest clock (Authenticate_session c) ws =
     fst (session_authenticate digest clock c ws)"
| "session_step generate digest clock (Invalidate_session c) ws =
     fst (session_invalidate digest clock c ws)"

interpretation sessions: bounded_system
  "session_step generate digest clock" "\<lambda>ws. store_ok (snd ws)"
  "\<lambda>ws. length (store_entries (snd ws))" "\<lambda>ws. maximum_sessions (store_policy (snd ws))"
  for generate digest clock
proof (unfold_locales, goal_cases)
  case (1 ws op)
  then show ?case
    by (cases op) (auto simp: create_session_def create_attempts_ok session_authenticate_ok
        session_invalidate_ok)
next
  case (2 ws)
  then show ?case by (simp add: store_ok_def)
next
  case (3 op ws)
  then show ?case by (cases op) (auto simp: create_session_def)
qed

section \<open>Properties\<close>

text \<open>
  Session invariant: from a freshly created store, any interleaving of logins, authentications
  and invalidations keeps at most the configured number of sessions, with pairwise distinct
  credential digests.
\<close>

lemma session_store_invariant:
  assumes "create_store policy = Inr s"
  shows "let s' = snd (fold (session_step generate digest clock) ops (w, s))
         in length (store_entries s') \<le> maximum_sessions policy \<and>
            distinct (map entry_digest (store_entries s'))"
proof -
  have ok: "store_ok (snd (w, s))" "store_policy s = policy"
    using assms by (auto simp: create_store_def store_ok_def split: if_splits)
  from sessions.inv_run [OF ok(1)] sessions.load_run [OF ok(1)] ok(2) show ?thesis
    by (simp add: Let_def store_ok_def)
qed

definition sample_generate :: "nat \<Rightarrow> nat \<times> (credential_error, string \<times> nat) result" where
  "sample_generate w = (Suc w, Inr (print_base 10 w, w))"

definition sample_digest :: "string \<Rightarrow> (credential_error, nat) result" where
  "sample_digest c =
     (if list_all (\<lambda>x. std_digit 10 x \<noteq> None) c then Inr (digits_value 10 c) else Inl Invalid_credential)"

definition sample_clock :: "nat \<Rightarrow> nat \<times> int" where
  "sample_clock w = (w, int w)"

definition sample_policy :: session_policy where
  "sample_policy = \<lparr>absolute_lifetime = 12, idle_timeout = 3, maximum_sessions = 2\<rparr>"

text \<open>What a codec promises: a generated value digests to the digest it was generated with.\<close>

definition codec_consistent ::
    "('w \<Rightarrow> 'w \<times> (credential_error, string \<times> 'd) result) \<Rightarrow>
     (string \<Rightarrow> (credential_error, 'd) result) \<Rightarrow> bool" where
  "codec_consistent generate digest \<longleftrightarrow>
     (\<forall>w w' c d. generate w = (w', Inr (c, d)) \<longrightarrow> digest c = Inr d)"

lemma sodium_codec_consistent:
  assumes "\<And>w w' b. random_bytes w = (w', b) \<Longrightarrow> length b = credential_bytes"
    and "\<And>b. length b = credential_bytes \<Longrightarrow>
           valid_encoded_credential (bin2hex b) \<and> hex2bin (bin2hex b) = Some b"
  shows "codec_consistent (codec_generate random_bytes bin2hex generichash)
           (codec_digest hex2bin generichash)"
  using assms by (auto simp: codec_consistent_def codec_generate_def codec_digest_def
      split: prod.splits)

lemma create_attempts_created:
  assumes "create_attempts generate clock owner n ws = ((w', s'), Inr credential)"
    and "codec_consistent generate digest" "store_ok (snd ws)"
  shows "\<exists>d now es. digest credential = Inr d \<and>
           store_entries s' = es @ [\<lparr>entry_digest = d, entry_principal = owner,
             entry_created = now, entry_last_activity = now\<rparr>] \<and>
           set es \<subseteq> set (store_entries (snd ws))"
  using assms(1,3)
proof (induction n arbitrary: ws)
  case (Suc n)
  obtain w1 g where g: "generate (fst ws) = (w1, g)" by force
  with Suc.prems(1) obtain c d where cd: "g = Inr (c, d)" by (cases g) auto
  obtain w2 now where k: "clock w1 = (w2, now)" by force
  let ?s1 = "remove_expired now (snd ws)"
  have ok: "store_ok ?s1" using Suc.prems(2) by (rule remove_expired_ok)
  have sub: "set (store_entries ?s1) \<subseteq> set (store_entries (snd ws))"
    by (auto simp: set_remove_expired)
  show ?case
  proof (cases "store_contains ?s1 d")
    case True
    with Suc.prems g cd k have "create_attempts generate clock owner n (w2, ?s1) =
      ((w', s'), Inr credential)" by simp
    from Suc.IH [OF this] ok sub show ?thesis by fastforce
  next
    case False
    with Suc.prems g cd k have "credential = c"
      "store_entries s' = store_entries (evict_least_recent_if_full ?s1) @
         [\<lparr>entry_digest = d, entry_principal = owner, entry_created = now,
           entry_last_activity = now\<rparr>]"
      by (auto simp: Let_def)
    moreover have "digest c = Inr d" using assms(2) g cd by (auto simp: codec_consistent_def)
    ultimately show ?thesis using evict_ok [OF ok] sub by blast
  qed
qed simp

lemma find_last_entry:
  assumes "distinct (map entry_digest (es @ [e]))"
  shows "find_index (\<lambda>x. entry_digest x = entry_digest e) (es @ [e]) = Some (length es)"
proof -
  have "find_index (\<lambda>x. entry_digest x = entry_digest e) es = None"
    using assms by (auto simp: find_index_None_iff image_iff)
  then show ?thesis by (simp add: find_index_append)
qed

lemma created_session_authenticates:
  assumes "codec_consistent generate digest" "store_ok s"
    and "create_session generate clock owner (w, s) = ((w', s'), Inr credential)"
    and "clock v = (v', now)"
    and "now - entry_created (last (store_entries s')) < absolute_lifetime (store_policy s)"
    and "now - entry_created (last (store_entries s')) < idle_timeout (store_policy s)"
  shows "snd (session_authenticate digest clock credential (v, s')) = Inr (Some owner)"
proof -
  note created = assms(3) [unfolded create_session_def]
  from create_attempts_created [OF created assms(1)] assms(2) obtain d c es where
    d: "digest credential = Inr d" and es: "store_entries s' = es @ [\<lparr>entry_digest = d,
      entry_principal = owner, entry_created = c, entry_last_activity = c\<rparr>]" by auto
  let ?e = "\<lparr>entry_digest = d, entry_principal = owner, entry_created = c, entry_last_activity = c\<rparr>"
  have ok: "store_ok s'" and pol: "store_policy s' = store_policy s"
    using create_attempts_ok [of "(w, s)" generate clock owner maximum_generation_attempts] created
      assms(2) by auto
  let ?live = "filter (\<lambda>e. \<not> session_expired (store_policy s') now e) es"
  have live: "\<not> session_expired (store_policy s') now ?e"
    using assms(5,6) es pol by (simp add: session_expired_def)
  then have entries: "store_entries (remove_expired now s') = ?live @ [?e]"
    by (simp add: remove_expired_def es)
  have "distinct (map entry_digest (?live @ [?e]))"
    using remove_expired_ok [OF ok, of now] by (simp add: store_ok_def entries)
  from find_last_entry [OF this] show ?thesis
    using d assms(4) by (simp add: session_authenticate_def entries Let_def)
qed

lemma sample_codec_consistent: "codec_consistent sample_generate sample_digest"
  using print_base_digits [of 10] digits_value_print_base [of 10]
  by (auto simp: codec_consistent_def sample_generate_def sample_digest_def)

lemma session_authenticated_entry:
  assumes "snd (session_authenticate digest clock credential (w, s)) = Inr (Some p)"
  shows "\<exists>d e. digest credential = Inr d \<and> e \<in> set (store_entries s) \<and> entry_digest e = d \<and>
               entry_principal e = p \<and>
               snd (clock w) - entry_created e < absolute_lifetime (store_policy s) \<and>
               snd (clock w) - entry_last_activity e < idle_timeout (store_policy s)"
proof -
  obtain w1 now where k: "clock w = (w1, now)" by force
  let ?es = "store_entries (remove_expired now s)"
  from assms k obtain d i where d: "digest credential = Inr d"
    and i: "find_index (\<lambda>e. entry_digest e = d) ?es = Some i" "p = entry_principal (?es ! i)"
    by (auto simp: session_authenticate_def Let_def split: sum.splits option.splits if_splits)
  have "?es ! i \<in> set ?es" using find_entry(1) [OF i(1)] by simp
  with d i(2) find_entry(2) [OF i(1)] k show ?thesis
    by (auto simp: set_remove_expired session_expired_def)
qed

text \<open>
  Only live sessions authenticate: a principal is returned only for a stored session with the
  credential's digest that is within both its absolute lifetime and its idle timeout.
\<close>

lemma session_authenticate_live:
  assumes "snd (session_authenticate digest clock credential (w, s)) = Inr (Some p)"
  shows "\<exists>d e. digest credential = Inr d \<and> e \<in> set (store_entries s) \<and> entry_digest e = d \<and>
               entry_principal e = p \<and>
               snd (clock w) - entry_created e < absolute_lifetime (store_policy s) \<and>
               snd (clock w) - entry_last_activity e < idle_timeout (store_policy s)"
  using assms by (rule session_authenticated_entry)

lemma invalidate_absent:
  assumes "store_ok s" "session_invalidate digest clock credential (w, s) = ((w', s'), Inr r)"
    and "digest credential = Inr d"
  shows "d \<notin> entry_digest ` set (store_entries s')"
proof -
  obtain w1 now where k: "clock w = (w1, now)" by force
  let ?s1 = "remove_expired now s"
  have ok: "store_ok ?s1" using assms(1) by (rule remove_expired_ok)
  show ?thesis
  proof (cases "find_index (\<lambda>e. entry_digest e = d) (store_entries ?s1)")
    case None
    with assms(2,3) k show ?thesis
      by (auto simp: session_invalidate_def Let_def find_index_None_iff)
  next
    case (Some i)
    with assms(2,3) k have "store_entries s' = erase_at i (store_entries ?s1)"
      by (auto simp: session_invalidate_def Let_def)
    moreover have "set (erase_at i (map entry_digest (store_entries ?s1))) =
        set (map entry_digest (store_entries ?s1)) - {d}"
      using distinct_erase_at [of "map entry_digest (store_entries ?s1)" i] ok find_entry [OF Some]
      by (simp add: store_ok_def)
    ultimately show ?thesis by (metis Diff_iff insertI1 map_erase_at set_map)
  qed
qed

lemma absent_rejected:
  assumes "digest credential = Inr d" "d \<notin> entry_digest ` set (store_entries s)"
  shows "snd (session_authenticate digest clock credential (w, s)) = Inr None"
proof -
  obtain w1 now where k: "clock w = (w1, now)" by force
  have "find_index (\<lambda>e. entry_digest e = d) (store_entries (remove_expired now s)) = None"
    using assms(2) by (auto simp: find_index_None_iff set_remove_expired)
  with assms(1) k show ?thesis by (simp add: session_authenticate_def Let_def)
qed

lemma session_invalidate_rejects:
  assumes "store_ok s" "session_invalidate digest clock credential (w, s) = ((w', s'), Inr r)"
  shows "snd (session_authenticate digest later_clock credential (v, s')) = Inr None"
proof (cases "digest credential")
  case (Inl e)
  with assms(2) show ?thesis
    by (auto simp: session_authenticate_def session_invalidate_def split: if_splits)
next
  case (Inr d)
  with invalidate_absent [OF assms] show ?thesis by (auto intro: absent_rejected)
qed

text \<open>
  C21. Logout is final: once a credential has been invalidated, the resulting store rejects it at
  every later time.
\<close>

theorem session_invalidate_final:
  assumes "store_ok s" "session_invalidate digest clock credential (w, s) = ((w', s'), Inr r)"
  shows "snd (session_authenticate digest later_clock credential (v, s')) = Inr None"
  using assms by (rule session_invalidate_rejects)

theorem session_invalidate_final_witness:
  "snd (session_authenticate sample_digest sample_clock ''5''
     (8, \<lparr>store_policy = sample_policy, store_entries = [] :: (nat, nat) session_entry list\<rparr>)) = Inr None"
proof -
  let ?r = "\<lparr>store_policy = sample_policy, store_entries = [\<lparr>entry_digest = 5 :: nat,
      entry_principal = 1 :: nat, entry_created = 6, entry_last_activity = 6\<rparr>]\<rparr>"
  have i: "session_invalidate sample_digest sample_clock ''5'' (7, ?r) =
      ((7, \<lparr>store_policy = sample_policy, store_entries = []\<rparr>), Inr (Some 1))"
    by code_simp
  have "store_ok ?r" by (simp add: store_ok_def sample_policy_def)
  from session_invalidate_final [OF this i] show ?thesis .
qed

end
