(* ===== verification/Authentication.thy ===== *)
theory Authentication
  imports Session_Store
begin

text \<open>
  Login: the failure limiter (\<^verbatim>\<open>src/authentication/detail/authentication_rate_limiter.cpp\<close>), the
  authentication service (\<^verbatim>\<open>src/authentication/authentication_service.cpp\<close>) and the service that
  turns an authenticated login into a session
  (\<^verbatim>\<open>src/application/session_authentication_service.cpp\<close>). The credential provider and the password
  verifier are arguments, the clock is threaded through the world. Authentication holds the service
  mutex, so an attempt is one step. Allocation failures and other exceptions, which the source maps
  to \<^verbatim>\<open>unavailable\<close>, are not modelled.
\<close>

section \<open>The failure limiter\<close>

record limit_policy =
  maximum_failures :: nat
  cooldown :: int

record rate_limiter =
  limiter_policy :: limit_policy
  consecutive_failures :: nat
  blocked_until :: int

definition make_limiter :: "limit_policy \<Rightarrow> rate_limiter" where
  "make_limiter policy = \<lparr>limiter_policy = policy, consecutive_failures = 0, blocked_until = 0\<rparr>"

definition limiter_allows :: "int \<Rightarrow> rate_limiter \<Rightarrow> rate_limiter \<times> bool" where
  "limiter_allows now l =
     (if consecutive_failures l < maximum_failures (limiter_policy l) then (l, True)
      else if now < blocked_until l then (l, False)
      else (l\<lparr>consecutive_failures := 0, blocked_until := 0\<rparr>, True))"

definition record_failure :: "int \<Rightarrow> rate_limiter \<Rightarrow> rate_limiter" where
  "record_failure now l =
     (if consecutive_failures l \<ge> maximum_failures (limiter_policy l) then l
      else
        (let l1 = l\<lparr>consecutive_failures := consecutive_failures l + 1\<rparr> in
         if consecutive_failures l1 = maximum_failures (limiter_policy l1) then
           (let remaining = time_point_max - now in
            l1\<lparr>blocked_until :=
                 if cooldown (limiter_policy l1) > remaining then time_point_max
                 else now + cooldown (limiter_policy l1)\<rparr>)
         else l1))"

definition record_success :: "rate_limiter \<Rightarrow> rate_limiter" where
  "record_success l = l\<lparr>consecutive_failures := 0, blocked_until := 0\<rparr>"

section \<open>The authentication service\<close>

record credential_record =
  cred_identity :: string
  cred_canonical_login :: string
  cred_verifier :: string

record auth_service =
  dummy_verifier :: string
  auth_limiter :: rate_limiter

datatype auth_create_error = Missing_provider | Verifier_unavailable | Invalid_rate_limit_policy

datatype auth_error = Invalid_credentials | Throttled | Unavailable

definition create_auth_service ::
    "'f option \<Rightarrow> (string \<Rightarrow> (unit, string) result) option \<Rightarrow> limit_policy \<Rightarrow>
     (auth_create_error, auth_service) result" where
  "create_auth_service provider hash policy =
     (if provider = None then Inl Missing_provider
      else (case hash of
              None \<Rightarrow> Inl Verifier_unavailable
            | Some h \<Rightarrow>
                (if maximum_failures policy = 0 \<or> cooldown policy \<le> 0
                 then Inl Invalid_rate_limit_policy
                 else (case h ''SpareNode unknown-login verification'' of
                         Inl _ \<Rightarrow> Inl Verifier_unavailable
                       | Inr dummy \<Rightarrow>
                           Inr \<lparr>dummy_verifier = dummy, auth_limiter = make_limiter policy\<rparr>))))"

definition authenticate ::
    "(string \<Rightarrow> (unit, credential_record option) result) \<Rightarrow> (string \<Rightarrow> string \<Rightarrow> (unit, bool) result) \<Rightarrow>
     ('w \<Rightarrow> 'w \<times> int) \<Rightarrow> string \<Rightarrow> string \<Rightarrow> 'w \<times> auth_service \<Rightarrow>
     ('w \<times> auth_service) \<times> (auth_error, string \<times> string) result" where
  "authenticate find_by_login verify clock login password ws =
     (case clock (fst ws) of
        (w1, now) \<Rightarrow>
          (case limiter_allows now (auth_limiter (snd ws)) of
             (l1, ok) \<Rightarrow>
               (let a1 = (snd ws)\<lparr>auth_limiter := l1\<rparr> in
                if \<not> ok then ((w1, a1), Inl Throttled)
                else (case find_by_login login of
                        Inl _ \<Rightarrow> ((w1, a1), Inl Unavailable)
                      | Inr credential \<Rightarrow>
                          (case verify password
                                  (case credential of None \<Rightarrow> dummy_verifier a1
                                   | Some c \<Rightarrow> cred_verifier c) of
                             Inl _ \<Rightarrow> ((w1, a1), Inl Unavailable)
                           | Inr matches \<Rightarrow>
                               (case (credential, matches) of
                                  (Some c, True) \<Rightarrow>
                                    ((w1, a1\<lparr>auth_limiter := record_success l1\<rparr>),
                                     Inr (cred_identity c, cred_canonical_login c))
                                | _ \<Rightarrow>
                                    (case clock w1 of
                                       (w2, later) \<Rightarrow>
                                         ((w2, a1\<lparr>auth_limiter := record_failure later l1\<rparr>),
                                          Inl Invalid_credentials))))))))"

section \<open>Login and logout\<close>

definition session_login where
  "session_login find_by_login verify generate digest clock login password previous_session was =
     (case was of
        (w, a, s) \<Rightarrow>
          (case authenticate find_by_login verify clock login password (w, a) of
             ((w1, a1), Inl e) \<Rightarrow> ((w1, a1, s), Inl e)
           | ((w1, a1), Inr (identity, canonical)) \<Rightarrow>
               (let fresh = (\<lambda>w s. case create_session generate clock identity (w, s) of
                               ((w3, s3), Inl _) \<Rightarrow> ((w3, a1, s3), Inl Unavailable)
                             | ((w3, s3), Inr credential) \<Rightarrow> ((w3, a1, s3), Inr credential))
                in if previous_session \<noteq> [] then
                     (case session_invalidate digest clock previous_session (w1, s) of
                        ((w2, s2), Inl _) \<Rightarrow> ((w2, a1, s2), Inl Unavailable)
                      | ((w2, s2), Inr _) \<Rightarrow> fresh w2 s2)
                   else fresh w1 s)))"

definition session_logout where
  "session_logout digest clock credential ws =
     (case session_invalidate digest clock credential ws of
        (ws1, Inl _) \<Rightarrow> (ws1, Inl Unavailable)
      | (ws1, Inr removed) \<Rightarrow> (ws1, Inr removed))"

section \<open>Properties of the limiter\<close>

definition limiter_ok :: "rate_limiter \<Rightarrow> bool" where
  "limiter_ok l \<longleftrightarrow> consecutive_failures l \<le> maximum_failures (limiter_policy l)"

lemma limiter_steps:
  "limiter_ok l \<Longrightarrow> limiter_ok (fst (limiter_allows now l))"
  "limiter_ok l \<Longrightarrow> limiter_ok (record_failure now l)"
  "limiter_ok (record_success l)"
  "limiter_policy (fst (limiter_allows now l)) = limiter_policy l"
  "limiter_policy (record_failure now l) = limiter_policy l"
  "limiter_policy (record_success l) = limiter_policy l"
  by (auto simp: limiter_ok_def limiter_allows_def record_failure_def record_success_def Let_def)

text \<open>Attempts one after another, each against the state the previous one left.\<close>

fun attempts where
  "attempts find_by_login verify clock [] ws = (ws, [])"
| "attempts find_by_login verify clock ((login, password) # rest) ws =
     (case authenticate find_by_login verify clock login password ws of
        (ws1, r) \<Rightarrow>
          (case attempts find_by_login verify clock rest ws1 of (ws2, rs) \<Rightarrow> (ws2, r # rs)))"

text \<open>The limiter of a service that has only seen failures since \<open>t0\<close>.\<close>

definition counting :: "int \<Rightarrow> rate_limiter \<Rightarrow> bool" where
  "counting t0 l \<longleftrightarrow>
     limiter_ok l \<and>
     (consecutive_failures l = maximum_failures (limiter_policy l) \<longrightarrow>
        t0 + cooldown (limiter_policy l) \<le> blocked_until l)"

lemma authenticate_failure_step:
  assumes "authenticate find_by_login verify clock login password (w, a) = ((w1, a1), r)"
    and "counting t0 (auth_limiter a)" "\<forall>x. r \<noteq> Inr x"
    and "\<forall>v. t0 \<le> snd (clock v) \<and> snd (clock v) < t0 + cooldown (limiter_policy (auth_limiter a))"
    and "t0 + cooldown (limiter_policy (auth_limiter a)) \<le> time_point_max"
  shows "counting t0 (auth_limiter a1) \<and>
         limiter_policy (auth_limiter a1) = limiter_policy (auth_limiter a) \<and>
         consecutive_failures (auth_limiter a1) =
           consecutive_failures (auth_limiter a) + (if r = Inl Invalid_credentials then 1 else 0)"
proof -
  let ?l = "auth_limiter a"
  obtain v now where v: "clock w = (v, now)" by force
  obtain v' later where v': "clock v = (v', later)" by force
  have now: "now < t0 + cooldown (limiter_policy ?l)" "t0 \<le> later"
    using assms(4) v v' by (metis snd_conv)+
  show ?thesis
  proof (cases "consecutive_failures ?l < maximum_failures (limiter_policy ?l)")
    case False
    with assms(2) now have "limiter_allows now ?l = (?l, False)"
      by (auto simp: limiter_allows_def counting_def limiter_ok_def)
    with assms(1,2) v show ?thesis by (auto simp: authenticate_def Let_def)
  next
    case True
    then have allow: "limiter_allows now ?l = (?l, True)" by (simp add: limiter_allows_def)
    show ?thesis
    proof (cases "r = Inl Invalid_credentials")
      case r: True
      with assms(1) v v' allow have "auth_limiter a1 = record_failure later ?l"
        by (auto simp: authenticate_def Let_def split: sum.splits option.splits bool.splits)
      with r True assms(2,5) now show ?thesis
        by (auto simp: record_failure_def counting_def limiter_ok_def Let_def)
    next
      case False
      with assms(1,3) v v' allow have "auth_limiter a1 = ?l"
        by (auto simp: authenticate_def Let_def split: sum.splits option.splits bool.splits)
      with False assms(2) show ?thesis by simp
    qed
  qed
qed

lemma attempts_bound:
  assumes "attempts find_by_login verify clock ps (w, a) = (ws', rs)"
    and "counting t0 (auth_limiter a)" "\<forall>r\<in>set rs. \<forall>x. r \<noteq> Inr x"
    and "\<forall>v. t0 \<le> snd (clock v) \<and> snd (clock v) < t0 + cooldown (limiter_policy (auth_limiter a))"
    and "t0 + cooldown (limiter_policy (auth_limiter a)) \<le> time_point_max"
  shows "length (filter ((=) (Inl Invalid_credentials)) rs) + consecutive_failures (auth_limiter a) \<le>
         maximum_failures (limiter_policy (auth_limiter a))"
  using assms
proof (induction ps arbitrary: w a rs ws')
  case Nil
  then show ?case by (simp add: counting_def limiter_ok_def)
next
  case (Cons p ps)
  obtain login password where p: "p = (login, password)" by force
  obtain w1 a1 r where r:
    "authenticate find_by_login verify clock login password (w, a) = ((w1, a1), r)"
    by (metis prod_cases3 surj_pair)
  obtain ws2 rs2 where rs2: "attempts find_by_login verify clock ps (w1, a1) = (ws2, rs2)"
    by (meson surj_pair)
  have rs: "rs = r # rs2" "ws' = ws2" using Cons.prems(1) p r rs2 by auto
  have step: "counting t0 (auth_limiter a1)"
    "limiter_policy (auth_limiter a1) = limiter_policy (auth_limiter a)"
    "consecutive_failures (auth_limiter a1) =
       consecutive_failures (auth_limiter a) + (if r = Inl Invalid_credentials then 1 else 0)"
    using authenticate_failure_step [OF r Cons.prems(2) _ Cons.prems(4,5)] Cons.prems(3) rs by auto
  have "length (filter ((=) (Inl Invalid_credentials)) rs2) +
      consecutive_failures (auth_limiter a1) \<le> maximum_failures (limiter_policy (auth_limiter a1))"
    using Cons.IH [OF rs2 step(1)] Cons.prems(3,4,5) rs step(2) by simp
  with rs step show ?case by auto
qed



section \<open>Properties of login\<close>

lemma authenticate_success:
  assumes "authenticate find_by_login verify clock login password ws = (ws', Inr (identity, canonical))"
  shows "\<exists>c. find_by_login login = Inr (Some c) \<and> verify password (cred_verifier c) = Inr True \<and>
             identity = cred_identity c \<and> canonical = cred_canonical_login c"
  using assms
  by (auto simp: authenticate_def Let_def
      split: prod.splits if_splits sum.splits option.splits bool.splits)

lemma session_login_success:
  assumes "session_login find_by_login verify generate digest clock login password previous (w, a, s) =
      ((w', a', s'), Inr credential)"
  obtains c w2 s2 where "find_by_login login = Inr (Some c)"
    "verify password (cred_verifier c) = Inr True"
    "create_session generate clock (cred_identity c) (w2, s2) = ((w', s'), Inr credential)"
    "if previous = [] then s2 = s
     else \<exists>w1 r. session_invalidate digest clock previous (w1, s) = ((w2, s2), Inr r)"
proof -
  obtain w1 a1 x where x: "authenticate find_by_login verify clock login password (w, a) = ((w1, a1), x)"
    by (metis prod_cases3 surj_pair)
  with assms obtain identity canonical where id: "x = Inr (identity, canonical)"
    by (cases x) (auto simp: session_login_def)
  from authenticate_success [OF x [unfolded id]] obtain c where c:
    "find_by_login login = Inr (Some c)" "verify password (cred_verifier c) = Inr True"
    "identity = cred_identity c" by blast
  show thesis
  proof (cases "previous = []")
    case True
    with assms x id have "create_session generate clock identity (w1, s) = ((w', s'), Inr credential)"
      by (auto simp: session_login_def Let_def split: prod.splits sum.splits)
    with c True that show thesis by auto
  next
    case False
    obtain w2 s2 y where y: "session_invalidate digest clock previous (w1, s) = ((w2, s2), y)"
      by (metis prod_cases3 surj_pair)
    with False assms x id obtain r where "y = Inr r"
      and "create_session generate clock identity (w2, s2) = ((w', s'), Inr credential)"
      by (auto simp: session_login_def Let_def split: prod.splits sum.splits)
    with c False y that [of c w2 s2] show thesis by auto
  qed
qed

lemma session_login_authenticates:
  assumes "codec_consistent generate digest" "store_ok s"
    and "session_login find_by_login verify generate digest clock login password previous (w, a, s) =
      ((w', a', s'), Inr credential)"
    and "clock v = (v', now)"
    and "now - entry_created (last (store_entries s')) < absolute_lifetime (store_policy s)"
    and "now - entry_created (last (store_entries s')) < idle_timeout (store_policy s)"
  shows "\<exists>c. find_by_login login = Inr (Some c) \<and> verify password (cred_verifier c) = Inr True \<and>
             snd (session_authenticate digest clock credential (v, s')) = Inr (Some (cred_identity c))"
proof -
  from session_login_success [OF assms(3)] obtain c w2 s2 where c:
    "find_by_login login = Inr (Some c)" "verify password (cred_verifier c) = Inr True"
    and cr: "create_session generate clock (cred_identity c) (w2, s2) = ((w', s'), Inr credential)"
    and s2: "if previous = [] then s2 = s
      else \<exists>w1 r. session_invalidate digest clock previous (w1, s) = ((w2, s2), Inr r)" .
  have "store_ok s2 \<and> store_policy s2 = store_policy s"
  proof (cases "previous = []")
    case True
    with s2 assms(2) show ?thesis by simp
  next
    case False
    with s2 obtain w1 r where "session_invalidate digest clock previous (w1, s) = ((w2, s2), Inr r)"
      by auto
    with session_invalidate_ok [of "(w1, s)" digest clock previous] assms(2)
      session_policies(2) [of digest clock previous "(w1, s)"] show ?thesis by simp
  qed
  with created_session_authenticates [OF assms(1) _ cr assms(4)] assms(5,6) c show ?thesis by auto
qed

text \<open>
  C6. A login that returns a credential found the login name and verified the submitted password
  against its stored verifier, and the returned credential authenticates exactly that identity until
  a lifetime elapses.
\<close>

theorem login_requires_password:
  assumes "codec_consistent generate digest" "store_ok s"
    and "session_login find_by_login verify generate digest clock login password previous (w, a, s) =
      ((w', a', s'), Inr credential)"
    and "clock v = (v', now)"
    and "now - entry_created (last (store_entries s')) < absolute_lifetime (store_policy s)"
    and "now - entry_created (last (store_entries s')) < idle_timeout (store_policy s)"
  shows "\<exists>c. find_by_login login = Inr (Some c) \<and> verify password (cred_verifier c) = Inr True \<and>
             snd (session_authenticate digest clock credential (v, s')) = Inr (Some (cred_identity c))"
  using assms by (rule session_login_authenticates)

definition sample_find :: "string \<Rightarrow> (unit, credential_record option) result" where
  "sample_find login = Inr (if login = ''ann'' then
     Some \<lparr>cred_identity = ''id'', cred_canonical_login = ''ann'', cred_verifier = ''v''\<rparr> else None)"

definition sample_verify :: "string \<Rightarrow> string \<Rightarrow> (unit, bool) result" where
  "sample_verify password verifier = Inr (password = ''pw'' \<and> verifier = ''v'')"

definition sample_service :: auth_service where
  "sample_service = \<lparr>dummy_verifier = ''d'',
     auth_limiter = make_limiter \<lparr>maximum_failures = 2, cooldown = 30\<rparr>\<rparr>"

definition sample_store :: "(nat, string) session_store" where
  "sample_store = \<lparr>store_policy = sample_policy, store_entries = [\<lparr>entry_digest = 3,
     entry_principal = ''old'', entry_created = 4, entry_last_activity = 4\<rparr>]\<rparr>"

definition sample_logged_in :: "(nat, string) session_store" where
  "sample_logged_in = \<lparr>store_policy = sample_policy, store_entries = [\<lparr>entry_digest = 5,
     entry_principal = ''id'', entry_created = 6, entry_last_activity = 6\<rparr>]\<rparr>"

lemma sample_login:
  "session_login sample_find sample_verify sample_generate sample_digest sample_clock ''ann'' ''pw'' ''3''
     (5, sample_service, sample_store) = ((6, sample_service, sample_logged_in), Inr ''5'')"
  by code_simp

lemma sample_store_ok: "store_ok sample_store"
  by (simp add: store_ok_def sample_store_def sample_policy_def)

theorem login_requires_password_witness:
  "\<exists>c. sample_find ''ann'' = Inr (Some c) \<and> sample_verify ''pw'' (cred_verifier c) = Inr True \<and>
     snd (session_authenticate sample_digest sample_clock ''5'' (7, sample_logged_in)) =
       Inr (Some (cred_identity c))"
  by (rule login_requires_password [OF sample_codec_consistent sample_store_ok sample_login,
      where now = 7 and v' = 7])
    (simp_all add: sample_clock_def sample_logged_in_def sample_store_def sample_policy_def)

text \<open>
  Login rotates the session: the session presented with a successful login is rejected by the
  resulting store at every later time, unless the new credential collides with it.
\<close>

lemma login_rotates_session:
  assumes "codec_consistent generate digest" "store_ok s"
    and "session_login find_by_login verify generate digest clock login password previous (w, a, s) =
      ((w', a', s'), Inr credential)"
    and "digest previous = Inr d" "digest credential \<noteq> Inr d" "previous \<noteq> []"
  shows "snd (session_authenticate digest later_clock previous (v, s')) = Inr None"
proof -
  from session_login_success [OF assms(3)] obtain c w2 s2 where
    "find_by_login login = Inr (Some c)" "verify password (cred_verifier c) = Inr True"
    and cr: "create_session generate clock (cred_identity c) (w2, s2) = ((w', s'), Inr credential)"
    and "if previous = [] then s2 = s
      else \<exists>w1 r. session_invalidate digest clock previous (w1, s) = ((w2, s2), Inr r)" .
  with assms(6) obtain w1 r where
    s2: "session_invalidate digest clock previous (w1, s) = ((w2, s2), Inr r)" by auto
  have ok: "store_ok s2"
    using session_invalidate_ok [of "(w1, s)" digest clock previous] s2 assms(2) by simp
  have "d \<notin> entry_digest ` set (store_entries s2)"
    using invalidate_absent [OF assms(2) s2 assms(4)] .
  with create_attempts_created [OF cr [unfolded create_session_def] assms(1)] ok assms(5)
  have "d \<notin> entry_digest ` set (store_entries s')" by force
  with assms(4) show ?thesis by (rule absent_rejected)
qed

end
