(* ===== verification/Safe_Path.thy ===== *)
theory Safe_Path
  imports Ascii Utf8
begin

text \<open>
  Confinement of request paths: \<^verbatim>\<open>src/filesystem/detail/path_request_decoder.cpp\<close>,
  \<^verbatim>\<open>src/filesystem/detail/path_containment.hpp\<close>, \<^verbatim>\<open>src/filesystem/detail/upload_stage_name.hpp\<close>
  and \<^verbatim>\<open>src/filesystem/safe_path.cpp\<close> in its POSIX build.

  A relative \<^verbatim>\<open>std::filesystem::path\<close> is the list of the components its iterator yields: a trailing
  separator is a final empty component. An absolute path is the list of the components after the
  root directory. \<^verbatim>\<open>lexically_normal\<close> and \<^verbatim>\<open>lexically_relative\<close> are written out on these lists. What
  the host answers about existing objects is a record of functions; one resolution sees one answer
  per path.
\<close>

section \<open>Percent decoding\<close>

fun contains_percent_escape :: "string \<Rightarrow> bool" where
  "contains_percent_escape (c # h # l # rest) =
     (if c = CHR ''%'' \<and> hex_digit_value h \<noteq> None \<and> hex_digit_value l \<noteq> None then True
      else contains_percent_escape (h # l # rest))"
| "contains_percent_escape _ = False"

fun decode_percent :: "string \<Rightarrow> (unit, string) result" where
  "decode_percent [] = Inr []"
| "decode_percent (c # rest) =
     (if c \<noteq> CHR ''%'' then
        (case decode_percent rest of Inl e \<Rightarrow> Inl e | Inr ds \<Rightarrow> Inr (c # ds))
      else
        (case rest of
           h # l # rest' \<Rightarrow>
             (case (hex_digit_value h, hex_digit_value l) of
                (Some high, Some low) \<Rightarrow>
                  (case decode_percent rest' of
                     Inl e \<Rightarrow> Inl e
                   | Inr ds \<Rightarrow> Inr (char_of (high * 16 + low) # ds))
              | _ \<Rightarrow> Inl ())
         | _ \<Rightarrow> Inl ()))"

definition decode_path_request :: "string \<Rightarrow> (unit, string) result" where
  "decode_path_request requested =
     (case decode_percent requested of
        Inl e \<Rightarrow> Inl e
      | Inr decoded \<Rightarrow>
          (if contains_percent_escape decoded then Inl ()
           else Inr (map (\<lambda>c. if c = BACKSLASH then CHR ''/'' else c) decoded)))"

section \<open>Paths\<close>

fun split_slash :: "string \<Rightarrow> string list" where
  "split_slash [] = [[]]"
| "split_slash (c # cs) =
     (if c = CHR ''/'' then [] # split_slash cs
      else (c # hd (split_slash cs)) # tl (split_slash cs))"

definition path_components :: "string \<Rightarrow> string list" where
  "path_components s =
     filter (\<lambda>c. c \<noteq> []) (split_slash s) @ (if s \<noteq> [] \<and> last s = CHR ''/'' then [[]] else [])"

definition normal_step :: "bool \<Rightarrow> string list \<Rightarrow> string \<Rightarrow> string list" where
  "normal_step absolute acc c =
     (if c = [] \<or> c = ''.'' then acc
      else if c = ''..'' then
        (case acc of
           [] \<Rightarrow> (if absolute then [] else [c])
         | t # ts \<Rightarrow> (if t = ''..'' then c # acc else ts))
      else c # acc)"

definition lexically_normal :: "bool \<Rightarrow> string list \<Rightarrow> string list" where
  "lexically_normal absolute cs =
     (if cs = [] then []
      else
        (let r = rev (foldl (normal_step absolute) [] cs) in
         if r = [] then (if absolute then [] else [''.''])
         else if last cs \<in> {[], ''.'', ''..''} \<and> last r \<noteq> ''..'' then r @ [[]]
         else r))"

fun drop_common :: "string list \<Rightarrow> string list \<Rightarrow> string list \<times> string list" where
  "drop_common (a # as) (b # bs) = (if a = b then drop_common as bs else (a # as, b # bs))"
| "drop_common as bs = (as, bs)"

definition ups :: "string list \<Rightarrow> int" where
  "ups bs = (\<Sum>b\<leftarrow>bs. if b = ''..'' then - 1 else if b \<noteq> [] \<and> b \<noteq> ''.'' then 1 else 0)"

definition lexically_relative :: "string list \<Rightarrow> string list \<Rightarrow> string list" where
  "lexically_relative p base =
     (case drop_common p base of
        (as, bs) \<Rightarrow>
          (if as = [] \<and> bs = [] then [''.'']
           else if ups bs < 0 then []
           else if ups bs = 0 \<and> (as = [] \<or> hd as = []) then [''.'']
           else replicate (nat (ups bs)) ''..'' @ as))"

fun is_within_root :: "string list \<Rightarrow> string list \<Rightarrow> bool" where
  "is_within_root candidate [] = True"
| "is_within_root [] (r # rs) = False"
| "is_within_root (c # cs) (r # rs) = (if c \<noteq> r then False else is_within_root cs rs)"

definition upload_stage_prefix :: string where
  "upload_stage_prefix = ''.sparenode-upload-''"

definition is_upload_stage_component :: "string \<Rightarrow> bool" where
  "is_upload_stage_component name = prefix upload_stage_prefix name"

section \<open>Resolution against the host\<close>

datatype fs_error = No_such_file_or_directory | Other_fs_error

record fs_view =
  fs_canonical :: "string list \<Rightarrow> string list option"
  fs_is_directory :: "string list \<Rightarrow> bool"
  fs_symlink_status :: "string list \<Rightarrow> bool \<times> fs_error option"

datatype safe_path_error =
  Path_too_long | Invalid_percent_encoding | Invalid_encoding | Embedded_null | Rooted_path |
  Invalid_component | Outside_shared_root | Resolution_failed | Unsupported_reparse_point

definition maximum_requested_path_bytes :: nat where
  "maximum_requested_path_bytes = 4096"

definition resolve_existing_path ::
    "fs_view \<Rightarrow> string list \<Rightarrow> (safe_path_error, string list) result" where
  "resolve_existing_path fs path =
     (case fs_canonical fs path of None \<Rightarrow> Inl Resolution_failed | Some p \<Rightarrow> Inr p)"

definition recheck_root :: "fs_view \<Rightarrow> string list \<Rightarrow> (safe_path_error, string list) result" where
  "recheck_root fs root =
     (case resolve_existing_path fs root of
        Inl e \<Rightarrow> Inl e
      | Inr resolved \<Rightarrow>
          (if \<not> is_within_root resolved root \<or> \<not> is_within_root root resolved
           then Inl Outside_shared_root
           else if \<not> fs_is_directory fs resolved then Inl Resolution_failed
           else Inr resolved))"

fun resolve_components ::
    "fs_view \<Rightarrow> string list \<Rightarrow> string list \<Rightarrow> bool \<Rightarrow> string list \<Rightarrow>
     (safe_path_error, string list) result" where
  "resolve_components fs canonical_root resolved missing_suffix [] = Inr resolved"
| "resolve_components fs canonical_root resolved missing_suffix (c # cs) =
     (if c = [] \<or> c = ''.'' then
        resolve_components fs canonical_root resolved missing_suffix cs
      else if \<not> missing_suffix \<and> \<not> fs_is_directory fs resolved then Inl Resolution_failed
      else if missing_suffix then
        resolve_components fs canonical_root (resolved @ [c]) missing_suffix cs
      else
        (case fs_symlink_status fs (resolved @ [c]) of
           (not_found, error) \<Rightarrow>
             (if not_found \<and> (error = None \<or> error = Some No_such_file_or_directory) then
                resolve_components fs canonical_root (resolved @ [c]) True cs
              else if error \<noteq> None then Inl Resolution_failed
              else
                (case resolve_existing_path fs (resolved @ [c]) of
                   Inl e \<Rightarrow> Inl e
                 | Inr inspected \<Rightarrow>
                     (if \<not> is_within_root inspected canonical_root then Inl Outside_shared_root
                      else resolve_components fs canonical_root inspected missing_suffix cs)))))"

definition resolve_existing_prefixes ::
    "fs_view \<Rightarrow> string list \<Rightarrow> string list \<Rightarrow> (safe_path_error, string list) result" where
  "resolve_existing_prefixes fs candidate root =
     (case recheck_root fs root of
        Inl e \<Rightarrow> Inl e
      | Inr canonical_root \<Rightarrow>
          resolve_components fs canonical_root canonical_root False
            (lexically_relative candidate root))"

definition has_portable_root :: "string \<Rightarrow> bool" where
  "has_portable_root s =
     (case s of
        [] \<Rightarrow> False
      | c # rest \<Rightarrow>
          (if c = CHR ''/'' then True
           else
             length s \<ge> 2 \<and>
             ((CHR ''A'' \<le> c \<and> c \<le> CHR ''Z'') \<or> (CHR ''a'' \<le> c \<and> c \<le> CHR ''z'')) \<and>
             s ! 1 = CHR '':''))"

definition resolve_candidate :: "string list \<Rightarrow> string list \<Rightarrow> string list" where
  "resolve_candidate root relative =
     (if relative = [] \<or> relative = [''.''] then root
      else lexically_normal True (root @ relative))"

definition safe_path_resolve ::
    "fs_view \<Rightarrow> string list \<Rightarrow> string \<Rightarrow> (safe_path_error \<times> string, string list) result" where
  "safe_path_resolve fs root requested =
     (if length requested > maximum_requested_path_bytes then Inl (Path_too_long, [])
      else
        (case decode_path_request requested of
           Inl _ \<Rightarrow> Inl (Invalid_percent_encoding, requested)
         | Inr request \<Rightarrow>
             (if \<not> utf8_is_valid request then Inl (Invalid_encoding, requested)
              else if sv_find NUL request 0 \<noteq> None then Inl (Embedded_null, requested)
              else if has_portable_root request then Inl (Rooted_path, requested)
              else
                (let relative = lexically_normal False (path_components request) in
                 if list_ex is_upload_stage_component relative
                 then Inl (Invalid_component, requested)
                 else
                   (let candidate = resolve_candidate root relative in
                    if \<not> is_within_root candidate root
                    then Inl (Outside_shared_root, requested)
                    else
                      (case resolve_existing_prefixes fs candidate root of
                         Inl e \<Rightarrow> Inl (e, requested)
                       | Inr confined \<Rightarrow>
                           (if list_ex is_upload_stage_component (lexically_relative confined root)
                            then Inl (Invalid_component, requested)
                            else Inr confined)))))))"

section \<open>Lexical properties\<close>

lemma is_within_root_prefix: "is_within_root candidate root \<longleftrightarrow> prefix root candidate"
  by (induction candidate root rule: is_within_root.induct) auto

definition path_name :: "string \<Rightarrow> bool" where
  "path_name c \<longleftrightarrow> c \<noteq> [] \<and> c \<noteq> ''.'' \<and> c \<noteq> ''..'' \<and> CHR ''/'' \<notin> set c \<and> NUL \<notin> set c"

lemma split_slash_nonempty [simp]: "split_slash s \<noteq> []"
  by (cases s) auto

lemma split_slash_set: "c \<in> set (split_slash s) \<Longrightarrow> CHR ''/'' \<notin> set c \<and> set c \<subseteq> set s"
proof (induction s arbitrary: c)
  case (Cons x s)
  show ?case
  proof (cases "x = CHR ''/''")
    case True
    with Cons show ?thesis by fastforce
  next
    case False
    obtain h t where ht: "split_slash s = h # t" by (meson split_slash_nonempty neq_Nil_conv)
    with False Cons.prems have "c = x # h \<or> c \<in> set t" by auto
    with False Cons.IH [of h] Cons.IH [of c] ht show ?thesis by auto
  qed
qed simp

lemma path_components_set:
  "c \<in> set (path_components s) \<Longrightarrow> NUL \<notin> set s \<Longrightarrow> CHR ''/'' \<notin> set c \<and> NUL \<notin> set c"
  using split_slash_set [of c s] by (auto simp: path_components_def split: if_splits)

text \<open>Components of a request: anything without a separator or a null byte.\<close>

definition plain :: "string \<Rightarrow> bool" where
  "plain c \<longleftrightarrow> CHR ''/'' \<notin> set c \<and> NUL \<notin> set c"

lemma path_name_plain: "path_name c \<longleftrightarrow> plain c \<and> c \<notin> {[], ''.'', ''..''}"
  by (auto simp: path_name_def plain_def)

lemma normal_step_plain:
  "list_all plain acc \<Longrightarrow> plain c \<Longrightarrow> list_all plain (normal_step absolute acc c)"
  by (auto simp: normal_step_def split: list.splits)

lemma normal_foldl_plain:
  "list_all plain acc \<Longrightarrow> list_all plain cs \<Longrightarrow> list_all plain (foldl (normal_step absolute) acc cs)"
  by (induction cs arbitrary: acc) (auto simp: normal_step_plain)

lemma lexically_normal_plain:
  "list_all plain cs \<Longrightarrow> list_all plain (lexically_normal absolute cs)"
  using normal_foldl_plain [of "[]" cs absolute]
  by (auto simp: lexically_normal_def Let_def plain_def list_all_iff)

lemma normal_step_names:
  "list_all path_name acc \<Longrightarrow> plain c \<Longrightarrow> list_all path_name (normal_step True acc c)"
  by (auto simp: normal_step_def path_name_plain split: list.splits)

lemma normal_foldl_names:
  "list_all path_name acc \<Longrightarrow> list_all plain cs \<Longrightarrow>
     list_all path_name (foldl (normal_step True) acc cs)"
  by (induction cs arbitrary: acc) (auto simp: normal_step_names)

lemma lexically_normal_names:
  assumes "list_all plain cs" "c \<in> set (lexically_normal True cs)"
  shows "c = [] \<or> path_name c"
  using normal_foldl_names [of "[]" cs] assms
  by (auto simp: lexically_normal_def Let_def list_all_iff split: if_splits)

lemma drop_common_prefix: "drop_common (base @ rest) base = (rest, [])"
proof (induction base)
  case Nil
  then show ?case by (cases rest) auto
qed simp

lemma lexically_relative_prefix:
  "lexically_relative (base @ rest) base = (if rest = [] \<or> hd rest = [] then [''.''] else rest)"
  by (auto simp: lexically_relative_def drop_common_prefix ups_def)

section \<open>Confinement\<close>

text \<open>
  \<^verbatim>\<open>std::filesystem::canonical\<close> returns an absolute path with no dot, dot-dot or empty component.
\<close>

definition canonical_names :: "fs_view \<Rightarrow> bool" where
  "canonical_names fs \<longleftrightarrow> (\<forall>q r. fs_canonical fs q = Some r \<longrightarrow> list_all path_name r)"

text \<open>
  A confined path is an anchor inside the root, the root itself or an object the host canonicalised,
  followed by names of which the first does not exist below the anchor.
\<close>

definition anchored :: "fs_view \<Rightarrow> string list \<Rightarrow> string list \<Rightarrow> bool" where
  "anchored fs root q \<longleftrightarrow> prefix root q \<and> (q = root \<or> (\<exists>x. fs_canonical fs x = Some q))"

definition confined :: "fs_view \<Rightarrow> string list \<Rightarrow> string list \<Rightarrow> string list \<Rightarrow> bool" where
  "confined fs root q tail \<longleftrightarrow>
     anchored fs root q \<and> list_all path_name (q @ tail) \<and>
     (tail \<noteq> [] \<longrightarrow> fst (fs_symlink_status fs (q @ [hd tail])))"

lemma confined_append:
  "confined fs root q tail \<Longrightarrow> tail \<noteq> [] \<Longrightarrow> path_name c \<Longrightarrow> confined fs root q (tail @ [c])"
  by (simp add: confined_def)

lemma resolve_components_confined:
  assumes "canonical_names fs" "resolve_components fs root resolved missing cs = Inr p"
    and "\<forall>c\<in>set cs. c = [] \<or> c = ''.'' \<or> path_name c"
    and "confined fs root q tail" "resolved = q @ tail" "missing \<longleftrightarrow> tail \<noteq> []"
  shows "\<exists>q tail. p = q @ tail \<and> confined fs root q tail"
  using assms(2-)
proof (induction cs arbitrary: resolved missing q tail)
  case Nil
  then show ?case by auto
next
  case (Cons c cs)
  note IH = Cons.IH [OF _ _ _ refl]
  show ?case
  proof (cases "c = [] \<or> c = ''.''")
    case True
    with Cons.prems Cons.IH [of resolved missing q tail] show ?thesis by simp
  next
    case False
    with Cons.prems have c: "path_name c" by auto
    show ?thesis
    proof (cases missing)
      case True
      with False Cons.prems have "resolve_components fs root (q @ (tail @ [c])) True cs = Inr p"
        by simp
      from IH [OF this _ confined_append [OF Cons.prems(3)]] c True Cons.prems show ?thesis by simp
    next
      case m: False
      with Cons.prems have s: "tail = []" "resolved = q" by auto
      obtain nf er where st: "fs_symlink_status fs (q @ [c]) = (nf, er)" by force
      show ?thesis
      proof (cases "nf \<and> (er = None \<or> er = Some No_such_file_or_directory)")
        case True
        with False m s st Cons.prems have "resolve_components fs root (q @ [c]) True cs = Inr p"
          by (auto split: if_splits)
        moreover have "confined fs root q [c]"
          using Cons.prems(3) c s st True by (simp add: confined_def)
        ultimately show ?thesis using IH [of q "[c]" True] Cons.prems(2) by simp
      next
        case nf: False
        with False m s st Cons.prems obtain r where r: "fs_canonical fs (q @ [c]) = Some r"
          "prefix root r" "resolve_components fs root r False cs = Inr p"
          by (auto simp: resolve_existing_path_def is_within_root_prefix
              split: if_splits option.splits)
        then have "confined fs root r []"
          using assms(1) by (auto simp: confined_def anchored_def canonical_names_def)
        with IH [of r "[]" False] r(3) Cons.prems(2) show ?thesis by simp
      qed
    qed
  qed
qed

lemma recheck_root_Inr: "recheck_root fs root = Inr r \<Longrightarrow> r = root"
  by (auto simp: recheck_root_def is_within_root_prefix split: sum.splits if_splits)

lemma list_all_path_name_plain: "list_all path_name cs \<Longrightarrow> list_all plain cs"
  by (auto simp: list_all_iff path_name_plain)

lemma resolve_candidate_names:
  assumes "list_all path_name root" "list_all plain relative" "c \<in> set (resolve_candidate root relative)"
  shows "c = [] \<or> path_name c"
  using assms lexically_normal_names [of "root @ relative" c] list_all_path_name_plain [OF assms(1)]
  by (auto simp: resolve_candidate_def list_all_iff split: if_splits)

lemma path_components_plain: "NUL \<notin> set s \<Longrightarrow> list_all plain (path_components s)"
  using path_components_set [of _ s] by (auto simp: list_all_iff plain_def)

lemma lexically_relative_names:
  assumes "\<forall>c\<in>set p. c = [] \<or> path_name c" "prefix root p" "c \<in> set (lexically_relative p root)"
  shows "c = [] \<or> c = ''.'' \<or> path_name c"
  using assms by (auto simp: prefix_def lexically_relative_prefix split: if_splits)

lemma safe_path_resolved:
  assumes "canonical_names fs" "list_all path_name root" "safe_path_resolve fs root requested = Inr p"
  shows "\<exists>q tail. p = q @ tail \<and> confined fs root q tail \<and> prefix root p \<and>
           list_all path_name p \<and>
           list_all (\<lambda>c. \<not> is_upload_stage_component c) (drop (length root) p)"
proof -
  obtain request where rq: "decode_path_request requested = Inr request" "NUL \<notin> set request"
    using assms(3) by (auto simp: safe_path_resolve_def sv_find_None split: if_splits sum.splits)
  let ?rel = "lexically_normal False (path_components request)"
  let ?cand = "resolve_candidate root ?rel"
  have res: "resolve_existing_prefixes fs ?cand root = Inr p" and within: "prefix root ?cand"
    and stage: "\<not> list_ex is_upload_stage_component (lexically_relative p root)"
    using assms(3) rq
    by (auto simp: safe_path_resolve_def is_within_root_prefix Let_def split: if_splits sum.splits)
  have run: "resolve_components fs root root False (lexically_relative ?cand root) = Inr p"
    using res recheck_root_Inr by (auto simp: resolve_existing_prefixes_def split: sum.splits)
  have "list_all plain ?rel"
    using path_components_plain [OF rq(2)] by (rule lexically_normal_plain)
  then have names: "\<forall>c\<in>set (lexically_relative ?cand root). c = [] \<or> c = ''.'' \<or> path_name c"
    using lexically_relative_names [OF _ within] resolve_candidate_names [OF assms(2)] by blast
  have "confined fs root root []" using assms(2) by (simp add: confined_def anchored_def)
  from resolve_components_confined [OF assms(1) run names this] obtain q tail where
    q: "p = q @ tail" "confined fs root q tail" by auto
  then have p: "prefix root p" "list_all path_name p"
    by (auto simp: confined_def anchored_def prefix_def)
  then obtain zs where zs: "p = root @ zs" "zs = [] \<or> hd zs \<noteq> []"
    by (metis append_Nil2 hd_in_set list_all_append list_all_iff path_name_def prefix_def)
  then have "list_all (\<lambda>c. \<not> is_upload_stage_component c) (drop (length root) p)"
    using stage by (auto simp: lexically_relative_prefix list_ex_iff list_all_iff split: if_splits)
  with q p show ?thesis by blast
qed

text \<open>
  C2. Path confinement: whatever bytes a client sends and whatever symbolic links exist, a resolved
  path lies inside the shared root; it has only proper names as components, none of them a reserved
  upload name below the root, and consists of an object the host resolved inside the root followed
  only by names of which the first does not exist.
\<close>

theorem safe_path_confined:
  assumes "canonical_names fs" "list_all path_name root" "safe_path_resolve fs root requested = Inr p"
  shows "\<exists>q tail. p = q @ tail \<and> confined fs root q tail \<and> prefix root p \<and>
           list_all path_name p \<and>
           list_all (\<lambda>c. \<not> is_upload_stage_component c) (drop (length root) p)"
  using safe_path_resolved [OF assms] .

definition sample_fs :: fs_view where
  "sample_fs =
     \<lparr>fs_canonical = (\<lambda>q. if \<not> list_all path_name q then None
        else if q = [''srv'', ''link''] then Some [''srv'', ''data''] else Some q),
      fs_is_directory = (\<lambda>q. True),
      fs_symlink_status = (\<lambda>q. if last q = ''new'' then (True, Some No_such_file_or_directory)
        else (False, None))\<rparr>"

theorem safe_path_confined_witness:
  "\<exists>q tail. [''srv'', ''data'', ''new''] = q @ tail \<and> confined sample_fs [''srv''] q tail"
proof -
  have c: "canonical_names sample_fs"
    by (simp add: canonical_names_def sample_fs_def path_name_def)
  have r: "safe_path_resolve sample_fs [''srv''] ''x/../link%2Fnew'' = Inr [''srv'', ''data'', ''new'']"
    by code_simp
  have "list_all path_name [''srv'']" by (simp add: path_name_def)
  from safe_path_confined [OF c this r] show ?thesis by auto
qed

section \<open>Ordinary requests\<close>

definition percent_byte :: "char \<Rightarrow> string" where
  "percent_byte c = [CHR ''%'', digit_char (of_char c div 16), digit_char (of_char c mod 16)]"

fun join_slash :: "string list \<Rightarrow> string" where
  "join_slash [] = []"
| "join_slash [c] = c"
| "join_slash (c # d # cs) = c @ CHR ''/'' # join_slash (d # cs)"

definition encode_path :: "string \<Rightarrow> string" where
  "encode_path s = concat (map (\<lambda>c. if c = CHR ''/'' then [c] else percent_byte c) s)"

lemma decode_percent_encode: "decode_percent (encode_path s) = Inr s"
proof (induction s)
  case (Cons c s)
  have "of_char c div 16 < (16::nat)" using nat_of_char_less_256 [of c] by linarith
  then show ?case
    using Cons by (auto simp: encode_path_def percent_byte_def hex_digit_value_std mult.commute)
qed (simp add: encode_path_def)

lemma decode_encode_path:
  assumes "\<not> contains_percent_escape s" "BACKSLASH \<notin> set s"
  shows "decode_path_request (encode_path s) = Inr s"
  using assms by (auto simp: decode_path_request_def decode_percent_encode intro: map_idI)

lemma split_slash_append:
  "CHR ''/'' \<notin> set c \<Longrightarrow> split_slash (c @ CHR ''/'' # s) = c # split_slash s"
  by (induction c) auto

lemma split_slash_plain: "CHR ''/'' \<notin> set c \<Longrightarrow> split_slash c = [c]"
  by (induction c) auto

lemma path_components_join:
  assumes "list_all path_name cs" "cs \<noteq> []"
  shows "path_components (join_slash cs) = cs"
proof -
  have "split_slash (join_slash cs) = cs"
    using assms by (induction cs rule: join_slash.induct)
      (auto simp: split_slash_append split_slash_plain path_name_def)
  moreover have "join_slash cs \<noteq> [] \<and> last (join_slash cs) \<noteq> CHR ''/''"
    using assms by (induction cs rule: join_slash.induct) (auto simp: path_name_def dest: last_in_set)
  moreover have "filter (\<lambda>c. c \<noteq> []) cs = cs"
    using assms(1) by (auto simp: list_all_iff path_name_def intro: filter_True)
  ultimately show ?thesis by (simp add: path_components_def)
qed

lemma foldl_normal_names:
  "list_all path_name cs \<Longrightarrow> foldl (normal_step absolute) acc cs = rev cs @ acc"
  by (induction cs arbitrary: acc) (auto simp: normal_step_def path_name_def)

lemma lexically_normal_id: "list_all path_name cs \<Longrightarrow> lexically_normal absolute cs = cs"
  using last_in_set [of cs] by (auto simp: lexically_normal_def foldl_normal_names Let_def
      list_all_iff path_name_def)

text \<open>A host on which the named objects are what they seem: directories with no link among them.\<close>

definition link_free :: "fs_view \<Rightarrow> string list \<Rightarrow> string list \<Rightarrow> bool" where
  "link_free fs root cs \<longleftrightarrow>
     (\<forall>k<length cs. fs_is_directory fs (root @ take k cs)) \<and>
     (\<forall>k<length cs.
        fs_symlink_status fs (root @ take (Suc k) cs) = (False, None) \<and>
        fs_canonical fs (root @ take (Suc k) cs) = Some (root @ take (Suc k) cs) \<or>
        Suc k = length cs \<and>
        fs_symlink_status fs (root @ take (Suc k) cs) = (True, Some No_such_file_or_directory))"

lemma link_free_Cons:
  "link_free fs root (c # cs) \<longleftrightarrow>
     fs_is_directory fs root \<and>
     (fs_symlink_status fs (root @ [c]) = (False, None) \<and>
      fs_canonical fs (root @ [c]) = Some (root @ [c]) \<or>
      cs = [] \<and> fs_symlink_status fs (root @ [c]) = (True, Some No_such_file_or_directory)) \<and>
     link_free fs (root @ [c]) cs"
  by (auto simp: link_free_def All_less_Suc2)

lemma resolve_components_link_free:
  assumes "link_free fs resolved cs" "list_all path_name cs" "prefix root resolved"
  shows "resolve_components fs root resolved False cs = Inr (resolved @ cs)"
  using assms
proof (induction cs arbitrary: resolved)
  case (Cons c cs)
  then have c: "c \<noteq> []" "c \<noteq> ''.''" by (auto simp: path_name_def)
  have "prefix root (resolved @ [c])" using Cons.prems(3) by (rule prefix_prefix)
  with Cons.IH [of "resolved @ [c]"] Cons.prems c show ?case
    by (auto simp: link_free_Cons resolve_existing_path_def is_within_root_prefix simp del: prefix_snoc)
qed simp

text \<open>
  Ordinary requests are served: the percent-encoded form of a list of proper names resolves to
  the root followed by exactly these names, when the parents are directories and no link is among
  them; the last name may be new.
\<close>

lemma safe_path_roundtrip:
  assumes "list_all path_name cs" "cs \<noteq> []" "list_all path_name root"
    and "length (encode_path (join_slash cs)) \<le> maximum_requested_path_bytes"
    and "utf8_is_valid (join_slash cs)" "NUL \<notin> set (join_slash cs)"
    and "BACKSLASH \<notin> set (join_slash cs)" "\<not> contains_percent_escape (join_slash cs)"
    and "\<not> has_portable_root (join_slash cs)" "\<not> list_ex is_upload_stage_component cs"
    and "fs_canonical fs root = Some root" "link_free fs root cs"
  shows "safe_path_resolve fs root (encode_path (join_slash cs)) = Inr (root @ cs)"
proof -
  have cand: "resolve_candidate root cs = root @ cs"
    using assms(1-3) lexically_normal_id [of "root @ cs" True]
    by (auto simp: resolve_candidate_def path_name_def)
  have dir: "fs_is_directory fs root" using assms(2,12) by (cases cs) (auto simp: link_free_Cons)
  have "hd cs \<noteq> []" using assms(1,2) by (cases cs) (auto simp: path_name_def)
  then have rel: "lexically_relative (root @ cs) root = cs"
    using assms(2) by (simp add: lexically_relative_prefix)
  have "recheck_root fs root = Inr root"
    using assms(11) dir
    by (simp add: recheck_root_def resolve_existing_path_def is_within_root_prefix)
  then have "resolve_existing_prefixes fs (root @ cs) root = Inr (root @ cs)"
    using resolve_components_link_free [OF assms(12,1)] rel
    by (simp add: resolve_existing_prefixes_def)
  then show ?thesis
    using assms rel cand decode_encode_path [OF assms(8,7)]
    by (simp add: safe_path_resolve_def sv_find_None path_components_join lexically_normal_id
        is_within_root_prefix Let_def)
qed

end
