(* ===== verification/Request_Deadlines.thy ===== *)
theory Request_Deadlines
  imports Prelude
begin

text \<open>
  Receive budgets of one request, \<^verbatim>\<open>src/http/transport/detail/request_deadlines.cpp\<close>, and the
  interruption policy shared by network and file operations,
  \<^verbatim>\<open>include/sparenode/foundation/concurrency/interruption.hpp\<close>. Timeouts count milliseconds, instants
  nanoseconds.
\<close>

section \<open>Interruption\<close>

datatype interruption_state = Not_interrupted | Interruption_cancelled | Interruption_deadline

definition interruption_status :: "bool \<Rightarrow> int option \<Rightarrow> int \<Rightarrow> interruption_state" where
  "interruption_status stop_requested deadline now =
     (if stop_requested then Interruption_cancelled
      else (case deadline of
              Some d \<Rightarrow> (if now \<ge> d then Interruption_deadline else Not_interrupted)
            | None \<Rightarrow> Not_interrupted))"

section \<open>Deadlines\<close>

record request_timeouts =
  headers_timeout :: int
  body_timeout :: int
  receive_timeout :: int

definition default_timeouts :: request_timeouts where
  "default_timeouts = \<lparr>headers_timeout = 10000, body_timeout = 10000, receive_timeout = 30000\<rparr>"

definition maximum_config_timeout :: int where
  "maximum_config_timeout = 24 * 60 * 60 * 1000"

record request_deadlines =
  dl_timeouts :: request_timeouts
  dl_last_progress :: int
  dl_total :: int

definition checked_deadline :: "int \<Rightarrow> int \<Rightarrow> int option" where
  "checked_deadline started timeout =
     (if timeout \<le> 0 \<or> started < 0 then None
      else
        (let remaining = time_point_max - started in
         if timeout > remaining div 1000000 then None
         else
           (let converted = timeout * 1000000 in
            if converted \<le> 0 \<or> converted > remaining then None
            else Some (started + converted))))"

definition create_deadlines :: "request_timeouts \<Rightarrow> int \<Rightarrow> request_deadlines option" where
  "create_deadlines timeouts started =
     (case checked_deadline started (receive_timeout timeouts) of
        None \<Rightarrow> None
      | Some t \<Rightarrow>
          (if checked_deadline started (headers_timeout timeouts) = None \<or>
              checked_deadline started (body_timeout timeouts) = None
           then None
           else Some \<lparr>dl_timeouts = timeouts, dl_last_progress = started, dl_total = t\<rparr>))"

definition record_progress :: "int \<Rightarrow> request_deadlines \<Rightarrow> request_deadlines" where
  "record_progress received_at d =
     d\<lparr>dl_last_progress := max (dl_last_progress d) received_at\<rparr>"

definition next_deadline :: "request_deadlines \<Rightarrow> bool \<Rightarrow> int" where
  "next_deadline d reading_body =
     (case checked_deadline (dl_last_progress d)
             (if reading_body then body_timeout (dl_timeouts d) else headers_timeout (dl_timeouts d)) of
        Some inactivity \<Rightarrow> min inactivity (dl_total d)
      | None \<Rightarrow> dl_total d)"

section \<open>Exactness\<close>

lemma checked_deadline_eq:
  "checked_deadline started timeout =
     (if 0 < timeout \<and> 0 \<le> started \<and> started + timeout * 1000000 \<le> time_point_max
      then Some (started + timeout * 1000000) else None)"
proof -
  have "timeout > r div 1000000 \<longleftrightarrow> timeout * 1000000 > r" for r :: int by linarith
  then show ?thesis by (auto simp: checked_deadline_def Let_def)
qed

lemma create_deadlines_Some:
  "create_deadlines timeouts started = Some d \<longleftrightarrow>
     0 \<le> started \<and> 0 < headers_timeout timeouts \<and> 0 < body_timeout timeouts \<and>
     0 < receive_timeout timeouts \<and>
     started + headers_timeout timeouts * 1000000 \<le> time_point_max \<and>
     started + body_timeout timeouts * 1000000 \<le> time_point_max \<and>
     started + receive_timeout timeouts * 1000000 \<le> time_point_max \<and>
     d = \<lparr>dl_timeouts = timeouts, dl_last_progress = started,
          dl_total = started + receive_timeout timeouts * 1000000\<rparr>"
  by (auto simp: create_deadlines_def checked_deadline_eq)

lemma record_progress_run:
  "fold record_progress ts d = d\<lparr>dl_last_progress := fold max ts (dl_last_progress d)\<rparr>"
  by (induction ts arbitrary: d) (simp_all add: record_progress_def max.commute)

lemma fold_max_ge: "x \<le> fold max ts (x :: int)"
proof (induction ts arbitrary: x)
  case (Cons t ts)
  have "x \<le> max t x" by simp
  also have "\<dots> \<le> fold max ts (max t x)" by (rule Cons.IH)
  finally show ?case by simp
qed simp

lemma next_deadline_eq:
  assumes "0 \<le> dl_last_progress d" "dl_total d \<le> time_point_max"
    "0 < body_timeout (dl_timeouts d)" "0 < headers_timeout (dl_timeouts d)"
  shows "next_deadline d reading_body =
     min (dl_total d) (dl_last_progress d + 1000000 *
       (if reading_body then body_timeout (dl_timeouts d) else headers_timeout (dl_timeouts d)))"
  using assms by (auto simp: next_deadline_def checked_deadline_eq)

text \<open>
  Receive budgets: once the timeouts are accepted, after any sequence of receives the deadline of
  the next read is exactly the earlier of the fixed total deadline and the last progress plus the
  timeout of the phase, computed without overflow: it never passes the total deadline, which no
  receive renews, and is a representable instant.
\<close>

lemma deadlines_exact:
  assumes "create_deadlines timeouts started = Some d"
  shows "let d' = fold record_progress receives d;
             total = started + receive_timeout timeouts * 1000000;
             timeout = (if reading_body then body_timeout timeouts else headers_timeout timeouts)
         in next_deadline d' reading_body =
              min total (fold max receives started + timeout * 1000000) \<and>
            dl_total d' = total \<and> started < next_deadline d' reading_body \<and>
            next_deadline d' reading_body \<le> time_point_max"
proof -
  have "started \<le> fold max receives started" by (rule fold_max_ge)
  with assms show ?thesis
    unfolding create_deadlines_Some
    by (auto simp: record_progress_run next_deadline_eq Let_def)
qed

end
