(* ===== verification/Resource_Coordinator.thy ===== *)
theory Resource_Coordinator
  imports Safe_Path Request_Deadlines "HOL-Library.List_Lexorder" "HOL-Library.Product_Lexorder"
begin

text \<open>
  In-process coordination of filesystem access:
  \<^verbatim>\<open>src/application/filesystem_resource_coordinator.cpp\<close> (POSIX naming).

  The registry is a record; \<open>acquire_all\<close> enters its mutex twice, so what other threads do to the
  registry in between is the argument \<open>meanwhile\<close>. The stop token and the clock are observed through
  the world. A lease is the identifier it releases; identifiers are 64-bit and wrap. The allocation
  failure branch is not modelled.
\<close>

section \<open>Claims\<close>

datatype access_mode = Shared_read | Exclusive_mutation

record access_request =
  request_root :: "string list option"
  requested_path :: string
  request_mode :: access_mode

datatype access_error_code =
  Invalid_path | Claim_conflict | Access_cancelled | Access_deadline_exceeded | Capacity_exceeded |
  Resource_allocation_failed

type_synonym access_error = "access_error_code \<times> (safe_path_error \<times> string) option"

record resource_claim =
  claim_root :: "string list"
  claim_components :: "string list"
  claim_mode :: access_mode

record active_claim_set =
  set_identifier :: nat
  set_claims :: "resource_claim list"

definition interruption :: "bool \<Rightarrow> int option \<Rightarrow> int \<Rightarrow> access_error option" where
  "interruption stop_requested deadline now =
     (case interruption_status stop_requested deadline now of
        Interruption_cancelled \<Rightarrow> Some (Access_cancelled, None)
      | Interruption_deadline \<Rightarrow> Some (Access_deadline_exceeded, None)
      | Not_interrupted \<Rightarrow> None)"

definition is_prefix :: "string list \<Rightarrow> string list \<Rightarrow> bool" where
  "is_prefix pre path \<longleftrightarrow> length pre \<le> length path \<and> list_all2 (=) pre (take (length pre) path)"

definition overlaps :: "resource_claim \<Rightarrow> resource_claim \<Rightarrow> bool" where
  "overlaps left right \<longleftrightarrow>
     claim_root left = claim_root right \<and>
     (is_prefix (claim_components left) (claim_components right) \<or>
      is_prefix (claim_components right) (claim_components left))"

definition conflicts :: "resource_claim \<Rightarrow> resource_claim \<Rightarrow> bool" where
  "conflicts left right \<longleftrightarrow>
     overlaps left right \<and>
     (claim_mode left = Exclusive_mutation \<or> claim_mode right = Exclusive_mutation)"

definition claim_set_conflicts :: "active_claim_set \<Rightarrow> resource_claim list \<Rightarrow> bool" where
  "claim_set_conflicts active requested \<longleftrightarrow>
     list_ex (\<lambda>existing. list_ex (\<lambda>r. conflicts existing r) requested) (set_claims active)"

definition conflicts_with_active :: "active_claim_set list \<Rightarrow> resource_claim list \<Rightarrow> bool" where
  "conflicts_with_active actives requested \<longleftrightarrow>
     list_ex (\<lambda>active. claim_set_conflicts active requested) actives"

definition make_claim :: "fs_view \<Rightarrow> access_request \<Rightarrow> (access_error, resource_claim) result" where
  "make_claim fs request =
     (case request_root request of
        None \<Rightarrow> Inl (Invalid_path, Some (Resolution_failed, []))
      | Some root \<Rightarrow>
          (case safe_path_resolve fs root (requested_path request) of
             Inl e \<Rightarrow> Inl (Invalid_path, Some e)
           | Inr p \<Rightarrow>
               Inr \<lparr>claim_root = root,
                    claim_components =
                      filter (\<lambda>c. c \<noteq> [] \<and> c \<noteq> ''.'') (lexically_relative p root),
                    claim_mode = request_mode request\<rparr>))"

definition claim_key :: "resource_claim \<Rightarrow> string \<times> string list" where
  "claim_key c = (concat (map ((#) (CHR ''/'')) (claim_root c)), claim_components c)"

definition sort_claims :: "resource_claim list \<Rightarrow> resource_claim list" where
  "sort_claims claims = sort_key claim_key claims"

section \<open>The registry\<close>

record coordinator_state =
  active_sets :: "active_claim_set list"
  active_claim_count :: nat
  next_identifier :: nat

definition empty_coordinator :: coordinator_state where
  "empty_coordinator = \<lparr>active_sets = [], active_claim_count = 0, next_identifier = 1\<rparr>"

definition maximum_active_claims :: nat where
  "maximum_active_claims = 4096"

definition release :: "nat \<Rightarrow> coordinator_state \<Rightarrow> coordinator_state" where
  "release identifier s =
     (if identifier = 0 then s
      else (case find_index (\<lambda>a. set_identifier a = identifier) (active_sets s) of
              None \<Rightarrow> s
            | Some i \<Rightarrow>
                s\<lparr>active_claim_count :=
                     size_sub (active_claim_count s) (length (set_claims (active_sets s ! i))),
                  active_sets := take i (active_sets s) @ drop (Suc i) (active_sets s)\<rparr>))"

primrec make_claims :: "fs_view \<Rightarrow> access_request list \<Rightarrow> (access_error, resource_claim list) result" where
  "make_claims fs [] = Inr []"
| "make_claims fs (r # rs) =
     (case make_claim fs r of
        Inl e \<Rightarrow> Inl e
      | Inr c \<Rightarrow> (case make_claims fs rs of Inl e \<Rightarrow> Inl e | Inr cs \<Rightarrow> Inr (c # cs)))"

text \<open>The second critical section, after the interruption check inside it.\<close>

definition commit_claims ::
    "resource_claim list \<Rightarrow> coordinator_state \<Rightarrow> coordinator_state \<times> (access_error, nat) result" where
  "commit_claims claims s =
     (if length claims > size_sub maximum_active_claims (active_claim_count s)
      then (s, Inl (Capacity_exceeded, None))
      else if conflicts_with_active (active_sets s) claims then (s, Inl (Claim_conflict, None))
      else
        (let identifier = next_identifier s in
         (s\<lparr>next_identifier := (next_identifier s + 1) mod 2 ^ 64,
            active_sets := active_sets s @ [\<lparr>set_identifier = identifier, set_claims = claims\<rparr>],
            active_claim_count := active_claim_count s + length claims\<rparr>,
          Inr identifier)))"

definition acquire_all ::
    "fs_view \<Rightarrow> ('w \<Rightarrow> 'w \<times> bool \<times> int) \<Rightarrow> (coordinator_state \<Rightarrow> coordinator_state) \<Rightarrow>
     access_request list \<Rightarrow> int option \<Rightarrow> 'w \<times> coordinator_state \<Rightarrow>
     ('w \<times> coordinator_state) \<times> (access_error, nat) result" where
  "acquire_all fs observe meanwhile requests deadline ws =
     (case observe (fst ws) of
        (w1, stop1, now1) \<Rightarrow>
          (case interruption stop1 deadline now1 of
             Some e \<Rightarrow> ((w1, snd ws), Inl e)
           | None \<Rightarrow>
               if requests = [] then ((w1, snd ws), Inl (Invalid_path, None))
               else if length requests > maximum_active_claims
               then ((w1, snd ws), Inl (Capacity_exceeded, None))
               else if length requests >
                 size_sub maximum_active_claims (active_claim_count (snd ws))
               then ((w1, snd ws), Inl (Capacity_exceeded, None))
               else
                 (case make_claims fs requests of
                    Inl e \<Rightarrow> ((w1, snd ws), Inl e)
                  | Inr claims \<Rightarrow>
                      (case observe w1 of
                         (w2, stop2, now2) \<Rightarrow>
                           (case interruption stop2 deadline now2 of
                              Some e \<Rightarrow> ((w2, snd ws), Inl e)
                            | None \<Rightarrow>
                                (case observe w2 of
                                   (w3, stop3, now3) \<Rightarrow>
                                     (case interruption stop3 deadline now3 of
                                        Some e \<Rightarrow> ((w3, meanwhile (snd ws)), Inl e)
                                      | None \<Rightarrow>
                                          (case commit_claims (sort_claims claims)
                                                  (meanwhile (snd ws)) of
                                             (s', r) \<Rightarrow> ((w3, s'), r)))))))))"

definition acquire where
  "acquire fs observe meanwhile root path mode deadline ws =
     acquire_all fs observe meanwhile
       [\<lparr>request_root = Some root, requested_path = path, request_mode = mode\<rparr>] deadline ws"

section \<open>Invariant\<close>

text \<open>What the registry promises: no two operations hold conflicting claims.\<close>

definition compatible :: "active_claim_set \<Rightarrow> active_claim_set \<Rightarrow> bool" where
  "compatible a b \<longleftrightarrow> (\<forall>c\<in>set (set_claims a). \<forall>d\<in>set (set_claims b). \<not> conflicts c d)"

definition coordinator_ok :: "coordinator_state \<Rightarrow> bool" where
  "coordinator_ok s \<longleftrightarrow>
     sorted_wrt compatible (active_sets s) \<and>
     active_claim_count s = (\<Sum>a\<leftarrow>active_sets s. length (set_claims a)) \<and>
     active_claim_count s \<le> maximum_active_claims"

lemma is_prefix_prefix [simp]: "is_prefix p q \<longleftrightarrow> prefix p q"
  by (auto simp: is_prefix_def list.rel_eq prefix_def min_def)
    (metis append_take_drop_id)

lemma conflicts_sym: "conflicts c d \<longleftrightarrow> conflicts d c"
  by (auto simp: conflicts_def overlaps_def)

lemma conflicts_with_active_iff:
  "conflicts_with_active actives requested \<longleftrightarrow>
     (\<exists>a\<in>set actives. \<not> compatible a \<lparr>set_identifier = i, set_claims = requested\<rparr>)"
  by (auto simp: conflicts_with_active_def claim_set_conflicts_def compatible_def list_ex_iff)

lemma commit_claims_ok: "coordinator_ok s \<Longrightarrow> coordinator_ok (fst (commit_claims claims s))"
  using conflicts_with_active_iff [of "active_sets s" claims]
  by (auto simp: commit_claims_def coordinator_ok_def sorted_wrt_append Let_def)

lemma sum_list_remove_nth:
  "i < length xs \<Longrightarrow> sum_list (map f xs) = f (xs ! i) + sum_list (map f (take i xs @ drop (Suc i) xs))"
  for f :: "'a \<Rightarrow> nat"
  by (subst id_take_nth_drop [of i xs]) (simp_all del: append_take_drop_id)

lemma sorted_wrt_remove_nth:
  "sorted_wrt R xs \<Longrightarrow> sorted_wrt R (take i xs @ drop (Suc i) xs)"
  by (auto simp: sorted_wrt_append sorted_wrt_take sorted_wrt_drop)
    (metis append_take_drop_id set_drop_subset_set_drop sorted_wrt_append subsetD le_SucI order_refl)

lemma release_ok: "coordinator_ok s \<Longrightarrow> coordinator_ok (release identifier s)"
  using sum_list_remove_nth [of _ "active_sets s" "\<lambda>a. length (set_claims a)"]
  by (auto simp: release_def coordinator_ok_def sorted_wrt_remove_nth
      split: option.splits dest!: find_index_less)

datatype coordinator_op = Commit "resource_claim list" | Release_lease nat

fun coordinator_step :: "coordinator_op \<Rightarrow> coordinator_state \<Rightarrow> coordinator_state" where
  "coordinator_step (Commit claims) s = fst (commit_claims claims s)"
| "coordinator_step (Release_lease identifier) s = release identifier s"

interpretation coordinator: bounded_system coordinator_step coordinator_ok active_claim_count
  "\<lambda>s. maximum_active_claims"
proof unfold_locales
  fix s x
  show "coordinator_ok s \<Longrightarrow> coordinator_ok (coordinator_step x s)"
    by (cases x) (auto simp: commit_claims_ok release_ok)
qed (auto simp: coordinator_ok_def)

lemma acquire_all_committed:
  assumes "acquire_all fs observe meanwhile requests deadline (w, s) = ((w', s'), r)"
  shows "s' = s \<and> (\<exists>e. r = Inl e) \<or> s' = meanwhile s \<and> (\<exists>e. r = Inl e) \<or>
         (\<exists>claims. make_claims fs requests = Inr claims \<and>
                   commit_claims (sort_claims claims) (meanwhile s) = (s', r))"
  using assms
  by (auto simp: acquire_all_def split: prod.splits option.splits sum.splits if_splits)

lemma set_sort_claims [simp]: "set (sort_claims claims) = set claims"
  by (simp add: sort_claims_def)

lemma length_sort_claims [simp]: "length (sort_claims claims) = length claims"
  by (simp add: sort_claims_def)

text \<open>
  Mutual exclusion in the registry: after any interleaving of commits and releases, two different
  active operations never hold conflicting claims, and the stored count is the number of claims held
  and at most the maximum.
\<close>

lemma coordinator_exclusion:
  "let s = fold coordinator_step ops empty_coordinator in
   (\<forall>i j. i < j \<and> j < length (active_sets s) \<longrightarrow>
      (\<forall>c\<in>set (set_claims (active_sets s ! i)). \<forall>d\<in>set (set_claims (active_sets s ! j)).
         \<not> conflicts c d)) \<and>
   active_claim_count s = (\<Sum>a\<leftarrow>active_sets s. length (set_claims a)) \<and>
   active_claim_count s \<le> maximum_active_claims"
proof -
  have "coordinator_ok empty_coordinator" by (simp add: coordinator_ok_def empty_coordinator_def)
  from coordinator.inv_run [OF this, of ops] show ?thesis
    by (auto simp: coordinator_ok_def Let_def sorted_wrt_iff_nth_less compatible_def)
qed

definition sample_claim :: "string \<Rightarrow> resource_claim" where
  "sample_claim c = \<lparr>claim_root = [''srv''], claim_components = [c], claim_mode = Exclusive_mutation\<rparr>"

section \<open>Leases\<close>

text \<open>Identifiers are fresh as long as the 64-bit counter has not wrapped.\<close>

definition ids_ok :: "coordinator_state \<Rightarrow> bool" where
  "ids_ok s \<longleftrightarrow>
     0 < next_identifier s \<and> distinct (map set_identifier (active_sets s)) \<and>
     (\<forall>a\<in>set (active_sets s). 0 < set_identifier a \<and> set_identifier a < next_identifier s)"

lemma set_remove_nth:
  assumes "i < length xs"
  shows "set (take i xs @ drop (Suc i) xs) \<subseteq> set xs"
    and "x \<in> set xs \<Longrightarrow> x \<noteq> xs ! i \<Longrightarrow> x \<in> set (take i xs @ drop (Suc i) xs)"
proof -
  have xs: "xs = take i xs @ xs ! i # drop (Suc i) xs" using assms by (rule id_take_nth_drop)
  show "set (take i xs @ drop (Suc i) xs) \<subseteq> set xs" by (auto dest: in_set_takeD in_set_dropD)
  show "x \<in> set xs \<Longrightarrow> x \<noteq> xs ! i \<Longrightarrow> x \<in> set (take i xs @ drop (Suc i) xs)"
    by (subst (asm) xs) auto
qed

lemma release_cases:
  obtains "release identifier s = s"
  | i where "i < length (active_sets s)" "set_identifier (active_sets s ! i) = identifier"
      "active_sets (release identifier s) = take i (active_sets s) @ drop (Suc i) (active_sets s)"
      "next_identifier (release identifier s) = next_identifier s"
proof (cases "identifier = 0 \<or> find_index (\<lambda>a. set_identifier a = identifier) (active_sets s) = None")
  case True
  then have "release identifier s = s" by (auto simp: release_def)
  then show thesis by (rule that(1))
next
  case False
  then obtain i where i: "find_index (\<lambda>a. set_identifier a = identifier) (active_sets s) = Some i"
    by auto
  with False show thesis by (intro that(2) [of i])
      (use find_index_Some_iff [of "\<lambda>a. set_identifier a = identifier" "active_sets s" i] in
        \<open>auto simp: release_def\<close>)
qed

lemma distinct_remove_nth: "distinct xs \<Longrightarrow> distinct (take i xs @ drop (Suc i) xs)"
  using sorted_wrt_remove_nth [of "(\<noteq>)" xs i]
  by (simp add: distinct_conv_nth sorted_wrt_iff_nth_less) (metis linorder_neqE_nat)

lemma release_ids: "ids_ok s \<Longrightarrow> ids_ok (release identifier s) \<and>
    next_identifier (release identifier s) = next_identifier s"
proof (cases rule: release_cases [of "identifier" s])
  case (2 i)
  assume "ids_ok s"
  with 2 show ?thesis
    using distinct_remove_nth [of "map set_identifier (active_sets s)" i] set_remove_nth(1) [OF 2(1)]
    by (auto simp: ids_ok_def take_map drop_map simp del: set_append)
qed simp

lemma step_ids:
  assumes "ids_ok s" "next_identifier s + 1 < 2 ^ 64"
  shows "ids_ok (coordinator_step x s) \<and>
         next_identifier (coordinator_step x s) \<le> next_identifier s + 1"
proof (cases x)
  case (Commit claims)
  with assms show ?thesis by (auto simp: commit_claims_def ids_ok_def Let_def)
next
  case (Release_lease i)
  with assms release_ids [of s i] show ?thesis by simp
qed

lemma run_ids:
  assumes "ids_ok s" "next_identifier s + length ops < 2 ^ 64"
  shows "ids_ok (fold coordinator_step ops s) \<and>
         next_identifier (fold coordinator_step ops s) \<le> next_identifier s + length ops"
  using assms
proof (induction ops arbitrary: s)
  case (Cons x ops)
  then have "ids_ok (coordinator_step x s)"
    "next_identifier (coordinator_step x s) \<le> next_identifier s + 1"
    using step_ids [of s x] by auto
  with Cons.IH [of "coordinator_step x s"] Cons.prems(2) show ?case by auto
qed simp

lemma step_keeps:
  assumes "a \<in> set (active_sets s)" "x \<noteq> Release_lease (set_identifier a)"
  shows "a \<in> set (active_sets (coordinator_step x s))"
proof (cases x)
  case (Commit claims)
  with assms show ?thesis by (auto simp: commit_claims_def Let_def)
next
  case (Release_lease lease)
  show ?thesis
  proof (cases rule: release_cases [of lease s])
    case 1
    with Release_lease assms show ?thesis by simp
  next
    case (2 i)
    with Release_lease assms have "a \<noteq> active_sets s ! i" by auto
    with 2 Release_lease assms set_remove_nth(2) [OF 2(1)] show ?thesis by simp
  qed
qed

lemma run_keeps:
  assumes "a \<in> set (active_sets s)" "Release_lease (set_identifier a) \<notin> set ops"
  shows "a \<in> set (active_sets (fold coordinator_step ops s))"
  using assms
proof (induction ops arbitrary: s)
  case (Cons x ops)
  then have "a \<in> set (active_sets (coordinator_step x s))" by (intro step_keeps) auto
  with Cons show ?case by simp
qed simp

lemma commit_conflict:
  assumes "a \<in> set (active_sets s)" "c \<in> set (set_claims a)" "d \<in> set claims" "conflicts c d"
  shows "\<exists>e. snd (commit_claims claims s) = Inl e"
  using assms by (auto simp: commit_claims_def conflicts_with_active_def claim_set_conflicts_def
      list_ex_iff)

text \<open>
  C8. A lease is exclusive: from the moment an acquisition returned a lease, whatever other threads
  commit and release, no acquisition with a conflicting claim succeeds until that lease is released.
\<close>

theorem lease_exclusive:
  assumes "acquire_all fs observe meanwhile requests deadline (w, s) = ((w1, s1), Inr lease)"
    and "make_claims fs requests = Inr claims" "c \<in> set claims"
    and "Release_lease lease \<notin> set ops" "Release_lease lease \<notin> set ops'"
    and "make_claims fs' requests' = Inr claims'" "d \<in> set claims'" "conflicts c d"
  shows "\<exists>e. snd (acquire_all fs' observe' (fold coordinator_step ops') requests' deadline'
               (w2, fold coordinator_step ops s1)) = Inl e"
proof -
  let ?a = "\<lparr>set_identifier = lease, set_claims = sort_claims claims\<rparr>"
  have "commit_claims (sort_claims claims) (meanwhile s) = (s1, Inr lease)"
    using acquire_all_committed [OF assms(1)] assms(2) by auto
  then have "?a \<in> set (active_sets s1)"
    by (auto simp: commit_claims_def Let_def split: if_splits)
  then have "?a \<in> set (active_sets (fold coordinator_step (ops @ ops') s1))"
    by (rule run_keeps) (use assms(4,5) in simp)
  then have held: "?a \<in> set (active_sets (fold coordinator_step ops' (fold coordinator_step ops s1)))"
    by simp
  obtain w3 s3 r where r: "acquire_all fs' observe' (fold coordinator_step ops') requests' deadline'
      (w2, fold coordinator_step ops s1) = ((w3, s3), r)" by (metis surj_pair)
  from acquire_all_committed [OF r] commit_conflict [OF held, of c d "sort_claims claims'"] assms
  show ?thesis by (auto simp: r)
qed

definition always_running :: "nat \<Rightarrow> nat \<times> bool \<times> int" where
  "always_running w = (w, False, 0)"

definition sample_request :: "string \<Rightarrow> access_mode \<Rightarrow> access_request" where
  "sample_request path mode =
     \<lparr>request_root = Some [''srv''], requested_path = path, request_mode = mode\<rparr>"

theorem lease_exclusive_witness:
  "\<exists>e. snd (acquire_all sample_fs always_running (fold coordinator_step [])
           [sample_request ''a'' Shared_read] None
           (0, fold coordinator_step [Commit [sample_claim ''c''], Release_lease 2]
             (snd (fst (acquire_all sample_fs always_running id
                [sample_request ''a/new'' Exclusive_mutation] None (0, empty_coordinator)))))) = Inl e"
proof -
  let ?r = "acquire_all sample_fs always_running id [sample_request ''a/new'' Exclusive_mutation] None
      (0, empty_coordinator)"
  let ?c = "\<lparr>claim_root = [''srv''], claim_components = [''a'', ''new''],
      claim_mode = Exclusive_mutation\<rparr>"
  let ?d = "\<lparr>claim_root = [''srv''], claim_components = [''a''], claim_mode = Shared_read\<rparr>"
  have "snd ?r = Inr 1" by code_simp
  then have r: "?r = ((fst (fst ?r), snd (fst ?r)), Inr 1)" by (metis prod.collapse)
  have c: "make_claims sample_fs [sample_request ''a/new'' Exclusive_mutation] = Inr [?c]" by code_simp
  have d: "make_claims sample_fs [sample_request ''a'' Shared_read] = Inr [?d]" by code_simp
  have "conflicts ?c ?d" by (simp add: conflicts_def overlaps_def)
  then show ?thesis
    using lease_exclusive [OF r c _ _ _ d, of ?c "[Commit [sample_claim ''c''], Release_lease 2]" "[]" ?d
        always_running None 0]
    by simp
qed

text \<open>
  Releasing undoes acquiring: from any state reached by fewer than \<open>2 ^ 64 - 1\<close> operations, the
  release of a lease that was just granted restores the active claims and their count.
\<close>

lemma lease_release_restores:
  assumes "length ops + 1 < 2 ^ 64" "s = fold coordinator_step ops empty_coordinator"
    and "commit_claims claims s = (s', Inr lease)"
  shows "active_sets (release lease s') = active_sets s \<and>
         active_claim_count (release lease s') = active_claim_count s"
proof -
  have "ids_ok empty_coordinator" "next_identifier empty_coordinator = 1"
    by (auto simp: ids_ok_def empty_coordinator_def)
  then have ids: "ids_ok s" using run_ids [of empty_coordinator ops] assms(1,2) by simp
  let ?a = "\<lparr>set_identifier = lease, set_claims = claims\<rparr>"
  from assms(3) have s': "active_sets s' = active_sets s @ [?a]" "lease = next_identifier s"
    "active_claim_count s' = active_claim_count s + length claims"
    by (auto simp: commit_claims_def Let_def split: if_splits)
  have "find_index (\<lambda>a. set_identifier a = lease) (active_sets s) = None"
    using ids s'(2) by (auto simp: find_index_None_iff ids_ok_def)
  then have "find_index (\<lambda>a. set_identifier a = lease) (active_sets s') = Some (length (active_sets s))"
    by (simp add: s'(1) find_index_append)
  moreover have "lease \<noteq> 0" using ids s'(2) by (simp add: ids_ok_def)
  ultimately show ?thesis by (simp add: release_def s'(1,3))
qed

end
