(* ===== verification/Temporary_Storage.thy ===== *)
theory Temporary_Storage
  imports Request_Deadlines
begin

text \<open>
  Temporary storage of request bodies, \<^verbatim>\<open>src/storage/temporary_file_writer.cpp\<close>: the process-wide
  bound on native file workers and the writer that appends to one file, directly or through its
  isolated worker thread. The file is the virtual interface of
  \<^verbatim>\<open>include/sparenode/storage/temporary_file.hpp\<close>, supplied by the injected factory: its operations are
  the record \<open>file_ops\<close>. The world \<open>'w\<close> carries the clock, the stop source, the scheduler and the
  disk. Allocation failures are not modelled.
\<close>

section \<open>Interface of the host and of the file\<close>

datatype file_error_code =
    Temporary_directory_unavailable | Create_failed | Write_failed | Flush_failed | Close_failed
  | File_cancelled | File_deadline_exceeded | Invalid_state | Resource_allocation_failed

record file_error =
  file_code :: file_error_code
  native_code :: int

record io_options =
  io_stop_possible :: bool
  io_deadline :: "int option"

record 'w host =
  host_now :: "'w \<Rightarrow> 'w \<times> int"
  host_stop :: "'w \<Rightarrow> 'w \<times> bool"

record ('w, 'f) file_ops =
  file_create :: "'w \<Rightarrow> 'w \<times> (file_error, 'f) result"
  file_write :: "'f \<Rightarrow> string \<Rightarrow> io_options \<Rightarrow> 'w \<Rightarrow> 'w \<times> 'f \<times> (file_error, unit) result"
  file_complete :: "'f \<Rightarrow> io_options \<Rightarrow> 'w \<Rightarrow> 'w \<times> 'f \<times> (file_error, unit) result"

text \<open>
  What the scheduler decides for an isolated operation: the error code when the worker thread cannot
  be started, how the wait for a worker slot ends, and whether the operation has finished when the
  caller's wait returns.
\<close>

record 'w worker_env =
  start_worker :: "'w \<Rightarrow> 'w \<times> int option"
  acquire_slot :: "io_options \<Rightarrow> 'w \<Rightarrow> 'w \<times> (file_error, unit) result"
  operation_finished :: "'w \<Rightarrow> 'w \<times> bool"

definition interruption_of :: "'w host \<Rightarrow> io_options \<Rightarrow> 'w \<Rightarrow> 'w \<times> interruption_state" where
  "interruption_of h opts w =
     (case host_now h w of
        (w1, now) \<Rightarrow>
          (case (if io_stop_possible opts then host_stop h w1 else (w1, False)) of
             (w2, stop) \<Rightarrow> (w2, interruption_status stop (io_deadline opts) now)))"

definition file_interruption :: "'w host \<Rightarrow> io_options \<Rightarrow> 'w \<Rightarrow> 'w \<times> file_error option" where
  "file_interruption h opts w =
     (case interruption_of h opts w of
        (w1, Interruption_cancelled) \<Rightarrow> (w1, Some \<lparr>file_code = File_cancelled, native_code = 0\<rparr>)
      | (w1, Interruption_deadline) \<Rightarrow> (w1, Some \<lparr>file_code = File_deadline_exceeded, native_code = 0\<rparr>)
      | (w1, Not_interrupted) \<Rightarrow> (w1, None))"

section \<open>Worker slots\<close>

text \<open>The counters and the tickets handed out; a ticket is its index.\<close>

record slot_ticket =
  ticket_orphaned :: bool
  ticket_released :: bool

record worker_slots =
  slots_active :: nat
  slots_orphaned :: nat
  slots_tickets :: "slot_ticket list"

definition maximum_workers :: nat where
  "maximum_workers = 32"

definition no_slots :: worker_slots where
  "no_slots = \<lparr>slots_active = 0, slots_orphaned = 0, slots_tickets = []\<rparr>"

definition slots_available :: "worker_slots \<Rightarrow> bool" where
  "slots_available s \<longleftrightarrow> slots_active s < maximum_workers \<or> slots_orphaned s = maximum_workers"

text \<open>
  \<open>acquire\<close> after its wait: the wait ends when \<open>slots_available\<close> holds, or by a stop request or the
  deadline, which the second look at the policy reports.
\<close>

definition slots_acquire ::
    "file_error option \<Rightarrow> worker_slots \<Rightarrow> worker_slots \<times> (file_error, nat) result" where
  "slots_acquire stopped s =
     (case stopped of
        Some e \<Rightarrow> (s, Inl e)
      | None \<Rightarrow>
          (if slots_orphaned s = maximum_workers
           then (s, Inl \<lparr>file_code = Resource_allocation_failed, native_code = 0\<rparr>)
           else (s\<lparr>slots_active := slots_active s + 1,
                   slots_tickets := slots_tickets s @
                     [\<lparr>ticket_orphaned = False, ticket_released = False\<rparr>]\<rparr>,
                 Inr (length (slots_tickets s)))))"

definition slots_orphan :: "nat \<Rightarrow> worker_slots \<Rightarrow> worker_slots" where
  "slots_orphan i s =
     (let t = slots_tickets s ! i in
      if \<not> ticket_released t \<and> \<not> ticket_orphaned t
      then s\<lparr>slots_tickets := (slots_tickets s)[i := t\<lparr>ticket_orphaned := True\<rparr>],
             slots_orphaned := slots_orphaned s + 1\<rparr>
      else s)"

definition slots_release :: "nat \<Rightarrow> worker_slots \<Rightarrow> worker_slots" where
  "slots_release i s =
     (let t = slots_tickets s ! i in
      if \<not> ticket_released t
      then s\<lparr>slots_tickets := (slots_tickets s)[i := t\<lparr>ticket_released := True\<rparr>],
             slots_active := slots_active s - 1,
             slots_orphaned := slots_orphaned s - (if ticket_orphaned t then 1 else 0)\<rparr>
      else s)"

text \<open>The interleaving of all callers: each critical section is one step.\<close>

inductive slots_step :: "worker_slots \<Rightarrow> worker_slots \<Rightarrow> bool" where
  Acquire: "stopped \<noteq> None \<or> slots_available s \<Longrightarrow> slots_step s (fst (slots_acquire stopped s))"
| Orphan: "i < length (slots_tickets s) \<Longrightarrow> slots_step s (slots_orphan i s)"
| Release: "i < length (slots_tickets s) \<Longrightarrow> slots_step s (slots_release i s)"

inductive_cases slots_stepE: "slots_step s s'"

section \<open>The writer\<close>

definition isolated_payload_bytes :: nat where
  "isolated_payload_bytes = 16 * 1024"

record 'f file_writer =
  writer_file :: 'f
  writer_worker :: bool
  writer_pending :: bool
  writer_completed :: bool

definition worker_unavailable :: "int \<Rightarrow> (file_error, 'a) result" where
  "worker_unavailable code = Inl \<lparr>file_code = Resource_allocation_failed, native_code = code\<rparr>"

abbreviation invalid_state :: "(file_error, 'a) result" where
  "invalid_state \<equiv> Inl \<lparr>file_code = Invalid_state, native_code = 0\<rparr>"

definition writer_create :: "('w, 'f) file_ops \<Rightarrow> 'w \<Rightarrow> 'w \<times> (file_error, 'f file_writer) result" where
  "writer_create ops w =
     (case file_create ops w of
        (w1, Inl e) \<Rightarrow> (w1, Inl e)
      | (w1, Inr f) \<Rightarrow>
          (w1, Inr \<lparr>writer_file = f, writer_worker = False, writer_pending = False,
                    writer_completed = False\<rparr>))"

definition ensure_worker ::
    "'w worker_env \<Rightarrow> io_options \<Rightarrow> 'f file_writer \<Rightarrow> 'w \<Rightarrow>
     'w \<times> 'f file_writer \<times> (file_error, unit) result" where
  "ensure_worker env opts wr w =
     (if writer_worker wr \<or> (io_deadline opts = None \<and> \<not> io_stop_possible opts)
      then (w, wr, Inr ())
      else (case start_worker env w of
              (w1, Some code) \<Rightarrow> (w1, wr, worker_unavailable code)
            | (w1, None) \<Rightarrow> (w1, wr\<lparr>writer_worker := True\<rparr>, Inr ())))"

text \<open>
  \<^verbatim>\<open>FileWorker::run\<close>: an operation on the worker thread. An operation that has not finished when the
  wait returns stays pending, and its effect on the file is not observed through this writer.
\<close>

definition worker_run ::
    "'w host \<Rightarrow> 'w worker_env \<Rightarrow> ('f \<Rightarrow> 'w \<Rightarrow> 'w \<times> 'f \<times> (file_error, unit) result) \<Rightarrow> nat \<Rightarrow>
     io_options \<Rightarrow> 'f file_writer \<Rightarrow> 'w \<Rightarrow> 'w \<times> 'f file_writer \<times> (file_error, unit) result" where
  "worker_run h env operation payload_bytes opts wr w =
     (case acquire_slot env opts w of
        (w1, Inl e) \<Rightarrow> (w1, wr, Inl e)
      | (w1, Inr _) \<Rightarrow>
          (if writer_pending wr \<or> payload_bytes > isolated_payload_bytes
           then (w1, wr, invalid_state)
           else
             (case operation_finished env w1 of
                (w2, finished) \<Rightarrow>
                  (case (if finished
                         then (case operation (writer_file wr) w2 of
                                 (w3, f, r) \<Rightarrow> (w3, wr\<lparr>writer_file := f\<rparr>, r))
                         else (w2, wr\<lparr>writer_pending := True\<rparr>, worker_unavailable 0)) of
                     (w3, wr1, r) \<Rightarrow>
                       (case file_interruption h opts w3 of
                          (w4, Some e) \<Rightarrow> (w4, wr1, Inl e)
                        | (w4, None) \<Rightarrow> (w4, wr1, r))))))"

function write_chunks ::
    "'w host \<Rightarrow> 'w worker_env \<Rightarrow> ('w, 'f) file_ops \<Rightarrow> io_options \<Rightarrow> string \<Rightarrow> 'f file_writer \<Rightarrow> 'w \<Rightarrow>
     'w \<times> 'f file_writer \<times> (file_error, unit) result" where
  "write_chunks h env ops opts bytes wr w =
     (if bytes = [] then (w, wr, Inr ())
      else
        (let count = min (length bytes) isolated_payload_bytes in
         case worker_run h env (\<lambda>f. file_write ops f (take count bytes) opts) count opts wr w of
           (w1, wr1, Inl e) \<Rightarrow> (w1, wr1, Inl e)
         | (w1, wr1, Inr _) \<Rightarrow> write_chunks h env ops opts (drop count bytes) wr1 w1))"
  by pat_completeness auto
termination
  by (relation "measure (\<lambda>(h, env, ops, opts, bytes, wr, w). length bytes)")
    (auto simp: isolated_payload_bytes_def)

declare write_chunks.simps [simp del]

definition writer_write ::
    "'w host \<Rightarrow> 'w worker_env \<Rightarrow> ('w, 'f) file_ops \<Rightarrow> io_options \<Rightarrow> string \<Rightarrow> 'f file_writer \<Rightarrow> 'w \<Rightarrow>
     'w \<times> 'f file_writer \<times> (file_error, unit) result" where
  "writer_write h env ops opts bytes wr w =
     (if writer_completed wr then (w, wr, invalid_state)
      else
        (case ensure_worker env opts wr w of
           (w1, wr1, Inl e) \<Rightarrow> (w1, wr1, Inl e)
         | (w1, wr1, Inr _) \<Rightarrow>
             (if \<not> writer_worker wr1 then
                (case file_write ops (writer_file wr1) bytes opts w1 of
                   (w2, f, r) \<Rightarrow> (w2, wr1\<lparr>writer_file := f\<rparr>, r))
              else if bytes = [] then
                worker_run h env (\<lambda>f. file_write ops f [] opts) 0 opts wr1 w1
              else write_chunks h env ops opts bytes wr1 w1)))"

definition writer_complete ::
    "'w host \<Rightarrow> 'w worker_env \<Rightarrow> ('w, 'f) file_ops \<Rightarrow> io_options \<Rightarrow> 'f file_writer \<Rightarrow> 'w \<Rightarrow>
     'w \<times> 'f file_writer \<times> (file_error, unit) result" where
  "writer_complete h env ops opts wr w =
     (if writer_completed wr then (w, wr, invalid_state)
      else
        (case ensure_worker env opts wr w of
           (w1, wr1, Inl e) \<Rightarrow> (w1, wr1, Inl e)
         | (w1, wr1, Inr _) \<Rightarrow>
             (case (if writer_worker wr1
                    then worker_run h env (\<lambda>f. file_complete ops f opts) 0 opts wr1 w1
                    else (case file_complete ops (writer_file wr1) opts w1 of
                            (w2, f, r) \<Rightarrow> (w2, wr1\<lparr>writer_file := f\<rparr>, r))) of
                (w2, wr2, Inl e) \<Rightarrow> (w2, wr2, Inl e)
              | (w2, wr2, Inr _) \<Rightarrow>
                  (w2, wr2\<lparr>writer_worker := False, writer_completed := True\<rparr>, Inr ()))))"

definition writer_artifact :: "'f file_writer \<Rightarrow> 'f option" where
  "writer_artifact wr = (if writer_completed wr then Some (writer_file wr) else None)"

section \<open>What the writer guarantees\<close>

text \<open>
  What the writer relies on: \<open>contents f\<close> is what the file holds; a created file is empty, a write
  that reports success has appended its bytes, a successful completion keeps the contents. Failed
  operations are not constrained.
\<close>

definition file_appends :: "('f \<Rightarrow> string) \<Rightarrow> ('w, 'f) file_ops \<Rightarrow> bool" where
  "file_appends contents ops \<longleftrightarrow>
     (\<forall>w w' f. file_create ops w = (w', Inr f) \<longrightarrow> contents f = []) \<and>
     (\<forall>f bytes opts w w' f'. file_write ops f bytes opts w = (w', f', Inr ()) \<longrightarrow>
        contents f' = contents f @ bytes) \<and>
     (\<forall>f opts w w' f'. file_complete ops f opts w = (w', f', Inr ()) \<longrightarrow> contents f' = contents f)"

lemma file_appendsD:
  assumes "file_appends contents ops"
  shows "file_create ops w = (w', Inr f) \<Longrightarrow> contents f = []"
    "file_write ops f0 bytes opts w = (w', f, Inr u) \<Longrightarrow> contents f = contents f0 @ bytes"
    "file_complete ops f0 opts w = (w', f, Inr u) \<Longrightarrow> contents f = contents f0"
  using assms by (auto simp: file_appends_def)

lemma worker_run_Inr:
  assumes "worker_run h env operation n opts wr w = (w', wr', Inr u)"
  obtains w1 w2 f where "operation (writer_file wr) w1 = (w2, f, Inr u)" "wr' = wr\<lparr>writer_file := f\<rparr>"
  using assms
  by (fastforce simp: worker_run_def worker_unavailable_def
      split: prod.splits sum.splits if_splits option.splits)

lemma write_chunks_appends:
  assumes "file_appends contents ops" "write_chunks h env ops opts bytes wr w = (w', wr', Inr u)"
  shows "contents (writer_file wr') = contents (writer_file wr) @ bytes \<and>
    writer_completed wr' = writer_completed wr"
  using assms(2)
proof (induction "length bytes" arbitrary: bytes wr w rule: less_induct)
  case less
  show ?case
  proof (cases "bytes = []")
    case True
    with less.prems show ?thesis by (subst (asm) write_chunks.simps) simp
  next
    case False
    define k where "k = min (length bytes) isolated_payload_bytes"
    have k: "0 < k" using False by (simp add: k_def isolated_payload_bytes_def)
    obtain w1 wr1 r where r: "worker_run h env (\<lambda>f. file_write ops f (take k bytes) opts) k opts wr w =
      (w1, wr1, r)" by (metis prod_cases3)
    with less.prems False obtain v where v: "r = Inr v"
      and rest: "write_chunks h env ops opts (drop k bytes) wr1 w1 = (w', wr', Inr u)"
      by (subst (asm) write_chunks.simps) (auto simp: k_def Let_def split: sum.splits)
    from r v obtain f where "wr1 = wr\<lparr>writer_file := f\<rparr>"
      "contents f = contents (writer_file wr) @ take k bytes"
      by (auto elim!: worker_run_Inr dest: file_appendsD(2) [OF assms(1)])
    moreover have "length (drop k bytes) < length bytes" using k False by simp
    ultimately show ?thesis using less.hyps rest by fastforce
  qed
qed

lemma ensure_worker_Inr:
  "ensure_worker env opts wr w = (w', wr', Inr u) \<Longrightarrow>
     writer_file wr' = writer_file wr \<and> writer_completed wr' = writer_completed wr"
  by (auto simp: ensure_worker_def worker_unavailable_def split: if_splits prod.splits option.splits)

lemma writer_write_appends:
  assumes "file_appends contents ops" "writer_write h env ops opts bytes wr w = (w', wr', Inr u)"
  shows "contents (writer_file wr') = contents (writer_file wr) @ bytes \<and>
    \<not> writer_completed wr \<and> \<not> writer_completed wr'"
proof -
  obtain w1 wr1 r where r: "ensure_worker env opts wr w = (w1, wr1, r)" by (metis prod_cases3)
  from assms(2) r obtain v where c: "\<not> writer_completed wr" "r = Inr v"
    by (cases r) (auto simp: writer_write_def split: if_splits)
  with r ensure_worker_Inr [of env opts wr w w1 wr1 v] have
    same: "writer_file wr1 = writer_file wr" "\<not> writer_completed wr1" by auto
  consider "\<not> writer_worker wr1" | "writer_worker wr1" "bytes = []" | "writer_worker wr1" "bytes \<noteq> []"
    by blast
  then show ?thesis
  proof cases
    case 1
    with assms(2) r c same show ?thesis
      by (auto simp: writer_write_def dest: file_appendsD(2) [OF assms(1)] split: prod.splits)
  next
    case 2
    with assms(2) r c have "worker_run h env (\<lambda>f. file_write ops f [] opts) 0 opts wr1 w1 =
      (w', wr', Inr u)" by (simp add: writer_write_def)
    then show ?thesis using 2 c same
      by (auto elim!: worker_run_Inr dest!: file_appendsD(2) [OF assms(1)])
  next
    case 3
    with assms(2) r c have "write_chunks h env ops opts bytes wr1 w1 = (w', wr', Inr u)"
      by (simp add: writer_write_def)
    from write_chunks_appends [OF assms(1) this] same c show ?thesis by simp
  qed
qed

lemma writer_complete_keeps:
  assumes "file_appends contents ops" "writer_complete h env ops opts wr w = (w', wr', Inr u)"
  shows "writer_completed wr' \<and> contents (writer_file wr') = contents (writer_file wr)"
proof -
  obtain w1 wr1 r where r: "ensure_worker env opts wr w = (w1, wr1, r)" by (metis prod_cases3)
  from assms(2) r obtain v where c: "r = Inr v"
    by (cases r) (auto simp: writer_complete_def split: if_splits)
  with r ensure_worker_Inr [of env opts wr w w1 wr1 v]
  have same: "writer_file wr1 = writer_file wr" by simp
  show ?thesis
  proof (cases "writer_worker wr1")
    case True
    obtain w2 wr2 q where q: "worker_run h env (\<lambda>f. file_complete ops f opts) 0 opts wr1 w1 =
      (w2, wr2, q)" by (metis prod_cases3)
    with assms(2) r c True obtain v' where v': "q = Inr v'"
      "wr' = wr2\<lparr>writer_worker := False, writer_completed := True\<rparr>"
      by (cases q) (auto simp: writer_complete_def split: if_splits)
    with q same show ?thesis
      by (auto elim!: worker_run_Inr dest!: file_appendsD(3) [OF assms(1)])
  next
    case False
    with assms(2) r c same show ?thesis
      by (auto simp: writer_complete_def dest: file_appendsD(3) [OF assms(1)]
          split: if_splits prod.splits sum.splits)
  qed
qed

lemma writer_create_empty:
  assumes "file_appends contents ops" "writer_create ops w = (w', Inr wr)"
  shows "contents (writer_file wr) = [] \<and> \<not> writer_completed wr"
  using assms(2)
  by (auto simp: writer_create_def dest: file_appendsD(1) [OF assms(1)] split: prod.splits sum.splits)

section \<open>Bounded workers\<close>

definition slots_ok :: "worker_slots \<Rightarrow> bool" where
  "slots_ok s \<longleftrightarrow>
     slots_active s = length (filter (\<lambda>t. \<not> ticket_released t) (slots_tickets s)) \<and>
     slots_orphaned s =
       length (filter (\<lambda>t. \<not> ticket_released t \<and> ticket_orphaned t) (slots_tickets s)) \<and>
     slots_active s \<le> maximum_workers"

lemma length_filter_update:
  assumes "i < length ts"
  shows "length (filter p (ts[i := t])) + (if p (ts ! i) then 1 else 0) =
    length (filter p ts) + (if p t then 1 else 0)"
  using assms
proof (induction ts arbitrary: i)
  case (Cons x ts)
  then show ?case by (cases i) auto
qed simp

lemma slots_orphaned_le: "slots_ok s \<Longrightarrow> slots_orphaned s \<le> slots_active s"
proof -
  assume "slots_ok s"
  moreover have "length (filter (\<lambda>t. \<not> ticket_released t \<and> ticket_orphaned t) ts) \<le>
    length (filter (\<lambda>t. \<not> ticket_released t) ts)" for ts by (induction ts) auto
  ultimately show ?thesis by (simp add: slots_ok_def)
qed

lemma slots_acquire_ok:
  assumes "slots_ok s" "stopped \<noteq> None \<or> slots_available s"
  shows "slots_ok (fst (slots_acquire stopped s))"
  using assms slots_orphaned_le [OF assms(1)]
  by (cases stopped) (auto simp: slots_acquire_def slots_available_def slots_ok_def)

lemma slots_orphan_ok:
  assumes "slots_ok s" "i < length (slots_tickets s)" shows "slots_ok (slots_orphan i s)"
proof -
  let ?t = "(slots_tickets s ! i)\<lparr>ticket_orphaned := True\<rparr>"
  from length_filter_update [OF assms(2), of "\<lambda>t. \<not> ticket_released t" ?t]
    length_filter_update [OF assms(2), of "\<lambda>t. \<not> ticket_released t \<and> ticket_orphaned t" ?t] assms(1)
  show ?thesis by (auto simp: slots_orphan_def slots_ok_def Let_def)
qed

lemma slots_release_ok:
  assumes "slots_ok s" "i < length (slots_tickets s)" shows "slots_ok (slots_release i s)"
proof -
  let ?t = "(slots_tickets s ! i)\<lparr>ticket_released := True\<rparr>"
  from length_filter_update [OF assms(2), of "\<lambda>t. \<not> ticket_released t" ?t]
    length_filter_update [OF assms(2), of "\<lambda>t. \<not> ticket_released t \<and> ticket_orphaned t" ?t] assms(1)
  show ?thesis by (auto simp: slots_release_def slots_ok_def Let_def split: if_splits)
qed

lemma slots_step_ok: "slots_step s s' \<Longrightarrow> slots_ok s \<Longrightarrow> slots_ok s'"
  by (auto elim!: slots_stepE intro: slots_acquire_ok slots_orphan_ok slots_release_ok)

text \<open>
  Bounded file workers: over any interleaving of acquiring, orphaning and releasing, the active
  count is exactly the number of unreleased tickets and never exceeds 32, the orphaned count is the
  number of unreleased tickets whose caller gave up, and no counter wraps.
\<close>

lemma worker_slots_bounded:
  assumes "slots_step\<^sup>*\<^sup>* no_slots s"
  shows "slots_active s = length (filter (\<lambda>t. \<not> ticket_released t) (slots_tickets s)) \<and>
    slots_active s \<le> 32 \<and> slots_orphaned s \<le> slots_active s \<and>
    slots_orphaned s =
      length (filter (\<lambda>t. \<not> ticket_released t \<and> ticket_orphaned t) (slots_tickets s))"
proof -
  have "slots_ok no_slots" by (simp add: slots_ok_def no_slots_def)
  with assms have "slots_ok s" by (induction rule: rtranclp_induct) (auto intro: slots_step_ok)
  then show ?thesis
    using slots_orphaned_le [of s] by (simp add: slots_ok_def maximum_workers_def)
qed

end
