(* ===== verification/Body_Ingestor.thy ===== *)
theory Body_Ingestor
  imports Body_Decoder Temporary_Storage
begin

text \<open>
  Streaming of decoded request bodies into memory or a temporary file,
  \<^verbatim>\<open>src/http/transport/request_body_ingestor.cpp\<close>. The decoder is that of \<^verbatim>\<open>Body_Decoder\<close>, the writer that of
  \<^verbatim>\<open>Temporary_Storage\<close>. Value-initialised members of an error are \<^term>\<open>None\<close>. Secure erasure, memory
  reservation and allocation failures are not modelled.
\<close>

section \<open>State\<close>

datatype storage_mode = Temporary_file_mode | Memory_mode

record storage_policy =
  policy_storage_mode :: storage_mode
  policy_max_body_bytes :: nat

datatype ingestion_error_code =
    Framing_failure | Ingested_body_too_large | Temporary_file_failure | Ingestion_cancelled
  | Ingestion_deadline_exceeded | Ingestion_resource_failure

record ingestion_error =
  ingestion_code :: ingestion_error_code
  framing_error :: "parse_error option"
  storage_error :: "file_error option"

record ('w, 'f) storage =
  storage_host :: "'w host"
  storage_env :: "'w worker_env"
  storage_files :: "('w, 'f) file_ops"

record 'f ingestor =
  ing_decoder :: body_decoder
  ing_mode :: storage_mode
  ing_memory :: string
  ing_artifact :: "'f option"
  ing_writer :: "'f file_writer option"
  ing_body_size :: nat
  ing_finalized :: bool
  ing_failure :: "ingestion_error option"

type_synonym ('w, 'f, 'a) ingestion = "'w \<times> 'f ingestor \<times> (ingestion_error, 'a) result"

section \<open>Operations\<close>

definition make_ingestor :: "request_head \<Rightarrow> request_limits \<Rightarrow> storage_mode \<Rightarrow> 'f ingestor" where
  "make_ingestor head limits mode =
     (let d = make_body_decoder head limits in
      \<lparr>ing_decoder = d, ing_mode = mode, ing_memory = [], ing_artifact = None, ing_writer = None,
       ing_body_size = 0, ing_finalized = body_complete d, ing_failure = None\<rparr>)"

definition ingestion_interruption ::
    "'w host \<Rightarrow> io_options \<Rightarrow> 'w \<Rightarrow> 'w \<times> ingestion_error option" where
  "ingestion_interruption h opts w =
     (case interruption_of h opts w of
        (w1, Interruption_cancelled) \<Rightarrow>
          (w1, Some \<lparr>ingestion_code = Ingestion_cancelled, framing_error = None, storage_error = None\<rparr>)
      | (w1, Interruption_deadline) \<Rightarrow>
          (w1, Some \<lparr>ingestion_code = Ingestion_deadline_exceeded, framing_error = None,
                     storage_error = None\<rparr>)
      | (w1, Not_interrupted) \<Rightarrow> (w1, None))"

definition framing_failure :: "parse_error \<Rightarrow> ingestion_error" where
  "framing_failure e =
     \<lparr>ingestion_code = (if error_code e = Body_too_large then Ingested_body_too_large
                        else Framing_failure),
      framing_error = Some e, storage_error = None\<rparr>"

definition file_failure :: "file_error \<Rightarrow> ingestion_error" where
  "file_failure e =
     \<lparr>ingestion_code =
        (case file_code e of
           File_cancelled \<Rightarrow> Ingestion_cancelled
         | File_deadline_exceeded \<Rightarrow> Ingestion_deadline_exceeded
         | Resource_allocation_failed \<Rightarrow> Ingestion_resource_failure
         | _ \<Rightarrow> Temporary_file_failure),
      framing_error = None, storage_error = Some e\<rparr>"

definition resource_failure :: ingestion_error where
  "resource_failure = \<lparr>ingestion_code = Ingestion_resource_failure, framing_error = None,
                       storage_error = None\<rparr>"

text \<open>\<^verbatim>\<open>fail\<close>: the partial storage is released and the failure is kept.\<close>

definition ingest_fail :: "ingestion_error \<Rightarrow> 'f ingestor \<Rightarrow> 'f ingestor" where
  "ingest_fail e i = i\<lparr>ing_writer := None, ing_artifact := None, ing_failure := Some e\<rparr>"

abbreviation failed :: "ingestion_error \<Rightarrow> 'f ingestor \<Rightarrow> 'w \<Rightarrow> ('w, 'f, 'a) ingestion" where
  "failed e i w \<equiv> (w, ingest_fail e i, Inl e)"

definition ensure_artifact :: "('w, 'f) storage \<Rightarrow> 'f ingestor \<Rightarrow> 'w \<Rightarrow> ('w, 'f, unit) ingestion" where
  "ensure_artifact st i w =
     (if ing_writer i \<noteq> None then (w, i, Inr ())
      else (case writer_create (storage_files st) w of
              (w1, Inl e) \<Rightarrow> failed (file_failure e) i w1
            | (w1, Inr wr) \<Rightarrow> (w1, i\<lparr>ing_writer := Some wr\<rparr>, Inr ())))"

definition ingest_finalize ::
    "('w, 'f) storage \<Rightarrow> io_options \<Rightarrow> 'f ingestor \<Rightarrow> 'w \<Rightarrow> ('w, 'f, unit) ingestion" where
  "ingest_finalize st opts i w =
     (if ing_finalized i then (w, i, Inr ())
      else
        (case ing_writer i of
           None \<Rightarrow> (w, i\<lparr>ing_finalized := True\<rparr>, Inr ())
         | Some wr \<Rightarrow>
             (case writer_complete (storage_host st) (storage_env st) (storage_files st) opts wr w of
                (w1, wr1, Inl e) \<Rightarrow> failed (file_failure e) i w1
              | (w1, wr1, Inr _) \<Rightarrow>
                  (case writer_artifact wr1 of
                     None \<Rightarrow> failed resource_failure i w1
                   | Some f \<Rightarrow>
                       (w1, i\<lparr>ing_artifact := Some f, ing_writer := None, ing_finalized := True\<rparr>,
                        Inr ())))))"

definition ingest_persist ::
    "('w, 'f) storage \<Rightarrow> io_options \<Rightarrow> string \<Rightarrow> 'f ingestor \<Rightarrow> 'w \<Rightarrow> ('w, 'f, unit) ingestion" where
  "ingest_persist st opts output i w =
     (case ingestion_interruption (storage_host st) opts w of
        (w1, Some e) \<Rightarrow> failed e i w1
      | (w1, None) \<Rightarrow>
          (if ing_mode i = Memory_mode then
             (w1, i\<lparr>ing_memory := ing_memory i @ output,
                    ing_body_size := ing_body_size i + length output\<rparr>, Inr ())
           else
             (case ensure_artifact st i w1 of
                (w2, i2, Inl e) \<Rightarrow> (w2, i2, Inl e)
              | (w2, i2, Inr _) \<Rightarrow>
                  (case writer_write (storage_host st) (storage_env st) (storage_files st) opts output
                          (the (ing_writer i2)) w2 of
                     (w3, wr, Inl e) \<Rightarrow> failed (file_failure e) i2 w3
                   | (w3, wr, Inr _) \<Rightarrow>
                       (w3, i2\<lparr>ing_writer := Some wr,
                               ing_body_size := ing_body_size i2 + length output\<rparr>, Inr ())))))"

lemma feed_loop_produced:
  "feed_loop d input space p = (d', Inr p') \<Longrightarrow>
     length (progress_produced p') + progress_consumed p \<le>
       length (progress_produced p) + progress_consumed p'"
proof (induction d input space p rule: feed_loop.induct)
  case (1 d input space p)
  show ?case
  proof (cases "input \<noteq> [] \<and> dec_phase d \<noteq> Done \<and> \<not> size_max \<le> dec_offset d \<and>
      (dec_phase d = Data \<longrightarrow> space \<noteq> 0)")
    case False
    with "1.prems" show ?thesis by (subst (asm) feed_loop.simps) (auto split: if_splits)
  next
    case True
    show ?thesis
    proof (cases "dec_phase d = Data")
      case data: True
      let ?k = "copy_count d (length input) space"
      have "length (take ?k input) \<le> ?k" by simp
      with "1.prems" True data "1.IH"(1) [OF _ _ data _ refl] show ?thesis
        by (fastforce simp: feed_loop_unfold Let_def)
    next
      case False
      obtain d1 r where r: "body_metadata d (hd input) = (d1, r)" by force
      with False "1.prems" True obtain u where u: "r = Inr u"
        by (cases r) (auto simp: feed_loop_unfold)
      from "1.IH"(2) [OF _ _ False r [symmetric] u] True r u False "1.prems" show ?thesis
        by (auto simp: feed_loop_unfold)
    qed
  qed
qed

lemma feed_produced:
  "feed d input space = (d', Inr p) \<Longrightarrow> length (progress_produced p) \<le> progress_consumed p"
  by (auto simp: feed_def split: option.splits prod.splits sum.splits dest!: feed_loop_produced)

lemma feed_done:
  "body_complete d \<Longrightarrow> feed d input space =
     (d, Inr \<lparr>progress_consumed = 0, progress_produced = [], progress_complete = True\<rparr>)"
  by (simp add: body_complete_def feed_def feed_loop.simps [of d input])

text \<open>
  The loop of \<^verbatim>\<open>feed\<close>; \<open>consumed\<close> and \<open>produced\<close> are the members of \<^verbatim>\<open>total\<close> and \<open>input\<close> is what is left.
\<close>

function ingest_loop ::
    "('w, 'f) storage \<Rightarrow> io_options \<Rightarrow> string \<Rightarrow> nat \<Rightarrow> nat \<Rightarrow> 'f ingestor \<Rightarrow> 'w \<Rightarrow>
     ('w, 'f, nat \<times> nat \<times> bool) ingestion" where
  "ingest_loop st opts input consumed produced i w =
     (case feed (ing_decoder i) input body_decode_buffer_bytes of
        (d, Inl e) \<Rightarrow> failed (framing_failure e) (i\<lparr>ing_decoder := d\<rparr>) w
      | (d, Inr p) \<Rightarrow>
          (case (if progress_produced p \<noteq> []
                 then ingest_persist st opts (progress_produced p) (i\<lparr>ing_decoder := d\<rparr>) w
                 else (w, i\<lparr>ing_decoder := d\<rparr>, Inr ())) of
             (w1, i1, Inl e) \<Rightarrow> (w1, i1, Inl e)
           | (w1, i1, Inr _) \<Rightarrow>
               (let total = (consumed + progress_consumed p, produced + length (progress_produced p),
                             progress_complete p) in
                if progress_complete p then
                  (case ingest_finalize st opts i1 w1 of
                     (w2, i2, Inl e) \<Rightarrow> (w2, i2, Inl e)
                   | (w2, i2, Inr _) \<Rightarrow> (w2, i2, Inr total))
                else if progress_consumed p = 0 \<and> progress_produced p = [] then (w1, i1, Inr total)
                else if drop (progress_consumed p) input \<noteq> [] then
                  ingest_loop st opts (drop (progress_consumed p) input)
                    (consumed + progress_consumed p) (produced + length (progress_produced p)) i1 w1
                else (w1, i1, Inr total))))"
  by pat_completeness auto
termination
proof (relation "measure (\<lambda>(st, opts, input, n, m, i, w). length input)", goal_cases)
  case 1
  then show ?case by simp
next
  case (2 st opts input consumed produced i w d r p)
  then show ?case using feed_produced [of "ing_decoder i" input body_decode_buffer_bytes d p]
    by (cases "progress_consumed p") auto
qed

declare ingest_loop.simps [simp del]

definition ingest_feed ::
    "('w, 'f) storage \<Rightarrow> io_options \<Rightarrow> string \<Rightarrow> 'f ingestor \<Rightarrow> 'w \<Rightarrow>
     ('w, 'f, nat \<times> nat \<times> bool) ingestion" where
  "ingest_feed st opts input i w =
     (case ing_failure i of
        Some e \<Rightarrow> (w, i, Inl e)
      | None \<Rightarrow>
          (case ingestion_interruption (storage_host st) opts w of
             (w1, Some e) \<Rightarrow> failed e i w1
           | (w1, None) \<Rightarrow> ingest_loop st opts input 0 0 i w1))"

definition ingest_finish ::
    "('w, 'f) storage \<Rightarrow> io_options \<Rightarrow> 'f ingestor \<Rightarrow> 'w \<Rightarrow> ('w, 'f, unit) ingestion" where
  "ingest_finish st opts i w =
     (case ing_failure i of
        Some e \<Rightarrow> (w, i, Inl e)
      | None \<Rightarrow>
          (case ingestion_interruption (storage_host st) opts w of
             (w1, Some e) \<Rightarrow> failed e i w1
           | (w1, None) \<Rightarrow>
               (case body_finish (ing_decoder i) of
                  (d, Inl e) \<Rightarrow> failed (framing_failure e) (i\<lparr>ing_decoder := d\<rparr>) w1
                | (d, Inr _) \<Rightarrow> ingest_finalize st opts (i\<lparr>ing_decoder := d\<rparr>) w1)))"

definition ingest_complete :: "'f ingestor \<Rightarrow> bool" where
  "ingest_complete i \<longleftrightarrow> body_complete (ing_decoder i) \<and> ing_finalized i \<and> ing_failure i = None"

definition ingest_artifact :: "'f ingestor \<Rightarrow> 'f option" where
  "ingest_artifact i = (if ingest_complete i then ing_artifact i else None)"

definition ingest_memory_body :: "'f ingestor \<Rightarrow> string option" where
  "ingest_memory_body i =
     (if ingest_complete i \<and> ing_mode i = Memory_mode then Some (ing_memory i) else None)"

section \<open>What is stored\<close>

definition ingest_stored :: "('f \<Rightarrow> string) \<Rightarrow> 'f ingestor \<Rightarrow> string" where
  "ingest_stored contents i =
     (if ing_mode i = Memory_mode then ing_memory i
      else (case ing_writer i of
              Some wr \<Rightarrow> contents (writer_file wr)
            | None \<Rightarrow> (case ing_artifact i of Some f \<Rightarrow> contents f | None \<Rightarrow> [])))"

text \<open>The storage side of an ingestor that has not failed and has stored \<open>payload\<close>.\<close>

definition storage_ok :: "('f \<Rightarrow> string) \<Rightarrow> 'f ingestor \<Rightarrow> string \<Rightarrow> bool" where
  "storage_ok contents i payload \<longleftrightarrow>
     ing_failure i = None \<and> ingest_stored contents i = payload \<and>
     ing_body_size i = length payload \<and>
     (ing_mode i = Memory_mode \<longrightarrow> ing_writer i = None \<and> ing_artifact i = None) \<and>
     (\<not> ing_finalized i \<longrightarrow> ing_artifact i = None) \<and>
     (ing_finalized i \<longrightarrow> ing_writer i = None)"

lemma storage_ok_decoder [simp]: "storage_ok contents (i\<lparr>ing_decoder := d\<rparr>) p = storage_ok contents i p"
  by (simp add: storage_ok_def ingest_stored_def split: option.splits)

lemma ensure_artifact_ok:
  assumes "file_appends contents (storage_files st)" "storage_ok contents i payload"
    "ing_mode i \<noteq> Memory_mode" "\<not> ing_finalized i" "ensure_artifact st i w = (w', i', Inr u)"
  shows "storage_ok contents i' payload \<and> ing_writer i' \<noteq> None \<and> ing_mode i' = ing_mode i \<and>
    ing_finalized i' = ing_finalized i \<and> ing_decoder i' = ing_decoder i"
  using assms(2-5) writer_create_empty [OF assms(1)]
  by (fastforce simp: ensure_artifact_def storage_ok_def ingest_stored_def
      split: if_splits prod.splits sum.splits)

lemma ingest_persist_ok:
  assumes files: "file_appends contents (storage_files st)" and ok: "storage_ok contents i payload"
    and opened: "\<not> ing_finalized i" and run: "ingest_persist st opts output i w = (w', i', Inr u)"
  shows "storage_ok contents i' (payload @ output) \<and> ing_mode i' = ing_mode i \<and>
    \<not> ing_finalized i' \<and> ing_decoder i' = ing_decoder i"
proof -
  obtain w1 e where e: "ingestion_interruption (storage_host st) opts w = (w1, e)" by force
  with run have none: "e = None" by (auto simp: ingest_persist_def split: option.splits)
  show ?thesis
  proof (cases "ing_mode i = Memory_mode")
    case True
    with run e none ok opened show ?thesis
      by (auto simp: ingest_persist_def storage_ok_def ingest_stored_def)
  next
    case False
    obtain w2 i2 q where q: "ensure_artifact st i w1 = (w2, i2, q)" by (metis prod_cases3)
    with run e none False obtain v where v: "q = Inr v"
      by (cases q) (auto simp: ingest_persist_def)
    note i2 = ensure_artifact_ok [OF files ok False opened q [unfolded v]]
    then obtain wr where wr: "ing_writer i2 = Some wr" by blast
    obtain w3 wr3 r where r: "writer_write (storage_host st) (storage_env st) (storage_files st) opts
      output wr w2 = (w3, wr3, r)" by (metis prod_cases3)
    with run e none False q v wr obtain v' where v': "r = Inr v'"
      and i': "i' = i2\<lparr>ing_writer := Some wr3, ing_body_size := ing_body_size i2 + length output\<rparr>"
      by (cases r) (auto simp: ingest_persist_def)
    from writer_write_appends [OF files r [unfolded v']] i2 wr False opened show ?thesis
      by (auto simp: i' storage_ok_def ingest_stored_def)
  qed
qed

lemma ingest_finalize_ok:
  assumes files: "file_appends contents (storage_files st)" and ok: "storage_ok contents i payload"
    and run: "ingest_finalize st opts i w = (w', i', Inr u)"
  shows "storage_ok contents i' payload \<and> ing_mode i' = ing_mode i \<and> ing_finalized i' \<and>
    ing_decoder i' = ing_decoder i"
proof (cases "ing_finalized i \<or> ing_writer i = None")
  case True
  with run ok show ?thesis
    by (auto simp: ingest_finalize_def storage_ok_def ingest_stored_def split: if_splits)
next
  case False
  then obtain wr where wr: "ing_writer i = Some wr" by blast
  obtain w1 wr1 r where r: "writer_complete (storage_host st) (storage_env st) (storage_files st) opts
      wr w = (w1, wr1, r)" by (metis prod_cases3)
  with run False wr obtain v where v: "r = Inr v"
    by (cases r) (auto simp: ingest_finalize_def)
  from writer_complete_keeps [OF files r [unfolded v]] run False wr r v ok show ?thesis
    by (auto simp: ingest_finalize_def writer_artifact_def storage_ok_def ingest_stored_def)
qed

text \<open>An ingestor in good order: the decoder and the storage agree about completion.\<close>

definition ingestor_ok :: "('f \<Rightarrow> string) \<Rightarrow> 'f ingestor \<Rightarrow> string \<Rightarrow> bool" where
  "ingestor_ok contents i payload \<longleftrightarrow>
     storage_ok contents i payload \<and> decoder_ok (ing_decoder i) \<and>
     dec_failure (ing_decoder i) = None \<and> ing_finalized i = body_complete (ing_decoder i)"

text \<open>One pass of the loop that does not fail.\<close>

lemma ingest_step_ok:
  assumes files: "file_appends contents (storage_files st)" and ok: "ingestor_ok contents i payload"
    and p: "feed (ing_decoder i) input body_decode_buffer_bytes = (d, Inr p)"
    and run: "(if progress_produced p \<noteq> []
               then ingest_persist st opts (progress_produced p) (i\<lparr>ing_decoder := d\<rparr>) w
               else (w, i\<lparr>ing_decoder := d\<rparr>, Inr ())) = (w1, i1, Inr u)"
  shows "storage_ok contents i1 (payload @ progress_produced p)" "ing_mode i1 = ing_mode i"
    "ing_finalized i1 = ing_finalized i" "ing_decoder i1 = d" "decoder_ok d" "dec_failure d = None"
    "progress_complete p = body_complete d"
    "body_run (ing_decoder i) input =
       extend_run (progress_consumed p) (progress_produced p)
         (body_run d (drop (progress_consumed p) input))"
proof -
  let ?k = "progress_consumed p" and ?out = "progress_produced p"
  have dec: "decoder_ok (ing_decoder i)" "dec_failure (ing_decoder i) = None"
    and fin: "ing_finalized i = body_complete (ing_decoder i)"
    and st: "storage_ok contents i payload" using ok by (auto simp: ingestor_ok_def)
  from feed_refines [OF dec, of input body_decode_buffer_bytes] p
  have stop: "feed_stop (ing_decoder i) input body_decode_buffer_bytes d ?k ?out"
    "progress_complete p = body_complete d" by auto
  then have take: "body_run (ing_decoder i) (take ?k input) = (d, Inr (?k, ?out))"
    by (simp add: feed_stop_def)
  from body_run_ok [OF take dec] show d: "decoder_ok d" "dec_failure d = None" by auto
  show "progress_complete p = body_complete d" by (rule stop(2))
  show "body_run (ing_decoder i) input = extend_run ?k ?out (body_run d (drop ?k input))"
    using body_run_append [of "ing_decoder i" "take ?k input" "drop ?k input"] take by simp
  have "?out \<noteq> [] \<Longrightarrow> \<not> body_complete (ing_decoder i)" using take by (auto simp: body_complete_def)
  then have "?out \<noteq> [] \<Longrightarrow> \<not> ing_finalized (i\<lparr>ing_decoder := d\<rparr>)" using fin by simp
  then show "storage_ok contents i1 (payload @ ?out)" "ing_mode i1 = ing_mode i"
    "ing_finalized i1 = ing_finalized i" "ing_decoder i1 = d"
    using run st ingest_persist_ok [OF files, of "i\<lparr>ing_decoder := d\<rparr>" payload opts ?out w w1 i1 u]
    by (auto split: if_splits)
qed

lemma ingest_loop_ok:
  assumes files: "file_appends contents (storage_files st)" and "ingestor_ok contents i payload"
    and "ingest_loop st opts input n m i w = (w', i', Inr (n', m', complete))"
  shows "\<exists>d k out. body_run (ing_decoder i) input = (d, Inr (k, out)) \<and> ing_decoder i' = d \<and>
    ingestor_ok contents i' (payload @ out) \<and> ing_mode i' = ing_mode i \<and>
    n' = n + k \<and> m' = m + length out \<and> complete = body_complete d"
  using assms(2,3)
proof (induction "length input" arbitrary: input n m i payload w rule: less_induct)
  case less
  obtain d q where q: "feed (ing_decoder i) input body_decode_buffer_bytes = (d, q)" by force
  with less.prems(2) obtain p where p: "q = Inr p"
    by (cases q) (subst (asm) ingest_loop.simps, auto)
  let ?k = "progress_consumed p" and ?out = "progress_produced p"
  obtain w1 i1 r where r: "(if ?out \<noteq> []
               then ingest_persist st opts ?out (i\<lparr>ing_decoder := d\<rparr>) w
               else (w, i\<lparr>ing_decoder := d\<rparr>, Inr ())) = (w1, i1, r)" by (metis prod_cases3)
  with less.prems(2) q p obtain u where u: "r = Inr u"
    by (cases r) (subst (asm) ingest_loop.simps, auto split: if_splits)
  note step = ingest_step_ok [OF files less.prems(1) q [unfolded p] r [unfolded u]]
  have loop: "ingest_loop st opts input n m i w =
     (let total = (n + ?k, m + length ?out, progress_complete p) in
      if progress_complete p then
        (case ingest_finalize st opts i1 w1 of
           (w2, i2, Inl e) \<Rightarrow> (w2, i2, Inl e)
         | (w2, i2, Inr _) \<Rightarrow> (w2, i2, Inr total))
      else if ?k = 0 \<and> ?out = [] then (w1, i1, Inr total)
      else if drop ?k input \<noteq> [] then
        ingest_loop st opts (drop ?k input) (n + ?k) (m + length ?out) i1 w1
      else (w1, i1, Inr total))"
    using q p r u by (subst ingest_loop.simps) (simp only: prod.case sum.case)
  have fin1: "\<not> progress_complete p \<Longrightarrow> ingestor_ok contents i1 (payload @ ?out)"
  proof -
    assume np: "\<not> progress_complete p"
    have "\<not> body_complete (ing_decoder i)" using np q p by (auto simp: feed_done)
    with np step less.prems(1) show ?thesis by (auto simp: ingestor_ok_def)
  qed
  show ?case
  proof (cases "progress_complete p")
    case True
    obtain w2 i2 z where z: "ingest_finalize st opts i1 w1 = (w2, i2, z)" by (metis prod_cases3)
    with loop True less.prems(2) obtain v where v: "z = Inr v" by (cases z) (auto simp: Let_def)
    from ingest_finalize_ok [OF files step(1) z [unfolded v]] step loop True less.prems(2) z v
    show ?thesis
      by (auto simp: Let_def ingestor_ok_def body_complete_def)
  next
    case False
    show ?thesis
    proof (cases "drop ?k input = []")
      case True
      with loop False less.prems(2) step fin1 show ?thesis by (auto simp: Let_def split: if_splits)
    next
      case rest: False
      then have "input \<noteq> []" by auto
      have "\<not> body_complete (ing_decoder i)"
        using False q p by (auto simp: feed_done)
      with feed_progress [OF q [unfolded p] \<open>input \<noteq> []\<close>] False step(7) have k: "0 < ?k"
        by (auto simp: body_decode_buffer_bytes_def)
      with loop False rest less.prems(2)
      have "ingest_loop st opts (drop ?k input) (n + ?k) (m + length ?out) i1 w1 =
        (w', i', Inr (n', m', complete))" by (simp add: Let_def)
      from less.hyps [OF _ fin1 [OF False] this] k \<open>input \<noteq> []\<close> step show ?thesis
        by auto
    qed
  qed
qed

section \<open>Failures release the storage\<close>

definition ingest_released :: "'f ingestor \<Rightarrow> ingestion_error \<Rightarrow> bool" where
  "ingest_released i e \<longleftrightarrow> ing_failure i = Some e \<and> ing_writer i = None \<and> ing_artifact i = None"

lemma ingest_fail_released [simp]: "ingest_released (ingest_fail e i) e"
  by (simp add: ingest_released_def ingest_fail_def)

lemma ingest_persist_failed:
  "ingest_persist st opts output i w = (w', i', Inl e) \<Longrightarrow> ingest_released i' e"
  by (auto simp: ingest_persist_def ensure_artifact_def
      split: prod.splits option.splits sum.splits if_splits)

lemma ingest_finalize_failed:
  "ingest_finalize st opts i w = (w', i', Inl e) \<Longrightarrow> ingest_released i' e"
  by (auto simp: ingest_finalize_def split: prod.splits option.splits sum.splits if_splits)

lemma ingest_loop_failed:
  "ingest_loop st opts input n m i w = (w', i', Inl e) \<Longrightarrow> ingest_released i' e"
proof (induction st opts input n m i w rule: ingest_loop.induct)
  case (1 st opts input n m i w)
  obtain d q where q: "feed (ing_decoder i) input body_decode_buffer_bytes = (d, q)" by force
  show ?case
  proof (cases q)
    case (Inl x)
    with q "1.prems" show ?thesis by (subst (asm) ingest_loop.simps) auto
  next
    case (Inr p)
    obtain w1 i1 r where r: "(if progress_produced p \<noteq> []
               then ingest_persist st opts (progress_produced p) (i\<lparr>ing_decoder := d\<rparr>) w
               else (w, i\<lparr>ing_decoder := d\<rparr>, Inr ())) = (w1, i1, r)" by (metis prod_cases3)
    show ?thesis
    proof (cases r)
      case (Inl x)
      with q Inr r "1.prems" show ?thesis
        by (subst (asm) ingest_loop.simps) (auto dest: ingest_persist_failed split: if_splits)
    next
      case u: (Inr u)
      note ih = "1.IH" [OF q [symmetric] Inr r [symmetric] refl u refl]
      have loop: "ingest_loop st opts input n m i w =
       (let total = (n + progress_consumed p, m + length (progress_produced p), progress_complete p) in
        if progress_complete p then
          (case ingest_finalize st opts i1 w1 of
             (w2, i2, Inl e) \<Rightarrow> (w2, i2, Inl e)
           | (w2, i2, Inr _) \<Rightarrow> (w2, i2, Inr total))
        else if progress_consumed p = 0 \<and> progress_produced p = [] then (w1, i1, Inr total)
        else if drop (progress_consumed p) input \<noteq> [] then
          ingest_loop st opts (drop (progress_consumed p) input) (n + progress_consumed p)
            (m + length (progress_produced p)) i1 w1
        else (w1, i1, Inr total))"
        using q Inr r u by (subst ingest_loop.simps) (simp only: prod.case sum.case)
      with "1.prems" ih show ?thesis
        by (auto simp: Let_def dest: ingest_finalize_failed split: if_splits prod.splits sum.splits)
    qed
  qed
qed

lemma ingest_feed_failed:
  assumes "ingest_feed st opts input i w = (w', i', Inl e)" "\<And>x. ing_failure i = Some x \<Longrightarrow> ingest_released i x"
  shows "ingest_released i' e"
  using assms
  by (auto simp: ingest_feed_def dest: ingest_loop_failed split: option.splits prod.splits)

lemma ingest_feed_ok:
  assumes "file_appends contents (storage_files st)" "ingestor_ok contents i payload"
    and "ingest_feed st opts input i w = (w', i', Inr (n, m, complete))"
  shows "\<exists>d out. body_run (ing_decoder i) input = (d, Inr (n, out)) \<and> ing_decoder i' = d \<and>
    ingestor_ok contents i' (payload @ out) \<and> ing_mode i' = ing_mode i \<and> m = length out \<and>
    complete = body_complete d"
proof -
  from assms(2) have "ing_failure i = None" by (simp add: ingestor_ok_def storage_ok_def)
  with assms(3) obtain w1 where "ingest_loop st opts input 0 0 i w1 = (w', i', Inr (n, m, complete))"
    by (auto simp: ingest_feed_def split: prod.splits option.splits)
  from ingest_loop_ok [OF assms(1,2) this] show ?thesis by auto
qed

lemma make_body_decoder_limits [simp]:
  "dec_limits (make_body_decoder head limits) = limits"
  "dec_decoded (make_body_decoder head limits) = 0"
  by (simp_all add: make_body_decoder_def Let_def)

lemma make_ingestor_ok:
  assumes "dec_failure (make_body_decoder head limits) = None"
  shows "ingestor_ok contents (make_ingestor head limits mode) []"
  using assms make_body_decoder_ok [of head limits]
  by (simp add: make_ingestor_def ingestor_ok_def storage_ok_def ingest_stored_def Let_def)

section \<open>Any sequence of feeds\<close>

definition ingest_run ::
    "('w, 'f) storage \<Rightarrow> (io_options \<times> string) list \<Rightarrow> 'f ingestor \<times> 'w \<Rightarrow> 'f ingestor \<times> 'w" where
  "ingest_run st feeds =
     fold (\<lambda>(opts, input) (i, w). case ingest_feed st opts input i w of (w', i', _) \<Rightarrow> (i', w')) feeds"

lemma ingest_run_snoc:
  "ingest_run st (feeds @ [(opts, input)]) s =
     (case ingest_run st feeds s of
        (i, w) \<Rightarrow> (case ingest_feed st opts input i w of (w', i', _) \<Rightarrow> (i', w')))"
  by (simp add: ingest_run_def)

text \<open>The state after any feeds: failed and released, or in step with the reference decoder.\<close>

definition ingest_reached ::
    "('f \<Rightarrow> string) \<Rightarrow> body_decoder \<Rightarrow> storage_mode \<Rightarrow> string \<Rightarrow> 'f ingestor \<Rightarrow> bool" where
  "ingest_reached contents d0 mode input i \<longleftrightarrow>
     (case ing_failure i of
        Some e \<Rightarrow> ingest_released i e
      | None \<Rightarrow> (\<exists>n payload. body_run d0 input = (ing_decoder i, Inr (n, payload)) \<and>
                  ingestor_ok contents i payload \<and> ing_mode i = mode))"

lemma ingest_feed_reached:
  assumes files: "file_appends contents (storage_files st)"
    and reached: "ingest_reached contents d0 mode before i"
    and feed: "ingest_feed st opts input i w = (w', i', r)"
  shows "ingest_reached contents d0 mode (before @ input) i'"
proof (cases r)
  case (Inl e)
  have "ingest_released i' e"
    using ingest_feed_failed [OF feed [unfolded Inl]] reached
    by (auto simp: ingest_reached_def split: option.splits)
  then show ?thesis by (simp add: ingest_reached_def ingest_released_def)
next
  case (Inr p)
  then obtain n m c where p: "r = Inr (n, m, c)" by (cases p) auto
  with feed have none: "ing_failure i = None" by (auto simp: ingest_feed_def split: option.splits)
  with reached obtain k payload where before: "body_run d0 before = (ing_decoder i, Inr (k, payload))"
    and ok: "ingestor_ok contents i payload" and mode: "ing_mode i = mode"
    by (auto simp: ingest_reached_def)
  from ingest_feed_ok [OF files ok feed [unfolded p]] obtain d out where
    d: "body_run (ing_decoder i) input = (d, Inr (n, out))" "ing_decoder i' = d"
      "ingestor_ok contents i' (payload @ out)" "ing_mode i' = ing_mode i" by blast
  with before have "body_run d0 (before @ input) = (ing_decoder i', Inr (k + n, payload @ out))"
    by (simp add: body_run_append)
  moreover have "ing_failure i' = None" using d(3) by (simp add: ingestor_ok_def storage_ok_def)
  ultimately show ?thesis using d(3,4) mode by (auto simp: ingest_reached_def)
qed

lemma ingest_run_reached:
  assumes "file_appends contents (storage_files st)" "ingest_reached contents d0 mode [] i"
  shows "ingest_reached contents d0 mode (concat (map snd feeds)) (fst (ingest_run st feeds (i, w)))"
proof (induction feeds rule: rev_induct)
  case (snoc f feeds)
  obtain opts input where f: "f = (opts, input)" by force
  obtain j v where j: "ingest_run st feeds (i, w) = (j, v)" by force
  obtain w' i' r where r: "ingest_feed st opts input j v = (w', i', r)" by (metis prod_cases3)
  with snoc j ingest_feed_reached [OF assms(1) _ r] show ?case by (simp add: f ingest_run_snoc)
qed (simp add: ingest_run_def assms(2))

lemma ingest_reached_body:
  assumes "ingest_reached contents (make_body_decoder head limits) mode input i"
    and "dec_failure (make_body_decoder head limits) = None" "ing_failure i = None"
  obtains n payload where
    "body_run (make_body_decoder head limits) input = (ing_decoder i, Inr (n, payload))"
    "ing_body_size i = length payload" "length payload \<le> max_body_bytes limits"
    "ingest_complete i = (dec_phase (ing_decoder i) = Done)" "ingest_stored contents i = payload"
    "ing_mode i = mode" "ing_writer i \<noteq> None \<longrightarrow> \<not> ingest_complete i"
    "mode = Memory_mode \<longrightarrow> ing_artifact i = None"
proof -
  let ?d0 = "make_body_decoder head limits"
  from assms(1,3) obtain n payload where
    run: "body_run ?d0 input = (ing_decoder i, Inr (n, payload))"
    and ok: "ingestor_ok contents i payload" and mode: "ing_mode i = mode"
    by (auto simp: ingest_reached_def)
  note dec = body_run_ok [OF run make_body_decoder_ok assms(2)]
  then have "length payload \<le> max_body_bytes limits"
    using decoder_ok_decoded [of "ing_decoder i"] by simp
  moreover have "ingest_complete i = (dec_phase (ing_decoder i) = Done)"
    using ok dec by (auto simp: ingest_complete_def ingestor_ok_def storage_ok_def body_complete_def)
  ultimately show thesis
    using that run ok mode by (auto simp: ingestor_ok_def storage_ok_def ingest_complete_def)
qed

lemma ingest_run_failed: "ing_failure i = Some e \<Longrightarrow> ingest_run st feeds (i, w) = (i, w)"
  by (induction feeds) (auto simp: ingest_run_def ingest_feed_def)

text \<open>A body whose announced length exceeds the limit fails at the first feed.\<close>

lemma ingest_feed_oversized:
  assumes "dec_failure (ing_decoder i) = Some x" "ingest_feed st opts input i w = (w', i', r)"
  shows "\<exists>e. ing_failure i' = Some e"
  using assms
  by (cases "ing_failure i")
    (auto simp: ingest_feed_def ingest_loop.simps feed_def ingest_fail_def split: prod.splits option.splits)

lemma ingest_run_oversized:
  assumes "dec_failure (make_body_decoder head limits) = Some x"
    and "ing_failure (fst (ingest_run st feeds (make_ingestor head limits mode, w))) = None"
  shows "feeds = []"
proof (rule ccontr)
  let ?i = "make_ingestor head limits mode"
  assume "feeds \<noteq> []"
  then obtain opts input rest where f: "feeds = (opts, input) # rest"
    by (metis list.exhaust prod.exhaust)
  obtain w' i' r where r: "ingest_feed st opts input ?i w = (w', i', r)" by (metis prod_cases3)
  have "dec_failure (ing_decoder ?i) = Some x" using assms(1) by (simp add: make_ingestor_def Let_def)
  from ingest_feed_oversized [OF this r] obtain e where "ing_failure i' = Some e" by blast
  moreover have "ingest_run st feeds (?i, w) = ingest_run st rest (i', w')"
    using r by (simp add: f ingest_run_def)
  ultimately show False using assms(2) by (simp add: ingest_run_failed)
qed

lemma make_body_decoder_oversized:
  "dec_failure (make_body_decoder head limits) = Some x \<Longrightarrow> dec_phase (make_body_decoder head limits) = Data"
  by (auto simp: make_body_decoder_def Let_def split: if_splits)

lemma ingest_reached_failed:
  "ing_failure i = Some e \<Longrightarrow> \<not> ingest_complete i \<and> ingest_artifact i = None \<and> ingest_memory_body i = None"
  by (simp add: ingest_complete_def ingest_artifact_def ingest_memory_body_def)


text \<open>A world with nothing to say and files that are strings, for the example.\<close>

definition plain_storage :: "('w, string) storage" where
  "plain_storage =
     \<lparr>storage_host = \<lparr>host_now = \<lambda>w. (w, 0), host_stop = \<lambda>w. (w, False)\<rparr>,
      storage_env = \<lparr>start_worker = \<lambda>w. (w, None), acquire_slot = \<lambda>opts w. (w, Inr ()),
                     operation_finished = \<lambda>w. (w, True)\<rparr>,
      storage_files = \<lparr>file_create = \<lambda>w. (w, Inr []),
                       file_write = \<lambda>f bytes opts w. (w, f @ bytes, Inr ()),
                       file_complete = \<lambda>f opts w. (w, f, Inr ())\<rparr>\<rparr>"

lemma plain_storage_appends: "file_appends (\<lambda>f. f) (storage_files plain_storage)"
  by (simp add: file_appends_def plain_storage_def)


end
