(* ===== verification/Transport_Policy.thy ===== *)
theory Transport_Policy
  imports Http_Types Ip_Address
begin

text \<open>
  The trust boundary of HTTP requests, \<^verbatim>\<open>src/http/transport/http_transport_policy.cpp\<close>: which direct
  peers may speak to the server and which forwarded metadata is believed. The host's \<^verbatim>\<open>inet_pton\<close> is
  a pair of arguments, \<open>pton4\<close> and \<open>pton6\<close>, that return the address bytes in network order. The
  buffer size is that of Linux (\<^verbatim>\<open>INET6_ADDRSTRLEN\<close> is 46).
\<close>

section \<open>Numeric peers\<close>

datatype ip_family = Af_inet | Af_inet6

record parsed_ip_address =
  ip_family :: ip_family
  ip_bytes :: "u8 list"

definition parse_ip_address ::
    "(string \<Rightarrow> u8 list option) \<Rightarrow> (string \<Rightarrow> u8 list option) \<Rightarrow> string \<Rightarrow> parsed_ip_address option" where
  "parse_ip_address pton4 pton6 s =
     (if s = [] \<or> length s > 45 \<or> sv_find NUL s 0 \<noteq> None then None
      else
        (case pton4 s of
           Some bytes \<Rightarrow> Some \<lparr>ip_family = Af_inet, ip_bytes = bytes @ replicate 12 0\<rparr>
         | None \<Rightarrow> map_option (\<lambda>bytes. \<lparr>ip_family = Af_inet6, ip_bytes = bytes\<rparr>) (pton6 s)))"

definition is_numeric_socket_peer_address ::
    "(string \<Rightarrow> u8 list option) \<Rightarrow> (string \<Rightarrow> u8 list option) \<Rightarrow> string \<Rightarrow> bool" where
  "is_numeric_socket_peer_address pton4 pton6 s =
     (if parse_ip_address pton4 pton6 s \<noteq> None then True
      else
        (case sv_find CHR ''%'' s 0 of
           None \<Rightarrow> False
         | Some separator \<Rightarrow>
             (if separator = 0 \<or> separator + 1 = length s \<or>
                 sv_find CHR ''%'' s (separator + 1) \<noteq> None
              then False
              else
                (case parse_ip_address pton4 pton6 (take separator s) of
                   None \<Rightarrow> False
                 | Some parsed \<Rightarrow>
                     (if ip_family parsed \<noteq> Af_inet6 then False
                      else (case from_chars (2 ^ 32) 10 (drop (separator + 1) s) of
                              (Inl _, _) \<Rightarrow> False
                            | (Inr _, rest) \<Rightarrow> rest = []))))))"

definition peer_is_loopback ::
    "(string \<Rightarrow> u8 list option) \<Rightarrow> (string \<Rightarrow> u8 list option) \<Rightarrow> string \<Rightarrow> bool" where
  "peer_is_loopback pton4 pton6 address =
     (case parse_ip_address pton4 pton6 address of
        None \<Rightarrow> False
      | Some parsed \<Rightarrow>
          (if ip_family parsed = Af_inet then hd (ip_bytes parsed) = 127
           else list_all (\<lambda>byte. byte = 0) (butlast (ip_bytes parsed)) \<and>
                last (ip_bytes parsed) = 1))"

section \<open>Policy\<close>

datatype http_transport_mode = Http_loopback | Http_trusted_lan | Http_trusted_proxy

record transport_policy =
  policy_mode :: http_transport_mode
  policy_trusted_proxy :: "string option"

record transport_context =
  peer_address :: string
  client_address :: string
  context_secure :: bool
  context_trusted_proxy :: bool

datatype transport_error =
    Peer_not_permitted | Missing_forwarded_scheme | Duplicate_forwarded_scheme
  | Insecure_forwarded_scheme | Missing_forwarded_client | Duplicate_forwarded_client
  | Invalid_forwarded_client

definition parse_http_transport_mode :: "string \<Rightarrow> http_transport_mode option" where
  "parse_http_transport_mode s =
     (if s = ''loopback_http'' then Some Http_loopback
      else if s = ''trusted_lan_http'' then Some Http_trusted_lan
      else if s = ''trusted_proxy_https'' then Some Http_trusted_proxy
      else None)"

definition http_transport_allows_peer ::
    "(string \<Rightarrow> u8 list option) \<Rightarrow> (string \<Rightarrow> u8 list option) \<Rightarrow> transport_policy \<Rightarrow> string \<Rightarrow> bool" where
  "http_transport_allows_peer pton4 pton6 policy peer =
     (case policy_mode policy of
        Http_loopback \<Rightarrow> peer_is_loopback pton4 pton6 peer
      | Http_trusted_lan \<Rightarrow> is_numeric_socket_peer_address pton4 pton6 peer
      | Http_trusted_proxy \<Rightarrow>
          (case policy_trusted_proxy policy of
             None \<Rightarrow> False
           | Some proxy \<Rightarrow>
               (case (parse_ip_address pton4 pton6 peer, parse_ip_address pton4 pton6 proxy) of
                  (Some parsed_peer, Some parsed_proxy) \<Rightarrow>
                    ip_family parsed_peer = ip_family parsed_proxy \<and>
                    ip_bytes parsed_peer = ip_bytes parsed_proxy
                | _ \<Rightarrow> False)))"

definition resolve_http_transport ::
    "(string \<Rightarrow> u8 list option) \<Rightarrow> (string \<Rightarrow> u8 list option) \<Rightarrow> transport_policy \<Rightarrow> string \<Rightarrow>
     http_header list \<Rightarrow> (transport_error, transport_context) result" where
  "resolve_http_transport pton4 pton6 policy peer flds =
     (if \<not> http_transport_allows_peer pton4 pton6 policy peer then Inl Peer_not_permitted
      else
        (let context = \<lparr>peer_address = peer, client_address = peer, context_secure = False,
                        context_trusted_proxy = False\<rparr> in
         if policy_mode policy \<noteq> Http_trusted_proxy then Inr context
         else
           (let schemes = request_headers flds ''X-Forwarded-Proto'' in
            if schemes = [] then Inl Missing_forwarded_scheme
            else if length schemes \<noteq> 1 then Inl Duplicate_forwarded_scheme
            else if \<not> ascii_case_insensitive_equal (hd schemes) ''https''
            then Inl Insecure_forwarded_scheme
            else
              (let clients = request_headers flds ''X-Forwarded-For'' in
               if clients = [] then Inl Missing_forwarded_client
               else if length clients \<noteq> 1 then Inl Duplicate_forwarded_client
               else if parse_ip_address pton4 pton6 (hd clients) = None
               then Inl Invalid_forwarded_client
               else Inr (context\<lparr>client_address := hd clients, context_secure := True,
                                 context_trusted_proxy := True\<rparr>)))))"

section \<open>Lemmas\<close>

lemma length_1_hd: "xs \<noteq> [] \<Longrightarrow> length xs = 1 \<Longrightarrow> xs = [hd xs]"
  by (cases xs) auto

lemma parse_ip_address_bytes:
  assumes "\<And>t bytes. pton4 t = Some bytes \<Longrightarrow> length bytes = 4"
    and "\<And>t bytes. pton6 t = Some bytes \<Longrightarrow> length bytes = 16"
    and "parse_ip_address pton4 pton6 s = Some p"
  shows "length (ip_bytes p) = 16"
  using assms by (fastforce simp: parse_ip_address_def split: if_splits option.splits)

text \<open>In proxy mode a permitted peer is the configured proxy itself.\<close>

lemma allowed_proxy_peer:
  assumes "http_transport_allows_peer pton4 pton6 policy peer" "policy_mode policy = Http_trusted_proxy"
  obtains proxy a where "policy_trusted_proxy policy = Some proxy"
    "parse_ip_address pton4 pton6 peer = Some a" "parse_ip_address pton4 pton6 proxy = Some a"
  using assms
  by (fastforce simp: http_transport_allows_peer_def intro: parsed_ip_address.equality
      split: option.splits)

lemma resolve_direct:
  "policy_mode policy \<noteq> Http_trusted_proxy \<Longrightarrow>
     resolve_http_transport pton4 pton6 policy peer flds =
       (if http_transport_allows_peer pton4 pton6 policy peer
        then Inr \<lparr>peer_address = peer, client_address = peer, context_secure = False,
                  context_trusted_proxy = False\<rparr>
        else Inl Peer_not_permitted)"
  by (simp add: resolve_http_transport_def Let_def)

lemma resolve_proxied:
  assumes "resolve_http_transport pton4 pton6 policy peer flds = Inr ctx"
    and "policy_mode policy = Http_trusted_proxy"
  shows "http_transport_allows_peer pton4 pton6 policy peer"
    "\<exists>scheme. request_headers flds ''X-Forwarded-Proto'' = [scheme] \<and>
       ascii_case_insensitive_equal scheme ''https''"
    "request_headers flds ''X-Forwarded-For'' = [client_address ctx]"
    "parse_ip_address pton4 pton6 (client_address ctx) \<noteq> None"
    "ctx = \<lparr>peer_address = peer, client_address = client_address ctx, context_secure = True,
            context_trusted_proxy = True\<rparr>"
  using assms length_1_hd [of "request_headers flds ''X-Forwarded-Proto''"]
    length_1_hd [of "request_headers flds ''X-Forwarded-For''"]
  by (auto simp: resolve_http_transport_def Let_def split: if_splits)

section \<open>Trust\<close>

text \<open>
  C12. Transport trust: a resolved context names the direct peer, and that peer is permitted. Unless
  the server runs behind a proxy, the context is that of the direct peer whatever header fields the
  request carries. Behind a proxy the direct peer has exactly the configured proxy's address, the
  request has exactly one \<^verbatim>\<open>X-Forwarded-Proto\<close>, which is https, and exactly one \<^verbatim>\<open>X-Forwarded-For\<close>,
  which is a numeric address and becomes the client address. Only such requests are secure.
\<close>

theorem transport_trust:
  assumes "resolve_http_transport pton4 pton6 policy peer flds = Inr ctx"
  shows "peer_address ctx = peer \<and> http_transport_allows_peer pton4 pton6 policy peer \<and>
     context_trusted_proxy ctx = context_secure ctx \<and>
     (if \<not> context_secure ctx
      then policy_mode policy \<noteq> Http_trusted_proxy \<and> client_address ctx = peer \<and>
           (\<forall>other. resolve_http_transport pton4 pton6 policy peer other = Inr ctx)
      else policy_mode policy = Http_trusted_proxy \<and>
           (\<exists>proxy. policy_trusted_proxy policy = Some proxy \<and>
              parse_ip_address pton4 pton6 peer \<noteq> None \<and>
              parse_ip_address pton4 pton6 peer = parse_ip_address pton4 pton6 proxy) \<and>
           (\<exists>scheme. request_headers flds ''X-Forwarded-Proto'' = [scheme] \<and>
              ascii_case_insensitive_equal scheme ''https'') \<and>
           request_headers flds ''X-Forwarded-For'' = [client_address ctx] \<and>
           parse_ip_address pton4 pton6 (client_address ctx) \<noteq> None)"
proof (cases "policy_mode policy = Http_trusted_proxy")
  case False
  with assms show ?thesis by (auto simp: resolve_direct split: if_splits)
next
  case True
  note r = resolve_proxied [OF assms True]
  from r(5) have "peer_address ctx = peer" "context_secure ctx" "context_trusted_proxy ctx"
    by (metis transport_context.select_convs)+
  moreover obtain proxy a where "policy_trusted_proxy policy = Some proxy"
    "parse_ip_address pton4 pton6 peer = Some a" "parse_ip_address pton4 pton6 proxy = Some a"
    by (rule allowed_proxy_peer [OF r(1) True])
  ultimately show ?thesis using r(1-4) True by simp
qed

theorem transport_trust_witness:
  "parse_ip_address parse_ipv4 (\<lambda>s. None) ''10.0.0.1'' =
     Some \<lparr>ip_family = Af_inet, ip_bytes = [10, 0, 0, 1] @ replicate 12 0\<rparr> \<and>
   http_transport_allows_peer parse_ipv4 (\<lambda>s. None)
     \<lparr>policy_mode = Http_trusted_proxy, policy_trusted_proxy = Some ''10.0.0.1''\<rparr> ''10.0.0.1''"
proof -
  let ?policy = "\<lparr>policy_mode = Http_trusted_proxy, policy_trusted_proxy = Some ''10.0.0.1''\<rparr>"
  let ?fields = "[\<lparr>field_name = ''x-forwarded-proto'', field_value = ''HTTPS''\<rparr>,
                  \<lparr>field_name = ''X-Forwarded-For'', field_value = ''1.2.3.4''\<rparr>]"
  have "resolve_http_transport parse_ipv4 (\<lambda>s. None) ?policy ''10.0.0.1'' ?fields =
    Inr \<lparr>peer_address = ''10.0.0.1'', client_address = ''1.2.3.4'', context_secure = True,
         context_trusted_proxy = True\<rparr>" by code_simp
  moreover have "parse_ip_address parse_ipv4 (\<lambda>s. None) ''10.0.0.1'' =
     Some \<lparr>ip_family = Af_inet, ip_bytes = [10, 0, 0, 1] @ replicate 12 0\<rparr>" by code_simp
  ultimately show ?thesis using transport_trust by blast
qed

end
