(* ===== verification/Buffered_Request.thy ===== *)
theory Buffered_Request
  imports Body_Ingestor Transport_Policy
begin

text \<open>
  One request as the connection sees it arrive,
  \<^verbatim>\<open>src/http/transport/detail/buffered_request.cpp\<close> and its header: metadata bytes are collected until
  the head parses, every later byte goes to the body ingestor, and the complete request is a view of
  both (\<^verbatim>\<open>http_request_view_access.hpp\<close>). The storage-policy selector is an argument. The growth of the
  metadata buffer and the erasure of released bytes are not modelled.
\<close>

section \<open>State\<close>

datatype request_expectation = Expect_none | Expect_continue | Expect_unsupported

datatype buffered_error = Parse_failure parse_error | Ingestion_failure ingestion_error

record 'f buffered_request =
  bq_expectation_checked :: bool
  bq_limits :: request_limits
  bq_metadata :: string
  bq_head :: "request_head option"
  bq_ingestor :: "'f ingestor option"

record 'f request_view =
  view_method :: http_method
  view_target :: string
  view_fields :: "http_header list"
  view_body :: string
  view_body_size :: nat
  view_temporary_body :: "'f option"
  view_file_options :: "io_options option"
  view_response_options :: "io_options option"
  view_transport :: "transport_context option"

type_synonym policy_selector = "(request_head \<Rightarrow> storage_policy) option"

definition make_buffered_request :: "request_limits \<Rightarrow> 'f buffered_request" where
  "make_buffered_request limits =
     \<lparr>bq_expectation_checked = False, bq_limits = limits, bq_metadata = [], bq_head = None,
      bq_ingestor = None\<rparr>"

section \<open>Operations\<close>

definition append_metadata :: "string \<Rightarrow> 'f buffered_request \<Rightarrow> 'f buffered_request" where
  "append_metadata input b = b\<lparr>bq_metadata := bq_metadata b @ input\<rparr>"

definition erase_metadata :: "'f buffered_request \<Rightarrow> 'f buffered_request" where
  "erase_metadata b = b\<lparr>bq_metadata := []\<rparr>"

definition reading_body :: "'f buffered_request \<Rightarrow> bool" where
  "reading_body b \<longleftrightarrow> bq_head b \<noteq> None"

definition buffered_complete :: "'f buffered_request \<Rightarrow> bool" where
  "buffered_complete b = (case bq_ingestor b of None \<Rightarrow> False | Some i \<Rightarrow> ingest_complete i)"

definition buffered_empty :: "'f buffered_request \<Rightarrow> bool" where
  "buffered_empty b \<longleftrightarrow> bq_metadata b = []"

function supported_expectations :: "string \<Rightarrow> bool" where
  "supported_expectations s =
     (if s = [] then True
      else
        (let comma = sv_find CHR '','' s 0;
             item = trim_optional_whitespace (case comma of None \<Rightarrow> s | Some i \<Rightarrow> take i s) in
         if item \<noteq> [] \<and> \<not> ascii_case_insensitive_equal item ''100-continue'' then False
         else (case comma of
                 None \<Rightarrow> True
               | Some i \<Rightarrow> supported_expectations (drop (i + 1) s))))"
  by pat_completeness auto
termination by (relation "measure length") auto

declare supported_expectations.simps [simp del]

text \<open>The loop over the fields; \<^term>\<open>None\<close> is the early return.\<close>

fun expectation_loop :: "http_header list \<Rightarrow> bool \<Rightarrow> bool option" where
  "expectation_loop [] expected = Some expected"
| "expectation_loop (field # flds) expected =
     (if ascii_case_insensitive_equal (field_name field) ''Expect'' then
        (if \<not> supported_expectations (field_value field) then None
         else expectation_loop flds
                (expected \<or> list_ex (\<lambda>c. c \<notin> {CHR '' '', CHR '','', CHR 0x09}) (field_value field)))
      else expectation_loop flds expected)"

definition take_expectation :: "'f buffered_request \<Rightarrow> 'f buffered_request \<times> request_expectation" where
  "take_expectation b =
     (case bq_head b of
        None \<Rightarrow> (b, Expect_none)
      | Some head \<Rightarrow>
          (if bq_expectation_checked b then (b, Expect_none)
           else
             (b\<lparr>bq_expectation_checked := True\<rparr>,
              case expectation_loop (head_fields head) False of
                None \<Rightarrow> Expect_unsupported
              | Some expected \<Rightarrow>
                  (if expected \<and> \<not> buffered_complete b then Expect_continue else Expect_none))))"

definition feed_body ::
    "('w, 'f) storage \<Rightarrow> string \<Rightarrow> io_options \<Rightarrow> 'f buffered_request \<Rightarrow> 'w \<Rightarrow>
     'w \<times> 'f buffered_request \<times> (buffered_error, unit) result" where
  "feed_body st input opts b w =
     (case bq_ingestor b of
        None \<Rightarrow> (w, b, Inl (Parse_failure \<lparr>error_code = Incomplete_body, byte_offset = 0\<rparr>))
      | Some i \<Rightarrow>
          (case ingest_feed st opts input i w of
             (w1, i1, Inl e) \<Rightarrow> (w1, b\<lparr>bq_ingestor := Some i1\<rparr>, Inl (Ingestion_failure e))
           | (w1, i1, Inr _) \<Rightarrow> (w1, b\<lparr>bq_ingestor := Some i1\<rparr>, Inr ())))"

definition selected_policy :: "policy_selector \<Rightarrow> request_head \<Rightarrow> storage_policy" where
  "selected_policy selector head =
     (case selector of
        None \<Rightarrow> \<lparr>policy_storage_mode = Temporary_file_mode, policy_max_body_bytes = 0\<rparr>
      | Some f \<Rightarrow> f head)"

definition body_limits :: "request_limits \<Rightarrow> storage_policy \<Rightarrow> request_limits" where
  "body_limits limits policy =
     (if policy_max_body_bytes policy \<noteq> 0
      then limits\<lparr>max_body_bytes := min (max_body_bytes limits) (policy_max_body_bytes policy)\<rparr>
      else limits)"

definition feed_with_body_options ::
    "('w, 'f) storage \<Rightarrow> policy_selector \<Rightarrow> ('w \<Rightarrow> 'w \<times> io_options) \<Rightarrow> string \<Rightarrow> 'f buffered_request \<Rightarrow>
     'w \<Rightarrow> 'w \<times> 'f buffered_request \<times> (buffered_error, unit) result" where
  "feed_with_body_options st selector options_provider input b w =
     (if bq_head b \<noteq> None then
        (case options_provider w of (w1, opts) \<Rightarrow> feed_body st input opts b w1)
      else
        (let b1 = append_metadata input b in
         case parse_http_request_head (bq_metadata b1) (bq_limits b1) of
           Inl e \<Rightarrow> (w, erase_metadata b1, Inl (Parse_failure e))
         | Inr None \<Rightarrow> (w, b1, Inr ())
         | Inr (Some head) \<Rightarrow>
             (let policy = selected_policy selector head;
                  b2 = b1\<lparr>bq_ingestor := Some (make_ingestor head (body_limits (bq_limits b1) policy)
                                                 (policy_storage_mode policy)),
                          bq_head := Some head\<rparr> in
              case options_provider w of
                (w1, opts) \<Rightarrow>
                  (case feed_body st (drop (consumed_bytes head) (bq_metadata b2)) opts b2 w1 of
                     (w2, b3, r) \<Rightarrow>
                       (w2, b3\<lparr>bq_metadata := take (consumed_bytes head) (bq_metadata b3)\<rparr>, r)))))"

definition buffered_finish ::
    "('w, 'f) storage \<Rightarrow> io_options \<Rightarrow> 'f buffered_request \<Rightarrow> 'w \<Rightarrow>
     'w \<times> 'f buffered_request \<times> (buffered_error, unit) result" where
  "buffered_finish st opts b w =
     (case bq_ingestor b of
        None \<Rightarrow> (w, b, Inl (Parse_failure \<lparr>error_code = Incomplete_body,
                                          byte_offset = length (bq_metadata b)\<rparr>))
      | Some i \<Rightarrow>
          (case ingest_finish st opts i w of
             (w1, i1, Inl e) \<Rightarrow> (w1, b\<lparr>bq_ingestor := Some i1\<rparr>, Inl (Ingestion_failure e))
           | (w1, i1, Inr _) \<Rightarrow> (w1, b\<lparr>bq_ingestor := Some i1\<rparr>, Inr ())))"

text \<open>\<^verbatim>\<open>request\<close>: \<^term>\<open>None\<close> is the thrown \<^verbatim>\<open>std::logic_error\<close>.\<close>

definition buffered_view :: "io_options \<Rightarrow> 'f buffered_request \<Rightarrow> 'f request_view option" where
  "buffered_view opts b =
     (case (bq_head b, bq_ingestor b) of
        (Some head, Some i) \<Rightarrow>
          (if \<not> ingest_complete i then None
           else
             (let v = \<lparr>view_method = head_method head, view_target = head_target head,
                       view_fields = head_fields head, view_body = [], view_body_size = 0,
                       view_temporary_body = None, view_file_options = None,
                       view_response_options = None, view_transport = None\<rparr> in
              case ingest_memory_body i of
                Some memory \<Rightarrow> Some (v\<lparr>view_body := memory, view_body_size := length memory\<rparr>)
              | None \<Rightarrow>
                  Some (v\<lparr>view_body_size := ing_body_size i,
                          view_temporary_body := ingest_artifact i,
                          view_file_options := Some opts\<rparr>)))
      | _ \<Rightarrow> None)"

section \<open>The one-shot parser by the reference decoder\<close>

lemma body_run_fixed:
  assumes "dec_phase d = Data" "\<not> dec_chunked d" "0 < dec_remaining d"
    and "body_run d input = (d', Inr (n, out))"
  shows "n = min (dec_remaining d) (length input) \<and> out = take (dec_remaining d) input \<and>
    (dec_phase d' = Done \<longleftrightarrow> dec_remaining d \<le> length input)"
  using assms
proof (induction input arbitrary: d n out)
  case (Cons c cs)
  then have step: "body_step d c = (copy_data d 1, Inr [c])"
    by (auto simp: body_step_def split: if_splits)
  show ?case
  proof (cases "dec_remaining d = 1")
    case True
    then have one: "dec_remaining d = Suc 0" by simp
    then have finished: "dec_phase (copy_data d 1) = Done" using Cons.prems(2) by (simp add: copy_data_simps)
    with step Cons.prems(1,4) have "d' = copy_data d 1" "n = 1" "out = [c]" by auto
    with one finished show ?thesis by simp
  next
    case False
    with Cons.prems step obtain m o' where m: "body_run (copy_data d 1) cs = (d', Inr (m, o'))"
      "n = 1 + m" "out = c # o'" by (auto simp: extend_run_cases)
    with Cons.IH [OF _ _ _ m(1)] Cons.prems False show ?thesis
      by (cases "dec_remaining d") (auto simp: copy_data_simps)
  qed
qed auto

lemma parse_http_request_run:
  assumes "parse_http_request_head input limits = Inr (Some h)"
    and "body_run (make_body_decoder h limits) (drop (consumed_bytes h) input) = (d, Inr (n, out))"
  shows "parse_http_request input limits =
     (if dec_phase d = Done
      then Inr (Some (consumed_bytes h + n, \<lparr>request_head_of = h, request_body = out\<rparr>))
      else Inr None)"
proof (cases "head_chunked h")
  case True
  with assms show ?thesis by (simp add: parse_http_request_chunked)
next
  case False
  have le: "consumed_bytes h \<le> length input"
    using assms(1) by (elim parse_http_request_head_SomeE)
  show ?thesis
  proof (cases "content_length h = 0")
    case True
    with False have "dec_phase (make_body_decoder h limits) = Done"
      by (simp add: make_body_decoder_def Let_def)
    with assms False True le show ?thesis by (auto simp: parse_http_request_def)
  next
    case pos: False
    with False have "dec_phase (make_body_decoder h limits) = Data"
      "\<not> dec_chunked (make_body_decoder h limits)"
      "dec_remaining (make_body_decoder h limits) = content_length h"
      by (simp_all add: make_body_decoder_def Let_def)
    with body_run_fixed [OF _ _ _ assms(2)] pos assms(1) False le show ?thesis
      by (auto simp: parse_http_request_def min_def)
  qed
qed

section \<open>Feeding fragments\<close>

text \<open>Fragments are fed until one fails.\<close>

primrec buffered_feeds ::
    "('w, 'f) storage \<Rightarrow> policy_selector \<Rightarrow> ('w \<Rightarrow> 'w \<times> io_options) \<Rightarrow> string list \<Rightarrow>
     'f buffered_request \<Rightarrow> 'w \<Rightarrow> 'w \<times> 'f buffered_request \<times> (buffered_error, unit) result" where
  "buffered_feeds st selector provider [] b w = (w, b, Inr ())"
| "buffered_feeds st selector provider (input # fragments) b w =
     (case feed_with_body_options st selector provider input b w of
        (w1, b1, Inl e) \<Rightarrow> (w1, b1, Inl e)
      | (w1, b1, Inr _) \<Rightarrow> buffered_feeds st selector provider fragments b1 w1)"

text \<open>The state after \<open>input\<close> has been fed without failure.\<close>

definition buffered_reached ::
    "('f \<Rightarrow> string) \<Rightarrow> policy_selector \<Rightarrow> request_limits \<Rightarrow> string \<Rightarrow> 'f buffered_request \<Rightarrow> bool" where
  "buffered_reached contents selector limits input b \<longleftrightarrow>
     bq_limits b = limits \<and>
     (case bq_head b of
        None \<Rightarrow> bq_metadata b = input \<and> parse_http_request_head input limits = Inr None \<and>
                bq_ingestor b = None
      | Some head \<Rightarrow>
          parse_http_request_head input limits = Inr (Some head) \<and>
          bq_metadata b = take (consumed_bytes head) input \<and>
          (\<exists>i d0. bq_ingestor b = Some i \<and> ing_failure i = None \<and>
             d0 = make_body_decoder head (body_limits limits (selected_policy selector head)) \<and>
             dec_failure d0 = None \<and>
             ingest_reached contents d0 (policy_storage_mode (selected_policy selector head))
               (drop (consumed_bytes head) input) i))"

lemma ingest_feed_Inr_failure:
  "ingest_feed st opts input i w = (w', i', Inr p) \<Longrightarrow> dec_failure (ing_decoder i) = None"
  by (cases "dec_failure (ing_decoder i)")
    (auto simp: ingest_feed_def ingest_loop.simps feed_def split: option.splits prod.splits)

lemma ingest_feed_Inr_reached:
  assumes "file_appends contents (storage_files st)" "ingest_reached contents d0 mode before i"
    and "ingest_feed st opts input i w = (w', i', Inr p)"
  shows "ingest_reached contents d0 mode (before @ input) i' \<and> ing_failure i' = None"
proof -
  have reached: "ingest_reached contents d0 mode (before @ input) i'"
    by (rule ingest_feed_reached [OF assms])
  have "ing_failure i = None" using assms(3) by (auto simp: ingest_feed_def split: option.splits)
  with assms(2) obtain payload where "ingestor_ok contents i payload"
    by (auto simp: ingest_reached_def)
  from ingest_feed_ok [OF assms(1) this] assms(3) have "ing_failure i' = None"
    by (cases p) (fastforce simp: ingestor_ok_def storage_ok_def)
  with reached show ?thesis by simp
qed

lemma feed_body_reached:
  assumes files: "file_appends contents (storage_files st)"
    and feed: "feed_body st input opts b w = (w', b', Inr u)"
    and i: "bq_ingestor b = Some i" "ingest_reached contents d0 mode before i"
  obtains i' where "b' = b\<lparr>bq_ingestor := Some i'\<rparr>" "ing_failure i' = None"
    "ingest_reached contents d0 mode (before @ input) i'"
proof -
  obtain w1 i1 r where r: "ingest_feed st opts input i w = (w1, i1, r)" by (metis prod_cases3)
  with feed i(1) obtain p where p: "r = Inr p" "b' = b\<lparr>bq_ingestor := Some i1\<rparr>"
    by (cases r) (auto simp: feed_body_def)
  from ingest_feed_Inr_reached [OF files i(2) r [unfolded p(1)]] p(2) show thesis
    by (intro that) auto
qed

lemma feed_first_body_reached:
  assumes files: "file_appends contents (storage_files st)"
    and feed: "feed_body st input opts b w = (w', b', Inr u)"
    and i: "bq_ingestor b = Some (make_ingestor head limits mode)"
  obtains i' where "b' = b\<lparr>bq_ingestor := Some i'\<rparr>" "ing_failure i' = None"
    "dec_failure (make_body_decoder head limits) = None"
    "ingest_reached contents (make_body_decoder head limits) mode input i'"
proof -
  let ?i0 = "make_ingestor head limits mode"
  have dec: "dec_failure (make_body_decoder head limits) = None"
    using feed i ingest_feed_Inr_failure [of st opts input ?i0 w]
    by (auto simp: feed_body_def make_ingestor_def Let_def split: prod.splits sum.splits)
  then have "ingest_reached contents (make_body_decoder head limits) mode [] ?i0"
    using make_ingestor_ok [OF dec, of contents mode]
    by (simp add: ingest_reached_def make_ingestor_def Let_def)
  from feed_body_reached [OF files feed i this] dec that show thesis by auto
qed

lemma feed_with_body_options_reached:
  assumes files: "file_appends contents (storage_files st)"
    and reached: "buffered_reached contents selector limits before b"
    and feed: "feed_with_body_options st selector provider input b w = (w', b', Inr u)"
  shows "buffered_reached contents selector limits (before @ input) b'"
proof (cases "bq_head b")
  case (Some head)
  let ?n = "consumed_bytes head"
  from reached Some obtain i d0 where r:
    "bq_limits b = limits" "parse_http_request_head before limits = Inr (Some head)"
    "bq_metadata b = take ?n before" "bq_ingestor b = Some i"
    "d0 = make_body_decoder head (body_limits limits (selected_policy selector head))"
    "dec_failure d0 = None"
    "ingest_reached contents d0 (policy_storage_mode (selected_policy selector head)) (drop ?n before) i"
    by (auto simp: buffered_reached_def)
  have le: "?n \<le> length before" using r(2) by (elim parse_http_request_head_SomeE)
  have same: "parse_http_request_head (before @ input) limits = Inr (Some head)"
    using parse_http_request_head_append [of before limits input] r(2) by simp
  from feed Some obtain opts w1 where "feed_body st input opts b w1 = (w', b', Inr u)"
    by (auto simp: feed_with_body_options_def split: prod.splits)
  from feed_body_reached [OF files this r(4,7)] obtain i' where
    "b' = b\<lparr>bq_ingestor := Some i'\<rparr>" "ing_failure i' = None"
    "ingest_reached contents d0 (policy_storage_mode (selected_policy selector head))
       (drop ?n before @ input) i'" by blast
  with r same le Some show ?thesis by (simp add: buffered_reached_def)
next
  case None
  with reached have meta: "bq_metadata b = before" "bq_limits b = limits" "bq_ingestor b = None"
    by (auto simp: buffered_reached_def)
  consider (later) "parse_http_request_head (before @ input) limits = Inr None"
    | (now) head where "parse_http_request_head (before @ input) limits = Inr (Some head)"
    using feed None meta
    by (cases "parse_http_request_head (before @ input) limits"; cases "projr
          (parse_http_request_head (before @ input) limits)")
      (auto simp: feed_with_body_options_def append_metadata_def Let_def)
  then show ?thesis
  proof cases
    case later
    with feed None meta show ?thesis
      by (auto simp: feed_with_body_options_def append_metadata_def buffered_reached_def Let_def)
  next
    case now
    let ?pol = "selected_policy selector head" and ?n = "consumed_bytes head"
    let ?b2 = "b\<lparr>bq_metadata := before @ input,
      bq_ingestor := Some (make_ingestor head (body_limits limits ?pol) (policy_storage_mode ?pol)),
      bq_head := Some head\<rparr>"
    from feed None meta now obtain opts w1 b3 where
      b3: "feed_body st (drop ?n (before @ input)) opts ?b2 w1 = (w', b3, Inr u)"
      "b' = b3\<lparr>bq_metadata := take ?n (bq_metadata b3)\<rparr>"
      by (auto simp: feed_with_body_options_def append_metadata_def Let_def split: prod.splits)
    have "bq_ingestor ?b2 =
      Some (make_ingestor head (body_limits limits ?pol) (policy_storage_mode ?pol))" by simp
    from feed_first_body_reached [OF files b3(1) this] obtain i' where
      "b3 = ?b2\<lparr>bq_ingestor := Some i'\<rparr>" "ing_failure i' = None"
      "dec_failure (make_body_decoder head (body_limits limits ?pol)) = None"
      "ingest_reached contents (make_body_decoder head (body_limits limits ?pol))
         (policy_storage_mode ?pol) (drop ?n (before @ input)) i'" .
    with b3(2) now meta show ?thesis by (simp add: buffered_reached_def)
  qed
qed

lemma buffered_feeds_reached:
  assumes "file_appends contents (storage_files st)"
    and "buffered_reached contents selector limits before b"
    and "buffered_feeds st selector provider fragments b w = (w', b', Inr u)"
  shows "buffered_reached contents selector limits (before @ concat fragments) b'"
  using assms(2,3)
proof (induction fragments arbitrary: before b w)
  case (Cons x xs)
  obtain w1 b1 r where r: "feed_with_body_options st selector provider x b w = (w1, b1, r)"
    by (metis prod_cases3)
  with Cons.prems(2) obtain v where v: "r = Inr v" by (cases r) auto
  from Cons.IH [OF feed_with_body_options_reached [OF assms(1) Cons.prems(1) r [unfolded v]]]
    Cons.prems(2) r v show ?case by simp
qed simp

lemma make_buffered_reached:
  "buffered_reached contents selector limits [] (make_buffered_request limits)"
  by (simp add: buffered_reached_def make_buffered_request_def parse_http_request_head_def)

text \<open>What a view holds, in memory or in its file.\<close>

definition view_payload :: "('f \<Rightarrow> string) \<Rightarrow> 'f request_view \<Rightarrow> string" where
  "view_payload contents v =
     (case view_temporary_body v of None \<Rightarrow> view_body v | Some f \<Rightarrow> contents f)"

lemma buffered_view_reached:
  assumes "buffered_reached contents selector limits input b" "buffered_complete b"
  obtains head d n payload v where
    "parse_http_request_head input limits = Inr (Some head)"
    "body_run (make_body_decoder head (body_limits limits (selected_policy selector head)))
       (drop (consumed_bytes head) input) = (d, Inr (n, payload))" "dec_phase d = Done"
    "buffered_view opts b = Some v" "view_method v = head_method head"
    "view_target v = head_target head" "view_fields v = head_fields head"
    "view_payload contents v = payload" "view_body_size v = length payload"
proof -
  from assms obtain head i d0 where r: "bq_head b = Some head"
    "parse_http_request_head input limits = Inr (Some head)" "bq_ingestor b = Some i"
    "ing_failure i = None" "dec_failure d0 = None"
    "d0 = make_body_decoder head (body_limits limits (selected_policy selector head))"
    "ingest_reached contents d0 (policy_storage_mode (selected_policy selector head))
       (drop (consumed_bytes head) input) i"
    by (auto simp: buffered_reached_def buffered_complete_def split: option.splits)
  have complete: "ingest_complete i" using assms(2) r(3) by (simp add: buffered_complete_def)
  from ingest_reached_body [OF r(7) [unfolded r(6)] r(5) [unfolded r(6)] r(4)] obtain n payload where
    body: "body_run (make_body_decoder head (body_limits limits (selected_policy selector head)))
      (drop (consumed_bytes head) input) = (ing_decoder i, Inr (n, payload))"
    "ing_body_size i = length payload" "ingest_complete i = (dec_phase (ing_decoder i) = Done)"
    "ingest_stored contents i = payload" "ing_writer i \<noteq> None \<longrightarrow> \<not> ingest_complete i"
    "policy_storage_mode (selected_policy selector head) = Memory_mode \<longrightarrow> ing_artifact i = None"
    "ing_mode i = policy_storage_mode (selected_policy selector head)" by metis
  have v: "\<exists>v. buffered_view opts b = Some v \<and> view_method v = head_method head \<and>
    view_target v = head_target head \<and> view_fields v = head_fields head \<and>
    view_payload contents v = payload \<and> view_body_size v = length payload"
  proof (cases "ing_mode i = Memory_mode")
    case True
    with r(1,3) complete body show ?thesis
      by (simp add: buffered_view_def ingest_memory_body_def view_payload_def ingest_stored_def Let_def)
  next
    case False
    with r(1,3) complete body show ?thesis
      by (auto simp: buffered_view_def ingest_memory_body_def ingest_artifact_def view_payload_def
          ingest_stored_def Let_def split: option.splits)
  qed
  with r(2) body(1,3) complete that show thesis by blast
qed

lemma buffered_incomplete:
  assumes "buffered_reached contents selector limits input b" "\<not> buffered_complete b"
    and keep: "\<And>head. body_limits limits (selected_policy selector head) = limits"
  shows "parse_http_request input limits = Inr None" "buffered_view opts b = None"
proof -
  show "buffered_view opts b = None"
    using assms(2) by (auto simp: buffered_view_def buffered_complete_def split: option.splits)
  show "parse_http_request input limits = Inr None"
  proof (cases "bq_head b")
    case None
    with assms(1) show ?thesis by (simp add: buffered_reached_def parse_http_request_def)
  next
    case (Some head)
    with assms(1) keep obtain i where r: "parse_http_request_head input limits = Inr (Some head)"
      "bq_ingestor b = Some i" "ing_failure i = None" "dec_failure (make_body_decoder head limits) = None"
      "ingest_reached contents (make_body_decoder head limits)
         (policy_storage_mode (selected_policy selector head)) (drop (consumed_bytes head) input) i"
      by (auto simp: buffered_reached_def)
    from ingest_reached_body [OF r(5,4,3)] obtain n payload where
      "body_run (make_body_decoder head limits) (drop (consumed_bytes head) input) =
         (ing_decoder i, Inr (n, payload))"
      "ingest_complete i = (dec_phase (ing_decoder i) = Done)" by metis
    with parse_http_request_run [OF r(1)] assms(2) r(2) show ?thesis
      by (simp add: buffered_complete_def)
  qed
qed


definition sample_options :: io_options where
  "sample_options = \<lparr>io_stop_possible = True, io_deadline = Some 9\<rparr>"

definition sample_fragments :: "string list" where
  "sample_fragments = [''PUT / HTTP/1.1'' @ [CR, LF] @ ''Host: a'' @ [CR, LF] @ ''Content-Length: 2'' @ [CR, LF],
     [CR, LF] @ ''h'', ''i'']"


end
