(* ===== verification/Ring_Queue.thy ===== *)
theory Ring_Queue
  imports Prelude
begin

text \<open>
  The preallocated ring buffers of \<^verbatim>\<open>src/network/connection_dispatcher.cpp\<close>: a vector of optional
  connections with a head index and a count (\<^verbatim>\<open>ready_queue_\<close>, \<^verbatim>\<open>ready_head_\<close>, \<^verbatim>\<open>ready_count_\<close> and the
  same for \<^verbatim>\<open>accepted_queue_\<close>). The interface \<open>bounded_fifo\<close> is what the dispatcher relies on: a queue
  of bounded length; the ring implements it.
\<close>

section \<open>Interface\<close>

locale bounded_fifo =
  fixes put :: "'a \<Rightarrow> 'q \<Rightarrow> 'q"
    and pop :: "'q \<Rightarrow> ('a \<times> 'q) option"
    and contents :: "'q \<Rightarrow> 'a list"
    and limit :: "'q \<Rightarrow> nat"
    and ok :: "'q \<Rightarrow> bool"
  assumes contents_limit: "ok q \<Longrightarrow> length (contents q) \<le> limit q"
    and put_ok: "ok q \<Longrightarrow> length (contents q) < limit q \<Longrightarrow>
          ok (put x q) \<and> contents (put x q) = contents q @ [x] \<and> limit (put x q) = limit q"
    and pop_ok: "ok q \<Longrightarrow> contents q = x # xs \<Longrightarrow>
          \<exists>q'. pop q = Some (x, q') \<and> ok q' \<and> contents q' = xs \<and> limit q' = limit q"
begin

lemma put_all:
  assumes "ok q" "length (contents q) + length xs \<le> limit q"
  shows "ok (fold put xs q) \<and> contents (fold put xs q) = contents q @ xs \<and>
         limit (fold put xs q) = limit q"
  using assms
proof (induction xs arbitrary: q)
  case (Cons x xs)
  then have "ok (put x q) \<and> contents (put x q) = contents q @ [x] \<and> limit (put x q) = limit q"
    by (intro put_ok) auto
  with Cons.IH [of "put x q"] Cons.prems(2) show ?case by simp
qed simp

lemma pop_first:
  assumes "ok q" "contents q \<noteq> []" "pop q = Some (x, q')"
  shows "contents q = x # contents q' \<and> ok q' \<and> limit q' = limit q"
proof -
  from assms(2) obtain y ys where c: "contents q = y # ys" by (cases "contents q") auto
  from pop_ok [OF assms(1) c] assms(3) c show ?thesis by auto
qed

end

section \<open>Ring buffers\<close>

record 'a ring =
  slots :: "'a option list"
  ring_head :: nat
  ring_count :: nat

definition empty_ring :: "nat \<Rightarrow> 'a ring" where
  "empty_ring n = \<lparr>slots = replicate n None, ring_head = 0, ring_count = 0\<rparr>"

definition ring_put :: "'a \<Rightarrow> 'a ring \<Rightarrow> 'a ring" where
  "ring_put x r =
     r\<lparr>slots := (slots r)[(ring_head r + ring_count r) mod length (slots r) := Some x],
       ring_count := ring_count r + 1\<rparr>"

text \<open>\<^term>\<open>None\<close>: the source calls \<^verbatim>\<open>std::terminate\<close> on an empty head slot.\<close>

definition ring_pop :: "'a ring \<Rightarrow> ('a \<times> 'a ring) option" where
  "ring_pop r =
     (case slots r ! ring_head r of
        None \<Rightarrow> None
      | Some x \<Rightarrow>
          Some (x, r\<lparr>slots := (slots r)[ring_head r := None],
                     ring_head := (ring_head r + 1) mod length (slots r),
                     ring_count := ring_count r - 1\<rparr>))"

definition ring_clear :: "'a ring \<Rightarrow> 'a ring" where
  "ring_clear r = r\<lparr>slots := map (\<lambda>_. None) (slots r), ring_head := 0, ring_count := 0\<rparr>"

definition ring_slot :: "'a ring \<Rightarrow> nat \<Rightarrow> 'a option" where
  "ring_slot r k = slots r ! ((ring_head r + k) mod length (slots r))"

definition ring_contents :: "'a ring \<Rightarrow> 'a list" where
  "ring_contents r = map (\<lambda>k. the (ring_slot r k)) [0..<ring_count r]"

definition ring_ok :: "'a ring \<Rightarrow> bool" where
  "ring_ok r \<longleftrightarrow>
     ring_head r < length (slots r) \<and> ring_count r \<le> length (slots r) \<and>
     (\<forall>k<length (slots r). ring_slot r k \<noteq> None \<longleftrightarrow> k < ring_count r)"

lemma length_ring_contents [simp]: "length (ring_contents r) = ring_count r"
  by (simp add: ring_contents_def)

lemma ring_index_inj:
  "h < n \<Longrightarrow> k < n \<Longrightarrow> j < n \<Longrightarrow> (h + k) mod n = (h + j) mod n \<Longrightarrow> k = (j::nat)"
  by (auto simp: mod_if split: if_splits)

lemma empty_ring_ok: "0 < n \<Longrightarrow> ring_ok (empty_ring n) \<and> ring_contents (empty_ring n) = []"
  by (simp add: ring_ok_def empty_ring_def ring_slot_def ring_contents_def)

lemma ring_clear_ok: "ring_ok r \<Longrightarrow> ring_ok (ring_clear r) \<and> ring_contents (ring_clear r) = []"
  by (auto simp: ring_ok_def ring_clear_def ring_slot_def ring_contents_def)

lemma ring_put_slot:
  assumes "ring_ok r" "ring_count r < length (slots r)" "k < length (slots r)"
  shows "ring_slot (ring_put x r) k = (if k = ring_count r then Some x else ring_slot r k)"
proof -
  let ?n = "length (slots r)"
  have "0 < ?n" using assms(3) by linarith
  then have "(ring_head r + ring_count r) mod ?n < ?n" by simp
  moreover have "(ring_head r + ring_count r) mod ?n = (ring_head r + k) mod ?n \<longleftrightarrow> k = ring_count r"
    using assms ring_index_inj [of "ring_head r" ?n "ring_count r" k] by (auto simp: ring_ok_def)
  ultimately show ?thesis by (simp add: ring_slot_def ring_put_def nth_list_update)
qed

lemma ring_pop_slot:
  assumes "ring_ok r" "ring_pop r = Some (x, r')" "k < length (slots r)"
  shows "ring_slot r' k = (if Suc k = length (slots r) then None else ring_slot r (Suc k))"
proof -
  let ?n = "length (slots r)"
  from assms(2) have r': "slots r' = (slots r)[ring_head r := None]"
    "ring_head r' = (ring_head r + 1) mod ?n"
    by (auto simp: ring_pop_def split: option.splits)
  have i: "((ring_head r + 1) mod ?n + k) mod ?n = (ring_head r + Suc k) mod ?n"
    by (simp add: mod_add_left_eq)
  show ?thesis
  proof (cases "Suc k = ?n")
    case True
    with assms(1) have "(ring_head r + Suc k) mod ?n = ring_head r" by (simp add: ring_ok_def)
    with True i r' assms(1) show ?thesis by (simp add: ring_slot_def ring_ok_def)
  next
    case False
    have h: "ring_head r < ?n" using assms(1) by (simp add: ring_ok_def)
    with False assms(3) ring_index_inj [of "ring_head r" ?n "Suc k" 0]
    have "(ring_head r + Suc k) mod ?n \<noteq> (ring_head r + 0) mod ?n" by linarith
    with h have "(ring_head r + Suc k) mod ?n \<noteq> ring_head r" by simp
    with False i r' show ?thesis by (simp add: ring_slot_def)
  qed
qed

lemma ring_put_ok:
  assumes "ring_ok r" "ring_count r < length (slots r)"
  shows "ring_ok (ring_put x r) \<and> ring_contents (ring_put x r) = ring_contents r @ [x] \<and>
         length (slots (ring_put x r)) = length (slots r)"
proof -
  have s: "length (slots (ring_put x r)) = length (slots r)" "ring_head (ring_put x r) = ring_head r"
    "ring_count (ring_put x r) = ring_count r + 1"
    by (simp_all add: ring_put_def)
  have "ring_ok (ring_put x r)"
    using assms ring_put_slot [OF assms, of _ x] by (auto simp: ring_ok_def s less_Suc_eq)
  moreover have "ring_contents (ring_put x r) = ring_contents r @ [x]"
    using assms ring_put_slot [OF assms, of _ x] by (auto simp: ring_contents_def s)
  ultimately show ?thesis using s by blast
qed

lemma ring_pop_ok:
  assumes "ring_ok r" "ring_contents r = x # xs"
  shows "\<exists>r'. ring_pop r = Some (x, r') \<and> ring_ok r' \<and> ring_contents r' = xs \<and>
              length (slots r') = length (slots r)"
proof -
  have c: "0 < ring_count r"
    using assms(2) length_ring_contents [of r] by simp
  then obtain m where m: "ring_count r = Suc m" by (cases "ring_count r") auto
  have upt: "[0..<ring_count r] = 0 # map Suc [0..<ring_count r - 1]"
    unfolding m by (simp add: map_Suc_upt upt_conv_Cons del: upt_Suc)
  have "the (ring_slot r 0) = x" using assms(2) by (simp add: ring_contents_def upt)
  moreover have "ring_slot r 0 \<noteq> None"
    using assms(1) c unfolding ring_ok_def by (metis order_less_le_trans)
  ultimately have x: "ring_slot r 0 = Some x" by auto
  have "ring_slot r 0 = slots r ! ring_head r"
    using assms(1) by (simp add: ring_slot_def ring_ok_def)
  with x have "slots r ! ring_head r = Some x" by simp
  then obtain r' where pop: "ring_pop r = Some (x, r')"
    and s: "length (slots r') = length (slots r)" "ring_count r' = ring_count r - 1"
      "ring_head r' = (ring_head r + 1) mod length (slots r)"
    by (simp add: ring_pop_def)
  note slot = ring_pop_slot [OF assms(1) pop]
  have "0 < length (slots r)" using assms(1) by (auto simp: ring_ok_def)
  then have "ring_head r' < length (slots r)" by (simp add: s)
  with assms(1) c slot have "ring_ok r'" by (auto simp: ring_ok_def s(1,2))
  moreover have "ring_contents r' = map (\<lambda>k. the (ring_slot r (Suc k))) [0..<ring_count r - 1]"
    using assms(1) slot by (auto simp: ring_contents_def s ring_ok_def)
  moreover have "\<dots> = xs" using assms(2) by (simp add: ring_contents_def upt o_def)
  ultimately show ?thesis using pop s by blast
qed

interpretation ring: bounded_fifo ring_put ring_pop ring_contents "\<lambda>r. length (slots r)" ring_ok
proof unfold_locales
  fix q :: "'a ring"
  show "ring_ok q \<Longrightarrow> length (ring_contents q) \<le> length (slots q)" by (simp add: ring_ok_def)
qed (simp_all add: ring_put_ok ring_pop_ok)

end
