(* ===== verification/Connection_Dispatcher.thy ===== *)
theory Connection_Dispatcher
  imports Ring_Queue "HOL-Library.Multiset"
begin

text \<open>
  The bounded connection dispatcher, \<^verbatim>\<open>src/network/connection_dispatcher.cpp\<close>: producers submit
  accepted connections, an optional admission thread collects the first bytes of each, workers take
  ready connections. Every critical section of the source is one function here, and \<open>dispatcher_step\<close>
  is the interleaving of these sections by all threads. The connection that \<^verbatim>\<open>promote\<close> holds between
  leaving its admission slot and entering the ready queue is the field \<open>in_transit\<close>.

  A blocked wait is the outcome \<open>Blocked\<close>; \<^verbatim>\<open>std::terminate\<close> is the value \<^term>\<open>None\<close>. Results of
  \<^verbatim>\<open>receive_socket\<close> and the clock are arguments. Thread start, wake channel and poller are not modelled.
\<close>

section \<open>State\<close>

record connection =
  conn_id :: nat
  conn_open :: bool
  conn_accepted_at :: int
  conn_prefetched :: string
  conn_prefetched_offset :: nat
  conn_last_progress :: int

record admission_entry =
  entry_connection :: connection
  entry_prefix :: string
  entry_last_progress :: int
  entry_accepted :: int

record admission_options =
  max_prefix_bytes :: nat
  completion_marker :: string
  inactivity_timeout :: int
  total_timeout :: int

record dispatcher =
  admission_opts :: admission_options
  admission_enabled :: bool
  ready_queue :: "connection ring"
  accepted_queue :: "connection ring"
  admissions :: "admission_entry option list"
  in_transit :: "connection option"
  owned_count :: nat
  stopping :: bool

datatype dispatch_error =
  Invalid_worker_count | Invalid_pending_connection_limit | Missing_connection_handler |
  Invalid_connection | Dispatcher_stopped | Dispatch_cancelled | Worker_start_failed |
  Dispatch_allocation_failed | Invalid_admission_config | Admission_start_failed

datatype submit_outcome = Submitted | Blocked | Submit_failed dispatch_error

section \<open>Operations\<close>

definition create_dispatcher ::
    "nat \<Rightarrow> nat \<Rightarrow> bool \<Rightarrow> admission_options option \<Rightarrow> (dispatch_error, dispatcher) result" where
  "create_dispatcher worker_count pending_limit has_handler admission =
     (if worker_count = 0 then Inl Invalid_worker_count
      else if pending_limit = 0 then Inl Invalid_pending_connection_limit
      else if \<not> has_handler then Inl Missing_connection_handler
      else if (case admission of
                 None \<Rightarrow> False
               | Some a \<Rightarrow>
                   max_prefix_bytes a = 0 \<or> completion_marker a = [] \<or>
                   length (completion_marker a) > max_prefix_bytes a \<or>
                   inactivity_timeout a \<le> 0 \<or> total_timeout a \<le> 0)
      then Inl Invalid_admission_config
      else
        Inr \<lparr>admission_opts =
               (case admission of
                  Some a \<Rightarrow> a
                | None \<Rightarrow> \<lparr>max_prefix_bytes = 0, completion_marker = [],
                           inactivity_timeout = 0, total_timeout = 0\<rparr>),
             admission_enabled = (admission \<noteq> None),
             ready_queue = empty_ring pending_limit,
             accepted_queue = empty_ring pending_limit,
             admissions = (if admission \<noteq> None then replicate pending_limit None else []),
             in_transit = None, owned_count = 0, stopping = False\<rparr>)"

definition capacity :: "dispatcher \<Rightarrow> nat" where
  "capacity s = length (slots (ready_queue s))"

definition enqueue_ready :: "connection \<Rightarrow> dispatcher \<Rightarrow> dispatcher" where
  "enqueue_ready c s = s\<lparr>ready_queue := ring_put c (ready_queue s)\<rparr>"

definition submit :: "connection \<Rightarrow> bool \<Rightarrow> bool \<Rightarrow> dispatcher \<Rightarrow> dispatcher \<times> submit_outcome" where
  "submit c stop_before stop_waiting s =
     (if \<not> conn_open c then (s, Submit_failed Invalid_connection)
      else if stop_before then (s, Submit_failed Dispatch_cancelled)
      else if \<not> (stopping s \<or> owned_count s < capacity s)
      then (s, if stop_waiting then Submit_failed Dispatch_cancelled else Blocked)
      else if stopping s then (s, Submit_failed Dispatcher_stopped)
      else
        (let s1 = s\<lparr>owned_count := owned_count s + 1\<rparr> in
         if admission_enabled s
         then (s1\<lparr>accepted_queue := ring_put c (accepted_queue s1)\<rparr>, Submitted)
         else (enqueue_ready c s1, Submitted)))"

definition request_stop :: "dispatcher \<Rightarrow> dispatcher" where
  "request_stop s =
     (if stopping s then s
      else s\<lparr>stopping := True, ready_queue := ring_clear (ready_queue s),
             accepted_queue := ring_clear (accepted_queue s), owned_count := 0\<rparr>)"

definition dequeue :: "dispatcher \<Rightarrow> (connection \<times> dispatcher) option" where
  "dequeue s =
     (case ring_pop (ready_queue s) of
        None \<Rightarrow> None
      | Some (c, r) \<Rightarrow> Some (c, s\<lparr>ready_queue := r, owned_count := owned_count s - 1\<rparr>))"

text \<open>One round of \<^verbatim>\<open>worker_loop\<close>: the wait condition, the stop check and the dequeue.\<close>

datatype worker_outcome = Worker_waits | Worker_exits | Worker_terminates | Worker_takes connection

definition worker_round :: "bool \<Rightarrow> dispatcher \<Rightarrow> dispatcher \<times> worker_outcome" where
  "worker_round stop_requested s =
     (if \<not> (stopping s \<or> ring_count (ready_queue s) > 0)
      then (s, if stop_requested then Worker_exits else Worker_waits)
      else if stopping s then (s, Worker_exits)
      else (case dequeue s of
              None \<Rightarrow> (s, Worker_terminates)
            | Some (c, s') \<Rightarrow> (s', Worker_takes c)))"

text \<open>What a worker reports about the handler it ran; the observer is present or not.\<close>

datatype 'e handler_result = Handler_returned | Handler_failed 'e | Handler_threw

datatype 'e connection_failure = Handler_error 'e | Handler_exception

definition notify_failure :: "bool \<Rightarrow> 'e connection_failure \<Rightarrow> 'e connection_failure list" where
  "notify_failure has_observer failure = (if \<not> has_observer then [] else [failure])"

definition process :: "bool \<Rightarrow> (connection \<Rightarrow> 'e handler_result) \<Rightarrow> connection \<Rightarrow> 'e connection_failure list" where
  "process has_observer handler c =
     (case handler c of
        Handler_returned \<Rightarrow> []
      | Handler_failed e \<Rightarrow> notify_failure has_observer (Handler_error e)
      | Handler_threw \<Rightarrow> notify_failure has_observer Handler_exception)"

lemma ring_pop_count: "ring_pop r = Some (c, r') \<Longrightarrow> ring_count r' = ring_count r - 1"
  by (auto simp: ring_pop_def split: option.splits)

function drain_loop :: "dispatcher \<Rightarrow> dispatcher option" where
  "drain_loop s =
     (if ring_count (accepted_queue s) > 0 then
        (case find_index (\<lambda>e. e = None) (admissions s) of
           None \<Rightarrow> None
         | Some i \<Rightarrow>
             (case ring_pop (accepted_queue s) of
                None \<Rightarrow> None
              | Some (c, r) \<Rightarrow>
                  drain_loop
                    (s\<lparr>admissions := (admissions s)[i := Some
                         \<lparr>entry_connection = c, entry_prefix = [],
                          entry_last_progress = conn_accepted_at c,
                          entry_accepted = conn_accepted_at c\<rparr>],
                       accepted_queue := r\<rparr>)))
      else Some s)"
  by pat_completeness auto
termination
  by (relation "measure (\<lambda>s. ring_count (accepted_queue s))") (auto dest: ring_pop_count)

declare drain_loop.simps [simp del]

definition drain_accepted :: "dispatcher \<Rightarrow> (dispatcher \<times> bool) option" where
  "drain_accepted s =
     (if stopping s then Some (s, False)
      else (case drain_loop s of None \<Rightarrow> None | Some s' \<Rightarrow> Some (s', True)))"

definition entry_deadline :: "admission_options \<Rightarrow> admission_entry \<Rightarrow> int" where
  "entry_deadline opts e =
     min (entry_last_progress e + inactivity_timeout opts) (entry_accepted e + total_timeout opts)"

definition next_admission_deadline :: "dispatcher \<Rightarrow> int option" where
  "next_admission_deadline s =
     foldl (\<lambda>result entry.
        case entry of
          None \<Rightarrow> result
        | Some e \<Rightarrow>
            (case result of
               None \<Rightarrow> Some (entry_deadline (admission_opts s) e)
             | Some d \<Rightarrow> Some (min d (entry_deadline (admission_opts s) e)))) None (admissions s)"

definition prepare_admission_poll :: "dispatcher \<Rightarrow> nat list" where
  "prepare_admission_poll s = filter (\<lambda>i. admissions s ! i \<noteq> None) [0..<length (admissions s)]"

definition promote_take :: "nat \<Rightarrow> dispatcher \<Rightarrow> dispatcher" where
  "promote_take i s =
     (case admissions s ! i of
        None \<Rightarrow> s
      | Some e \<Rightarrow>
          s\<lparr>admissions := (admissions s)[i := None],
            in_transit := Some ((entry_connection e)
              \<lparr>conn_prefetched := entry_prefix e, conn_prefetched_offset := 0\<rparr>)\<rparr>)"

definition promote_put :: "dispatcher \<Rightarrow> dispatcher" where
  "promote_put s =
     (case in_transit s of
        None \<Rightarrow> s
      | Some c \<Rightarrow>
          (let s1 = s\<lparr>in_transit := None\<rparr> in
           if stopping s1 then s1 else enqueue_ready c s1))"

definition promote :: "nat \<Rightarrow> dispatcher \<Rightarrow> dispatcher" where
  "promote i s = promote_put (promote_take i s)"

definition prefix_complete :: "admission_options \<Rightarrow> string \<Rightarrow> nat \<Rightarrow> bool" where
  "prefix_complete opts pre previous_size =
     (let overlap = size_sub (length (completion_marker opts)) 1;
          search_from = (if previous_size > overlap then previous_size - overlap else 0)
      in sv_find_sub (completion_marker opts) pre search_from \<noteq> None)"

definition admission_append :: "nat \<Rightarrow> string \<Rightarrow> int \<Rightarrow> dispatcher \<Rightarrow> dispatcher" where
  "admission_append i bytes now s =
     (case admissions s ! i of
        None \<Rightarrow> s
      | Some e \<Rightarrow>
          (if bytes = [] then s
           else s\<lparr>admissions := (admissions s)[i := Some
                    (e\<lparr>entry_prefix := entry_prefix e @ bytes, entry_last_progress := now,
                       entry_connection := (entry_connection e)\<lparr>conn_last_progress := now\<rparr>\<rparr>)]\<rparr>))"

datatype receive_outcome = Received string | Interrupted | Would_block | Receive_failed

text \<open>The results of the successive \<^verbatim>\<open>receive_socket\<close> calls, read until one is not an interruption.\<close>

fun inspect_admission :: "nat \<Rightarrow> receive_outcome list \<Rightarrow> int \<Rightarrow> dispatcher \<Rightarrow> dispatcher" where
  "inspect_admission i [] now s = s"
| "inspect_admission i (outcome # outcomes) now s =
     (case admissions s ! i of
        None \<Rightarrow> s
      | Some e \<Rightarrow>
          (case outcome of
             Received bytes \<Rightarrow>
               (let s1 = admission_append i bytes now s;
                    pre = entry_prefix e @ bytes
                in if bytes = [] \<or> length pre = max_prefix_bytes (admission_opts s) \<or>
                      prefix_complete (admission_opts s) pre (length (entry_prefix e))
                   then promote i s1 else s1)
           | Interrupted \<Rightarrow> inspect_admission i outcomes now s
           | Would_block \<Rightarrow> s
           | Receive_failed \<Rightarrow> promote i s))"

definition admission_expired :: "admission_options \<Rightarrow> int \<Rightarrow> admission_entry \<Rightarrow> bool" where
  "admission_expired opts now e \<longleftrightarrow>
     now \<ge> entry_last_progress e + inactivity_timeout opts \<or>
     now \<ge> entry_accepted e + total_timeout opts"

definition promote_expired :: "int \<Rightarrow> dispatcher \<Rightarrow> dispatcher" where
  "promote_expired now s =
     fold (\<lambda>i s. case admissions s ! i of
                    Some e \<Rightarrow> (if admission_expired (admission_opts s) now e then promote i s else s)
                  | None \<Rightarrow> s) [0..<length (admissions s)] s"

definition promote_all_admissions :: "dispatcher \<Rightarrow> dispatcher" where
  "promote_all_admissions s = fold promote [0..<length (admissions s)] s"

text \<open>
  One round of \<^verbatim>\<open>admission_loop\<close> after the poll list was built: either the poll failed, or it reports
  per polled slot whether the socket has an event, with the results of receiving from it.
\<close>

definition process_admission_events ::
    "(nat \<times> bool \<times> receive_outcome list \<times> int) list \<Rightarrow> int \<Rightarrow> dispatcher \<Rightarrow> dispatcher" where
  "process_admission_events events now s =
     promote_expired now
       (fold (\<lambda>(i, ready, outcomes, t) s. if ready then inspect_admission i outcomes t s else s) events s)"

definition clear_admissions :: "dispatcher \<Rightarrow> dispatcher" where
  "clear_admissions s = s\<lparr>admissions := map (\<lambda>_. None) (admissions s)\<rparr>"

definition admission_round ::
    "(nat list \<Rightarrow> int option \<Rightarrow> (nat \<times> bool \<times> receive_outcome list \<times> int) list option) \<Rightarrow> int \<Rightarrow> bool \<Rightarrow>
     dispatcher \<Rightarrow> (dispatcher \<times> bool) option" where
  "admission_round poll now stop_requested s =
     (if stop_requested then Some (clear_admissions s, False)
      else (case drain_accepted s of
              None \<Rightarrow> None
            | Some (s1, False) \<Rightarrow> Some (clear_admissions s1, False)
            | Some (s1, True) \<Rightarrow>
                (case poll (prepare_admission_poll s1) (next_admission_deadline s1) of
                   None \<Rightarrow> Some (promote_all_admissions s1, True)
                 | Some events \<Rightarrow> Some (process_admission_events events now s1, True))))"

section \<open>Interleaving\<close>

datatype dispatcher_event =
  Submit_event connection | Take_event connection | Internal_event | Stop_event

inductive dispatcher_step :: "dispatcher \<Rightarrow> dispatcher_event \<Rightarrow> dispatcher \<Rightarrow> bool" where
  step_submit: "submit c False stop_waiting s = (s', Submitted) \<Longrightarrow>
    dispatcher_step s (Submit_event c) s'"
| step_take: "worker_round stop_requested s = (s', Worker_takes c) \<Longrightarrow>
    dispatcher_step s (Take_event c) s'"
| step_drain: "in_transit s = None \<Longrightarrow> admission_enabled s \<Longrightarrow> drain_accepted s = Some (s', b) \<Longrightarrow>
    dispatcher_step s Internal_event s'"
| step_receive: "in_transit s = None \<Longrightarrow> i < length (admissions s) \<Longrightarrow>
    dispatcher_step s Internal_event (admission_append i bytes now s)"
| step_promote_take: "in_transit s = None \<Longrightarrow> i < length (admissions s) \<Longrightarrow>
    dispatcher_step s Internal_event (promote_take i s)"
| step_promote_put: "dispatcher_step s Internal_event (promote_put s)"
| step_stop: "dispatcher_step s Stop_event (request_stop s)"
| step_clear: "in_transit s = None \<Longrightarrow> stopping s \<Longrightarrow>
    dispatcher_step s Internal_event (clear_admissions s)"

inductive dispatcher_run :: "dispatcher \<Rightarrow> dispatcher_event list \<Rightarrow> dispatcher \<Rightarrow> bool" where
  run_nil: "dispatcher_run s [] s"
| run_snoc: "dispatcher_run s es s1 \<Longrightarrow> dispatcher_step s1 e s2 \<Longrightarrow> dispatcher_run s (es @ [e]) s2"

inductive_cases run_snocE: "dispatcher_run s (es @ [e]) s2"

section \<open>Ownership\<close>

text \<open>The connections the dispatcher owns, by identity, over all its stages.\<close>

definition slot_ids :: "admission_entry option \<Rightarrow> nat multiset" where
  "slot_ids e = (case e of None \<Rightarrow> {#} | Some e \<Rightarrow> {#conn_id (entry_connection e)#})"

definition transit_ids :: "connection option \<Rightarrow> nat multiset" where
  "transit_ids c = (case c of None \<Rightarrow> {#} | Some c \<Rightarrow> {#conn_id c#})"

definition ring_ids :: "connection ring \<Rightarrow> nat multiset" where
  "ring_ids r = mset (map conn_id (ring_contents r))"

definition owned_ids :: "dispatcher \<Rightarrow> nat multiset" where
  "owned_ids s =
     ring_ids (ready_queue s) + ring_ids (accepted_queue s) +
     sum_list (map slot_ids (admissions s)) + transit_ids (in_transit s)"

definition dispatcher_ok :: "dispatcher \<Rightarrow> bool" where
  "dispatcher_ok s \<longleftrightarrow>
     ring_ok (ready_queue s) \<and> ring_ok (accepted_queue s) \<and>
     length (slots (accepted_queue s)) = capacity s \<and>
     (if admission_enabled s then length (admissions s) = capacity s
      else admissions s = [] \<and> in_transit s = None \<and> ring_contents (accepted_queue s) = []) \<and>
     (if stopping s
      then owned_count s = 0 \<and> ring_contents (ready_queue s) = [] \<and> ring_contents (accepted_queue s) = []
      else owned_count s = size (owned_ids s) \<and> owned_count s \<le> capacity s)"

lemma sum_list_update:
  "i < length xs \<Longrightarrow> sum_list (map f (xs[i := x])) + f (xs ! i) = sum_list (map f xs) + f x"
  for f :: "'a \<Rightarrow> 'b::comm_monoid_add"
proof (induction xs arbitrary: i)
  case (Cons y ys)
  then show ?case by (cases i) (auto simp: ac_simps)
qed simp

lemma admissions_update:
  assumes "i < length es"
  shows "sum_list (map slot_ids (es[i := x])) + slot_ids (es ! i) = sum_list (map slot_ids es) + slot_ids x"
  using assms by (rule sum_list_update)

lemma size_slot_ids: "size (sum_list (map slot_ids es)) = length (filter (\<lambda>e. e \<noteq> None) es)"
  by (induction es) (auto simp: slot_ids_def)

lemma ring_ids_size [simp]: "size (ring_ids r) = ring_count r"
  by (simp add: ring_ids_def)

lemma ring_put_ids:
  assumes "ring_ok r" "ring_count r < length (slots r)"
  shows "ring_ok (ring_put c r) \<and> ring_ids (ring_put c r) = add_mset (conn_id c) (ring_ids r) \<and>
         length (slots (ring_put c r)) = length (slots r)"
  using ring_put_ok [OF assms, of c] by (simp add: ring_ids_def)

lemma ring_pop_ids:
  assumes "ring_ok r" "0 < ring_count r"
  obtains c r' where "ring_pop r = Some (c, r')" "ring_ok r'" "ring_contents r = c # ring_contents r'"
    "ring_ids r = add_mset (conn_id c) (ring_ids r')" "length (slots r') = length (slots r)"
proof -
  obtain c cs where c: "ring_contents r = c # cs"
    using assms(2) length_ring_contents [of r] by (cases "ring_contents r") auto
  with ring_pop_ok [OF assms(1) c] that show thesis by (auto simp: ring_ids_def)
qed

lemma free_slot_exists:
  assumes "length (filter (\<lambda>e. e \<noteq> None) es) < length es"
  obtains i where "find_index (\<lambda>e. e = None) es = Some i" "i < length es" "es ! i = None"
proof -
  have "\<not> (\<forall>e\<in>set es. e \<noteq> None)"
  proof
    assume "\<forall>e\<in>set es. e \<noteq> None"
    then have "filter (\<lambda>e. e \<noteq> None) es = es" by (rule filter_True)
    with assms show False by simp
  qed
  then have "find_index (\<lambda>e. e = None) es \<noteq> None" by (simp add: find_index_None_iff)
  then obtain i where "find_index (\<lambda>e. e = None) es = Some i" by auto
  with that [of i] show thesis by (simp add: find_index_Some_iff)
qed

lemma size_owned_ids:
  "size (owned_ids s) =
     ring_count (ready_queue s) + ring_count (accepted_queue s) +
     length (filter (\<lambda>e. e \<noteq> None) (admissions s)) + (if in_transit s = None then 0 else 1)"
  by (simp add: owned_ids_def size_slot_ids transit_ids_def split: option.splits)

lemma drain_loop_ok:
  assumes "dispatcher_ok s" "\<not> stopping s" "admission_enabled s"
  shows "\<exists>s'. drain_loop s = Some s' \<and> dispatcher_ok s' \<and> owned_ids s' = owned_ids s \<and>
           ring_count (accepted_queue s') = 0 \<and> capacity s' = capacity s \<and> \<not> stopping s' \<and>
           admission_enabled s' \<and> in_transit s' = in_transit s \<and> owned_count s' = owned_count s \<and>
           admission_opts s' = admission_opts s"
  using assms
proof (induction s rule: drain_loop.induct)
  case (1 s)
  show ?case
  proof (cases "ring_count (accepted_queue s) > 0")
    case False
    with 1 show ?thesis by (simp add: drain_loop.simps)
  next
    case True
    have len: "length (admissions s) = capacity s" "ring_ok (accepted_queue s)"
      "size (owned_ids s) \<le> capacity s"
      using "1.prems" by (auto simp: dispatcher_ok_def)
    then have "length (filter (\<lambda>e. e \<noteq> None) (admissions s)) < length (admissions s)"
      using True by (simp add: size_owned_ids)
    then obtain i where i: "find_index (\<lambda>e. e = None) (admissions s) = Some i"
      "i < length (admissions s)" "admissions s ! i = None" by (rule free_slot_exists)
    obtain c r where r: "ring_pop (accepted_queue s) = Some (c, r)" "ring_ok r"
      "ring_contents (accepted_queue s) = c # ring_contents r"
      "ring_ids (accepted_queue s) = add_mset (conn_id c) (ring_ids r)"
      "length (slots r) = length (slots (accepted_queue s))"
      by (rule ring_pop_ids [OF len(2) True])
    let ?e = "\<lparr>entry_connection = c, entry_prefix = [], entry_last_progress = conn_accepted_at c,
        entry_accepted = conn_accepted_at c\<rparr>"
    let ?s = "s\<lparr>admissions := (admissions s)[i := Some ?e], accepted_queue := r\<rparr>"
    have ids: "owned_ids ?s = owned_ids s"
      using admissions_update [OF i(2), of "Some ?e"] i(3) r(4)
      by (simp add: owned_ids_def slot_ids_def)
    have ok: "dispatcher_ok ?s"
      using "1.prems" len r ids by (simp add: dispatcher_ok_def capacity_def)
    from "1.IH" [OF True i(1) r(1) refl ok] "1.prems" ids r(1) i(1) True show ?thesis
      by (subst drain_loop.simps) (simp add: capacity_def)
  qed
qed

lemma submit_ok:
  assumes "submit c stop_before stop_waiting s = (s', Submitted)" "dispatcher_ok s"
  shows "dispatcher_ok s' \<and> capacity s' = capacity s \<and> \<not> stopping s \<and> \<not> stopping s' \<and>
         owned_ids s' = add_mset (conn_id c) (owned_ids s)"
proof -
  have room: "\<not> stopping s" "owned_count s < capacity s"
    using assms(1) by (auto simp: submit_def Let_def split: if_splits)
  have s: "owned_count s = size (owned_ids s)" "ring_ok (ready_queue s)" "ring_ok (accepted_queue s)"
    "length (slots (accepted_queue s)) = capacity s"
    using assms(2) room by (auto simp: dispatcher_ok_def)
  then have "ring_count (ready_queue s) < length (slots (ready_queue s))"
    "ring_count (accepted_queue s) < length (slots (accepted_queue s))"
    using room by (simp_all add: size_owned_ids capacity_def)
  note put = ring_put_ids [OF s(2) this(1), of c] ring_put_ids [OF s(3) this(2), of c]
  show ?thesis
  proof (cases "admission_enabled s")
    case True
    with assms(1) room have s': "s' = s\<lparr>owned_count := owned_count s + 1,
        accepted_queue := ring_put c (accepted_queue s)\<rparr>"
      by (auto simp: submit_def Let_def split: if_splits)
    have "owned_ids s' = add_mset (conn_id c) (owned_ids s)" using put by (simp add: s' owned_ids_def)
    with True assms(2) room put s show ?thesis by (simp add: s' dispatcher_ok_def capacity_def)
  next
    case False
    with assms(1) room have s': "s' = s\<lparr>owned_count := owned_count s + 1,
        ready_queue := ring_put c (ready_queue s)\<rparr>"
      by (auto simp: submit_def enqueue_ready_def Let_def split: if_splits)
    have "owned_ids s' = add_mset (conn_id c) (owned_ids s)" using put by (simp add: s' owned_ids_def)
    with False assms(2) room put s show ?thesis by (simp add: s' dispatcher_ok_def capacity_def)
  qed
qed

lemma worker_round_ok:
  assumes "dispatcher_ok s" "\<not> stopping s" "0 < ring_count (ready_queue s)"
  obtains c s' where "worker_round stop_requested s = (s', Worker_takes c)" "dispatcher_ok s'"
    "capacity s' = capacity s" "\<not> stopping s'" "owned_ids s = add_mset (conn_id c) (owned_ids s')"
    "ring_contents (ready_queue s) = c # ring_contents (ready_queue s')"
    "admission_enabled s' = admission_enabled s"
proof -
  have "ring_ok (ready_queue s)" using assms(1) by (simp add: dispatcher_ok_def)
  then obtain c r where r: "ring_pop (ready_queue s) = Some (c, r)" "ring_ok r"
    "ring_contents (ready_queue s) = c # ring_contents r"
    "ring_ids (ready_queue s) = add_mset (conn_id c) (ring_ids r)"
    "length (slots r) = length (slots (ready_queue s))"
    by (rule ring_pop_ids [OF _ assms(3)])
  let ?s = "s\<lparr>ready_queue := r, owned_count := owned_count s - 1\<rparr>"
  have ids: "owned_ids s = add_mset (conn_id c) (owned_ids ?s)" using r by (simp add: owned_ids_def)
  then have "size (owned_ids s) = Suc (size (owned_ids ?s))" by simp
  moreover have "owned_count s = size (owned_ids s)" "owned_count s \<le> capacity s"
    using assms(1,2) by (simp_all add: dispatcher_ok_def)
  ultimately have "owned_count ?s = size (owned_ids ?s)" "owned_count ?s \<le> capacity ?s"
    using r(5) by (simp_all add: capacity_def)
  with assms r have "dispatcher_ok ?s" by (simp add: dispatcher_ok_def capacity_def)
  with assms r ids that [of ?s c] show thesis by (simp add: worker_round_def dequeue_def capacity_def)
qed

text \<open>What the admission thread does to its own slots changes neither the counts nor the ownership.\<close>

definition same_owner :: "dispatcher \<Rightarrow> dispatcher \<Rightarrow> bool" where
  "same_owner s s' \<longleftrightarrow>
     dispatcher_ok s' \<and> capacity s' = capacity s \<and> stopping s' = stopping s \<and>
     admission_enabled s' = admission_enabled s \<and> owned_count s' = owned_count s \<and>
     admission_opts s' = admission_opts s \<and>
     (\<not> stopping s \<longrightarrow> owned_ids s' = owned_ids s) \<and>
     (\<not> admission_enabled s \<longrightarrow> ready_queue s' = ready_queue s)"

lemma same_owner_refl: "dispatcher_ok s \<Longrightarrow> same_owner s s"
  by (simp add: same_owner_def)

lemma same_owner_trans: "same_owner s s1 \<Longrightarrow> same_owner s1 s2 \<Longrightarrow> same_owner s s2"
  by (auto simp: same_owner_def)

lemma slots_update_owner:
  assumes "dispatcher_ok s" "i < length (admissions s)"
    and "slot_ids (admissions s ! i) + transit_ids (in_transit s) = slot_ids e + transit_ids c"
  shows "same_owner s (s\<lparr>admissions := (admissions s)[i := e], in_transit := c\<rparr>)"
proof -
  let ?s = "s\<lparr>admissions := (admissions s)[i := e], in_transit := c\<rparr>"
  have "sum_list (map slot_ids ((admissions s)[i := e])) + transit_ids c + slot_ids (admissions s ! i) =
      sum_list (map slot_ids (admissions s)) + transit_ids (in_transit s) + slot_ids (admissions s ! i)"
    using admissions_update [OF assms(2), of e] assms(3)
    by (metis (no_types, lifting) add.assoc add.commute)
  then have "owned_ids ?s = owned_ids s" by (simp add: owned_ids_def ac_simps)
  then show ?thesis using assms(1,2)
    by (auto simp: same_owner_def dispatcher_ok_def capacity_def split: if_splits)
qed

lemma promote_take_owner:
  assumes "dispatcher_ok s" "in_transit s = None" "i < length (admissions s)"
  shows "same_owner s (promote_take i s)"
proof (cases "admissions s ! i")
  case None
  then show ?thesis using assms by (simp add: promote_take_def same_owner_refl)
next
  case (Some e)
  then show ?thesis
    using slots_update_owner [OF assms(1,3), of None "Some ((entry_connection e)
        \<lparr>conn_prefetched := entry_prefix e, conn_prefetched_offset := 0\<rparr>)"] assms(2)
    by (simp add: promote_take_def slot_ids_def transit_ids_def)
qed

lemma admission_append_owner:
  assumes "dispatcher_ok s" "i < length (admissions s)"
  shows "same_owner s (admission_append i bytes now s)"
proof (cases "admissions s ! i = None \<or> bytes = []")
  case True
  then show ?thesis using assms by (auto simp: admission_append_def same_owner_refl split: option.splits)
next
  case False
  then obtain e where e: "admissions s ! i = Some e" "bytes \<noteq> []" by auto
  let ?e = "e\<lparr>entry_prefix := entry_prefix e @ bytes, entry_last_progress := now,
      entry_connection := (entry_connection e)\<lparr>conn_last_progress := now\<rparr>\<rparr>"
  show ?thesis
    using slots_update_owner [OF assms, of "Some ?e" "in_transit s"] e
    by (simp add: admission_append_def slot_ids_def)
qed

lemma promote_put_owner:
  assumes "dispatcher_ok s"
  shows "same_owner s (promote_put s)"
proof (cases "in_transit s")
  case None
  then show ?thesis using assms by (simp add: promote_put_def same_owner_refl)
next
  case (Some c)
  show ?thesis
  proof (cases "stopping s")
    case True
    with Some assms show ?thesis
      by (auto simp: promote_put_def Let_def same_owner_def dispatcher_ok_def capacity_def
          split: if_splits)
  next
    case False
    have en: "admission_enabled s" using assms Some by (auto simp: dispatcher_ok_def split: if_splits)
    have "size (owned_ids s) \<le> capacity s" "ring_ok (ready_queue s)"
      using assms False by (auto simp: dispatcher_ok_def)
    then have "ring_count (ready_queue s) < length (slots (ready_queue s))"
      using Some by (simp add: size_owned_ids capacity_def)
    note put = ring_put_ids [OF \<open>ring_ok (ready_queue s)\<close> this, of c]
    let ?s = "s\<lparr>in_transit := None, ready_queue := ring_put c (ready_queue s)\<rparr>"
    have s: "promote_put s = ?s" using Some False by (simp add: promote_put_def enqueue_ready_def Let_def)
    have "owned_ids ?s = owned_ids s" using put Some by (simp add: owned_ids_def transit_ids_def)
    with assms False en put show ?thesis
      by (auto simp: s same_owner_def dispatcher_ok_def capacity_def)
  qed
qed

lemma drain_accepted_owner:
  assumes "dispatcher_ok s" "admission_enabled s"
  obtains s' where "drain_accepted s = Some (s', \<not> stopping s)" "same_owner s s'"
    "in_transit s' = in_transit s" "ring_count (accepted_queue s') = 0"
proof (cases "stopping s")
  case True
  then have "ring_count (accepted_queue s) = 0"
    using assms(1) length_ring_contents [of "accepted_queue s"] by (simp add: dispatcher_ok_def)
  with True that [of s] assms show thesis by (simp add: drain_accepted_def same_owner_refl)
next
  case False
  with drain_loop_ok [OF assms(1) _ assms(2)] obtain s' where "drain_loop s = Some s'"
    "dispatcher_ok s'" "owned_ids s' = owned_ids s" "ring_count (accepted_queue s') = 0"
    "capacity s' = capacity s" "\<not> stopping s'" "admission_enabled s'" "in_transit s' = in_transit s"
    "owned_count s' = owned_count s" "admission_opts s' = admission_opts s" by auto
  with False assms that [of s'] show thesis by (simp add: drain_accepted_def same_owner_def)
qed

lemma request_stop_ok:
  "dispatcher_ok s \<Longrightarrow> dispatcher_ok (request_stop s) \<and> capacity (request_stop s) = capacity s"
  using ring_clear_ok [of "ready_queue s"] ring_clear_ok [of "accepted_queue s"]
  by (auto simp: request_stop_def dispatcher_ok_def capacity_def ring_clear_def split: if_splits)

lemma clear_admissions_owner:
  "dispatcher_ok s \<Longrightarrow> stopping s \<Longrightarrow> same_owner s (clear_admissions s)"
  by (auto simp: clear_admissions_def same_owner_def dispatcher_ok_def capacity_def split: if_splits)

text \<open>What one step does to the owned connections.\<close>

fun conserves :: "dispatcher_event \<Rightarrow> dispatcher \<Rightarrow> dispatcher \<Rightarrow> bool" where
  "conserves (Submit_event c) s s' \<longleftrightarrow> owned_ids s' = add_mset (conn_id c) (owned_ids s)"
| "conserves (Take_event c) s s' \<longleftrightarrow> owned_ids s = add_mset (conn_id c) (owned_ids s')"
| "conserves Internal_event s s' \<longleftrightarrow> owned_ids s' = owned_ids s"
| "conserves Stop_event s s' \<longleftrightarrow> False"

fun fifo_step :: "dispatcher_event \<Rightarrow> connection list \<Rightarrow> connection list \<Rightarrow> bool" where
  "fifo_step (Submit_event c) q q' \<longleftrightarrow> q' = q @ [c]"
| "fifo_step (Take_event c) q q' \<longleftrightarrow> q = c # q'"
| "fifo_step Internal_event q q' \<longleftrightarrow> q' = q"
| "fifo_step Stop_event q q' \<longleftrightarrow> False"

lemma internal_ok:
  assumes "same_owner s s'"
  shows "dispatcher_ok s' \<and> capacity s' = capacity s \<and>
    (\<not> stopping s' \<longrightarrow> \<not> stopping s \<and> conserves Internal_event s s') \<and>
    admission_enabled s' = admission_enabled s \<and>
    (\<not> admission_enabled s \<longrightarrow>
      (\<not> stopping s' \<longrightarrow> fifo_step Internal_event (ring_contents (ready_queue s)) (ring_contents (ready_queue s'))))"
  using assms by (auto simp: same_owner_def)

lemma submit_fifo:
  assumes "submit c stop_before stop_waiting s = (s', Submitted)" "dispatcher_ok s" "\<not> admission_enabled s"
  shows "ring_contents (ready_queue s') = ring_contents (ready_queue s) @ [c] \<and> \<not> admission_enabled s'"
proof -
  have "\<not> stopping s" "owned_count s < capacity s" "s' = s\<lparr>owned_count := owned_count s + 1,
        ready_queue := ring_put c (ready_queue s)\<rparr>"
    using assms(1,3) by (auto simp: submit_def enqueue_ready_def Let_def split: if_splits)
  moreover from this assms(2) have "ring_count (ready_queue s) < length (slots (ready_queue s))"
    "ring_ok (ready_queue s)" by (auto simp: dispatcher_ok_def size_owned_ids capacity_def)
  ultimately show ?thesis using ring_put_ok [of "ready_queue s" c] assms(3) by simp
qed

lemma step_ok:
  assumes "dispatcher_step s e s'" "dispatcher_ok s"
  shows "dispatcher_ok s' \<and> capacity s' = capacity s \<and>
    (\<not> stopping s' \<longrightarrow> \<not> stopping s \<and> conserves e s s') \<and>
    admission_enabled s' = admission_enabled s \<and>
    (\<not> admission_enabled s \<longrightarrow>
      (\<not> stopping s' \<longrightarrow> fifo_step e (ring_contents (ready_queue s)) (ring_contents (ready_queue s'))))"
  using assms(1)
proof cases
  case (step_submit c stop_waiting)
  moreover from this have "admission_enabled s' = admission_enabled s"
    by (auto simp: submit_def enqueue_ready_def Let_def split: if_splits)
  ultimately show ?thesis
    using submit_ok [of c False stop_waiting s s'] submit_fifo [of c False stop_waiting s s'] assms(2)
    by auto
next
  case (step_take stop_requested c)
  then have "\<not> stopping s" "0 < ring_count (ready_queue s)"
    by (auto simp: worker_round_def split: if_splits)
  then show ?thesis
    using step_take assms(2) by (auto elim!: worker_round_ok [of s stop_requested])
next
  case (step_drain b)
  from drain_accepted_owner [OF assms(2) step_drain(3)] step_drain(4) have "same_owner s s'"
    by (metis option.inject prod.inject)
  then show ?thesis unfolding step_drain(1) by (rule internal_ok)
next
  case (step_receive i bytes now)
  show ?thesis unfolding step_receive(1,2)
    by (rule internal_ok [OF admission_append_owner]) (use step_receive assms(2) in simp_all)
next
  case (step_promote_take i)
  show ?thesis unfolding step_promote_take(1,2)
    by (rule internal_ok [OF promote_take_owner]) (use step_promote_take assms(2) in simp_all)
next
  case step_promote_put
  show ?thesis unfolding step_promote_put(1,2)
    by (rule internal_ok [OF promote_put_owner]) (rule assms(2))
next
  case step_stop
  then show ?thesis using request_stop_ok [OF assms(2)]
    by (auto simp: request_stop_def split: if_splits)
next
  case step_clear
  show ?thesis unfolding step_clear(1,2)
    by (rule internal_ok [OF clear_admissions_owner]) (use step_clear assms(2) in simp_all)
qed

lemma run_ok:
  assumes "dispatcher_run s0 es s" "dispatcher_ok s0"
  shows "dispatcher_ok s \<and> capacity s = capacity s0 \<and> admission_enabled s = admission_enabled s0"
  using assms by (induction rule: dispatcher_run.induct) (auto dest: step_ok)

lemma no_slot_ids [simp]: "sum_list (replicate n {#}) = {#}"
  by (induction n) auto

lemma create_dispatcher_ok:
  assumes "create_dispatcher workers pending has_handler admission = Inr s"
  shows "dispatcher_ok s \<and> \<not> stopping s \<and> capacity s = pending \<and> owned_ids s = {#} \<and>
         admission_enabled s = (admission \<noteq> None) \<and> ring_contents (ready_queue s) = []"
proof -
  have "0 < pending" using assms by (auto simp: create_dispatcher_def split: if_splits)
  with assms empty_ring_ok [of pending] show ?thesis
    by (auto simp: create_dispatcher_def dispatcher_ok_def capacity_def owned_ids_def ring_ids_def
        transit_ids_def empty_ring_def slot_ids_def split: if_splits option.splits)
qed

section \<open>Properties\<close>

text \<open>
  C15. Bounded and total: in every state reached by any interleaving of producers, workers and the
  admission thread, at most the configured number of connections is owned and neither the worker nor
  the admission thread can hit one of the \<^verbatim>\<open>std::terminate\<close> calls.
\<close>

theorem dispatcher_bounded:
  assumes "create_dispatcher workers pending has_handler admission = Inr s0" "dispatcher_run s0 es s"
  shows "owned_count s \<le> pending \<and> drain_accepted s \<noteq> None \<and>
         snd (worker_round stop_requested s) \<noteq> Worker_terminates"
proof -
  have ok: "dispatcher_ok s" "capacity s = pending"
    using run_ok [OF assms(2)] create_dispatcher_ok [OF assms(1)] by auto
  then have "owned_count s \<le> pending" by (auto simp: dispatcher_ok_def split: if_splits)
  moreover have "drain_accepted s \<noteq> None"
  proof (cases "admission_enabled s")
    case True
    with ok drain_accepted_owner [of s] show ?thesis by (metis option.distinct(1))
  next
    case False
    with ok length_ring_contents [of "accepted_queue s"] have "ring_count (accepted_queue s) = 0"
      by (simp add: dispatcher_ok_def)
    then have "drain_loop s = Some s" by (simp add: drain_loop.simps)
    then show ?thesis by (auto simp: drain_accepted_def)
  qed
  moreover have "snd (worker_round stop_requested s) \<noteq> Worker_terminates"
  proof (cases "\<not> stopping s \<and> 0 < ring_count (ready_queue s)")
    case True
    with ok worker_round_ok [of s stop_requested] show ?thesis
      by (metis snd_conv worker_outcome.distinct(11))
  next
    case False
    then show ?thesis by (auto simp: worker_round_def)
  qed
  ultimately show ?thesis by blast
qed

definition sample_connection :: "nat \<Rightarrow> connection" where
  "sample_connection n = \<lparr>conn_id = n, conn_open = True, conn_accepted_at = int n, conn_prefetched = [],
     conn_prefetched_offset = 0, conn_last_progress = int n\<rparr>"

definition sample_admission :: admission_options where
  "sample_admission = \<lparr>max_prefix_bytes = 8, completion_marker = [CR, LF], inactivity_timeout = 5,
     total_timeout = 9\<rparr>"

definition sample_dispatcher :: "admission_options option \<Rightarrow> dispatcher" where
  "sample_dispatcher admission =
     (case create_dispatcher 1 2 True admission of Inr s \<Rightarrow> s | Inl _ \<Rightarrow> undefined)"

lemma sample_dispatcher_created:
  "create_dispatcher 1 2 True (Some sample_admission) = Inr (sample_dispatcher (Some sample_admission))"
  "create_dispatcher 1 2 True None = Inr (sample_dispatcher None)"
  by (simp_all add: sample_dispatcher_def create_dispatcher_def sample_admission_def)

lemma sample_run:
  assumes "admission = Some sample_admission \<or> admission = None"
  shows "dispatcher_run (sample_dispatcher admission)
     [Submit_event (sample_connection 4), Submit_event (sample_connection 6)]
     (fst (submit (sample_connection 6) False False
        (fst (submit (sample_connection 4) False False (sample_dispatcher admission)))))"
proof -
  have "snd (submit (sample_connection 4) False False (sample_dispatcher admission)) = Submitted"
    "snd (submit (sample_connection 6) False False
       (fst (submit (sample_connection 4) False False (sample_dispatcher admission)))) = Submitted"
    using assms by (elim disjE; hypsubst; code_simp)+
  then show ?thesis
    using run_snoc [OF run_snoc [OF run_nil step_submit] step_submit]
    by (metis append_Cons append_Nil prod.collapse)
qed

theorem dispatcher_bounded_witness:
  "owned_count (fst (submit (sample_connection 6) False False
        (fst (submit (sample_connection 4) False False (sample_dispatcher (Some sample_admission)))))) \<le> 2"
  using dispatcher_bounded [OF sample_dispatcher_created(1) sample_run] by simp

text \<open>The connections submitted and taken along a run, in order.\<close>

definition submitted :: "dispatcher_event list \<Rightarrow> connection list" where
  "submitted es = concat (map (\<lambda>e. case e of Submit_event c \<Rightarrow> [c] | _ \<Rightarrow> []) es)"

definition taken :: "dispatcher_event list \<Rightarrow> connection list" where
  "taken es = concat (map (\<lambda>e. case e of Take_event c \<Rightarrow> [c] | _ \<Rightarrow> []) es)"

lemma submitted_snoc [simp]:
  "submitted [] = []" "submitted (es @ [e]) = submitted es @ (case e of Submit_event c \<Rightarrow> [c] | _ \<Rightarrow> [])"
  by (simp_all add: submitted_def)

lemma taken_snoc [simp]:
  "taken [] = []" "taken (es @ [e]) = taken es @ (case e of Take_event c \<Rightarrow> [c] | _ \<Rightarrow> [])"
  by (simp_all add: taken_def)

lemma run_conserves:
  assumes "dispatcher_run s0 es s" "dispatcher_ok s0" "owned_ids s0 = {#}" "\<not> stopping s"
  shows "mset (map conn_id (submitted es)) = mset (map conn_id (taken es)) + owned_ids s"
  using assms
proof (induction rule: dispatcher_run.induct)
  case (run_snoc s es s1 e s2)
  then have "dispatcher_ok s1" using run_ok [of s es s1] by simp
  with run_snoc step_ok [of s1 e s2] have "\<not> stopping s1" "conserves e s1 s2" by auto
  with run_snoc show ?case by (cases e) auto
qed simp

lemma run_fifo:
  assumes "dispatcher_run s0 es s" "dispatcher_ok s0" "\<not> admission_enabled s0"
    and "ring_contents (ready_queue s0) = []" "\<not> stopping s"
  shows "\<not> admission_enabled s \<and> submitted es = taken es @ ring_contents (ready_queue s)"
  using assms
proof (induction rule: dispatcher_run.induct)
  case (run_snoc s es s1 e s2)
  then have ok: "dispatcher_ok s1" using run_ok [of s es s1] by simp
  have "\<not> stopping s1" using run_snoc step_ok [OF run_snoc(2) ok] by blast
  with run_snoc have IH: "\<not> admission_enabled s1" "submitted es = taken es @ ring_contents (ready_queue s1)"
    by auto
  then have "\<not> admission_enabled s2"
    "fifo_step e (ring_contents (ready_queue s1)) (ring_contents (ready_queue s2))"
    using step_ok [OF run_snoc(2) ok] run_snoc.prems by auto
  with IH show ?case by (cases e) auto
qed simp

text \<open>
  C32. No connection is lost or duplicated: until the dispatcher is stopped, the submitted connections
  are exactly those taken by workers together with those it still owns.
\<close>

theorem dispatcher_conserves:
  assumes "create_dispatcher workers pending has_handler admission = Inr s0"
    and "dispatcher_run s0 es s" "\<not> stopping s"
  shows "mset (map conn_id (submitted es)) = mset (map conn_id (taken es)) + owned_ids s"
  using run_conserves [OF assms(2) _ _ assms(3)] create_dispatcher_ok [OF assms(1)] by blast

theorem dispatcher_conserves_witness:
  "owned_ids (fst (submit (sample_connection 6) False False
     (fst (submit (sample_connection 4) False False (sample_dispatcher (Some sample_admission)))))) =
   {#4, 6#}"
proof -
  let ?s = "fst (submit (sample_connection 6) False False
     (fst (submit (sample_connection 4) False False (sample_dispatcher (Some sample_admission)))))"
  have "\<not> stopping ?s" by code_simp
  from dispatcher_conserves [OF sample_dispatcher_created(1) sample_run this]
  show ?thesis by (simp add: submitted_def taken_def sample_connection_def)
qed

text \<open>
  C33. Without admission the dispatcher refines a first-in-first-out queue: workers take connections in
  exactly the order in which they were submitted.
\<close>

theorem dispatcher_fifo:
  assumes "create_dispatcher workers pending has_handler None = Inr s0"
    and "dispatcher_run s0 es s" "\<not> stopping s"
  shows "submitted es = taken es @ ring_contents (ready_queue s)"
  using run_fifo [OF assms(2) _ _ _ assms(3)] create_dispatcher_ok [OF assms(1)] by blast

theorem dispatcher_fifo_witness:
  "ring_contents (ready_queue (fst (submit (sample_connection 6) False False
     (fst (submit (sample_connection 4) False False (sample_dispatcher None)))))) =
   [sample_connection 4, sample_connection 6]"
proof -
  let ?s = "fst (submit (sample_connection 6) False False
     (fst (submit (sample_connection 4) False False (sample_dispatcher None))))"
  have "\<not> stopping ?s" by code_simp
  from dispatcher_fifo [OF sample_dispatcher_created(2) sample_run this]
  show ?thesis by (simp add: submitted_def taken_def)
qed

section \<open>Admission\<close>

lemma promote_owner:
  assumes "dispatcher_ok s" "in_transit s = None" "i < length (admissions s)"
  shows "same_owner s (promote i s)" "in_transit (promote i s) = None"
    "admissions (promote i s) = (admissions s)[i := None]"
    "accepted_queue (promote i s) = accepted_queue s"
proof -
  have t: "same_owner s (promote_take i s)" using assms by (rule promote_take_owner)
  then have "same_owner (promote_take i s) (promote_put (promote_take i s))"
    by (intro promote_put_owner) (simp add: same_owner_def)
  with t show "same_owner s (promote i s)" unfolding promote_def by (rule same_owner_trans)
  show "admissions (promote i s) = (admissions s)[i := None]"
  proof (cases "admissions s ! i")
    case None
    then have "(admissions s)[i := None] = admissions s" by (metis list_update_id)
    with None assms(2) show ?thesis by (simp add: promote_def promote_take_def promote_put_def)
  next
    case (Some e)
    then show ?thesis
      by (simp add: promote_def promote_take_def promote_put_def enqueue_ready_def Let_def)
  qed
  show "in_transit (promote i s) = None" "accepted_queue (promote i s) = accepted_queue s"
    using assms(2) by (auto simp: promote_def promote_take_def promote_put_def enqueue_ready_def Let_def
        split: option.splits)
qed

lemma promote_expired_prefix:
  assumes "dispatcher_ok s" "in_transit s = None" "k \<le> length (admissions s)"
    and "\<forall>e. Some e \<in> set (admissions s) \<longrightarrow> admission_expired (admission_opts s) now e"
  defines "f \<equiv> \<lambda>i s. case admissions s ! i of
      Some e \<Rightarrow> (if admission_expired (admission_opts s) now e then promote i s else s) | None \<Rightarrow> s"
  shows "same_owner s (fold f [0..<k] s) \<and> in_transit (fold f [0..<k] s) = None \<and>
         accepted_queue (fold f [0..<k] s) = accepted_queue s \<and>
         admissions (fold f [0..<k] s) = replicate k None @ drop k (admissions s)"
  using assms(3)
proof (induction k)
  case 0
  then show ?case using assms(1,2) by (simp add: same_owner_refl)
next
  case (Suc k)
  let ?s = "fold f [0..<k] s"
  have IH: "same_owner s ?s" "in_transit ?s = None" "accepted_queue ?s = accepted_queue s"
    "admissions ?s = replicate k None @ drop k (admissions s)"
    using Suc by auto
  have ok: "dispatcher_ok ?s" "admission_opts ?s = admission_opts s" using IH(1) by (auto simp: same_owner_def)
  have k: "k < length (admissions ?s)" "admissions ?s ! k = admissions s ! k"
    using Suc.prems by (simp_all add: IH(4) nth_append)
  have upd: "(admissions ?s)[k := None] = replicate (Suc k) None @ drop (Suc k) (admissions s)"
    using Suc.prems by (simp add: IH(4) list_update_append replicate_append_same Cons_nth_drop_Suc [symmetric])
  show ?case
  proof (cases "admissions s ! k")
    case None
    then have "f k ?s = ?s" using k by (simp add: f_def)
    moreover have "(admissions ?s)[k := None] = admissions ?s" using None k by (metis list_update_id)
    ultimately show ?thesis using IH upd by simp
  next
    case (Some e)
    have "k < length (admissions s)" using Suc.prems by simp
    then have "Some e \<in> set (admissions s)" using Some by (metis nth_mem)
    then have "f k ?s = promote k ?s" using Some k ok(2) assms(4) by (simp add: f_def)
    with promote_owner [OF ok(1) IH(2) k(1)] same_owner_trans [OF IH(1)] IH upd show ?thesis by simp
  qed
qed



text \<open>The bounded search for the completion marker.\<close>

lemma find_sub_sublist: "find_sub pat s \<noteq> None \<longleftrightarrow> sublist pat s"
  by (induction s) (auto simp: sublist_Cons_right)

text \<open>
  The incremental marker search is exact: searching only from the last bytes of the previous
  prefix on finds the completion marker whenever the whole prefix contains it, provided the previous
  prefix did not.
\<close>

lemma prefix_complete_exact:
  assumes "completion_marker options \<noteq> []" "\<not> sublist (completion_marker options) old"
  shows "prefix_complete options (old @ bytes) (length old) \<longleftrightarrow>
         sublist (completion_marker options) (old @ bytes)"
proof -
  let ?m = "completion_marker options"
  define k where "k = length old - (length ?m - 1)"
  have "1 \<le> length ?m" using assms(1) by (simp add: Suc_le_eq)
  then have sz: "size_sub (length ?m) 1 = length ?m - 1" by simp
  have from_k: "(if length ?m - 1 < length old then length old - (length ?m - 1) else 0) = k"
    by (simp add: k_def)
  have "k \<le> length (old @ bytes)" by (simp add: k_def)
  then have "prefix_complete options (old @ bytes) (length old) \<longleftrightarrow>
      find_sub ?m (drop k (old @ bytes)) \<noteq> None"
    unfolding prefix_complete_def Let_def sz from_k sv_find_sub_def by (simp del: drop_append)
  then have "prefix_complete options (old @ bytes) (length old) \<longleftrightarrow> sublist ?m (drop k (old @ bytes))"
    by (simp only: find_sub_sublist)
  moreover have "sublist ?m (drop k (old @ bytes))" if "sublist ?m (old @ bytes)"
  proof -
    from that obtain a b where ab: "old @ bytes = a @ ?m @ b" by (auto simp: sublist_def)
    have "\<not> length a + length ?m \<le> length old"
    proof
      assume "length a + length ?m \<le> length old"
      then have "old = a @ ?m @ take (length old - length a - length ?m) b"
        using arg_cong [OF ab, of "take (length old)"] by simp
      with assms(2) show False by (metis sublist_appendI)
    qed
    then have "k \<le> length a" by (simp add: k_def)
    then have "drop k (old @ bytes) = drop k a @ ?m @ b" by (simp add: ab)
    then show ?thesis by (metis sublist_appendI)
  qed
  moreover have "sublist (drop k (old @ bytes)) (old @ bytes)" by (rule sublist_drop)
  ultimately show ?thesis using sublist_order.order_trans by blast
qed

end
