(* ===== verification/Connection_Handler.thy ===== *)
theory Connection_Handler
  imports Buffered_Request Http_Response Connection_Dispatcher
begin

text \<open>
  One HTTP connection, \<^verbatim>\<open>src/http/transport/http_connection_handler.cpp\<close>, on top of the connection object
  of \<^verbatim>\<open>src/network/tcp_connection.cpp\<close>: receive a bounded request, dispatch it, write one response, drain
  and close. The native socket behind the connection, the application, the wall clock and the host
  are arguments that act on the world \<open>'w\<close>; the value \<^term>\<open>None\<close> of the application is a thrown
  exception. Allocation failures are not modelled.
\<close>

section \<open>The TCP connection\<close>

datatype network_operation =
    Net_initialize | Net_resolve_address | Net_create_socket | Net_configure_socket | Net_bind
  | Net_listen | Net_accept | Net_receive | Net_send | Net_query_local_endpoint
  | Net_query_peer_endpoint | Net_shutdown_send

datatype network_error_domain =
    Net_validation | Net_address_resolution | Net_socket | Net_state | Net_cancellation | Net_timeout

record network_error =
  net_operation :: network_operation
  net_domain :: network_error_domain
  net_code :: int

abbreviation net_error :: "network_operation \<Rightarrow> network_error_domain \<Rightarrow> int \<Rightarrow> network_error" where
  "net_error operation domain code \<equiv>
     \<lparr>net_operation = operation, net_domain = domain, net_code = code\<rparr>"

record 'w socket_io =
  io_receive :: "nat \<Rightarrow> io_options \<Rightarrow> 'w \<Rightarrow> 'w \<times> (network_error, string) result"
  io_send :: "string \<Rightarrow> io_options \<Rightarrow> 'w \<Rightarrow> 'w \<times> (network_error, nat) result"
  io_shutdown :: "'w \<Rightarrow> 'w \<times> (int, unit) result"

text \<open>
  \<^verbatim>\<open>receive_with_options\<close>: the bytes that admission read ahead are replayed before the socket is read.
  The result holds the bytes put into the buffer.
\<close>

definition tcp_receive ::
    "'w host \<Rightarrow> 'w socket_io \<Rightarrow> nat \<Rightarrow> io_options \<Rightarrow> connection \<Rightarrow> 'w \<Rightarrow>
     'w \<times> connection \<times> (network_error, string) result" where
  "tcp_receive h io buffer_size opts c w =
     (if \<not> conn_open c then (w, c, Inl (net_error Net_receive Net_state 1))
      else if buffer_size = 0 then (w, c, Inl (net_error Net_receive Net_validation 1))
      else
        (case interruption_of h opts w of
           (w1, Interruption_cancelled) \<Rightarrow> (w1, c, Inl (net_error Net_receive Net_cancellation 0))
         | (w1, Interruption_deadline) \<Rightarrow> (w1, c, Inl (net_error Net_receive Net_timeout 0))
         | (w1, Not_interrupted) \<Rightarrow>
             (if conn_prefetched_offset c < length (conn_prefetched c) then
                (let available = length (conn_prefetched c) - conn_prefetched_offset c;
                     copied = min available buffer_size;
                     bytes = take copied (drop (conn_prefetched_offset c) (conn_prefetched c));
                     c1 = c\<lparr>conn_prefetched_offset := conn_prefetched_offset c + copied\<rparr> in
                 (w1,
                  (if conn_prefetched_offset c1 = length (conn_prefetched c1)
                   then c1\<lparr>conn_prefetched := [], conn_prefetched_offset := 0\<rparr> else c1),
                  Inr bytes))
              else (case io_receive io buffer_size opts w1 of (w2, r) \<Rightarrow> (w2, c, r)))))"

definition tcp_send ::
    "'w socket_io \<Rightarrow> io_options \<Rightarrow> connection \<Rightarrow> 'w \<Rightarrow> string \<Rightarrow> 'w \<times> (network_error, nat) result" where
  "tcp_send io opts c w bytes =
     (if \<not> conn_open c then (w, Inl (net_error Net_send Net_state 1))
      else if bytes = [] then (w, Inl (net_error Net_send Net_validation 1))
      else io_send io bytes opts w)"

definition tcp_shutdown_send :: "'w socket_io \<Rightarrow> connection \<Rightarrow> 'w \<Rightarrow> 'w \<times> (network_error, unit) result" where
  "tcp_shutdown_send io c w =
     (if \<not> conn_open c then (w, Inl (net_error Net_shutdown_send Net_state 1))
      else (case io_shutdown io w of
              (w1, Inl code) \<Rightarrow> (w1, Inl (net_error Net_shutdown_send Net_socket code))
            | (w1, Inr _) \<Rightarrow> (w1, Inr ())))"

section \<open>Configuration and environment\<close>

datatype read_phase = Headers_phase | Body_phase

record 'w handler_config =
  parser_limits :: request_limits
  body_policy_selector :: policy_selector
  receive_chunk_bytes :: nat
  cfg_timeouts :: request_timeouts
  deadline_provider :: "(read_phase \<Rightarrow> int \<Rightarrow> 'w \<Rightarrow> 'w \<times> int option) option"
  response_timeout :: int
  max_drain_bytes :: nat
  drain_timeout :: int
  cfg_transport_policy :: transport_policy

record ('w, 'f, 's, 'b) handler_env =
  env_storage :: "('w, 'f) storage"
  env_socket :: "'w socket_io"
  env_date :: "'w \<Rightarrow> 'w \<times> string"
  env_application :: "('f request_view \<Rightarrow> 'w \<Rightarrow> 'w \<times> (int + http_response \<times> 's) option) option"
  env_read :: "'s \<Rightarrow> nat \<Rightarrow> 's \<times> ('b + string) option"
  env_pton4 :: "string \<Rightarrow> u8 list option"
  env_pton6 :: "string \<Rightarrow> u8 list option"
  env_peer :: string

abbreviation env_host :: "('w, 'f, 's, 'b) handler_env \<Rightarrow> 'w host" where
  "env_host env \<equiv> storage_host (env_storage env)"

section \<open>Statuses and errors\<close>

definition invalid_config_detail :: int where "invalid_config_detail = 1"
definition response_failure_detail :: int where "response_failure_detail = 3"
definition internal_exception_detail :: int where "internal_exception_detail = 4"

definition parse_error_status :: "parse_error_code \<Rightarrow> nat" where
  "parse_error_status code =
     (case code of
        Request_line_too_large \<Rightarrow> 414
      | Headers_too_large \<Rightarrow> 431
      | Too_many_headers \<Rightarrow> 431
      | Body_too_large \<Rightarrow> 413
      | Chunk_metadata_too_large \<Rightarrow> 413
      | Trailers_too_large \<Rightarrow> 413
      | Unsupported_http_version \<Rightarrow> 505
      | Unsupported_method \<Rightarrow> 501
      | Unsupported_transfer_encoding \<Rightarrow> 501
      | _ \<Rightarrow> 400)"

definition request_cancelled :: "buffered_error \<Rightarrow> bool" where
  "request_cancelled e =
     (case e of Parse_failure _ \<Rightarrow> False
      | Ingestion_failure i \<Rightarrow> ingestion_code i = Ingestion_cancelled)"

definition request_timed_out :: "buffered_error \<Rightarrow> bool" where
  "request_timed_out e =
     (case e of Parse_failure _ \<Rightarrow> False
      | Ingestion_failure i \<Rightarrow> ingestion_code i = Ingestion_deadline_exceeded)"

definition request_error_status :: "buffered_error \<Rightarrow> nat" where
  "request_error_status e =
     (case e of
        Parse_failure p \<Rightarrow> parse_error_status (error_code p)
      | Ingestion_failure i \<Rightarrow>
          (case ingestion_code i of
             Ingested_body_too_large \<Rightarrow> 413
           | Framing_failure \<Rightarrow>
               (case framing_error i of Some p \<Rightarrow> parse_error_status (error_code p) | None \<Rightarrow> 414)
           | _ \<Rightarrow> 500))"

definition transport_error_status :: "transport_error \<Rightarrow> nat" where
  "transport_error_status code = (if code = Insecure_forwarded_scheme then 403 else 400)"

definition make_error_response :: "string \<Rightarrow> nat \<Rightarrow> (network_error, http_response) result" where
  "make_error_response date status =
     (case create_response date status (http_reason_phrase status) [] [] of
        Inl _ \<Rightarrow> Inl (net_error Net_send Net_state response_failure_detail)
      | Inr response \<Rightarrow> Inr response)"

fun write_error_code :: "('e, 'b) write_error \<Rightarrow> int" where
  "write_error_code (Network_failure _) = 0"
| "write_error_code Connection_closed = 1"
| "write_error_code (Body_source_failure _) = 2"
| "write_error_code Body_source_exception = 3"
| "write_error_code Body_source_contract_violation = 4"
| "write_error_code Body_ended_early = 5"

definition map_write_error :: "(network_error, 'b) write_error \<Rightarrow> network_error" where
  "map_write_error e =
     (case e of
        Network_failure n \<Rightarrow> n
      | _ \<Rightarrow> net_error Net_send Net_state (100 + write_error_code e))"

section \<open>Responding\<close>

definition file_options_for :: "'w host \<Rightarrow> int \<Rightarrow> 'w \<Rightarrow> 'w \<times> io_options" where
  "file_options_for h timeout w =
     (case host_now h w of
        (w1, now) \<Rightarrow>
          (let budget = timeout * 1000000; remaining = time_point_max - now in
           (w1, \<lparr>io_stop_possible = True,
                 io_deadline = Some (if budget > remaining then time_point_max else now + budget)\<rparr>)))"

function response_drain_loop ::
    "'w host \<Rightarrow> 'w socket_io \<Rightarrow> int \<Rightarrow> nat \<Rightarrow> connection \<Rightarrow> 'w \<Rightarrow> 'w \<times> (network_error, unit) result" where
  "response_drain_loop h io deadline remaining c w =
     (if remaining > 0 then
        (case host_stop h w of
           (w1, True) \<Rightarrow> (w1, Inl (net_error Net_receive Net_cancellation 0))
         | (w1, False) \<Rightarrow>
             (case host_now h w1 of
                (w2, now) \<Rightarrow>
                  (if now \<ge> deadline then (w2, Inr ())
                   else
                     (case tcp_receive h io (min remaining 4096)
                             \<lparr>io_stop_possible = True, io_deadline = Some deadline\<rparr> c w2 of
                        (w3, c1, Inl e) \<Rightarrow>
                          (w3, if net_domain e = Net_timeout then Inr () else Inl e)
                      | (w3, c1, Inr received) \<Rightarrow>
                          (if received = [] then (w3, Inr ())
                           else response_drain_loop h io deadline (remaining - length received) c1 w3)))))
      else (w, Inr ()))"
  by pat_completeness auto
termination
  by (relation "measure (\<lambda>(h, io, deadline, remaining, c, w). remaining)") auto

declare response_drain_loop.simps [simp del]

definition drain_after_response ::
    "'w host \<Rightarrow> 'w socket_io \<Rightarrow> 'w handler_config \<Rightarrow> connection \<Rightarrow> 'w \<Rightarrow>
     'w \<times> (network_error, unit) result" where
  "drain_after_response h io cfg c w =
     (case host_stop h w of
        (w1, True) \<Rightarrow> (w1, Inl (net_error Net_receive Net_cancellation 0))
      | (w1, False) \<Rightarrow>
          (case tcp_shutdown_send io c w1 of
             (w2, Inl e) \<Rightarrow> (w2, Inl e)
           | (w2, Inr _) \<Rightarrow>
               (case host_now h w2 of
                  (w3, now) \<Rightarrow>
                    response_drain_loop h io (now + drain_timeout cfg * 1000000) (max_drain_bytes cfg) c w3)))"

definition send_error_response ::
    "('w, 'f, 's, 'b) handler_env \<Rightarrow> 'w handler_config \<Rightarrow> connection \<Rightarrow> nat \<Rightarrow> 'w \<Rightarrow>
     'w \<times> (network_error, unit) result" where
  "send_error_response env cfg c status w =
     (case env_date env w of
        (w0, date) \<Rightarrow>
          (case make_error_response date status of
             Inl e \<Rightarrow> (w0, Inl e)
           | Inr response \<Rightarrow>
               (case file_options_for (env_host env) (response_timeout cfg) w0 of
                  (w1, opts) \<Rightarrow>
                    (case write_http_response (tcp_send (env_socket env) opts c)
                            (\<lambda>s n. (s, None :: (unit + string) option)) w1 () response Get of
                       (w2, response', Inl e) \<Rightarrow> (w2, Inl (map_write_error e))
                     | (w2, response', Inr _) \<Rightarrow>
                         drain_after_response (env_host env) (env_socket env) cfg c w2))))"

definition interim_response :: string where
  "interim_response = ''HTTP/1.1 100 Continue'' @ [CR, LF, CR, LF]"

function interim_loop ::
    "'w socket_io \<Rightarrow> io_options \<Rightarrow> connection \<Rightarrow> string \<Rightarrow> 'w \<Rightarrow> 'w \<times> (network_error, bool) result" where
  "interim_loop io opts c remaining w =
     (if remaining = [] then (w, Inr True)
      else (case tcp_send io opts c w remaining of
              (w1, Inl e) \<Rightarrow> (w1, Inl e)
            | (w1, Inr sent) \<Rightarrow>
                (if sent = 0 then (w1, Inl (net_error Net_send Net_state response_failure_detail))
                 else interim_loop io opts c (drop sent remaining) w1)))"
  by pat_completeness auto
termination
  by (relation "measure (\<lambda>(io, opts, c, remaining, w). length remaining)") auto

declare interim_loop.simps [simp del]

definition respond_to_expectation ::
    "('w, 'f, 's, 'b) handler_env \<Rightarrow> 'w handler_config \<Rightarrow> connection \<Rightarrow> request_expectation \<Rightarrow>
     io_options \<Rightarrow> 'w \<Rightarrow> 'w \<times> (network_error, bool) result" where
  "respond_to_expectation env cfg c expectation opts w =
     (case expectation of
        Expect_unsupported \<Rightarrow>
          (case send_error_response env cfg c 417 w of
             (w1, Inl e) \<Rightarrow> (w1, Inl e)
           | (w1, Inr _) \<Rightarrow> (w1, Inr False))
      | Expect_continue \<Rightarrow> interim_loop (env_socket env) opts c interim_response w
      | Expect_none \<Rightarrow> (w, Inr True))"

text \<open>A result of \<^term>\<open>None\<close> is an exception that leaves the function.\<close>

definition dispatch_and_respond ::
    "('w, 'f, 's, 'b) handler_env \<Rightarrow> 'w handler_config \<Rightarrow> connection \<Rightarrow> 'f request_view \<Rightarrow> 'w \<Rightarrow>
     'w \<times> (network_error, unit) result option" where
  "dispatch_and_respond env cfg c request w =
     (case env_application env of
        None \<Rightarrow> (w, None)
      | Some application \<Rightarrow>
          (case application request w of
             (w1, None) \<Rightarrow> (w1, None)
           | (w1, Some (Inl _)) \<Rightarrow> map_prod id Some (send_error_response env cfg c 500 w1)
           | (w1, Some (Inr (response, source))) \<Rightarrow>
               (if resp_status response < 200
                then map_prod id Some (send_error_response env cfg c 500 w1)
                else
                  (case file_options_for (env_host env) (response_timeout cfg) w1 of
                     (w2, opts) \<Rightarrow>
                       (case write_http_response (tcp_send (env_socket env) opts c) (env_read env)
                               w2 source response (view_method request) of
                          (w3, response', Inl e) \<Rightarrow> (w3, Some (Inl (map_write_error e)))
                        | (w3, response', Inr _) \<Rightarrow>
                            map_prod id Some
                              (drain_after_response (env_host env) (env_socket env) cfg c w3))))))"

section \<open>Receiving\<close>

definition read_options ::
    "'w handler_config \<Rightarrow> read_phase \<Rightarrow> int \<Rightarrow> 'w \<Rightarrow> 'w \<times> io_options" where
  "read_options cfg phase connection_started w =
     (case deadline_provider cfg of
        None \<Rightarrow> (w, \<lparr>io_stop_possible = True, io_deadline = None\<rparr>)
      | Some provide \<Rightarrow>
          (case provide phase connection_started w of
             (w1, deadline) \<Rightarrow> (w1, \<lparr>io_stop_possible = True, io_deadline = deadline\<rparr>)))"

definition bounded_read_options ::
    "'w handler_config \<Rightarrow> request_deadlines \<Rightarrow> int \<Rightarrow> read_phase \<Rightarrow> 'w \<Rightarrow> 'w \<times> io_options" where
  "bounded_read_options cfg deadlines started phase w =
     (case read_options cfg phase started w of
        (w1, opts) \<Rightarrow>
          (let bounded_deadline = next_deadline deadlines (phase = Body_phase) in
           (w1, opts\<lparr>io_deadline :=
                   Some (case io_deadline opts of
                           Some d \<Rightarrow> min d bounded_deadline
                         | None \<Rightarrow> bounded_deadline)\<rparr>)))"

definition respond_to_request_failure ::
    "('w, 'f, 's, 'b) handler_env \<Rightarrow> 'w handler_config \<Rightarrow> connection \<Rightarrow> buffered_error \<Rightarrow> 'w \<Rightarrow>
     'w \<times> (network_error, unit) result" where
  "respond_to_request_failure env cfg c e w =
     (if request_cancelled e then (w, Inl (net_error Net_receive Net_cancellation 0))
      else if request_timed_out e then (w, Inl (net_error Net_receive Net_timeout 0))
      else send_error_response env cfg c (request_error_status e) w)"

text \<open>The branch taken when the request is complete.\<close>

definition respond_to_request ::
    "('w, 'f, 's, 'b) handler_env \<Rightarrow> 'w handler_config \<Rightarrow> connection \<Rightarrow> 'f buffered_request \<Rightarrow> 'w \<Rightarrow>
     'w \<times> (network_error, unit) result option" where
  "respond_to_request env cfg c b w =
     (case file_options_for (env_host env) (body_timeout (cfg_timeouts cfg)) w of
        (w1, opts) \<Rightarrow>
          (case buffered_view opts b of
             None \<Rightarrow> (w1, None)
           | Some request \<Rightarrow>
               (case resolve_http_transport (env_pton4 env) (env_pton6 env)
                       (cfg_transport_policy cfg) (env_peer env) (view_fields request) of
                  Inl e \<Rightarrow>
                    map_prod id Some (send_error_response env cfg c (transport_error_status e) w1)
                | Inr context \<Rightarrow>
                    dispatch_and_respond env cfg c
                      (request\<lparr>view_transport := Some context,
                               view_response_options :=
                                 Some \<lparr>io_stop_possible = True, io_deadline = None\<rparr>\<rparr>) w1)))"

text \<open>The branch taken when the peer has closed its side.\<close>

definition respond_to_close ::
    "('w, 'f, 's, 'b) handler_env \<Rightarrow> 'w handler_config \<Rightarrow> connection \<Rightarrow> io_options \<Rightarrow>
     'f buffered_request \<Rightarrow> 'w \<Rightarrow> 'w \<times> (network_error, unit) result" where
  "respond_to_close env cfg c opts b w =
     (if buffered_empty b then (w, Inr ())
      else
        (case buffered_finish (env_storage env) opts b w of
           (w1, b1, Inl e) \<Rightarrow> respond_to_request_failure env cfg c e w1
         | (w1, b1, Inr _) \<Rightarrow> send_error_response env cfg c 400 w1))"

definition receive_size :: "'w handler_config \<Rightarrow> nat" where
  "receive_size cfg =
     min (maximum_http_request_head_bytes (parser_limits cfg)) (receive_chunk_bytes cfg)"

definition current_phase :: "'f buffered_request \<Rightarrow> read_phase" where
  "current_phase b = (if reading_body b then Body_phase else Headers_phase)"

partial_function (option) run_http_connection ::
    "('w, 'f, 's, 'b) handler_env \<Rightarrow> 'w handler_config \<Rightarrow> int \<Rightarrow> request_deadlines \<Rightarrow>
     'f buffered_request \<Rightarrow> connection \<Rightarrow> 'w \<Rightarrow> ('w \<times> (network_error, unit) result option) option" where
  "run_http_connection env cfg started deadlines b c w =
     (case take_expectation b of
        (b1, expectation) \<Rightarrow>
          (case respond_to_expectation env cfg c expectation
                  \<lparr>io_stop_possible = True, io_deadline = Some (next_deadline deadlines True)\<rparr> w of
             (w1, Inl e) \<Rightarrow> Some (w1, Some (Inl e))
           | (w1, Inr proceed) \<Rightarrow>
               (if \<not> proceed then Some (w1, Some (Inr ()))
                else if buffered_complete b1 then Some (respond_to_request env cfg c b1 w1)
                else
                  (case bounded_read_options cfg deadlines started (current_phase b1) w1 of
                     (w2, opts) \<Rightarrow>
                       (case tcp_receive (env_host env) (env_socket env) (receive_size cfg) opts c w2 of
                          (w3, c1, Inl e) \<Rightarrow> Some (w3, Some (Inl e))
                        | (w3, c1, Inr input) \<Rightarrow>
                            (if input = [] then
                               Some (map_prod id Some (respond_to_close env cfg c1 opts b1 w3))
                             else
                               (case host_now (env_host env) w3 of
                                  (w4, now) \<Rightarrow>
                                    (case feed_with_body_options (env_storage env)
                                            (body_policy_selector cfg)
                                            (bounded_read_options cfg (record_progress now deadlines)
                                               started Body_phase) input b1 w4 of
                                       (w5, b2, Inl e) \<Rightarrow>
                                         Some (map_prod id Some
                                           (respond_to_request_failure env cfg c1 e w5))
                                     | (w5, b2, Inr _) \<Rightarrow>
                                         run_http_connection env cfg started
                                           (record_progress now deadlines) b2 c1 w5))))))))"

definition handle_http_connection ::
    "('w, 'f, 's, 'b) handler_env \<Rightarrow> 'w handler_config \<Rightarrow> connection \<Rightarrow> 'w \<Rightarrow>
     ('w \<times> (network_error, unit) result) option" where
  "handle_http_connection env cfg c w =
     (let metadata_limit = maximum_http_request_head_bytes (parser_limits cfg);
          started = conn_accepted_at c in
      case create_deadlines (cfg_timeouts cfg) started of
        None \<Rightarrow> Some (w, Inl (net_error Net_receive Net_validation invalid_config_detail))
      | Some deadlines \<Rightarrow>
          (if metadata_limit = 0 \<or> receive_chunk_bytes cfg = 0 \<or> response_timeout cfg \<le> 0 \<or>
              response_timeout cfg > maximum_config_timeout \<or> max_drain_bytes cfg = 0 \<or>
              drain_timeout cfg \<le> 0 \<or> drain_timeout cfg > maximum_config_timeout \<or>
              env_application env = None
           then Some (w, Inl (net_error Net_receive Net_validation invalid_config_detail))
           else if \<not> conn_open c
           then Some (w, Inl (net_error Net_receive Net_state invalid_config_detail))
           else if \<not> http_transport_allows_peer (env_pton4 env) (env_pton6 env)
                     (cfg_transport_policy cfg) (env_peer env)
           then Some (w, Inr ())
           else
             map_option (map_prod id
                 (\<lambda>r. case r of
                        Some result \<Rightarrow> result
                      | None \<Rightarrow> Inl (net_error Net_receive Net_state internal_exception_detail)))
               (run_http_connection env cfg started
                  (record_progress (conn_last_progress c) deadlines)
                  (make_buffered_request (parser_limits cfg)) c w)))"

text \<open>The admission gate paired with a configuration; the dispatcher counts nanoseconds.\<close>

definition make_http_connection_admission :: "'w handler_config \<Rightarrow> admission_options" where
  "make_http_connection_admission cfg =
     \<lparr>max_prefix_bytes = maximum_http_request_head_bytes (parser_limits cfg),
      completion_marker = [CR, LF, CR, LF],
      inactivity_timeout = headers_timeout (cfg_timeouts cfg) * 1000000,
      total_timeout = receive_timeout (cfg_timeouts cfg) * 1000000\<rparr>"

section \<open>Every connection ends\<close>

lemma finish_line_metadata: "finish_line d = (d', r) \<Longrightarrow> dec_metadata_bytes d' = dec_metadata_bytes d"
  by (auto simp: finish_line_def Let_def split: if_splits prod.splits sum.splits)

lemma body_metadata_count:
  assumes "body_metadata d c = (d', Inr u)"
  shows "dec_decoded d' = dec_decoded d \<and> dec_metadata_bytes d' = dec_metadata_bytes d + 1"
  using assms body_metadata_frame [OF assms]
  by (auto simp: body_metadata_def Let_def split: if_splits prod.splits dest!: finish_line_metadata)

lemma body_step_count:
  "body_step d c = (d', Inr out) \<Longrightarrow>
     dec_decoded d' + dec_metadata_bytes d' = dec_decoded d + dec_metadata_bytes d + 1"
  by (auto simp: body_step_def copy_data_def Let_def split: if_splits prod.splits sum.splits
      dest!: body_metadata_count)

text \<open>Every byte that the decoder takes is accounted for, as payload or as metadata.\<close>

lemma body_run_count:
  "body_run d xs = (d', Inr (n, out)) \<Longrightarrow>
     dec_decoded d' + dec_metadata_bytes d' = dec_decoded d + dec_metadata_bytes d + n"
proof (induction xs arbitrary: d n out)
  case (Cons x xs)
  show ?case
  proof (cases "dec_phase d = Done")
    case False
    obtain d1 q where q: "body_step d x = (d1, q)" by force
    with Cons.prems False obtain o1 where o1: "q = Inr o1" by (cases q) auto
    with Cons.prems False q obtain m o2 where m: "body_run d1 xs = (d', Inr (m, o2))" "n = 1 + m"
      by (auto simp: extend_run_cases)
    from Cons.IH [OF m(1)] body_step_count [OF q [unfolded o1]] m(2) show ?thesis by simp
  qed (use Cons.prems in auto)
qed simp

definition receive_budget :: "request_limits \<Rightarrow> nat" where
  "receive_budget limits =
     max_request_line_bytes limits + 2 + max_header_bytes limits + max_body_bytes limits +
     max_chunk_metadata_bytes limits"

lemma body_limits_le:
  "max_body_bytes (body_limits limits policy) \<le> max_body_bytes limits"
  "max_chunk_metadata_bytes (body_limits limits policy) = max_chunk_metadata_bytes limits"
  by (simp_all add: body_limits_def)

lemma head_consumed_bounded:
  assumes "parse_http_request_head input limits = Inr (Some h)"
  shows "consumed_bytes h \<le> max_request_line_bytes limits + 2 + max_header_bytes limits"
proof -
  from assms obtain e where
    "find_request_line_end_from input (max_request_line_bytes limits) 0 = Inr (Some e)"
    "consumed_bytes h \<le> e + 2 + max_header_bytes limits"
    by (elim parse_http_request_head_SomeE) blast
  moreover from this(1) have "e \<le> max_request_line_bytes limits"
    using find_request_line_end_bounds by blast
  ultimately show ?thesis by linarith
qed

lemma buffered_incomplete_bounded:
  assumes "buffered_reached contents selector limits input b" "\<not> buffered_complete b"
  shows "length input \<le> receive_budget limits"
proof (cases "bq_head b")
  case None
  with assms(1) have "parse_http_request_head input limits = Inr None"
    by (simp add: buffered_reached_def)
  then show ?thesis using parse_http_request_head_none [of input limits]
    by (simp add: receive_budget_def)
next
  case (Some head)
  let ?l = "body_limits limits (selected_policy selector head)"
  let ?d0 = "make_body_decoder head ?l"
  from assms(1) Some obtain i where r: "parse_http_request_head input limits = Inr (Some head)"
    "bq_ingestor b = Some i" "ing_failure i = None" "dec_failure ?d0 = None"
    "ingest_reached contents ?d0 (policy_storage_mode (selected_policy selector head))
       (drop (consumed_bytes head) input) i"
    by (auto simp: buffered_reached_def)
  from ingest_reached_body [OF r(5,4,3)] obtain n payload where
    run: "body_run ?d0 (drop (consumed_bytes head) input) = (ing_decoder i, Inr (n, payload))"
    and complete: "ingest_complete i = (dec_phase (ing_decoder i) = Done)" by metis
  have "n = length (drop (consumed_bytes head) input)"
    using body_run_consumed [OF run] complete assms(2) r(2) by (auto simp: buffered_complete_def)
  moreover have "dec_metadata_bytes ?d0 = 0" by (simp add: make_body_decoder_def Let_def)
  moreover from body_run_ok [OF run make_body_decoder_ok r(4)]
  have "dec_decoded (ing_decoder i) \<le> max_body_bytes ?l"
    "dec_metadata_bytes (ing_decoder i) \<le> max_chunk_metadata_bytes ?l"
    by (auto simp: decoder_ok_def)
  ultimately have "length (drop (consumed_bytes head) input) \<le>
      max_body_bytes limits + max_chunk_metadata_bytes limits"
    using body_run_count [OF run] body_limits_le [of limits "selected_policy selector head"] by simp
  moreover have "consumed_bytes head \<le> length input"
    using r(1) by (elim parse_http_request_head_SomeE)
  ultimately show ?thesis
    using head_consumed_bounded [OF r(1)] by (simp add: receive_budget_def)
qed

lemma take_expectation_state:
  "take_expectation b = (b1, e) \<Longrightarrow> b1 = b \<or> b1 = b\<lparr>bq_expectation_checked := True\<rparr>"
  by (auto simp: take_expectation_def split: option.splits if_splits)

lemma take_expectation_reached:
  assumes "take_expectation b = (b1, e)"
  shows "buffered_reached contents selector limits input b1 = buffered_reached contents selector limits input b"
    "buffered_complete b1 = buffered_complete b"
  using take_expectation_state [OF assms]
  by (auto simp: buffered_reached_def buffered_complete_def split: option.splits)

text \<open>One round of the loop: it leaves with a result, or has fed a nonempty receive and goes on.\<close>

lemma run_http_connection_round:
  assumes b1: "take_expectation b = (b1, e)"
  obtains (leaves) r where "run_http_connection env cfg started deadlines b c w = Some r"
  | (goes_on) provider x w0 w1 b2 c1 dl where "\<not> buffered_complete b1" "x \<noteq> []"
      "feed_with_body_options (env_storage env) (body_policy_selector cfg) provider x b1 w0 =
         (w1, b2, Inr ())"
      "run_http_connection env cfg started deadlines b c w =
         run_http_connection env cfg started dl b2 c1 w1"
proof -
  let ?h = "env_host env" and ?run = "run_http_connection env cfg started deadlines b c w"
  note unfold = run_http_connection.simps [of env cfg started deadlines b c w] b1
  obtain w1 p where p: "respond_to_expectation env cfg c e
      \<lparr>io_stop_possible = True, io_deadline = Some (next_deadline deadlines True)\<rparr> w = (w1, p)"
    by force
  show thesis
  proof (cases "p = Inr True \<and> \<not> buffered_complete b1")
    case False
    then have "\<exists>r. ?run = Some r" using p by (cases p) (simp_all add: unfold)
    then show thesis using leaves by blast
  next
    case True
    obtain w2 opts where o: "bounded_read_options cfg deadlines started (current_phase b1) w1 = (w2, opts)" by force
    obtain w3 c1 q where q: "tcp_receive ?h (env_socket env) (receive_size cfg) opts c w2 = (w3, c1, q)"
      by (metis prod_cases3)
    show thesis
    proof (cases "\<exists>x. q = Inr x \<and> x \<noteq> []")
      case False
      then have "\<exists>r. ?run = Some r" using p True o q by (cases q) (simp_all add: unfold)
      then show thesis using leaves by blast
    next
      case x: True
      then obtain x where x: "q = Inr x" "x \<noteq> []" by blast
      obtain w4 now where now: "host_now ?h w3 = (w4, now)" by force
      let ?dl = "record_progress now deadlines"
      obtain w5 b2 f where f: "feed_with_body_options (env_storage env) (body_policy_selector cfg)
        (bounded_read_options cfg ?dl started Body_phase) x b1 w4 = (w5, b2, f)" by (metis prod_cases3)
      show thesis
      proof (cases f)
        case (Inl y)
        with p True o q x now f show thesis by (intro leaves) (simp add: unfold)
      next
        case (Inr u)
        with p True o q x now f goes_on show thesis by (simp add: unfold)
      qed
    qed
  qed
qed

lemma run_http_connection_returns:
  assumes files: "file_appends contents (storage_files (env_storage env))"
    and "buffered_reached contents (body_policy_selector cfg) limits input b"
  shows "\<exists>r. run_http_connection env cfg started deadlines b c w = Some r"
  using assms(2)
proof (induction "Suc (receive_budget limits) - length input" arbitrary: input deadlines b c w
    rule: less_induct)
  case less
  obtain b1 e where b1: "take_expectation b = (b1, e)" by force
  note reached = less.prems [folded take_expectation_reached(1) [OF b1]]
  show ?case
  proof (cases rule: run_http_connection_round [OF b1, of env cfg started deadlines c w])
    case (2 provider x w0 w1 b2 c1 dl)
    have "buffered_reached contents (body_policy_selector cfg) limits (input @ x) b2"
      by (rule feed_with_body_options_reached [OF files reached 2(3)])
    moreover have "Suc (receive_budget limits) - length (input @ x) <
        Suc (receive_budget limits) - length input"
      using buffered_incomplete_bounded [OF reached 2(1)] 2(2) by (cases x) auto
    ultimately show ?thesis using less.hyps 2(4) by metis
  qed simp
qed

lemma handle_http_connection_returns:
  assumes "file_appends contents (storage_files (env_storage env))"
  shows "\<exists>w' r. handle_http_connection env cfg c w = Some (w', r)"
  using run_http_connection_returns [OF assms make_buffered_reached]
  by (fastforce simp: handle_http_connection_def Let_def split: option.splits)

text \<open>
  C37. Every connection ends: whatever bytes the peer sends and however they are cut, whatever the
  clock, the disk and the application do, the receive loop leaves after finitely many receives, since
  each nonempty receive either completes or fails the request or uses up part of the finite budget of
  head, body and chunk-metadata bytes; the handler then returns.
\<close>

theorem connection_returns:
  assumes "file_appends contents (storage_files (env_storage env))"
  shows "\<exists>w' r. handle_http_connection env cfg c w = Some (w', r)"
  using assms by (rule handle_http_connection_returns)

text \<open>
  A peer that sends nothing more, an application that answers 204 and a world that is the wire, for
  the examples.
\<close>

definition sample_env :: "(string, string, unit, unit) handler_env" where
  "sample_env =
     \<lparr>env_storage = plain_storage,
      env_socket = \<lparr>io_receive = \<lambda>n opts w. (w, Inr []), io_send = \<lambda>bytes opts w. (w @ bytes, Inr (length bytes)),
                    io_shutdown = \<lambda>w. (w, Inr ())\<rparr>,
      env_date = \<lambda>w. (w, ''Thu, 01 Jan 1970 00:00:00 GMT''),
      env_application = Some (\<lambda>v w. (w, Some (Inr (make_http_response 204 ''No Content'' [] [] 0 [] False, ())))),
      env_read = \<lambda>s n. (s, None),
      env_pton4 = parse_ipv4, env_pton6 = \<lambda>s. None, env_peer = ''127.0.0.1''\<rparr>"

definition sample_handler_config :: "string handler_config" where
  "sample_handler_config =
     \<lparr>parser_limits = small_limits, body_policy_selector = None, receive_chunk_bytes = 16,
      cfg_timeouts = default_timeouts, deadline_provider = None, response_timeout = 1000,
      max_drain_bytes = 8, drain_timeout = 100,
      cfg_transport_policy = \<lparr>policy_mode = Http_loopback, policy_trusted_proxy = None\<rparr>\<rparr>"

definition sample_connection :: "string \<Rightarrow> connection" where
  "sample_connection prefetched =
     \<lparr>conn_id = 0, conn_open = True, conn_accepted_at = 0, conn_prefetched = prefetched,
      conn_prefetched_offset = 0, conn_last_progress = 0\<rparr>"

theorem connection_returns_witness:
  "\<exists>w r. handle_http_connection sample_env sample_handler_config (sample_connection ''GET'') [] = Some (w, r)"
proof -
  have "file_appends (\<lambda>f. f) (storage_files (env_storage sample_env))"
    using plain_storage_appends by (simp add: sample_env_def)
  from connection_returns [OF this] show ?thesis .
qed

end
