(* ===== verification/Connection_Safety.thy ===== *)
theory Connection_Safety
  imports Connection_Handler
begin

text \<open>
  What a connection puts on the wire. The first part shows that storage, clock and receiving leave
  any property of the world alone that the host's primitives leave alone; the second follows the
  bytes sent through the handler of \<^verbatim>\<open>src/http/transport/http_connection_handler.cpp\<close>.
\<close>

named_theorems world_frame \<open>operations that keep a property of the world\<close>

section \<open>Operations that do not send\<close>

definition host_keeps :: "('w \<Rightarrow> bool) \<Rightarrow> 'w host \<Rightarrow> bool" where
  "host_keeps P h \<longleftrightarrow> (\<forall>w. P w \<longrightarrow> P (fst (host_now h w)) \<and> P (fst (host_stop h w)))"

definition worker_keeps :: "('w \<Rightarrow> bool) \<Rightarrow> 'w worker_env \<Rightarrow> bool" where
  "worker_keeps P env \<longleftrightarrow>
     (\<forall>w opts. P w \<longrightarrow> P (fst (start_worker env w)) \<and> P (fst (acquire_slot env opts w)) \<and>
        P (fst (operation_finished env w)))"

definition files_keep :: "('w \<Rightarrow> bool) \<Rightarrow> ('w, 'f) file_ops \<Rightarrow> bool" where
  "files_keep P ops \<longleftrightarrow>
     (\<forall>w f bytes opts. P w \<longrightarrow> P (fst (file_create ops w)) \<and> P (fst (file_write ops f bytes opts w)) \<and>
        P (fst (file_complete ops f opts w)))"

definition storage_keeps :: "('w \<Rightarrow> bool) \<Rightarrow> ('w, 'f) storage \<Rightarrow> bool" where
  "storage_keeps P st \<longleftrightarrow>
     host_keeps P (storage_host st) \<and> worker_keeps P (storage_env st) \<and> files_keep P (storage_files st)"

lemma host_keepsD [world_frame]:
  "host_now h w = (w', t) \<Longrightarrow> host_keeps P h \<Longrightarrow> P w \<Longrightarrow> P w'"
  "host_stop h w = (w', s) \<Longrightarrow> host_keeps P h \<Longrightarrow> P w \<Longrightarrow> P w'"
  by (metis fst_conv host_keeps_def)+

lemma worker_keepsD [world_frame]:
  "start_worker env w = (w', a) \<Longrightarrow> worker_keeps P env \<Longrightarrow> P w \<Longrightarrow> P w'"
  "acquire_slot env opts w = (w', b) \<Longrightarrow> worker_keeps P env \<Longrightarrow> P w \<Longrightarrow> P w'"
  "operation_finished env w = (w', c) \<Longrightarrow> worker_keeps P env \<Longrightarrow> P w \<Longrightarrow> P w'"
  by (metis fst_conv worker_keeps_def)+

lemma files_keepD [world_frame]:
  "file_create ops w = (w', a) \<Longrightarrow> files_keep P ops \<Longrightarrow> P w \<Longrightarrow> P w'"
  "file_write ops f bytes opts w = (w', b) \<Longrightarrow> files_keep P ops \<Longrightarrow> P w \<Longrightarrow> P w'"
  "file_complete ops f opts w = (w', c) \<Longrightarrow> files_keep P ops \<Longrightarrow> P w \<Longrightarrow> P w'"
  by (metis fst_conv files_keep_def)+

lemma storage_keepsD:
  "storage_keeps P st \<Longrightarrow> host_keeps P (storage_host st)"
  "storage_keeps P st \<Longrightarrow> worker_keeps P (storage_env st)"
  "storage_keeps P st \<Longrightarrow> files_keep P (storage_files st)"
  by (simp_all add: storage_keeps_def)

lemma interruption_of_keeps [world_frame]:
  assumes "interruption_of h opts w = (w', s)" "host_keeps P h" "P w" shows "P w'"
  using assms by (auto simp: interruption_of_def split: prod.splits if_splits dest: world_frame)

lemma file_interruption_keeps [world_frame]:
  assumes "file_interruption h opts w = (w', s)" "host_keeps P h" "P w" shows "P w'"
  using assms
  by (auto simp: file_interruption_def split: prod.splits interruption_state.splits dest: world_frame)

lemma ingestion_interruption_keeps [world_frame]:
  assumes "ingestion_interruption h opts w = (w', s)" "host_keeps P h" "P w" shows "P w'"
  using assms
  by (auto simp: ingestion_interruption_def split: prod.splits interruption_state.splits
      dest: world_frame)

lemma worker_run_keeps:
  assumes "worker_run h env operation n opts wr w = (w', wr', r)" "host_keeps P h" "worker_keeps P env"
    and "P w" and op: "\<And>f w1 w2 q. operation f w1 = (w2, q) \<Longrightarrow> P w1 \<Longrightarrow> P w2"
  shows "P w'"
proof -
  obtain w1 a where a: "acquire_slot env opts w = (w1, a)" by force
  with assms(3,4) have P1: "P w1" by (blast dest: world_frame)
  show ?thesis
  proof (cases "isl a \<or> writer_pending wr \<or> n > isolated_payload_bytes")
    case True
    with assms(1) a P1 show ?thesis by (cases a) (auto simp: worker_run_def)
  next
    case False
    obtain w2 fin where fin: "operation_finished env w1 = (w2, fin)" by force
    with P1 assms(3) have P2: "P w2" by (blast dest: world_frame)
    obtain w3 f q where q: "operation (writer_file wr) w2 = (w3, f, q)" by (metis prod_cases3)
    then have P3: "P w3" using op P2 by blast
    define w4 where "w4 = (if fin then w3 else w2)"
    obtain w5 s where s: "file_interruption h opts w4 = (w5, s)" by force
    have "P w5" using s P2 P3 assms(2) by (auto simp: w4_def dest: world_frame split: if_splits)
    moreover have "w' = w5"
      using assms(1) a False fin q s
      by (cases a; cases fin) (auto simp: worker_run_def w4_def split: prod.splits option.splits)
    ultimately show ?thesis by simp
  qed
qed

lemma write_chunks_keeps [world_frame]:
  assumes "write_chunks h env ops opts bytes wr w = (w', wr', r)" "host_keeps P h" "worker_keeps P env"
    "files_keep P ops" "P w"
  shows "P w'"
  using assms(1,5)
proof (induction "length bytes" arbitrary: bytes wr w rule: less_induct)
  case less
  show ?case
  proof (cases "bytes = []")
    case True
    with less.prems show ?thesis by (subst (asm) write_chunks.simps) simp
  next
    case False
    define k where "k = min (length bytes) isolated_payload_bytes"
    obtain w1 wr1 q where q: "worker_run h env (\<lambda>f. file_write ops f (take k bytes) opts) k opts wr w =
      (w1, wr1, q)" by (metis prod_cases3)
    have P1: "P w1"
      by (rule worker_run_keeps [OF q assms(2,3) less.prems(2)]) (use assms(4) in \<open>blast dest: world_frame\<close>)
    show ?thesis
    proof (cases q)
      case (Inl e)
      with less.prems False q P1 show ?thesis
        by (subst (asm) write_chunks.simps) (simp add: k_def Let_def)
    next
      case (Inr u)
      with less.prems False q have "write_chunks h env ops opts (drop k bytes) wr1 w1 = (w', wr', r)"
        by (subst (asm) write_chunks.simps) (simp add: k_def Let_def)
      then show ?thesis
        using less.hyps [of "drop k bytes"] False P1 by (simp add: k_def isolated_payload_bytes_def)
    qed
  qed
qed

lemma ensure_worker_keeps [world_frame]:
  assumes "ensure_worker env opts wr w = (w', q)" "worker_keeps P env" "P w" shows "P w'"
  using assms by (auto simp: ensure_worker_def split: if_splits prod.splits option.splits dest: world_frame)

lemma writer_write_keeps [world_frame]:
  assumes "writer_write h env ops opts bytes wr w = (w', q)" "host_keeps P h" "worker_keeps P env"
    "files_keep P ops" "P w"
  shows "P w'"
proof -
  obtain w1 wr1 r where r: "ensure_worker env opts wr w = (w1, wr1, r)" by (metis prod_cases3)
  with assms have P1: "P w1" by (blast dest: world_frame)
  consider "writer_completed wr" | "\<not> writer_completed wr" "isl r"
    | "\<not> writer_completed wr" "\<not> isl r" "\<not> writer_worker wr1"
    | "\<not> writer_completed wr" "\<not> isl r" "writer_worker wr1" "bytes = []"
    | "\<not> writer_completed wr" "\<not> isl r" "writer_worker wr1" "bytes \<noteq> []" by blast
  then show ?thesis
  proof cases
    case 4
    with assms(1) r have "worker_run h env (\<lambda>f. file_write ops f [] opts) 0 opts wr1 w1 = (w', q)"
      by (cases r) (auto simp: writer_write_def)
    then show ?thesis
      by (cases q) (rule worker_run_keeps [OF _ assms(2,3) P1, where operation = "\<lambda>f. file_write ops f [] opts"],
          simp, use assms(4) in \<open>blast dest: world_frame\<close>)
  next
    case 5
    with assms(1) r have "write_chunks h env ops opts bytes wr1 w1 = (w', q)"
      by (cases r) (auto simp: writer_write_def)
    then show ?thesis using assms(2-4) P1 by (cases q) (blast dest: world_frame)
  qed (use assms r P1 in \<open>cases r; auto simp: writer_write_def split: prod.splits dest: world_frame\<close>)+
qed

lemma writer_complete_keeps_world [world_frame]:
  assumes "writer_complete h env ops opts wr w = (w', q)" "host_keeps P h" "worker_keeps P env"
    "files_keep P ops" "P w"
  shows "P w'"
proof -
  obtain w1 wr1 r where r: "ensure_worker env opts wr w = (w1, wr1, r)" by (metis prod_cases3)
  with assms have P1: "P w1" by (blast dest: world_frame)
  obtain w2 wr2 z where z: "(if writer_worker wr1
      then worker_run h env (\<lambda>f. file_complete ops f opts) 0 opts wr1 w1
      else (case file_complete ops (writer_file wr1) opts w1 of
              (w2, f, r) \<Rightarrow> (w2, wr1\<lparr>writer_file := f\<rparr>, r))) = (w2, wr2, z)" by (metis prod_cases3)
  have "P w2"
  proof (cases "writer_worker wr1")
    case True
    with z have "worker_run h env (\<lambda>f. file_complete ops f opts) 0 opts wr1 w1 = (w2, wr2, z)" by simp
    then show ?thesis
      by (rule worker_run_keeps [OF _ assms(2,3) P1]) (use assms(4) in \<open>blast dest: world_frame\<close>)
  next
    case False
    with z P1 assms(4) show ?thesis by (auto split: prod.splits dest: world_frame)
  qed
  moreover have "w' = w \<or> w' = w1 \<or> w' = w2"
    using assms(1) r z by (cases r; cases z) (auto simp: writer_complete_def split: if_splits)
  ultimately show ?thesis using assms(5) P1 by blast
qed

lemma writer_create_keeps [world_frame]:
  assumes "writer_create ops w = (w', q)" "files_keep P ops" "P w" shows "P w'"
  using assms by (auto simp: writer_create_def split: prod.splits sum.splits dest: world_frame)

lemma ensure_artifact_keeps [world_frame]:
  assumes "ensure_artifact st i w = (w', q)" "storage_keeps P st" "P w" shows "P w'"
  using assms storage_keepsD [OF assms(2)]
  by (auto simp: ensure_artifact_def split: if_splits prod.splits sum.splits dest: world_frame)

lemma ingest_finalize_keeps [world_frame]:
  assumes "ingest_finalize st opts i w = (w', q)" "storage_keeps P st" "P w" shows "P w'"
  using assms storage_keepsD [OF assms(2)]
  by (auto simp: ingest_finalize_def split: if_splits prod.splits sum.splits option.splits
      dest: writer_complete_keeps_world)

lemma ingest_persist_keeps [world_frame]:
  assumes "ingest_persist st opts output i w = (w', q)" "storage_keeps P st" "P w" shows "P w'"
proof -
  note keeps = storage_keepsD [OF assms(2)]
  obtain w1 e where e: "ingestion_interruption (storage_host st) opts w = (w1, e)" by force
  with keeps assms(3) have P1: "P w1" by (blast dest: world_frame)
  obtain w2 i2 r where r: "ensure_artifact st i w1 = (w2, i2, r)" by (metis prod_cases3)
  with assms(2) P1 have P2: "P w2" by (blast dest: world_frame)
  obtain w3 z where z: "writer_write (storage_host st) (storage_env st) (storage_files st) opts output
    (the (ing_writer i2)) w2 = (w3, z)" by (meson surj_pair)
  with keeps P2 have P3: "P w3" by (blast dest: world_frame)
  have "w' = w1 \<or> w' = w2 \<or> w' = w3"
    using assms(1) e r z by (auto simp: ingest_persist_def split: option.splits if_splits sum.splits prod.splits)
  with P1 P2 P3 show ?thesis by blast
qed

lemma ingest_loop_keeps [world_frame]:
  assumes "ingest_loop st opts input n m i w = (w', q)" "storage_keeps P st" "P w" shows "P w'"
  using assms(1,3)
proof (induction "length input" arbitrary: input n m i w rule: less_induct)
  case less
  obtain d f where f: "feed (ing_decoder i) input body_decode_buffer_bytes = (d, f)" by force
  show ?case
  proof (cases f)
    case (Inl e)
    with less.prems f show ?thesis by (subst (asm) ingest_loop.simps) auto
  next
    case (Inr p)
    obtain w1 i1 r where r: "(if progress_produced p \<noteq> []
               then ingest_persist st opts (progress_produced p) (i\<lparr>ing_decoder := d\<rparr>) w
               else (w, i\<lparr>ing_decoder := d\<rparr>, Inr ())) = (w1, i1, r)" by (metis prod_cases3)
    have P1: "P w1" using r less.prems(2) assms(2) by (auto split: if_splits dest: world_frame)
    obtain w2 z where z: "ingest_finalize st opts i1 w1 = (w2, z)" by (meson surj_pair)
    with assms(2) P1 have P2: "P w2" by (blast dest: world_frame)
    let ?k = "progress_consumed p"
    have shorter: "0 < ?k \<Longrightarrow> drop ?k input \<noteq> [] \<Longrightarrow> length (drop ?k input) < length input" by auto
    have pos: "progress_produced p \<noteq> [] \<Longrightarrow> 0 < ?k"
      using feed_produced [OF f [unfolded Inr]] by (cases ?k) auto
    have "w' = w1 \<or> w' = w2 \<or>
      length (drop ?k input) < length input \<and>
      ingest_loop st opts (drop ?k input) (n + ?k) (m + length (progress_produced p)) i1 w1 = (w', q)"
      using less.prems(1) f Inr r z shorter pos
      by (subst (asm) ingest_loop.simps)
        (auto simp: Let_def split: sum.splits if_splits prod.splits)
    then show ?thesis using P1 P2 less.hyps by blast
  qed
qed

lemma ingest_feed_keeps [world_frame]:
  assumes "ingest_feed st opts input i w = (w', q)" "storage_keeps P st" "P w" shows "P w'"
  using assms storage_keepsD [OF assms(2)]
  by (auto simp: ingest_feed_def split: option.splits prod.splits dest: world_frame)

lemma ingest_finish_keeps [world_frame]:
  assumes "ingest_finish st opts i w = (w', q)" "storage_keeps P st" "P w" shows "P w'"
  using assms storage_keepsD [OF assms(2)]
  by (auto simp: ingest_finish_def split: option.splits prod.splits sum.splits dest: world_frame)

lemma feed_body_keeps [world_frame]:
  assumes "feed_body st input opts b w = (w', q)" "storage_keeps P st" "P w" shows "P w'"
  using assms by (auto simp: feed_body_def split: option.splits prod.splits sum.splits dest: world_frame)

lemma feed_with_body_options_keeps:
  assumes "feed_with_body_options st selector provider input b w = (w', q)" "storage_keeps P st" "P w"
    and provider: "\<And>w1 w2 opts. provider w1 = (w2, opts) \<Longrightarrow> P w1 \<Longrightarrow> P w2"
  shows "P w'"
  using assms
  by (auto simp: feed_with_body_options_def Let_def split: if_splits option.splits prod.splits sum.splits
      dest: world_frame)

lemma buffered_finish_keeps [world_frame]:
  assumes "buffered_finish st opts b w = (w', q)" "storage_keeps P st" "P w" shows "P w'"
  using assms by (auto simp: buffered_finish_def split: option.splits prod.splits sum.splits dest: world_frame)

lemma file_options_for_keeps [world_frame]:
  assumes "file_options_for h timeout w = (w', q)" "host_keeps P h" "P w" shows "P w'"
  using assms by (auto simp: file_options_for_def Let_def split: prod.splits dest: world_frame)

definition provider_keeps :: "('w \<Rightarrow> bool) \<Rightarrow> 'w handler_config \<Rightarrow> bool" where
  "provider_keeps P cfg \<longleftrightarrow>
     (\<forall>provide phase started w. deadline_provider cfg = Some provide \<longrightarrow> P w \<longrightarrow>
        P (fst (provide phase started w)))"

lemma bounded_read_options_keeps [world_frame]:
  assumes "bounded_read_options cfg deadlines started phase w = (w', q)" "provider_keeps P cfg" "P w"
  shows "P w'"
  using assms
  by (auto simp: bounded_read_options_def read_options_def provider_keeps_def Let_def
      split: prod.splits option.splits) (metis fst_conv)+

definition socket_keeps :: "('w \<Rightarrow> bool) \<Rightarrow> 'w socket_io \<Rightarrow> bool" where
  "socket_keeps P io \<longleftrightarrow>
     (\<forall>n opts w. P w \<longrightarrow> P (fst (io_receive io n opts w)) \<and> P (fst (io_shutdown io w)))"

lemma socket_keepsD [world_frame]:
  "io_receive io n opts w = (w', a) \<Longrightarrow> socket_keeps P io \<Longrightarrow> P w \<Longrightarrow> P w'"
  "io_shutdown io w = (w', b) \<Longrightarrow> socket_keeps P io \<Longrightarrow> P w \<Longrightarrow> P w'"
  by (metis fst_conv socket_keeps_def)+

lemma tcp_receive_keeps [world_frame]:
  assumes "tcp_receive h io n opts c w = (w', q)" "host_keeps P h" "socket_keeps P io" "P w"
  shows "P w'"
proof -
  obtain w1 s where s: "interruption_of h opts w = (w1, s)" by force
  with assms(2,4) have P1: "P w1" by (blast dest: world_frame)
  obtain w2 r where r: "io_receive io n opts w1 = (w2, r)" by force
  with assms(3) P1 have P2: "P w2" by (blast dest: world_frame)
  have "w' = w \<or> w' = w1 \<or> w' = w2"
    using assms(1) s r by (auto simp: tcp_receive_def Let_def split: if_splits interruption_state.splits)
  with assms(4) P1 P2 show ?thesis by blast
qed

lemma tcp_shutdown_keeps [world_frame]:
  assumes "tcp_shutdown_send io c w = (w', q)" "socket_keeps P io" "P w" shows "P w'"
  using assms by (auto simp: tcp_shutdown_send_def split: if_splits prod.splits sum.splits dest: world_frame)

lemma response_drain_loop_keeps [world_frame]:
  assumes "response_drain_loop h io deadline n c w = (w', q)" "host_keeps P h" "socket_keeps P io" "P w"
  shows "P w'"
  using assms(1,4)
proof (induction n arbitrary: c w rule: less_induct)
  case (less n)
  obtain w1 s where s: "host_stop h w = (w1, s)" by force
  with assms(2) less.prems have P1: "P w1" by (blast dest: world_frame)
  obtain w2 now where now: "host_now h w1 = (w2, now)" by force
  with assms(2) P1 have P2: "P w2" by (blast dest: world_frame)
  obtain w3 c1 r where r: "tcp_receive h io (min n 4096)
    \<lparr>io_stop_possible = True, io_deadline = Some deadline\<rparr> c w2 = (w3, c1, r)" by (metis prod_cases3)
  with assms(2,3) P2 have P3: "P w3" by (blast dest: world_frame)
  have "w' = w \<or> w' = w1 \<or> w' = w2 \<or> w' = w3 \<or>
    (\<exists>k. k < n \<and> response_drain_loop h io deadline k c1 w3 = (w', q))"
    using less.prems(1) s now r
    by (subst (asm) response_drain_loop.simps) (auto split: if_splits bool.splits sum.splits)
  with less.prems(2) P1 P2 P3 less.IH show ?case by blast
qed

lemma drain_after_response_keeps [world_frame]:
  assumes "drain_after_response h io cfg c w = (w', q)" "host_keeps P h" "socket_keeps P io" "P w"
  shows "P w'"
  using assms
  by (auto simp: drain_after_response_def split: prod.splits bool.splits sum.splits dest: world_frame)

section \<open>The bytes sent\<close>

text \<open>
  What the handler relies on: sends append to the wire what they report as sent, and nothing else
  that the handler calls touches the wire. A memory response holds as many bytes as it announces.
\<close>

definition wire_env :: "('w \<Rightarrow> string) \<Rightarrow> ('w, 'f, 's, 'b) handler_env \<Rightarrow> 'w handler_config \<Rightarrow> bool" where
  "wire_env wire env cfg \<longleftrightarrow>
     (\<forall>opts. sends_to_wire wire (\<lambda>w bytes. io_send (env_socket env) bytes opts w)) \<and>
     (\<forall>x. storage_keeps (\<lambda>w. wire w = x) (env_storage env) \<and>
          socket_keeps (\<lambda>w. wire w = x) (env_socket env) \<and> provider_keeps (\<lambda>w. wire w = x) cfg) \<and>
     (\<forall>w. wire (fst (env_date env w)) = wire w) \<and>
     (\<forall>application v w. env_application env = Some application \<longrightarrow>
        wire (fst (application v w)) = wire w \<and>
        (\<forall>r s. snd (application v w) = Some (Inr (r, s)) \<longrightarrow> \<not> resp_streaming r \<longrightarrow>
           length (resp_body r) = resp_content_length r))"

lemma wire_envD:
  assumes "wire_env wire env cfg"
  shows "sends_to_wire wire (tcp_send (env_socket env) opts c)"
    "storage_keeps (\<lambda>w. wire w = x) (env_storage env)" "host_keeps (\<lambda>w. wire w = x) (env_host env)"
    "socket_keeps (\<lambda>w. wire w = x) (env_socket env)" "provider_keeps (\<lambda>w. wire w = x) cfg"
    "env_date env w = (w', d) \<Longrightarrow> wire w' = wire w"
    "env_application env = Some application \<Longrightarrow> application v w = (w', q) \<Longrightarrow> wire w' = wire w"
    "env_application env = Some application \<Longrightarrow> application v w = (w', Some (Inr (r, s))) \<Longrightarrow>
       \<not> resp_streaming r \<longrightarrow> length (resp_body r) = resp_content_length r"
proof -
  have "sends_to_wire wire (\<lambda>w bytes. io_send (env_socket env) bytes opts w)"
    using assms by (simp add: wire_env_def)
  then show "sends_to_wire wire (tcp_send (env_socket env) opts c)"
    unfolding sends_to_wire_def by (simp add: tcp_send_def)
  show st: "storage_keeps (\<lambda>w. wire w = x) (env_storage env)"
    and "socket_keeps (\<lambda>w. wire w = x) (env_socket env)" "provider_keeps (\<lambda>w. wire w = x) cfg"
    using assms by (simp_all add: wire_env_def)
  from st show "host_keeps (\<lambda>w. wire w = x) (env_host env)" by (rule storage_keepsD)
  show "env_date env w = (w', d) \<Longrightarrow> wire w' = wire w"
    using assms by (metis fst_conv wire_env_def)
  show "env_application env = Some application \<Longrightarrow> application v w = (w', q) \<Longrightarrow> wire w' = wire w"
    using assms by (metis fst_conv wire_env_def)
  show "env_application env = Some application \<Longrightarrow> application v w = (w', Some (Inr (r, s))) \<Longrightarrow>
       \<not> resp_streaming r \<longrightarrow> length (resp_body r) = resp_content_length r"
    using assms by (metis snd_conv wire_env_def)
qed

text \<open>All or the beginning of one final response.\<close>

definition response_bytes :: "string \<Rightarrow> bool" where
  "response_bytes sent \<longleftrightarrow>
     (\<exists>r. 200 \<le> resp_status r \<and>
        (prefix sent (serialize_http_response_head r) \<or>
         (\<exists>body. sent = serialize_http_response_head r @ body \<and> length body \<le> resp_content_length r)))"

text \<open>
  What may still be sent: at most one interim response, when none has been decided yet, and at most
  one final response, which never follows a broken interim one.
\<close>

definition exchange_bytes :: "bool \<Rightarrow> string \<Rightarrow> bool" where
  "exchange_bytes checked sent \<longleftrightarrow>
     (\<exists>interim final. sent = interim @ final \<and> response_bytes final \<and>
        (interim = [] \<or> \<not> checked \<and> prefix interim interim_response \<and>
           (interim \<noteq> interim_response \<longrightarrow> final = [])))"

lemma response_bytes_Nil [simp]: "response_bytes []"
  by (auto simp: response_bytes_def intro: exI [of _ "make_http_response 200 [] [] [] 0 [] False"]
      simp: make_http_response_def)

lemma exchange_response [intro]: "response_bytes sent \<Longrightarrow> exchange_bytes checked sent"
  by (auto simp: exchange_bytes_def)

lemma exchange_interim: "prefix interim interim_response \<Longrightarrow> exchange_bytes False interim"
  unfolding exchange_bytes_def by (intro exI [of _ interim] exI [of _ "[]"]) simp

lemma exchange_checked: "exchange_bytes True sent \<Longrightarrow> exchange_bytes checked sent"
  by (auto simp: exchange_bytes_def)

lemma exchange_after_interim: "exchange_bytes True sent \<Longrightarrow> exchange_bytes False (interim_response @ sent)"
  by (auto simp: exchange_bytes_def)

lemma write_http_response_bytes:
  fixes send :: "'w \<Rightarrow> string \<Rightarrow> 'w \<times> ('e + nat)"
    and read :: "'s \<Rightarrow> nat \<Rightarrow> 's \<times> ('b + string) option"
  assumes "sends_to_wire wire send" "write_http_response send read w s r meth = (w', r', result)"
    and "\<not> resp_streaming r \<longrightarrow> length (resp_body r) = resp_content_length r" "200 \<le> resp_status r"
  shows "\<exists>sent. wire w' = wire w @ sent \<and> response_bytes sent"
  using write_response_wire [OF assms(1-3)] assms(4) unfolding response_bytes_def by blast

lemma make_error_response_Inr:
  "make_error_response date status = Inr r \<Longrightarrow>
     resp_status r = status \<and> \<not> resp_streaming r \<and> resp_body r = [] \<and> resp_content_length r = 0"
  by (auto simp: make_error_response_def create_response_def make_http_response_def
      split: sum.splits if_splits)

lemma send_error_response_bytes:
  assumes env: "wire_env wire env cfg" and "200 \<le> status"
    and "send_error_response env cfg c status w = (w', q)"
  shows "\<exists>sent. wire w' = wire w @ sent \<and> response_bytes sent"
proof -
  obtain w0 date where w0: "env_date env w = (w0, date)" by force
  then have e0: "wire w0 = wire w" by (rule wire_envD(6) [OF env])
  show ?thesis
  proof (cases "make_error_response date status")
    case (Inl e)
    with assms(3) w0 e0 show ?thesis by (simp add: send_error_response_def)
  next
    case (Inr r)
    obtain w1 opts where w1: "file_options_for (env_host env) (response_timeout cfg) w0 = (w1, opts)"
      by force
    have e1: "wire w1 = wire w0"
      by (rule file_options_for_keeps [OF w1 wire_envD(3) [OF env, of "wire w0"]]) simp
    obtain w2 r' z where z: "write_http_response (tcp_send (env_socket env) opts c)
        (\<lambda>s n. (s, None :: (unit + string) option)) w1 () r Get = (w2, r', z)" by (metis prod_cases3)
    from make_error_response_Inr [OF Inr] assms(2) obtain sent where
      sent: "wire w2 = wire w1 @ sent" "response_bytes sent"
      using write_http_response_bytes [OF wire_envD(1) [OF env] z] by auto
    obtain w3 y where y: "drain_after_response (env_host env) (env_socket env) cfg c w2 = (w3, y)" by force
    have e3: "wire w3 = wire w2"
      by (rule drain_after_response_keeps [OF y wire_envD(3,4) [OF env, of "wire w2"]]) simp
    have "w' = w2 \<or> w' = w3"
      using assms(3) w0 Inr w1 z y by (cases z) (auto simp: send_error_response_def)
    with e0 e1 sent e3 show ?thesis by auto
  qed
qed

lemma interim_loop_bytes:
  assumes env: "wire_env wire env cfg" and "interim_loop (env_socket env) opts c remaining w = (w', q)"
  shows "\<exists>sent. wire w' = wire w @ sent \<and> prefix sent remaining \<and> (\<forall>p. q = Inr p \<longrightarrow> p \<and> sent = remaining)"
  using assms(2)
proof (induction "length remaining" arbitrary: remaining w rule: less_induct)
  case less
  note sends = sends_to_wireD [OF wire_envD(1) [OF env, of opts c]]
  show ?case
  proof (cases "remaining = []")
    case True
    with less.prems show ?thesis by (subst (asm) interim_loop.simps) auto
  next
    case False
    obtain w1 r where r: "tcp_send (env_socket env) opts c w remaining = (w1, r)" by force
    show ?thesis
    proof (cases "\<exists>n. r = Inr n \<and> n \<noteq> 0")
      case True
      then obtain n where n: "r = Inr n" "n \<noteq> 0" by blast
      with sends(2) r have w1: "n \<le> length remaining" "wire w1 = wire w @ take n remaining" by blast+
      have "interim_loop (env_socket env) opts c (drop n remaining) w1 = (w', q)"
        using less.prems False r n by (subst (asm) interim_loop.simps) simp
      from less.hyps [OF _ this] n False obtain sent where s: "wire w' = wire w1 @ sent"
        "prefix sent (drop n remaining)" "\<forall>p. q = Inr p \<longrightarrow> p \<and> sent = drop n remaining" by auto
      from s(2) have "prefix (take n remaining @ sent) (take n remaining @ drop n remaining)"
        by (simp del: append_take_drop_id)
      with s w1 show ?thesis by (intro exI [of _ "take n remaining @ sent"]) auto
    next
      case stop: False
      show ?thesis
      proof (cases r)
        case (Inl e)
        with less.prems False r sends(1) show ?thesis by (subst (asm) interim_loop.simps) auto
      next
        case (Inr n)
        with stop less.prems False r sends(2) [of w remaining w1 n] show ?thesis
          by (subst (asm) interim_loop.simps) auto
      qed
    qed
  qed
qed

lemma respond_to_expectation_bytes:
  assumes env: "wire_env wire env cfg"
    and "respond_to_expectation env cfg c expectation opts w = (w', q)"
  shows "\<exists>sent. wire w' = wire w @ sent \<and>
     (case expectation of
        Expect_none \<Rightarrow> sent = [] \<and> q = Inr True
      | Expect_continue \<Rightarrow> prefix sent interim_response \<and> (\<forall>p. q = Inr p \<longrightarrow> p \<and> sent = interim_response)
      | Expect_unsupported \<Rightarrow> response_bytes sent \<and> q \<noteq> Inr True)"
proof (cases expectation)
  case Expect_unsupported
  obtain w1 r where r: "send_error_response env cfg c 417 w = (w1, r)" by force
  from send_error_response_bytes [OF env _ r] obtain sent where
    "wire w1 = wire w @ sent" "response_bytes sent" by auto
  moreover have "w' = w1 \<and> q \<noteq> Inr True"
    using assms(2) r Expect_unsupported by (auto simp: respond_to_expectation_def split: sum.splits)
  ultimately show ?thesis using Expect_unsupported by auto
next
  case Expect_continue
  with assms(2) have "interim_loop (env_socket env) opts c interim_response w = (w', q)"
    by (simp add: respond_to_expectation_def)
  from interim_loop_bytes [OF env this] Expect_continue show ?thesis by simp
qed (use assms(2) in \<open>simp add: respond_to_expectation_def\<close>)

lemma dispatch_and_respond_bytes:
  assumes env: "wire_env wire env cfg" and "dispatch_and_respond env cfg c v w = (w', q)"
  shows "\<exists>sent. wire w' = wire w @ sent \<and> response_bytes sent"
proof (cases "env_application env")
  case None
  with assms(2) show ?thesis by (simp add: dispatch_and_respond_def)
next
  case (Some application)
  obtain w1 a where a: "application v w = (w1, a)" by force
  with Some have e1: "wire w1 = wire w" by (rule wire_envD(7) [OF env])
  obtain w2 r2 where r2: "send_error_response env cfg c 500 w1 = (w2, r2)" by force
  from send_error_response_bytes [OF env _ r2] obtain sent2 where
    s2: "wire w2 = wire w1 @ sent2" "response_bytes sent2" by auto
  show ?thesis
  proof (cases "\<exists>r s. a = Some (Inr (r, s)) \<and> 200 \<le> resp_status r")
    case False
    then have "w' = w1 \<or> w' = w2"
      using assms(2) Some a r2
      by (auto simp: dispatch_and_respond_def split: option.splits sum.splits prod.splits if_splits)
    with e1 s2 show ?thesis by auto
  next
    case True
    then obtain r s where r: "a = Some (Inr (r, s))" "200 \<le> resp_status r" by blast
    obtain w3 opts where w3: "file_options_for (env_host env) (response_timeout cfg) w1 = (w3, opts)"
      by force
    have e3: "wire w3 = wire w1"
      by (rule file_options_for_keeps [OF w3 wire_envD(3) [OF env, of "wire w1"]]) simp
    obtain w4 r' z where z: "write_http_response (tcp_send (env_socket env) opts c) (env_read env) w3 s r
      (view_method v) = (w4, r', z)" by (metis prod_cases3)
    from write_http_response_bytes [OF wire_envD(1) [OF env] z] r wire_envD(8) [OF env Some] a
    obtain sent where sent: "wire w4 = wire w3 @ sent" "response_bytes sent" by blast
    obtain w5 y where y: "drain_after_response (env_host env) (env_socket env) cfg c w4 = (w5, y)" by force
    have e5: "wire w5 = wire w4"
      by (rule drain_after_response_keeps [OF y wire_envD(3,4) [OF env, of "wire w4"]]) simp
    have "w' = w4 \<or> w' = w5"
      using assms(2) Some a r w3 z y by (cases z) (auto simp: dispatch_and_respond_def)
    with e1 e3 sent e5 show ?thesis by auto
  qed
qed

lemma error_status_final: "200 \<le> parse_error_status code" "200 \<le> request_error_status e"
  "200 \<le> transport_error_status t"
  by (auto simp: parse_error_status_def request_error_status_def transport_error_status_def
      split: parse_error_code.splits buffered_error.splits ingestion_error_code.splits option.splits)

lemma respond_to_request_failure_bytes:
  assumes env: "wire_env wire env cfg" and "respond_to_request_failure env cfg c e w = (w', q)"
  shows "\<exists>sent. wire w' = wire w @ sent \<and> response_bytes sent"
  using assms(2) send_error_response_bytes [OF env error_status_final(2)]
  by (auto simp: respond_to_request_failure_def split: if_splits)

lemma respond_to_request_bytes:
  assumes env: "wire_env wire env cfg" and "respond_to_request env cfg c b w = (w', q)"
  shows "\<exists>sent. wire w' = wire w @ sent \<and> response_bytes sent"
proof -
  obtain w1 opts where w1: "file_options_for (env_host env) (body_timeout (cfg_timeouts cfg)) w = (w1, opts)"
    by force
  have e1: "wire w1 = wire w"
    by (rule file_options_for_keeps [OF w1 wire_envD(3) [OF env, of "wire w"]]) simp
  show ?thesis
  proof (cases "buffered_view opts b")
    case None
    with assms(2) w1 e1 show ?thesis by (simp add: respond_to_request_def)
  next
    case (Some v)
    show ?thesis
    proof (cases "resolve_http_transport (env_pton4 env) (env_pton6 env) (cfg_transport_policy cfg)
        (env_peer env) (view_fields v)")
      case (Inl e)
      obtain w2 r where r: "send_error_response env cfg c (transport_error_status e) w1 = (w2, r)" by force
      with assms(2) w1 Some Inl have "w' = w2" by (simp add: respond_to_request_def)
      with send_error_response_bytes [OF env error_status_final(3) r] e1 show ?thesis by auto
    next
      case (Inr ctx)
      with assms(2) w1 Some e1 show ?thesis
        by (auto simp: respond_to_request_def dest!: dispatch_and_respond_bytes [OF env])
    qed
  qed
qed

lemma respond_to_close_bytes:
  assumes env: "wire_env wire env cfg" and "respond_to_close env cfg c opts b w = (w', q)"
  shows "\<exists>sent. wire w' = wire w @ sent \<and> response_bytes sent"
proof (cases "buffered_empty b")
  case True
  with assms(2) show ?thesis by (simp add: respond_to_close_def)
next
  case False
  obtain w1 b1 r where r: "buffered_finish (env_storage env) opts b w = (w1, b1, r)" by (metis prod_cases3)
  have e1: "wire w1 = wire w"
    by (rule buffered_finish_keeps [OF r wire_envD(2) [OF env, of "wire w"]]) simp
  show ?thesis
  proof (cases r)
    case (Inl e)
    with assms(2) False r have "respond_to_request_failure env cfg c e w1 = (w', q)"
      by (simp add: respond_to_close_def)
    from respond_to_request_failure_bytes [OF env this] e1 show ?thesis by simp
  next
    case (Inr u)
    with assms(2) False r have "send_error_response env cfg c 400 w1 = (w', q)"
      by (simp add: respond_to_close_def)
    from send_error_response_bytes [OF env _ this] e1 show ?thesis by simp
  qed
qed

lemma feed_with_body_options_checked:
  assumes "feed_with_body_options st selector provider input b w = (w', b', r)"
  shows "bq_expectation_checked b' = bq_expectation_checked b"
  using assms
  by (auto simp: feed_with_body_options_def feed_body_def append_metadata_def erase_metadata_def Let_def
      split: if_splits option.splits prod.splits sum.splits)

lemma take_expectation_checked:
  assumes "take_expectation b = (b1, e)"
  shows "e \<noteq> Expect_none \<Longrightarrow> \<not> bq_expectation_checked b \<and> bq_expectation_checked b1"
    "bq_expectation_checked b \<Longrightarrow> bq_expectation_checked b1"
  using assms by (auto simp: take_expectation_def split: option.splits if_splits)

lemma exchange_mono: "exchange_bytes k' sent \<Longrightarrow> (k \<longrightarrow> k') \<Longrightarrow> exchange_bytes k sent"
  by (cases k; cases k') (auto intro: exchange_checked)

text \<open>The start of a round: it ends the exchange, or has sent at most the interim response.\<close>

lemma expectation_exchange:
  assumes env: "wire_env wire env cfg" and b1: "take_expectation b = (b1, e)"
    and p: "respond_to_expectation env cfg c e opts w = (w1, p)"
  obtains (ended) sent where "p \<noteq> Inr True" "wire w1 = wire w @ sent"
      "exchange_bytes (bq_expectation_checked b) sent"
  | (begun) sent where "p = Inr True" "wire w1 = wire w @ sent"
      "\<And>rest. exchange_bytes (bq_expectation_checked b1) rest \<Longrightarrow>
         exchange_bytes (bq_expectation_checked b) (sent @ rest)"
proof -
  from respond_to_expectation_bytes [OF env p] obtain sent where
    sent: "wire w1 = wire w @ sent"
      "case e of
         Expect_none \<Rightarrow> sent = [] \<and> p = Inr True
       | Expect_continue \<Rightarrow> prefix sent interim_response \<and> (\<forall>q. p = Inr q \<longrightarrow> q \<and> sent = interim_response)
       | Expect_unsupported \<Rightarrow> response_bytes sent \<and> p \<noteq> Inr True" by blast
  note checked = take_expectation_checked [OF b1]
  show thesis
  proof (cases e)
    case Expect_none
    with sent checked(2) show thesis by (intro begun [of sent]) (auto intro: exchange_mono)
  next
    case Expect_unsupported
    with sent show thesis by (intro ended [of sent]) auto
  next
    case Expect_continue
    with checked have k: "\<not> bq_expectation_checked b" "bq_expectation_checked b1" by auto
    show thesis
    proof (cases "p = Inr True")
      case True
      with sent Expect_continue k show thesis
        by (intro begun [of sent]) (auto intro: exchange_after_interim)
    next
      case False
      with sent Expect_continue k show thesis
        by (intro ended [of sent]) (auto intro: exchange_interim)
    qed
  qed
qed

lemma run_http_connection_bytes:
  assumes "run_http_connection env cfg started deadlines b c w = Some y"
  shows "wire_env wire env cfg \<longrightarrow>
    (\<exists>sent. wire (fst y) = wire w @ sent \<and> exchange_bytes (bq_expectation_checked b) sent)"
  using assms
proof (induction rule: run_http_connection.raw_induct [rotated, consumes 1, case_names step])
  case (step run env cfg started deadlines b c w y)
  show ?case
  proof (rule impI)
    assume env: "wire_env wire env cfg"
    note quiet = wire_envD(2-5) [OF env]
    obtain b1 e where b1: "take_expectation b = (b1, e)" by force
    obtain w1 p where p: "respond_to_expectation env cfg c e
      \<lparr>io_stop_possible = True, io_deadline = Some (next_deadline deadlines True)\<rparr> w = (w1, p)" by force
    show "\<exists>sent. wire (fst y) = wire w @ sent \<and> exchange_bytes (bq_expectation_checked b) sent"
    proof (cases rule: expectation_exchange [OF env b1 p])
      case (1 sent)
      then have "fst y = w1" using step(2) b1 p by (cases p) auto
      with 1 show ?thesis by auto
    next
      case (2 sent)
      have "\<exists>rest. wire (fst y) = wire w1 @ rest \<and> exchange_bytes (bq_expectation_checked b1) rest"
      proof (cases "buffered_complete b1")
        case True
        with step(2) b1 p 2 have "respond_to_request env cfg c b1 w1 = (fst y, snd y)" by simp
        from respond_to_request_bytes [OF env this] show ?thesis by auto
      next
        case False
        obtain w2 opts where o: "bounded_read_options cfg deadlines started (current_phase b1) w1 =
          (w2, opts)" by force
        have e2: "wire w2 = wire w1"
          by (rule bounded_read_options_keeps [OF o quiet(4) [of "wire w1"]]) simp
        obtain w3 c1 q where q: "tcp_receive (env_host env) (env_socket env) (receive_size cfg) opts c w2 =
          (w3, c1, q)" by (metis prod_cases3)
        have e3: "wire w3 = wire w2"
          by (rule tcp_receive_keeps [OF q quiet(2,3) [of "wire w2"]]) simp
        obtain w4 now where now: "host_now (env_host env) w3 = (w4, now)" by force
        have e4: "wire w4 = wire w3" by (rule host_keepsD(1) [OF now quiet(2) [of "wire w3"]]) simp
        let ?dl = "record_progress now deadlines"
        let ?provider = "bounded_read_options cfg ?dl started Body_phase"
        consider (lost) x where "q = Inl x" | (closed) "q = Inr []"
          | (input) x where "q = Inr x" "x \<noteq> []" by (cases q) auto
        then show ?thesis
        proof cases
          case lost
          with step(2) b1 p 2 False o q have "fst y = w3" by auto
          with e2 e3 show ?thesis by auto
        next
          case closed
          obtain w5 r where r: "respond_to_close env cfg c1 opts b1 w3 = (w5, r)" by force
          with closed step(2) b1 p 2 False o q have "fst y = w5" by auto
          with respond_to_close_bytes [OF env r] e2 e3 show ?thesis by auto
        next
          case (input x)
          obtain w5 b2 f where f: "feed_with_body_options (env_storage env) (body_policy_selector cfg)
            ?provider x b1 w4 = (w5, b2, f)" by (metis prod_cases3)
          have e5: "wire w5 = wire w4"
            by (rule feed_with_body_options_keeps [OF f quiet(1) [of "wire w4"]])
              (auto dest: bounded_read_options_keeps [OF _ quiet(4) [of "wire w4"]])
          show ?thesis
          proof (cases f)
            case (Inl z)
            obtain w6 r where r: "respond_to_request_failure env cfg c1 z w5 = (w6, r)" by force
            with Inl input step(2) b1 p 2 False o q now f have "fst y = w6" by auto
            with respond_to_request_failure_bytes [OF env r] e2 e3 e4 e5 show ?thesis by auto
          next
            case (Inr u)
            with input step(2) b1 p 2 False o q now f have "run env cfg started ?dl b2 c1 w5 = Some y"
              by simp
            with step(1) env e2 e3 e4 e5 feed_with_body_options_checked [OF f] show ?thesis by fastforce
          qed
        qed
      qed
      with 2 show ?thesis by auto
    qed
  qed
qed


lemma sample_wire_env: "wire_env (\<lambda>w. w) sample_env sample_handler_config"
  by (simp add: wire_env_def sample_env_def sample_handler_config_def plain_storage_def
      sends_to_wire_def storage_keeps_def host_keeps_def worker_keeps_def files_keep_def
      socket_keeps_def provider_keeps_def make_http_response_def)


end
