(* ===== verification/Config_Lexer.thy ===== *)
theory Config_Lexer
  imports Utf8
begin

text \<open>
  The tokenizer of \<^verbatim>\<open>spnode.conf\<close>: \<^verbatim>\<open>src/configuration/config_lexer.cpp\<close>. The lexer object is a
  record with the complete input and the current position; every private operation is a function
  from lexer to lexer. \<^verbatim>\<open>at_end\<close> compares with \<open>\<ge>\<close> where the source has \<open>=\<close>: the offset never passes the
  end (\<open>lexer_ok\<close>), so both agree.
\<close>

section \<open>Tokens and errors\<close>

record source_location =
  byte_offset :: nat
  loc_line :: nat
  loc_column :: nat

datatype token_kind =
  Identifier | String_literal | Integer_literal | Boolean_literal | Left_brace | Right_brace |
  Semicolon | End_of_input

record config_token =
  tok_kind :: token_kind
  lexeme :: string
  decoded_string :: "string option"
  token_location :: source_location

datatype lexer_error_code =
  Input_too_large | Invalid_utf8 | Unexpected_byte_order_mark | Lexer_embedded_null |
  Unexpected_character | Invalid_escape_sequence | Unterminated_string | Line_break_in_string

record lexer_error =
  lex_code :: lexer_error_code
  lexer_error_location :: source_location
  lexer_error_context :: string

record config_lexer =
  lex_input :: string
  lex_offset :: nat
  lex_line :: nat
  lex_column :: nat
  terminal_error :: "lexer_error option"

section \<open>Operations\<close>

definition is_identifier_start :: "char \<Rightarrow> bool" where [byte_class]:
  "is_identifier_start byte \<longleftrightarrow>
     (CHR ''A'' \<le> byte \<and> byte \<le> CHR ''Z'') \<or> (CHR ''a'' \<le> byte \<and> byte \<le> CHR ''z'') \<or>
     byte = CHR ''_''"

definition is_identifier_continuation :: "char \<Rightarrow> bool" where [byte_class]:
  "is_identifier_continuation byte \<longleftrightarrow>
     is_identifier_start byte \<or> (CHR ''0'' \<le> byte \<and> byte \<le> CHR ''9'') \<or> byte = CHR ''-''"

definition utf8_byte_order_mark :: string where
  "utf8_byte_order_mark = [CHR 0xEF, CHR 0xBB, CHR 0xBF]"

definition maximum_error_context_bytes :: nat where
  "maximum_error_context_bytes = 5"

definition max_input_size_bytes :: nat where
  "max_input_size_bytes = 1024 * 1024"

definition has_byte_order_mark :: "string \<Rightarrow> nat \<Rightarrow> bool" where
  "has_byte_order_mark input offset =
     (if length input - min offset (length input) < length utf8_byte_order_mark then False
      else input ! offset = utf8_byte_order_mark ! 0 \<and>
           input ! (offset + 1) = utf8_byte_order_mark ! 1 \<and>
           input ! (offset + 2) = utf8_byte_order_mark ! 2)"

definition make_context :: "string \<Rightarrow> nat \<Rightarrow> nat \<Rightarrow> string" where
  "make_context input offset len = sv_substr input offset (min len maximum_error_context_bytes)"

definition make_lexer :: "string \<Rightarrow> config_lexer" where
  "make_lexer input =
     \<lparr>lex_input = input,
      lex_offset = (if has_byte_order_mark input 0 then length utf8_byte_order_mark else 0),
      lex_line = 1, lex_column = 1, terminal_error = None\<rparr>"

definition create_lexer :: "string \<Rightarrow> (lexer_error, config_lexer) result" where
  "create_lexer input =
     (if length input > max_input_size_bytes then
        Inl \<lparr>lex_code = Input_too_large,
             lexer_error_location = \<lparr>byte_offset = 0, loc_line = 1, loc_column = 1\<rparr>,
             lexer_error_context = print_base 10 (length input) @ '' bytes''\<rparr>
      else Inr (make_lexer input))"

definition at_end :: "config_lexer \<Rightarrow> bool" where
  "at_end l \<longleftrightarrow> lex_offset l \<ge> length (lex_input l)"

definition current_byte :: "config_lexer \<Rightarrow> char" where
  "current_byte l = lex_input l ! lex_offset l"

definition lex_location :: "config_lexer \<Rightarrow> source_location" where
  "lex_location l = \<lparr>byte_offset = lex_offset l, loc_line = lex_line l, loc_column = lex_column l\<rparr>"

definition advance_ascii :: "config_lexer \<Rightarrow> config_lexer" where
  "advance_ascii l =
     (let current = current_byte l;
          l1 = l\<lparr>lex_offset := lex_offset l + 1\<rparr>
      in if current = CR then
           (if \<not> at_end l1 \<and> current_byte l1 = LF then l1\<lparr>lex_offset := lex_offset l1 + 1\<rparr> else l1)
             \<lparr>lex_line := lex_line l + 1, lex_column := 1\<rparr>
         else if current = LF then l1\<lparr>lex_line := lex_line l + 1, lex_column := 1\<rparr>
         else l1\<lparr>lex_column := lex_column l + 1\<rparr>)"

definition utf8_sequence_length :: "config_lexer \<Rightarrow> nat" where
  "utf8_sequence_length l =
     (case decode_one (drop (lex_offset l) (lex_input l)) of
        None \<Rightarrow> 0
      | Some scalar \<Rightarrow> byte_count scalar)"

definition advance_utf8 :: "nat \<Rightarrow> config_lexer \<Rightarrow> config_lexer" where
  "advance_utf8 sequence_length l =
     l\<lparr>lex_offset := lex_offset l + sequence_length, lex_column := lex_column l + 1\<rparr>"

definition advance_scalar :: "nat \<Rightarrow> config_lexer \<Rightarrow> config_lexer" where
  "advance_scalar len l = (if len = 1 then advance_ascii l else advance_utf8 len l)"

definition lex_error :: "lexer_error_code \<Rightarrow> nat \<Rightarrow> config_lexer \<Rightarrow> lexer_error" where
  "lex_error code len l =
     \<lparr>lex_code = code, lexer_error_location = lex_location l,
      lexer_error_context = make_context (lex_input l) (lex_offset l) len\<rparr>"

lemma advance_ascii_simps [simp]:
  "lex_input (advance_ascii l) = lex_input l"
  "terminal_error (advance_ascii l) = terminal_error l"
  "lex_offset l < lex_offset (advance_ascii l)"
  by (auto simp: advance_ascii_def Let_def)

lemma advance_ascii_le: "lex_offset (advance_ascii l) \<le> n \<Longrightarrow> lex_offset l \<le> n"
  using advance_ascii_simps(3) [of l] by linarith

lemma advance_scalar_simps [simp]:
  "lex_input (advance_scalar n l) = lex_input l"
  "terminal_error (advance_scalar n l) = terminal_error l"
  "0 < n \<Longrightarrow> lex_offset l < lex_offset (advance_scalar n l)"
  by (auto simp: advance_scalar_def advance_utf8_def)

function skip_comment :: "config_lexer \<Rightarrow> config_lexer \<times> lexer_error option" where
  "skip_comment l =
     (if at_end l \<or> current_byte l = CR \<or> current_byte l = LF then (l, None)
      else if current_byte l = NUL then (l, Some (lex_error Lexer_embedded_null 1 l))
      else if has_byte_order_mark (lex_input l) (lex_offset l) then
        (l, Some (lex_error Unexpected_byte_order_mark (length utf8_byte_order_mark) l))
      else
        (let len = utf8_sequence_length l in
         if len = 0 then (l, Some (lex_error Invalid_utf8 1 l))
         else skip_comment (advance_scalar len l)))"
  by pat_completeness auto
termination
proof (relation "measure (\<lambda>l. length (lex_input l) - lex_offset l)", goal_cases)
  case (2 l len)
  then have "lex_offset l < lex_offset (advance_scalar len l)" by simp
  with 2 show ?case by (simp add: at_end_def diff_less_mono2)
qed simp

declare skip_comment.simps [simp del]

lemma skip_comment_keeps:
  "lex_input (fst (skip_comment l)) = lex_input l \<and>
   terminal_error (fst (skip_comment l)) = terminal_error l \<and>
   lex_offset l \<le> lex_offset (fst (skip_comment l))"
proof (induction l rule: skip_comment.induct)
  case (1 l)
  show ?case
  proof (cases "at_end l \<or> current_byte l = CR \<or> current_byte l = LF \<or> current_byte l = NUL \<or>
      has_byte_order_mark (lex_input l) (lex_offset l) \<or> utf8_sequence_length l = 0")
    case True
    then have "fst (skip_comment l) = l" by (subst skip_comment.simps) (auto simp: Let_def)
    then show ?thesis by simp
  next
    case False
    let ?l = "advance_scalar (utf8_sequence_length l) l"
    have eq: "skip_comment l = skip_comment ?l"
      using False by (subst skip_comment.simps) (simp add: Let_def)
    have "lex_offset l < lex_offset ?l" using False by simp
    moreover have "lex_input (fst (skip_comment ?l)) = lex_input ?l \<and>
        terminal_error (fst (skip_comment ?l)) = terminal_error ?l \<and>
        lex_offset ?l \<le> lex_offset (fst (skip_comment ?l))"
      using 1 [OF _ _ _ refl] False by blast
    ultimately show ?thesis unfolding eq by simp
  qed
qed

definition is_config_space :: "char \<Rightarrow> bool" where
  "is_config_space byte \<longleftrightarrow> byte = CHR '' '' \<or> byte = HTAB \<or> byte = CR \<or> byte = LF"

function skip_trivia :: "config_lexer \<Rightarrow> config_lexer \<times> lexer_error option" where
  "skip_trivia l =
     (if at_end l then (l, None)
      else if is_config_space (current_byte l) then skip_trivia (advance_ascii l)
      else if current_byte l \<noteq> CHR ''#'' then (l, None)
      else
        (case skip_comment (advance_ascii l) of
           (l1, Some e) \<Rightarrow> (l1, Some e)
         | (l1, None) \<Rightarrow> skip_trivia l1))"
  by pat_completeness auto
termination
proof (relation "measure (\<lambda>l. length (lex_input l) - lex_offset l)", goal_cases)
  case (2 l)
  then show ?case using advance_ascii_simps(3) [of l] by (simp add: at_end_def diff_less_mono2)
next
  case (3 l l1 y)
  then have "lex_offset l < lex_offset l1" "lex_input l1 = lex_input l"
    using skip_comment_keeps [of "advance_ascii l"] advance_ascii_simps(3) [of l]
    by (metis fst_conv order_less_le_trans, metis advance_ascii_simps(1) fst_conv)
  with 3 show ?case by (simp add: at_end_def diff_less_mono2)
qed simp

declare skip_trivia.simps [simp del]

function scan_while :: "(char \<Rightarrow> bool) \<Rightarrow> config_lexer \<Rightarrow> config_lexer" where
  "scan_while p l = (if \<not> at_end l \<and> p (current_byte l) then scan_while p (advance_ascii l) else l)"
  by pat_completeness auto
termination
proof (relation "measure (\<lambda>(p, l). length (lex_input l) - lex_offset l)", goal_cases)
  case (2 p l)
  then show ?case using advance_ascii_simps(3) [of l] by (simp add: at_end_def diff_less_mono2)
qed simp

declare scan_while.simps [simp del]

definition lex_identifier :: "config_lexer \<Rightarrow> config_lexer \<times> config_token" where
  "lex_identifier l =
     (let l1 = scan_while is_identifier_continuation (advance_ascii l);
          word = sv_substr (lex_input l) (lex_offset l) (lex_offset l1 - lex_offset l)
      in (l1, \<lparr>tok_kind = (if word = ''true'' \<or> word = ''false'' then Boolean_literal else Identifier),
               lexeme = word, decoded_string = None, token_location = lex_location l\<rparr>))"

definition lex_integer :: "config_lexer \<Rightarrow> config_lexer \<times> config_token" where
  "lex_integer l =
     (let l1 = scan_while (\<lambda>c. CHR ''0'' \<le> c \<and> c \<le> CHR ''9'') (advance_ascii l)
      in (l1, \<lparr>tok_kind = Integer_literal,
               lexeme = sv_substr (lex_input l) (lex_offset l) (lex_offset l1 - lex_offset l),
               decoded_string = None, token_location = lex_location l\<rparr>))"

definition escape_value :: "char \<Rightarrow> char option" where
  "escape_value escaped =
     (if escaped = DQUOTE then Some DQUOTE
      else if escaped = BACKSLASH then Some BACKSLASH
      else if escaped = CHR ''n'' then Some LF
      else if escaped = CHR ''r'' then Some CR
      else if escaped = CHR ''t'' then Some HTAB
      else None)"

definition consume_escape ::
    "config_lexer \<Rightarrow> string \<Rightarrow> (config_lexer \<times> string) \<times> lexer_error option" where
  "consume_escape l decoded =
     (let l1 = advance_ascii l in
      if at_end l1 then
        ((l1, decoded), Some \<lparr>lex_code = Invalid_escape_sequence,
           lexer_error_location = lex_location l, lexer_error_context = [BACKSLASH]\<rparr>)
      else if current_byte l1 = NUL then ((l1, decoded), Some (lex_error Lexer_embedded_null 1 l1))
      else if current_byte l1 = CR \<or> current_byte l1 = LF then
        ((l1, decoded), Some (lex_error Line_break_in_string 1 l1))
      else if has_byte_order_mark (lex_input l1) (lex_offset l1) then
        ((l1, decoded), Some (lex_error Unexpected_byte_order_mark (length utf8_byte_order_mark) l1))
      else if utf8_sequence_length l1 = 0 then ((l1, decoded), Some (lex_error Invalid_utf8 1 l1))
      else
        (case escape_value (current_byte l1) of
           None \<Rightarrow>
             ((l1, decoded), Some \<lparr>lex_code = Invalid_escape_sequence,
                lexer_error_location = lex_location l,
                lexer_error_context =
                  make_context (lex_input l1) (lex_offset l) (1 + utf8_sequence_length l1)\<rparr>)
         | Some v \<Rightarrow> ((advance_ascii l1, decoded @ [v]), None)))"

definition consume_string_character ::
    "config_lexer \<Rightarrow> string \<Rightarrow> (config_lexer \<times> string) \<times> lexer_error option" where
  "consume_string_character l decoded =
     (if current_byte l = CR \<or> current_byte l = LF then
        ((l, decoded), Some (lex_error Line_break_in_string 1 l))
      else if current_byte l = NUL then ((l, decoded), Some (lex_error Lexer_embedded_null 1 l))
      else if has_byte_order_mark (lex_input l) (lex_offset l) then
        ((l, decoded), Some (lex_error Unexpected_byte_order_mark (length utf8_byte_order_mark) l))
      else if current_byte l = BACKSLASH then consume_escape l decoded
      else
        (let len = utf8_sequence_length l in
         if len = 0 then ((l, decoded), Some (lex_error Invalid_utf8 1 l))
         else ((advance_scalar len l, decoded @ sv_substr (lex_input l) (lex_offset l) len), None)))"

lemma consume_string_keeps:
  assumes "consume_string_character l decoded = ((l1, decoded1), None)"
  shows "lex_input l1 = lex_input l \<and> lex_offset l < lex_offset l1 \<and> terminal_error l1 = terminal_error l"
proof -
  have "lex_offset l < lex_offset (advance_ascii (advance_ascii l))"
    using advance_ascii_simps(3) order_less_trans by blast
  with assms show ?thesis
    by (auto simp: consume_string_character_def consume_escape_def Let_def
        split: if_splits option.splits)
qed

function lex_string_loop ::
    "config_lexer \<Rightarrow> string \<Rightarrow> (config_lexer \<times> string) \<times> lexer_error option" where
  "lex_string_loop l decoded =
     (if at_end l \<or> current_byte l = DQUOTE then ((l, decoded), None)
      else
        (case consume_string_character l decoded of
           ((l1, decoded1), Some e) \<Rightarrow> ((l1, decoded1), Some e)
         | ((l1, decoded1), None) \<Rightarrow> lex_string_loop l1 decoded1))"
  by pat_completeness auto
termination
proof (relation "measure (\<lambda>(l, decoded). length (lex_input l) - lex_offset l)", goal_cases)
  case (2 l decoded x y l1 decoded1)
  then have "lex_input l1 = lex_input l \<and> lex_offset l < lex_offset l1"
    using consume_string_keeps by metis
  with 2 show ?case by (auto simp: at_end_def diff_less_mono2)
qed simp

declare lex_string_loop.simps [simp del]

definition lex_fail ::
    "lexer_error \<Rightarrow> config_lexer \<Rightarrow> config_lexer \<times> (lexer_error, config_token) result" where
  "lex_fail e l = (l\<lparr>terminal_error := Some e\<rparr>, Inl e)"

definition lex_string :: "config_lexer \<Rightarrow> config_lexer \<times> (lexer_error, config_token) result" where
  "lex_string l =
     (case lex_string_loop (advance_ascii l) [] of
        ((l1, decoded), Some e) \<Rightarrow> lex_fail e l1
      | ((l1, decoded), None) \<Rightarrow>
          (if at_end l1 then
             lex_fail \<lparr>lex_code = Unterminated_string, lexer_error_location = lex_location l,
               lexer_error_context = make_context (lex_input l) (lex_offset l) 1\<rparr> l1
           else
             (let l2 = advance_ascii l1 in
              (l2, Inr \<lparr>tok_kind = String_literal,
                        lexeme = sv_substr (lex_input l) (lex_offset l) (lex_offset l2 - lex_offset l),
                        decoded_string = Some decoded, token_location = lex_location l\<rparr>))))"

definition lex_punctuation :: "token_kind \<Rightarrow> config_lexer \<Rightarrow> config_lexer \<times> config_token" where
  "lex_punctuation kind l =
     (advance_ascii l, \<lparr>tok_kind = kind, lexeme = sv_substr (lex_input l) (lex_offset l) 1,
        decoded_string = None, token_location = lex_location l\<rparr>)"

definition next_token :: "config_lexer \<Rightarrow> config_lexer \<times> (lexer_error, config_token) result" where
  "next_token l =
     (case terminal_error l of
        Some e \<Rightarrow> (l, Inl e)
      | None \<Rightarrow>
          (case skip_trivia l of
             (l1, Some e) \<Rightarrow> lex_fail e l1
           | (l1, None) \<Rightarrow>
               (if at_end l1 then
                  (l1, Inr \<lparr>tok_kind = End_of_input, lexeme = [], decoded_string = None,
                            token_location = lex_location l1\<rparr>)
                else if is_identifier_start (current_byte l1) then map_prod id Inr (lex_identifier l1)
                else if CHR ''0'' \<le> current_byte l1 \<and> current_byte l1 \<le> CHR ''9''
                then map_prod id Inr (lex_integer l1)
                else if current_byte l1 = DQUOTE then lex_string l1
                else if current_byte l1 = CHR ''{'' then map_prod id Inr (lex_punctuation Left_brace l1)
                else if current_byte l1 = CHR ''}'' then map_prod id Inr (lex_punctuation Right_brace l1)
                else if current_byte l1 = CHR '';'' then map_prod id Inr (lex_punctuation Semicolon l1)
                else if current_byte l1 = NUL then lex_fail (lex_error Lexer_embedded_null 1 l1) l1
                else if has_byte_order_mark (lex_input l1) (lex_offset l1) then
                  lex_fail (lex_error Unexpected_byte_order_mark (length utf8_byte_order_mark) l1) l1
                else if utf8_sequence_length l1 = 0 then lex_fail (lex_error Invalid_utf8 1 l1) l1
                else lex_fail (lex_error Unexpected_character (utf8_sequence_length l1) l1) l1)))"

section \<open>Positions and progress\<close>

definition rest_of :: "config_lexer \<Rightarrow> string" where
  "rest_of l = drop (lex_offset l) (lex_input l)"

definition lexer_ok :: "config_lexer \<Rightarrow> bool" where
  "lexer_ok l \<longleftrightarrow> lex_offset l \<le> length (lex_input l)"

lemma at_end_rest: "at_end l \<longleftrightarrow> rest_of l = []"
  by (simp add: at_end_def rest_of_def)

lemma current_byte_rest: "rest_of l = c # cs \<Longrightarrow> current_byte l = c"
  by (metis current_byte_def rest_of_def hd_drop_conv_nth list.distinct(1) list.sel(1) drop_eq_Nil linorder_not_le)

lemma utf8_sequence_length_rest:
  "utf8_sequence_length l = (case decode_one (rest_of l) of None \<Rightarrow> 0 | Some d \<Rightarrow> byte_count d)"
  by (simp add: utf8_sequence_length_def rest_of_def)

lemma sv_substr_rest: "sv_substr (lex_input l) (lex_offset l) n = take n (rest_of l)"
  by (simp add: sv_substr_def rest_of_def)

lemma has_byte_order_mark_rest:
  "has_byte_order_mark (lex_input l) (lex_offset l) \<Longrightarrow> prefix utf8_byte_order_mark (rest_of l)"
proof -
  assume b: "has_byte_order_mark (lex_input l) (lex_offset l)"
  then have len: "lex_offset l + 2 < length (lex_input l)"
    by (auto simp: has_byte_order_mark_def utf8_byte_order_mark_def split: if_splits)
  then have "rest_of l = lex_input l ! lex_offset l # lex_input l ! (lex_offset l + 1) #
      lex_input l ! (lex_offset l + 2) # drop (lex_offset l + 3) (lex_input l)"
    by (simp add: rest_of_def Cons_nth_drop_Suc numeral_eq_Suc)
  with b show ?thesis by (auto simp: has_byte_order_mark_def utf8_byte_order_mark_def split: if_splits)
qed

lemma rest_advance_ascii:
  "rest_of l = c # cs \<Longrightarrow> c \<noteq> CR \<Longrightarrow> rest_of (advance_ascii l) = cs"
proof -
  assume l: "rest_of l = c # cs" "c \<noteq> CR"
  then have "drop (Suc (lex_offset l)) (lex_input l) = cs"
    by (metis drop_Suc rest_of_def list.sel(3) tl_drop)
  with l current_byte_rest [OF l(1)] show ?thesis by (simp add: advance_ascii_def Let_def rest_of_def)
qed

lemma rest_advance_utf8: "rest_of (advance_utf8 n l) = drop n (rest_of l)"
  by (simp add: advance_utf8_def rest_of_def add.commute)

lemma utf8_length_le: "utf8_sequence_length l \<le> length (rest_of l)"
  by (auto simp: utf8_sequence_length_rest split: option.splits dest: decode_one_count)

lemma advance_ascii_ok: "\<not> at_end l \<Longrightarrow> lexer_ok (advance_ascii l)"
  by (auto simp: advance_ascii_def Let_def lexer_ok_def at_end_def)

lemma advance_scalar_ok: "\<not> at_end l \<Longrightarrow> n \<le> length (rest_of l) \<Longrightarrow> lexer_ok (advance_scalar n l)"
  by (auto simp: advance_scalar_def advance_ascii_ok)
    (auto simp: advance_utf8_def lexer_ok_def rest_of_def at_end_def)

lemma skip_comment_ok: "lexer_ok l \<Longrightarrow> lexer_ok (fst (skip_comment l))"
proof (induction l rule: skip_comment.induct)
  case (1 l)
  then show ?case
    by (subst skip_comment.simps) (auto simp: Let_def intro: advance_scalar_ok utf8_length_le)
qed

lemma skip_trivia_ok:
  "lexer_ok l \<Longrightarrow> lexer_ok (fst (skip_trivia l)) \<and> lex_input (fst (skip_trivia l)) = lex_input l \<and>
     terminal_error (fst (skip_trivia l)) = terminal_error l \<and>
     lex_offset l \<le> lex_offset (fst (skip_trivia l))"
proof (induction l rule: skip_trivia.induct)
  case (1 l)
  show ?case
  proof (cases "at_end l \<or> \<not> is_config_space (current_byte l) \<and> current_byte l \<noteq> CHR ''#''")
    case True
    then have "skip_trivia l = (l, None)" by (subst skip_trivia.simps) auto
    with "1.prems" show ?thesis by simp
  next
    case go: False
    show ?thesis
    proof (cases "is_config_space (current_byte l)")
      case True
      with go have "skip_trivia l = skip_trivia (advance_ascii l)" by (subst skip_trivia.simps) simp
      with "1.IH"(1) go True advance_ascii_ok [of l] show ?thesis by (auto intro: advance_ascii_le)
    next
      case False
      obtain l1 r where c: "skip_comment (advance_ascii l) = (l1, r)" by force
      have l1: "lexer_ok l1" "lex_input l1 = lex_input l" "terminal_error l1 = terminal_error l"
        "lex_offset (advance_ascii l) \<le> lex_offset l1"
        using skip_comment_keeps [of "advance_ascii l"] skip_comment_ok [OF advance_ascii_ok [of l]] go c
        by auto
      have eq: "skip_trivia l = (if r = None then skip_trivia l1 else (l1, r))"
        using go False c by (subst skip_trivia.simps) (auto split: option.splits)
      show ?thesis
      proof (cases r)
        case None
        have "lexer_ok (fst (skip_trivia l1)) \<and> lex_input (fst (skip_trivia l1)) = lex_input l1 \<and>
            terminal_error (fst (skip_trivia l1)) = terminal_error l1 \<and>
            lex_offset l1 \<le> lex_offset (fst (skip_trivia l1))"
          using "1.IH"(2) [of l1 r] go False c None l1(1) by simp
        with None l1 eq show ?thesis by (auto intro: advance_ascii_le order_trans)
      next
        case (Some e)
        with eq l1 show ?thesis by (auto intro: advance_ascii_le)
      qed
    qed
  qed
qed

lemma scan_while_ok:
  "lexer_ok l \<Longrightarrow> lexer_ok (scan_while p l) \<and> lex_input (scan_while p l) = lex_input l \<and>
     terminal_error (scan_while p l) = terminal_error l \<and> lex_offset l \<le> lex_offset (scan_while p l)"
proof (induction p l rule: scan_while.induct)
  case (1 p l)
  show ?case
  proof (cases "\<not> at_end l \<and> p (current_byte l)")
    case True
    then have "scan_while p l = scan_while p (advance_ascii l)" by (subst scan_while.simps) simp
    with 1 True advance_ascii_ok [of l] show ?thesis by (auto intro: advance_ascii_le)
  next
    case False
    then have "scan_while p l = l" by (subst scan_while.simps) auto
    with 1 show ?thesis by simp
  qed
qed

lemma consume_string_ok:
  assumes "consume_string_character l decoded = ((l1, decoded1), None)" "\<not> at_end l"
  shows "lexer_ok l1"
  using assms
  by (auto simp: consume_string_character_def consume_escape_def Let_def
      split: if_splits option.splits intro: advance_ascii_ok advance_scalar_ok utf8_length_le)

lemma lex_string_loop_ok:
  assumes "lex_string_loop l decoded = ((l1, decoded1), None)" "lexer_ok l"
  shows "lexer_ok l1 \<and> lex_input l1 = lex_input l \<and> terminal_error l1 = terminal_error l \<and>
         lex_offset l \<le> lex_offset l1"
  using assms
proof (induction l decoded rule: lex_string_loop.induct)
  case (1 l decoded)
  show ?case
  proof (cases "at_end l \<or> current_byte l = DQUOTE")
    case True
    with 1 show ?thesis by (subst (asm) lex_string_loop.simps) auto
  next
    case False
    with "1.prems" obtain l2 decoded2 where c: "consume_string_character l decoded = ((l2, decoded2), None)"
      "lex_string_loop l2 decoded2 = ((l1, decoded1), None)"
      by (subst (asm) lex_string_loop.simps) (auto split: prod.splits option.splits)
    with 1(1) [OF False c(1) [symmetric] refl refl] consume_string_keeps [OF c(1)] consume_string_ok [OF c(1)] False
    show ?thesis by auto
  qed
qed

lemma fst_lex_tokens [simp]:
  "fst (lex_identifier l) = scan_while is_identifier_continuation (advance_ascii l)"
  "fst (lex_integer l) = scan_while (\<lambda>c. CHR ''0'' \<le> c \<and> c \<le> CHR ''9'') (advance_ascii l)"
  "fst (lex_punctuation kind l) = advance_ascii l"
  by (simp_all add: lex_identifier_def lex_integer_def lex_punctuation_def Let_def)

lemma map_prod_Inr: "map_prod id Inr x = (l, Inr t) \<longleftrightarrow> fst x = l \<and> snd x = t"
  by (cases x) auto

lemma next_token_cases:
  assumes "next_token l = (l', Inr t)" "skip_trivia l = (l1, None)" "\<not> at_end l1" "terminal_error l = None"
  shows "(\<exists>p. l' = scan_while p (advance_ascii l1)) \<or> l' = advance_ascii l1 \<or>
         lex_string l1 = (l', Inr t)"
  using assms unfolding next_token_def lex_fail_def
  by (simp add: map_prod_Inr split: if_split_asm) metis+

lemma next_token_progress:
  assumes "next_token l = (l', Inr t)" "lexer_ok l"
  shows "lexer_ok l' \<and> lex_input l' = lex_input l \<and> terminal_error l' = None \<and>
         lex_offset l \<le> lex_offset l' \<and>
         (tok_kind t \<noteq> End_of_input \<longrightarrow> lex_offset l < lex_offset l')"
proof -
  have te: "terminal_error l = None" using assms(1) by (auto simp: next_token_def split: option.splits)
  obtain l1 r where tr: "skip_trivia l = (l1, r)" by force
  have r: "r = None" using assms(1) te tr by (auto simp: next_token_def lex_fail_def split: option.splits)
  have l1: "lexer_ok l1" "lex_input l1 = lex_input l" "terminal_error l1 = None" "lex_offset l \<le> lex_offset l1"
    using skip_trivia_ok [OF assms(2)] tr te by auto
  show ?thesis
  proof (cases "at_end l1")
    case True
    with assms(1) te tr r l1 show ?thesis by (auto simp: next_token_def)
  next
    case False
    note ok = advance_ascii_ok [OF False]
    have adv: "lex_offset l < lex_offset l'" if "lex_offset (advance_ascii l1) \<le> lex_offset l'"
      using that l1(4) advance_ascii_simps(3) [of l1] by linarith
    have scan: "l' = scan_while p (advance_ascii l1) \<Longrightarrow> ?thesis" for p
      using scan_while_ok [OF ok, of p] l1 adv by (auto intro: less_imp_le)
    have punct: "l' = advance_ascii l1 \<Longrightarrow> ?thesis"
      using ok l1 adv by (auto intro: less_imp_le)
    have str: "lex_string l1 = (l', Inr t) \<Longrightarrow> ?thesis"
    proof -
      assume "lex_string l1 = (l', Inr t)"
      then obtain l2 decoded where s: "lex_string_loop (advance_ascii l1) [] = ((l2, decoded), None)"
        "\<not> at_end l2" "l' = advance_ascii l2"
        by (auto simp: lex_string_def lex_fail_def Let_def split: prod.splits option.splits if_splits)
      have "lex_offset (advance_ascii l1) \<le> lex_offset l'"
        using lex_string_loop_ok [OF s(1) ok] less_imp_le [OF advance_ascii_simps(3) [of l2]] s(3)
        by (metis order_trans)
      with lex_string_loop_ok [OF s(1) ok] advance_ascii_ok [OF s(2)] l1 s(3) adv show ?thesis
        by (auto intro: less_imp_le)
    qed
    have "(\<exists>p. l' = scan_while p (advance_ascii l1)) \<or> l' = advance_ascii l1 \<or>
        lex_string l1 = (l', Inr t)"
      by (rule next_token_cases [OF assms(1) _ False te]) (simp add: tr r)
    then show ?thesis by (elim disjE exE) (erule scan, erule punct, erule str)
  qed
qed

lemma next_token_sticky: "next_token l = (l', Inl e) \<Longrightarrow> next_token l' = (l', Inl e)"
proof -
  assume n: "next_token l = (l', Inl e)"
  have "terminal_error l' = Some e"
  proof (cases "terminal_error l")
    case None
    obtain l1 r where tr: "skip_trivia l = (l1, r)" by force
    have "lex_string l1 = (l', Inl e) \<Longrightarrow> ?thesis"
      by (auto simp: lex_string_def lex_fail_def Let_def split: prod.splits option.splits if_splits)
    with n None tr show ?thesis
      by (cases r) (auto simp: next_token_def lex_fail_def map_prod_def split: if_splits prod.splits)
  qed (use n in \<open>auto simp: next_token_def\<close>)
  then show ?thesis by (simp add: next_token_def)
qed

section \<open>Token sources\<close>

text \<open>
  A source of tokens that makes progress: every token but the end token uses up input. Reading until
  the end token or an error therefore ends.
\<close>

primrec read_tokens ::
    "('s \<Rightarrow> 's \<times> ('e + 't)) \<Rightarrow> ('t \<Rightarrow> bool) \<Rightarrow> nat \<Rightarrow> 's \<Rightarrow> ('t list \<times> 'e option) option" where
  "read_tokens nxt is_end 0 s = None"
| "read_tokens nxt is_end (Suc n) s =
     (case nxt s of
        (s', Inl e) \<Rightarrow> Some ([], Some e)
      | (s', Inr t) \<Rightarrow>
          (if is_end t then Some ([t], None)
           else (case read_tokens nxt is_end n s' of
                   None \<Rightarrow> None
                 | Some (ts, e) \<Rightarrow> Some (t # ts, e))))"

locale token_source =
  fixes nxt :: "'s \<Rightarrow> 's \<times> ('e + 't)"
    and is_end :: "'t \<Rightarrow> bool"
    and ok :: "'s \<Rightarrow> bool"
    and remaining :: "'s \<Rightarrow> nat"
  assumes progress: "ok s \<Longrightarrow> nxt s = (s', Inr t) \<Longrightarrow>
      ok s' \<and> remaining s' \<le> remaining s \<and> (\<not> is_end t \<longrightarrow> remaining s' < remaining s)"
begin

lemma read_tokens_ends:
  "ok s \<Longrightarrow> remaining s < n \<Longrightarrow>
     \<exists>ts e. read_tokens nxt is_end n s = Some (ts, e) \<and> length ts \<le> remaining s + 1"
proof (induction n arbitrary: s)
  case (Suc n)
  obtain s' r where r: "nxt s = (s', r)" by force
  show ?case
  proof (cases r)
    case (Inl e)
    with r show ?thesis by simp
  next
    case (Inr t)
    show ?thesis
    proof (cases "is_end t")
      case True
      with r Inr show ?thesis by simp
    next
      case False
      with progress [OF Suc.prems(1)] r Inr have "ok s'" "remaining s' < remaining s" by auto
      with Suc.IH [of s'] Suc.prems(2) obtain ts e where
        "read_tokens nxt is_end n s' = Some (ts, e)" "length ts \<le> remaining s' + 1" by auto
      with r Inr False \<open>remaining s' < remaining s\<close> show ?thesis by auto
    qed
  qed
qed simp

end

definition lexer_remaining :: "config_lexer \<Rightarrow> nat" where
  "lexer_remaining l = length (lex_input l) - lex_offset l"

definition is_end_token :: "config_token \<Rightarrow> bool" where
  "is_end_token t \<longleftrightarrow> tok_kind t = End_of_input"

interpretation lexer: token_source next_token is_end_token lexer_ok lexer_remaining
proof unfold_locales
  fix s s' t
  assume "lexer_ok s" "next_token s = (s', Inr t)"
  with next_token_progress [of s s' t] show "lexer_ok s' \<and> lexer_remaining s' \<le> lexer_remaining s \<and>
      (\<not> is_end_token t \<longrightarrow> lexer_remaining s' < lexer_remaining s)"
    by (auto simp: lexer_remaining_def lexer_ok_def is_end_token_def intro: diff_less_mono2)
qed

text \<open>Progress also holds for a lexer past its end, which only ever returns the end token.\<close>

lemma next_token_remaining:
  assumes "next_token l = (l', Inr t)"
  shows "lexer_remaining l' \<le> lexer_remaining l \<and>
         (tok_kind t \<noteq> End_of_input \<longrightarrow> lexer_remaining l' < lexer_remaining l)"
proof (cases "lexer_ok l")
  case True
  with lexer.progress assms show ?thesis by (auto simp: is_end_token_def)
next
  case False
  then have "at_end l" by (simp add: lexer_ok_def at_end_def)
  then have "skip_trivia l = (l, None)" by (subst skip_trivia.simps) simp
  with assms \<open>at_end l\<close> show ?thesis by (auto simp: next_token_def split: option.splits)
qed

lemma create_lexer_ok: "create_lexer input = Inr l \<Longrightarrow> lexer_ok l \<and> lex_input l = input"
  by (auto simp: create_lexer_def make_lexer_def lexer_ok_def has_byte_order_mark_def split: if_splits)

text \<open>
  C35. Tokenizing ends: for every accepted input, calling \<^verbatim>\<open>next\<close> repeatedly reaches the end token or a
  lexical error after at most one call per input byte and one more.
\<close>

theorem lexer_terminates:
  assumes "create_lexer input = Inr l"
  shows "\<exists>ts e. read_tokens next_token is_end_token (length input + 1) l = Some (ts, e) \<and>
           length ts \<le> length input + 1"
proof -
  have "lexer_ok l" "lexer_remaining l \<le> length input"
    using create_lexer_ok [OF assms] by (auto simp: lexer_remaining_def)
  with lexer.read_tokens_ends [of l "length input + 1"] show ?thesis by fastforce
qed

theorem lexer_terminates_witness:
  "\<exists>ts e. read_tokens next_token is_end_token (length ''port 80;'' + 1) (make_lexer ''port 80;'') =
     Some (ts, e) \<and> length ts \<le> length ''port 80;'' + 1"
  by (rule lexer_terminates) (simp add: create_lexer_def max_input_size_bytes_def)

section \<open>String literals\<close>

text \<open>A string, given by its code points, written as a quoted literal.\<close>

definition escape_scalar :: "u32 \<Rightarrow> string" where
  "escape_scalar v =
     (if v = 0x22 then [BACKSLASH, DQUOTE]
      else if v = 0x5C then [BACKSLASH, BACKSLASH]
      else if v = 0x0A then [BACKSLASH, CHR ''n'']
      else if v = 0x0D then [BACKSLASH, CHR ''r'']
      else utf8_encode v)"

definition quote_string :: "u32 list \<Rightarrow> string" where
  "quote_string vs = DQUOTE # concat (map escape_scalar vs) @ [DQUOTE]"

definition quotable :: "u32 \<Rightarrow> bool" where
  "quotable v \<longleftrightarrow> is_scalar_value v \<and> v \<noteq> 0 \<and> v \<noteq> 0xFEFF"

lemma encode_ascii_head:
  assumes "is_scalar_value v" "utf8_encode v = c # cs" "byte_u32 c < 0x80"
  shows "v = byte_u32 c"
  using decode_encode [OF assms(1), of "[]"] assms(2,3) by (simp add: decode_one_def)

lemma byte_u32_values [simp]:
  "byte_u32 DQUOTE = 0x22" "byte_u32 BACKSLASH = 0x5C" "byte_u32 LF = 0x0A" "byte_u32 CR = 0x0D"
  "byte_u32 NUL = 0"
  by (simp_all add: byte_u32_def)

lemma encode_head_not:
  assumes "is_scalar_value v" "utf8_encode v = c # cs" "v \<noteq> byte_u32 d" "byte_u32 d < 0x80"
  shows "c \<noteq> d"
  using encode_ascii_head [OF assms(1,2)] assms(3,4) by auto

lemma decode_byte_order_mark:
  "prefix utf8_byte_order_mark s \<Longrightarrow> \<exists>d. decode_one s = Some d \<and> scalar_value d = 0xFEFF"
proof -
  assume "prefix utf8_byte_order_mark s"
  then obtain r where r: "s = utf8_byte_order_mark @ r" by (auto simp: prefix_def)
  have "decode_one utf8_byte_order_mark = Some \<lparr>scalar_value = 0xFEFF, byte_count = 3\<rparr>" by code_simp
  from decode_one_append [OF this, of r] r show ?thesis by auto
qed

lemma consume_raw:
  assumes "rest_of l = utf8_encode v @ rest" "quotable v" "v \<notin> {0x22, 0x5C, 0x0A, 0x0D}"
  shows "\<exists>l1. consume_string_character l decoded = ((l1, decoded @ utf8_encode v), None) \<and>
              rest_of l1 = rest \<and> lex_input l1 = lex_input l"
proof -
  have v: "is_scalar_value v" using assms(2) by (simp add: quotable_def)
  obtain c cs where c: "utf8_encode v = c # cs" using utf8_encode_nonempty [OF v] by (cases "utf8_encode v") auto
  have cur: "current_byte l = c" using assms(1) c current_byte_rest [of l c "cs @ rest"] by simp
  have nc: "c \<noteq> DQUOTE" "c \<noteq> BACKSLASH" "c \<noteq> LF" "c \<noteq> CR" "c \<noteq> NUL"
    using encode_head_not [OF v c] assms(2,3) by (auto simp: quotable_def)
  have dec: "decode_one (rest_of l) = Some \<lparr>scalar_value = v, byte_count = length (utf8_encode v)\<rparr>"
    unfolding assms(1) using v by (rule decode_encode)
  have bom: "\<not> has_byte_order_mark (lex_input l) (lex_offset l)"
    using has_byte_order_mark_rest [of l] decode_byte_order_mark [of "rest_of l"] dec assms(2)
    by (auto simp: quotable_def)
  have len: "utf8_sequence_length l = length (utf8_encode v)" using dec by (simp add: utf8_sequence_length_rest)
  let ?l = "advance_scalar (length (utf8_encode v)) l"
  have "rest_of ?l = rest"
  proof (cases cs)
    case Nil
    with assms(1) c nc show ?thesis by (simp add: advance_scalar_def rest_advance_ascii)
  next
    case (Cons d ds)
    with assms(1) c show ?thesis by (simp add: advance_scalar_def rest_advance_utf8)
  qed
  moreover have "consume_string_character l decoded = ((?l, decoded @ utf8_encode v), None)"
    using cur nc bom len c assms(1)
    by (simp add: consume_string_character_def Let_def sv_substr_rest)
  ultimately show ?thesis by auto
qed

lemma ascii_byte_order_mark: "rest_of l = c # cs \<Longrightarrow> c \<noteq> CHR 0xEF \<Longrightarrow>
    \<not> has_byte_order_mark (lex_input l) (lex_offset l)"
  using has_byte_order_mark_rest [of l] by (auto simp: utf8_byte_order_mark_def)

lemma ascii_sequence_length: "rest_of l = c # cs \<Longrightarrow> byte_u32 c < 0x80 \<Longrightarrow> utf8_sequence_length l = 1"
  by (simp add: utf8_sequence_length_rest decode_one_def)

lemma consume_escaped:
  assumes "rest_of l = BACKSLASH # c # rest" "(c, x) \<in> {(DQUOTE, DQUOTE), (BACKSLASH, BACKSLASH),
      (CHR ''n'', LF), (CHR ''r'', CR)}"
  shows "\<exists>l1. consume_string_character l decoded = ((l1, decoded @ [x]), None) \<and>
              rest_of l1 = rest \<and> lex_input l1 = lex_input l"
proof -
  let ?l1 = "advance_ascii l"
  have l1: "rest_of ?l1 = c # rest" using assms(1) by (simp add: rest_advance_ascii)
  have c: "c \<noteq> CR" "c \<noteq> LF" "c \<noteq> NUL" "c \<noteq> CHR 0xEF" "byte_u32 c < 0x80" "escape_value c = Some x"
    using assms(2) by (auto simp: escape_value_def byte_u32_def)
  have "consume_escape l decoded = ((advance_ascii ?l1, decoded @ [x]), None)"
    using c l1 current_byte_rest [OF l1] ascii_byte_order_mark [OF l1] ascii_sequence_length [OF l1]
    by (simp add: consume_escape_def Let_def at_end_rest)
  moreover have "consume_string_character l decoded = consume_escape l decoded"
    using current_byte_rest [OF assms(1)] ascii_byte_order_mark [OF assms(1)]
    by (simp add: consume_string_character_def)
  moreover have "rest_of (advance_ascii ?l1) = rest" using l1 c by (simp add: rest_advance_ascii)
  ultimately show ?thesis by auto
qed

lemma ascii_scalar_encode [simp]:
  "utf8_encode 0x22 = [DQUOTE]" "utf8_encode 0x5C = [BACKSLASH]" "utf8_encode 0x0A = [LF]"
  "utf8_encode 0x0D = [CR]"
  using ascii_encode [of DQUOTE] ascii_encode [of BACKSLASH] ascii_encode [of LF] ascii_encode [of CR]
  by simp_all

lemma consume_scalar:
  assumes "rest_of l = escape_scalar v @ rest" "quotable v"
  shows "\<exists>l1. consume_string_character l decoded = ((l1, decoded @ utf8_encode v), None) \<and>
              rest_of l1 = rest \<and> lex_input l1 = lex_input l"
proof (cases "v \<in> {0x22, 0x5C, 0x0A, 0x0D}")
  case False
  with assms consume_raw [of l v rest decoded] show ?thesis by (simp add: escape_scalar_def)
next
  case True
  then show ?thesis
    using assms(1) consume_escaped [of l DQUOTE rest DQUOTE decoded]
      consume_escaped [of l BACKSLASH rest BACKSLASH decoded]
      consume_escaped [of l "CHR ''n''" rest LF decoded] consume_escaped [of l "CHR ''r''" rest CR decoded]
    by (auto simp: escape_scalar_def)
qed

lemma escape_scalar_head:
  assumes "quotable v"
  obtains c cs where "escape_scalar v = c # cs" "c \<noteq> DQUOTE"
proof -
  have v: "is_scalar_value v" using assms by (simp add: quotable_def)
  obtain c cs where c: "utf8_encode v = c # cs" using utf8_encode_nonempty [OF v] by (cases "utf8_encode v") auto
  show thesis
  proof (cases "v \<in> {0x22, 0x5C, 0x0A, 0x0D}")
    case True
    with that show thesis by (auto simp: escape_scalar_def)
  next
    case False
    with encode_head_not [OF v c, of DQUOTE] c that [of c cs] show thesis
      by (simp add: escape_scalar_def)
  qed
qed

lemma lex_string_loop_quoted:
  assumes "list_all quotable vs" "rest_of l = concat (map escape_scalar vs) @ DQUOTE # rest"
  shows "\<exists>l1. lex_string_loop l decoded = ((l1, decoded @ concat (map utf8_encode vs)), None) \<and>
              rest_of l1 = DQUOTE # rest \<and> lex_input l1 = lex_input l"
  using assms
proof (induction vs arbitrary: l decoded)
  case Nil
  then have "rest_of l = DQUOTE # rest" by simp
  with current_byte_rest [OF this] show ?case by (subst lex_string_loop.simps) (simp add: at_end_rest)
next
  case (Cons v vs)
  then have r: "rest_of l = escape_scalar v @ (concat (map escape_scalar vs) @ DQUOTE # rest)" by simp
  from Cons.prems have v: "quotable v" by simp
  from consume_scalar [OF r v, of decoded] obtain l1 where l1:
    "consume_string_character l decoded = ((l1, decoded @ utf8_encode v), None)"
    "rest_of l1 = concat (map escape_scalar vs) @ DQUOTE # rest" "lex_input l1 = lex_input l" by blast
  from Cons.IH [OF _ l1(2), of "decoded @ utf8_encode v"] Cons.prems(1) obtain l2 where l2:
    "lex_string_loop l1 (decoded @ utf8_encode v) =
       ((l2, (decoded @ utf8_encode v) @ concat (map utf8_encode vs)), None)"
    "rest_of l2 = DQUOTE # rest" "lex_input l2 = lex_input l1" by auto
  obtain c cs where c: "escape_scalar v = c # cs" "c \<noteq> DQUOTE" using escape_scalar_head [OF v] .
  have ne: "rest_of l \<noteq> []" "current_byte l \<noteq> DQUOTE"
    using r c current_byte_rest [of l c] by auto
  have "lex_string_loop l decoded = lex_string_loop l1 (decoded @ utf8_encode v)"
    using ne l1(1) by (subst lex_string_loop.simps) (simp add: at_end_rest)
  with l2 l1(3) show ?case by auto
qed

lemma skip_trivia_stop:
  assumes "rest_of l = c # cs" "\<not> is_config_space c" "c \<noteq> CHR ''#''"
  shows "skip_trivia l = (l, None)"
  using assms current_byte_rest [OF assms(1)] by (subst skip_trivia.simps) (simp add: at_end_rest)

lemma next_token_quoted:
  assumes "terminal_error l = None" "rest_of l = quote_string vs @ rest" "list_all quotable vs"
  shows "\<exists>l' t. next_token l = (l', Inr t) \<and> tok_kind t = String_literal \<and>
           decoded_string t = Some (concat (map utf8_encode vs)) \<and>
           lexeme t = quote_string vs \<and> rest_of l' = rest \<and> terminal_error l' = None"
proof -
  have l: "rest_of l = DQUOTE # (concat (map escape_scalar vs) @ DQUOTE # rest)"
    using assms(2) by (simp add: quote_string_def)
  have cur: "current_byte l = DQUOTE" using current_byte_rest [OF l] .
  have tr: "skip_trivia l = (l, None)" using l by (rule skip_trivia_stop) (simp_all add: is_config_space_def)
  have r1: "rest_of (advance_ascii l) = concat (map escape_scalar vs) @ DQUOTE # rest"
    using l by (simp add: rest_advance_ascii)
  from lex_string_loop_quoted [OF assms(3) r1, of "[]"] obtain l1 where l1:
    "lex_string_loop (advance_ascii l) [] = ((l1, concat (map utf8_encode vs)), None)"
    "rest_of l1 = DQUOTE # rest" "lex_input l1 = lex_input l" by auto
  have r2: "rest_of (advance_ascii l1) = rest" using l1(2) by (simp add: rest_advance_ascii)
  have "\<not> at_end l1" "\<not> at_end l" using l1(2) l by (simp_all add: at_end_rest)
  have ns: "\<not> is_identifier_start DQUOTE" "\<not> (CHR ''0'' \<le> DQUOTE)" by code_simp+
  have len: "lex_offset (advance_ascii l1) - lex_offset l = length (quote_string vs)"
  proof -
    have "length (lex_input l) = lex_offset l + length (quote_string vs) + length rest"
      using arg_cong [OF assms(2), of length] \<open>\<not> at_end l\<close> by (simp add: rest_of_def at_end_def)
    moreover have "length (lex_input l) - lex_offset (advance_ascii l1) = length rest"
      using arg_cong [OF r2, of length] l1(3) by (simp add: rest_of_def)
    moreover have "lex_offset (advance_ascii l1) \<le> length (lex_input l)"
      using advance_ascii_ok [OF \<open>\<not> at_end l1\<close>] l1(3) by (simp add: lexer_ok_def)
    ultimately show ?thesis by linarith
  qed
  have "next_token l = lex_string l"
    using assms(1) tr cur ns \<open>\<not> at_end l\<close> by (simp add: next_token_def)
  also have "\<dots> = (advance_ascii l1, Inr \<lparr>tok_kind = String_literal,
      lexeme = take (length (quote_string vs)) (rest_of l),
      decoded_string = Some (concat (map utf8_encode vs)), token_location = lex_location l\<rparr>)"
    using l1(1) \<open>\<not> at_end l1\<close> len by (simp add: lex_string_def Let_def sv_substr_rest)
  finally have n: "next_token l = (advance_ascii l1, Inr \<lparr>tok_kind = String_literal,
      lexeme = take (length (quote_string vs)) (rest_of l),
      decoded_string = Some (concat (map utf8_encode vs)), token_location = lex_location l\<rparr>)" .
  have "terminal_error (advance_ascii l1) = None"
    using next_token_progress [OF n] \<open>\<not> at_end l\<close> by (simp add: lexer_ok_def at_end_def)
  with n show ?thesis using assms(2) r2 by simp
qed

text \<open>
  String round trip: wherever the input continues with a quoted string whose code points are
  neither null nor the byte-order mark, the next token is a string literal that decodes to exactly
  that string, and the lexer stands right behind the closing quote.
\<close>

lemma string_literal_roundtrip:
  assumes "terminal_error l = None" "rest_of l = quote_string vs @ rest" "list_all quotable vs"
  shows "\<exists>l' t. next_token l = (l', Inr t) \<and> tok_kind t = String_literal \<and>
           decoded_string t = Some (concat (map utf8_encode vs)) \<and>
           lexeme t = quote_string vs \<and> rest_of l' = rest"
  using next_token_quoted [OF assms] by blast

section \<open>Reading single tokens\<close>

text \<open>The lexer has no pending error and stands in front of \<open>s\<close>.\<close>

definition reads :: "string \<Rightarrow> config_lexer \<Rightarrow> bool" where
  "reads s l \<longleftrightarrow> terminal_error l = None \<and> rest_of l = s"

lemma reads_space:
  assumes "reads (c # cs) l" "is_config_space c" "c \<noteq> CR"
  shows "\<exists>l'. reads cs l' \<and> next_token l = next_token l'"
proof -
  have l: "rest_of l = c # cs" "terminal_error l = None" using assms(1) by (simp_all add: reads_def)
  have "skip_trivia l = skip_trivia (advance_ascii l)"
    using assms(2) l(1) current_byte_rest [OF l(1)] by (subst skip_trivia.simps) (simp add: at_end_rest)
  then have "next_token l = next_token (advance_ascii l)" using l by (simp add: next_token_def)
  moreover have "reads cs (advance_ascii l)" using l assms(3) by (simp add: reads_def rest_advance_ascii)
  ultimately show ?thesis by blast
qed

lemma reads_punctuation:
  assumes "reads (c # cs) l"
    "(c, k) \<in> {(CHR ''{'', Left_brace), (CHR ''}'', Right_brace), (CHR '';'', Semicolon)}"
  shows "\<exists>l' t. next_token l = (l', Inr t) \<and> tok_kind t = k \<and> reads cs l'"
proof -
  have l: "rest_of l = c # cs" "terminal_error l = None" using assms(1) by (simp_all add: reads_def)
  have c: "\<not> is_config_space c" "c \<noteq> CHR ''#''" "c \<noteq> CR" "c \<noteq> DQUOTE" "\<not> is_identifier_start c"
    "\<not> (CHR ''0'' \<le> c \<and> c \<le> CHR ''9'')"
    using assms(2) by (auto simp: is_config_space_def is_identifier_start_def less_eq_char_def)
  have "next_token l = map_prod id Inr (lex_punctuation k l)"
    using l c assms(2) skip_trivia_stop [OF l(1) c(1,2)] current_byte_rest [OF l(1)]
    by (auto simp: next_token_def at_end_rest)
  moreover have "reads cs (advance_ascii l)" using l c by (simp add: reads_def rest_advance_ascii)
  ultimately show ?thesis by (auto simp: lex_punctuation_def)
qed

lemma scan_while_rest:
  assumes "rest_of l = w @ c # cs" "list_all p w" "\<not> p c" "CR \<notin> set w"
  shows "rest_of (scan_while p l) = c # cs \<and> lex_offset (scan_while p l) = lex_offset l + length w \<and>
         lex_input (scan_while p l) = lex_input l \<and> terminal_error (scan_while p l) = terminal_error l"
  using assms
proof (induction w arbitrary: l)
  case Nil
  then have "rest_of l = c # cs" by simp
  with Nil current_byte_rest [OF this] show ?case by (subst (1 2 3 4) scan_while.simps) simp
next
  case (Cons x w)
  then have l: "rest_of l = x # (w @ c # cs)" by simp
  have "scan_while p l = scan_while p (advance_ascii l)"
    using l Cons.prems(2) current_byte_rest [OF l] by (subst scan_while.simps) (simp add: at_end_rest)
  moreover have "rest_of (advance_ascii l) = w @ c # cs" using rest_advance_ascii [OF l] Cons.prems(4) by auto
  moreover have "lex_offset (advance_ascii l) = lex_offset l + 1"
    using current_byte_rest [OF l] Cons.prems(4) by (auto simp: advance_ascii_def Let_def)
  ultimately show ?case using Cons.IH [of "advance_ascii l"] Cons.prems by simp
qed

lemma identifier_not_CR: "is_identifier_continuation c \<Longrightarrow> c \<noteq> CR"
  by (auto simp: is_identifier_continuation_def is_identifier_start_def less_eq_char_def)

lemma identifier_start_simps:
  "is_identifier_start c \<Longrightarrow> is_identifier_continuation c \<and> \<not> is_config_space c \<and> c \<noteq> CHR ''#''"
  by (auto simp: is_identifier_continuation_def is_identifier_start_def is_config_space_def less_eq_char_def)

lemma reads_identifier:
  assumes "reads (w @ c # cs) l" "w = x # w'" "is_identifier_start x" "list_all is_identifier_continuation w'"
    "\<not> is_identifier_continuation c" "w \<noteq> ''true''" "w \<noteq> ''false''"
  shows "\<exists>l' t. next_token l = (l', Inr t) \<and> tok_kind t = Identifier \<and> lexeme t = w \<and> reads (c # cs) l'"
proof -
  have l: "rest_of l = x # (w' @ c # cs)" "terminal_error l = None"
    using assms(1,2) by (simp_all add: reads_def)
  have x: "x \<noteq> CR" using assms(3) identifier_start_simps identifier_not_CR by blast
  have cr: "CR \<notin> set w'" using assms(4) identifier_not_CR by (auto simp: list_all_iff)
  let ?l = "scan_while is_identifier_continuation (advance_ascii l)"
  have "lex_offset (advance_ascii l) = lex_offset l + 1"
    using current_byte_rest [OF l(1)] x by (simp add: advance_ascii_def Let_def)
  moreover have "rest_of (advance_ascii l) = w' @ c # cs" using l x by (simp add: rest_advance_ascii)
  ultimately have s: "rest_of ?l = c # cs" "lex_offset ?l = lex_offset l + length w" "terminal_error ?l = None"
    using scan_while_rest [OF _ assms(4,5) cr, of "advance_ascii l"] l assms(2) by simp_all
  have "next_token l = map_prod id Inr (lex_identifier l)"
    using l skip_trivia_stop [OF l(1)] identifier_start_simps [OF assms(3)] assms(3) current_byte_rest [OF l(1)]
    by (simp add: next_token_def at_end_rest)
  moreover have "take (length w) (rest_of l) = w" using l assms(2) by simp
  ultimately show ?thesis using s assms(6,7)
    by (auto simp: lex_identifier_def Let_def sv_substr_rest reads_def)
qed

lemma reads_end: "reads [] l \<Longrightarrow> \<exists>t. next_token l = (l, Inr t) \<and> tok_kind t = End_of_input"
proof -
  assume l: "reads [] l"
  then have e: "at_end l" by (simp add: reads_def at_end_rest)
  then have "skip_trivia l = (l, None)" by (subst skip_trivia.simps) simp
  with l e show ?thesis by (simp add: next_token_def reads_def)
qed

lemma reads_quoted:
  assumes "reads (quote_string vs @ rest) l" "list_all quotable vs"
  shows "\<exists>l' t. next_token l = (l', Inr t) \<and> tok_kind t = String_literal \<and>
           decoded_string t = Some (concat (map utf8_encode vs)) \<and> reads rest l'"
  using next_token_quoted [of l vs rest] assms by (auto simp: reads_def)

lemma make_lexer_reads: "s \<noteq> [] \<Longrightarrow> hd s \<noteq> CHR 0xEF \<Longrightarrow> reads s (make_lexer s)"
  by (cases s) (auto simp: reads_def rest_of_def make_lexer_def has_byte_order_mark_def utf8_byte_order_mark_def)

end
