(* ===== verification/Config_Parser.thy ===== *)
theory Config_Parser
  imports Config_Lexer
begin

text \<open>
  The parser of \<^verbatim>\<open>spnode.conf\<close>: \<^verbatim>\<open>src/configuration/config_parser.cpp\<close>. The parser state is the
  lexer and the lookahead token; every private operation returns the first error or its value and
  the state after it. The loops end because every item consumes a token.
\<close>

section \<open>Syntax tree\<close>

datatype config_scalar = Scalar_string string | Scalar_integer nat | Scalar_bool bool

record config_value =
  value_scalar :: config_scalar
  value_location :: source_location

datatype server_directive_kind =
  Bind | Port | Multithreading | Worker_threads | Log_level | Mime_types_file | Credentials_file |
  Header_timeout_ms | Body_timeout_ms | Request_timeout_ms | Response_timeout_ms | Transport_mode |
  Trusted_proxy

datatype location_directive_kind = Path | Read_permission | Write_permission | Delete_permission

record 'k directive =
  directive_kind :: 'k
  directive_value :: config_value
  directive_location :: source_location

record location_block =
  api_path :: string
  block_location :: source_location
  api_path_location :: source_location
  closing_brace_location :: source_location
  location_directives :: "location_directive_kind directive list"

record server_block =
  server_location :: source_location
  server_closing_location :: source_location
  server_directives :: "server_directive_kind directive list"
  server_locations :: "location_block list"

record parsed_configuration =
  parsed_server :: server_block
  end_of_input_location :: source_location

datatype parser_error_code = Lexical_error | Unexpected_token | Integer_out_of_range

datatype expectation =
  Expect_server_keyword | Expect_left_brace | Expect_right_brace | Expect_semicolon |
  Expect_server_item | Expect_location_item | Expect_string | Expect_integer | Expect_boolean |
  Expect_end_of_input

record parser_error =
  parse_code :: parser_error_code
  parser_error_location :: source_location
  error_expected :: "expectation option"
  error_actual_kind :: "token_kind option"
  error_actual_identifier :: "string option"
  error_lexer :: "lexer_error option"

record parser_state =
  parser_lexer :: config_lexer
  parser_current :: config_token

section \<open>Operations\<close>

definition default_location :: source_location where
  "default_location = \<lparr>byte_offset = 0, loc_line = 1, loc_column = 1\<rparr>"

definition initial_parser :: "config_lexer \<Rightarrow> parser_state" where
  "initial_parser l =
     \<lparr>parser_lexer = l, parser_current = \<lparr>tok_kind = Identifier, lexeme = [], decoded_string = None,
        token_location = default_location\<rparr>\<rparr>"

abbreviation cur_kind :: "parser_state \<Rightarrow> token_kind" where
  "cur_kind p \<equiv> tok_kind (parser_current p)"

definition advance :: "parser_state \<Rightarrow> (parser_error, parser_state) result" where
  "advance p =
     (case next_token (parser_lexer p) of
        (l, Inl e) \<Rightarrow>
          Inl \<lparr>parse_code = Lexical_error, parser_error_location = lexer_error_location e,
               error_expected = None, error_actual_kind = None, error_actual_identifier = None,
               error_lexer = Some e\<rparr>
      | (l, Inr t) \<Rightarrow> Inr \<lparr>parser_lexer = l, parser_current = t\<rparr>)"

definition is_identifier :: "string \<Rightarrow> parser_state \<Rightarrow> bool" where
  "is_identifier name p \<longleftrightarrow> cur_kind p = Identifier \<and> lexeme (parser_current p) = name"

definition make_unexpected_error :: "expectation \<Rightarrow> parser_state \<Rightarrow> parser_error" where
  "make_unexpected_error expected p =
     \<lparr>parse_code = Unexpected_token,
      parser_error_location = token_location (parser_current p),
      error_expected = Some expected, error_actual_kind = Some (cur_kind p),
      error_actual_identifier =
        (if cur_kind p = Identifier then Some (lexeme (parser_current p)) else None),
      error_lexer = None\<rparr>"

definition consume :: "token_kind \<Rightarrow> expectation \<Rightarrow> parser_state \<Rightarrow> (parser_error, parser_state) result" where
  "consume kind expected p =
     (if cur_kind p \<noteq> kind then Inl (make_unexpected_error expected p) else advance p)"

definition token_kind_for :: "expectation \<Rightarrow> token_kind" where
  "token_kind_for expected =
     (case expected of
        Expect_string \<Rightarrow> String_literal
      | Expect_integer \<Rightarrow> Integer_literal
      | Expect_boolean \<Rightarrow> Boolean_literal
      | _ \<Rightarrow> End_of_input)"

definition server_mappings :: "(string \<times> server_directive_kind) list" where
  "server_mappings =
     [(''bind'', Bind), (''port'', Port), (''multithreading'', Multithreading),
      (''worker_threads'', Worker_threads), (''header_timeout_ms'', Header_timeout_ms),
      (''body_timeout_ms'', Body_timeout_ms), (''request_timeout_ms'', Request_timeout_ms),
      (''response_timeout_ms'', Response_timeout_ms), (''log_level'', Log_level),
      (''mime_types_file'', Mime_types_file), (''credentials_file'', Credentials_file),
      (''transport_mode'', Transport_mode), (''trusted_proxy'', Trusted_proxy)]"

definition server_directive_kind_of :: "string \<Rightarrow> server_directive_kind option" where
  "server_directive_kind_of name = map_of server_mappings name"

definition location_directive_kind_of :: "string \<Rightarrow> location_directive_kind option" where
  "location_directive_kind_of name =
     (if name = ''path'' then Some Path
      else if name = ''read'' then Some Read_permission
      else if name = ''write'' then Some Write_permission
      else if name = ''delete'' then Some Delete_permission
      else None)"

definition server_expectation :: "server_directive_kind \<Rightarrow> expectation" where
  "server_expectation kind =
     (if kind \<in> {Bind, Log_level, Mime_types_file, Credentials_file, Transport_mode, Trusted_proxy}
      then Expect_string
      else if kind \<in> {Port, Worker_threads, Header_timeout_ms, Body_timeout_ms, Request_timeout_ms,
                     Response_timeout_ms} then Expect_integer
      else Expect_boolean)"

definition location_expectation :: "location_directive_kind \<Rightarrow> expectation" where
  "location_expectation kind = (if kind = Path then Expect_string else Expect_boolean)"

definition integer_error :: "expectation \<Rightarrow> parser_state \<Rightarrow> parser_error" where
  "integer_error expected p =
     \<lparr>parse_code = Integer_out_of_range,
      parser_error_location = token_location (parser_current p),
      error_expected = Some expected, error_actual_kind = Some (cur_kind p),
      error_actual_identifier = None, error_lexer = None\<rparr>"

definition current_scalar :: "expectation \<Rightarrow> parser_state \<Rightarrow> (parser_error, config_scalar) result" where
  "current_scalar expected p =
     (let t = parser_current p in
      if token_kind_for expected = String_literal
      then Inr (Scalar_string (case decoded_string t of None \<Rightarrow> [] | Some s \<Rightarrow> s))
      else if token_kind_for expected = Boolean_literal then Inr (Scalar_bool (lexeme t = ''true''))
      else
        (case from_chars (2 ^ 64) 10 (lexeme t) of
           (Inl Result_out_of_range, rest) \<Rightarrow> Inl (integer_error expected p)
         | (r, rest) \<Rightarrow>
             (if rest \<noteq> [] then Inl (integer_error expected p)
              else Inr (Scalar_integer (case r of Inr v \<Rightarrow> v | Inl _ \<Rightarrow> 0)))))"

definition parse_value ::
    "expectation \<Rightarrow> parser_state \<Rightarrow> (parser_error, config_value \<times> parser_state) result" where
  "parse_value expected p =
     (if cur_kind p \<noteq> token_kind_for expected then Inl (make_unexpected_error expected p)
      else (case current_scalar expected p of
              Inl e \<Rightarrow> Inl e
            | Inr scalar \<Rightarrow>
                (case advance p of
                   Inl e \<Rightarrow> Inl e
                 | Inr p1 \<Rightarrow>
                     Inr (\<lparr>value_scalar = scalar,
                           value_location = token_location (parser_current p)\<rparr>, p1))))"

definition parse_directive ::
    "'k \<Rightarrow> expectation \<Rightarrow> parser_state \<Rightarrow> (parser_error, 'k directive \<times> parser_state) result" where
  "parse_directive kind expected p =
     (case advance p of
        Inl e \<Rightarrow> Inl e
      | Inr p1 \<Rightarrow>
          (case parse_value expected p1 of
             Inl e \<Rightarrow> Inl e
           | Inr (v, p2) \<Rightarrow>
               (case consume Semicolon Expect_semicolon p2 of
                  Inl e \<Rightarrow> Inl e
                | Inr p3 \<Rightarrow>
                    Inr (\<lparr>directive_kind = kind, directive_value = v,
                          directive_location = token_location (parser_current p)\<rparr>, p3))))"

text \<open>What is left to read; it shrinks with every token.\<close>

definition parser_left :: "parser_state \<Rightarrow> nat" where
  "parser_left p = 2 * lexer_remaining (parser_lexer p) + (if cur_kind p = End_of_input then 0 else 1)"

lemma advance_left:
  assumes "advance p = Inr p'"
  shows "parser_left p' \<le> parser_left p" "cur_kind p \<noteq> End_of_input \<Longrightarrow> parser_left p' < parser_left p"
  using assms next_token_remaining [of "parser_lexer p"]
  by (fastforce simp: advance_def parser_left_def split: prod.splits sum.splits)+

lemma parse_value_left: "parse_value expected p = Inr (v, p') \<Longrightarrow> parser_left p' \<le> parser_left p"
  by (auto simp: parse_value_def split: if_splits sum.splits dest: advance_left(1))

lemma consume_left: "consume kind expected p = Inr p' \<Longrightarrow> parser_left p' \<le> parser_left p"
  by (auto simp: consume_def split: if_splits dest: advance_left(1))

lemma parse_directive_left:
  assumes "parse_directive kind expected p = Inr (d, p')" "cur_kind p \<noteq> End_of_input"
  shows "parser_left p' < parser_left p"
proof -
  from assms(1) obtain p1 v p2 where "advance p = Inr p1" "parse_value expected p1 = Inr (v, p2)"
    "consume Semicolon Expect_semicolon p2 = Inr p'"
    by (auto simp: parse_directive_def split: sum.splits prod.splits)
  with advance_left(2) [of p p1] assms(2) parse_value_left consume_left show ?thesis by fastforce
qed

function parse_location_items ::
    "parser_state \<Rightarrow> location_directive_kind directive list \<Rightarrow>
     (parser_error, location_directive_kind directive list \<times> parser_state) result" where
  "parse_location_items p ds =
     (if cur_kind p = Right_brace \<or> cur_kind p = End_of_input then Inr (ds, p)
      else if cur_kind p \<noteq> Identifier then Inl (make_unexpected_error Expect_location_item p)
      else
        (case location_directive_kind_of (lexeme (parser_current p)) of
           None \<Rightarrow> Inl (make_unexpected_error Expect_location_item p)
         | Some kind \<Rightarrow>
             (case parse_directive kind (location_expectation kind) p of
                Inl e \<Rightarrow> Inl e
              | Inr (d, p1) \<Rightarrow> parse_location_items p1 (ds @ [d]))))"
  by pat_completeness auto
termination
  by (relation "measure (\<lambda>(p, ds). parser_left p)") (auto intro: parse_directive_left)

declare parse_location_items.simps [simp del]

definition parse_location :: "parser_state \<Rightarrow> (parser_error, location_block \<times> parser_state) result" where
  "parse_location p =
     (case advance p of
        Inl e \<Rightarrow> Inl e
      | Inr p1 \<Rightarrow>
          (if cur_kind p1 \<noteq> String_literal then Inl (make_unexpected_error Expect_string p1)
           else
             (case advance p1 of
                Inl e \<Rightarrow> Inl e
              | Inr p2 \<Rightarrow>
                  (case consume Left_brace Expect_left_brace p2 of
                     Inl e \<Rightarrow> Inl e
                   | Inr p3 \<Rightarrow>
                       (case parse_location_items p3 [] of
                          Inl e \<Rightarrow> Inl e
                        | Inr (ds, p4) \<Rightarrow>
                            (if cur_kind p4 \<noteq> Right_brace
                             then Inl (make_unexpected_error Expect_right_brace p4)
                             else
                               (case advance p4 of
                                  Inl e \<Rightarrow> Inl e
                                | Inr p5 \<Rightarrow>
                                    Inr (\<lparr>api_path =
                                            (case decoded_string (parser_current p1) of
                                               None \<Rightarrow> [] | Some s \<Rightarrow> s),
                                          block_location = token_location (parser_current p),
                                          api_path_location = token_location (parser_current p1),
                                          closing_brace_location = token_location (parser_current p4),
                                          location_directives = ds\<rparr>, p5))))))))"

definition parse_server_item ::
    "server_block \<Rightarrow> parser_state \<Rightarrow> (parser_error, server_block \<times> parser_state) result" where
  "parse_server_item server p =
     (if cur_kind p \<noteq> Identifier then Inl (make_unexpected_error Expect_server_item p)
      else if lexeme (parser_current p) = ''location'' then
        (case parse_location p of
           Inl e \<Rightarrow> Inl e
         | Inr (b, p1) \<Rightarrow> Inr (server\<lparr>server_locations := server_locations server @ [b]\<rparr>, p1))
      else
        (case server_directive_kind_of (lexeme (parser_current p)) of
           None \<Rightarrow> Inl (make_unexpected_error Expect_server_item p)
         | Some kind \<Rightarrow>
             (case parse_directive kind (server_expectation kind) p of
                Inl e \<Rightarrow> Inl e
              | Inr (d, p1) \<Rightarrow>
                  Inr (server\<lparr>server_directives := server_directives server @ [d]\<rparr>, p1))))"

lemma parse_location_items_left:
  "parse_location_items p ds = Inr (ds', p') \<Longrightarrow> parser_left p' \<le> parser_left p"
proof (induction p ds rule: parse_location_items.induct)
  case (1 p ds)
  show ?case
  proof (cases "cur_kind p = Right_brace \<or> cur_kind p = End_of_input")
    case True
    with "1.prems" show ?thesis by (subst (asm) parse_location_items.simps) auto
  next
    case False
    with "1.prems" obtain kind d p1 where k: "cur_kind p = Identifier"
      "location_directive_kind_of (lexeme (parser_current p)) = Some kind"
      "parse_directive kind (location_expectation kind) p = Inr (d, p1)"
      "parse_location_items p1 (ds @ [d]) = Inr (ds', p')"
      by (subst (asm) parse_location_items.simps) (auto split: if_splits option.splits sum.splits)
    with "1.IH" [OF False _ k(2,3) refl k(4)] parse_directive_left [OF k(3)] show ?thesis by auto
  qed
qed

lemma parse_location_left:
  assumes "parse_location p = Inr (b, p')" "cur_kind p \<noteq> End_of_input"
  shows "parser_left p' < parser_left p"
proof -
  from assms(1) obtain p1 p2 p3 p4 ds where p: "advance p = Inr p1" "advance p1 = Inr p2"
    "consume Left_brace Expect_left_brace p2 = Inr p3" "parse_location_items p3 [] = Inr (ds, p4)"
    "advance p4 = Inr p'"
    by (auto simp: parse_location_def split: sum.splits prod.splits if_splits)
  have "parser_left p' \<le> parser_left p1"
    using advance_left(1) [OF p(2)] consume_left [OF p(3)] parse_location_items_left [OF p(4)]
      advance_left(1) [OF p(5)] by linarith
  with advance_left(2) [OF p(1) assms(2)] show ?thesis by linarith
qed

lemma parse_server_item_left:
  assumes "parse_server_item server p = Inr (server', p')"
  shows "parser_left p' < parser_left p"
  using assms
  by (auto simp: parse_server_item_def split: if_splits option.splits sum.splits prod.splits
      intro: parse_location_left parse_directive_left)

function parse_server_items ::
    "server_block \<Rightarrow> parser_state \<Rightarrow> (parser_error, server_block \<times> parser_state) result" where
  "parse_server_items server p =
     (if cur_kind p = Right_brace \<or> cur_kind p = End_of_input then Inr (server, p)
      else (case parse_server_item server p of
              Inl e \<Rightarrow> Inl e
            | Inr (server1, p1) \<Rightarrow> parse_server_items server1 p1))"
  by pat_completeness auto
termination
  by (relation "measure (\<lambda>(server, p). parser_left p)") (auto intro: parse_server_item_left)

declare parse_server_items.simps [simp del]

definition parse_config :: "config_lexer \<Rightarrow> (parser_error, parsed_configuration) result" where
  "parse_config l =
     (case advance (initial_parser l) of
        Inl e \<Rightarrow> Inl e
      | Inr p1 \<Rightarrow>
          (if \<not> is_identifier ''server'' p1 then Inl (make_unexpected_error Expect_server_keyword p1)
           else
             (case advance p1 of
                Inl e \<Rightarrow> Inl e
              | Inr p2 \<Rightarrow>
                  (case consume Left_brace Expect_left_brace p2 of
                     Inl e \<Rightarrow> Inl e
                   | Inr p3 \<Rightarrow>
                       (case parse_server_items
                               \<lparr>server_location = token_location (parser_current p1),
                                server_closing_location = default_location,
                                server_directives = [], server_locations = []\<rparr> p3 of
                          Inl e \<Rightarrow> Inl e
                        | Inr (server, p4) \<Rightarrow>
                            (if cur_kind p4 \<noteq> Right_brace
                             then Inl (make_unexpected_error Expect_right_brace p4)
                             else
                               (case advance p4 of
                                  Inl e \<Rightarrow> Inl e
                                | Inr p5 \<Rightarrow>
                                    (if cur_kind p5 \<noteq> End_of_input
                                     then Inl (make_unexpected_error Expect_end_of_input p5)
                                     else
                                       Inr \<lparr>parsed_server = server
                                              \<lparr>server_closing_location :=
                                                 token_location (parser_current p4)\<rparr>,
                                            end_of_input_location =
                                              token_location (parser_current p5)\<rparr>))))))))"

section \<open>Typing of the syntax tree\<close>

fun scalar_matches :: "expectation \<Rightarrow> config_scalar \<Rightarrow> bool" where
  "scalar_matches Expect_string (Scalar_string s) \<longleftrightarrow> True"
| "scalar_matches Expect_integer (Scalar_integer n) \<longleftrightarrow> n < 2 ^ 64"
| "scalar_matches Expect_boolean (Scalar_bool b) \<longleftrightarrow> True"
| "scalar_matches _ _ \<longleftrightarrow> False"

definition typed_directive :: "('k \<Rightarrow> expectation) \<Rightarrow> 'k directive \<Rightarrow> bool" where
  "typed_directive expectation_of d \<longleftrightarrow>
     scalar_matches (expectation_of (directive_kind d)) (value_scalar (directive_value d))"

definition typed_location :: "location_block \<Rightarrow> bool" where
  "typed_location b \<longleftrightarrow> list_all (typed_directive location_expectation) (location_directives b)"

definition typed_server :: "server_block \<Rightarrow> bool" where
  "typed_server s \<longleftrightarrow>
     list_all (typed_directive server_expectation) (server_directives s) \<and>
     list_all typed_location (server_locations s)"

lemma current_scalar_typed:
  assumes "current_scalar expected p = Inr s" "expected \<in> {Expect_string, Expect_integer, Expect_boolean}"
  shows "scalar_matches expected s"
  using assms
  by (auto simp: current_scalar_def token_kind_for_def Let_def from_chars_Inr_iff
      split: prod.splits sum.splits from_chars_ec.splits if_splits option.splits)

lemma parse_directive_typed:
  assumes "parse_directive kind (f kind) p = Inr (d, p')"
    and "f kind \<in> {Expect_string, Expect_integer, Expect_boolean}"
  shows "typed_directive f d"
proof -
  from assms(1) obtain p1 s where "current_scalar (f kind) p1 = Inr s" "directive_kind d = kind"
    "value_scalar (directive_value d) = s"
    by (auto simp: parse_directive_def parse_value_def split: sum.splits prod.splits if_splits)
  with current_scalar_typed assms(2) show ?thesis by (simp add: typed_directive_def)
qed

lemma scalar_expectations:
  "server_expectation k \<in> {Expect_string, Expect_integer, Expect_boolean}"
  "location_expectation j \<in> {Expect_string, Expect_integer, Expect_boolean}"
  by (auto simp: server_expectation_def location_expectation_def)

lemma parse_location_items_typed:
  "parse_location_items p ds = Inr (ds', p') \<Longrightarrow> list_all (typed_directive location_expectation) ds \<Longrightarrow>
     list_all (typed_directive location_expectation) ds'"
proof (induction p ds rule: parse_location_items.induct)
  case (1 p ds)
  show ?case
  proof (cases "cur_kind p = Right_brace \<or> cur_kind p = End_of_input")
    case True
    with "1.prems" show ?thesis by (subst (asm) parse_location_items.simps) auto
  next
    case False
    with "1.prems" obtain kind d p1 where k: "cur_kind p = Identifier"
      "location_directive_kind_of (lexeme (parser_current p)) = Some kind"
      "parse_directive kind (location_expectation kind) p = Inr (d, p1)"
      "parse_location_items p1 (ds @ [d]) = Inr (ds', p')"
      by (subst (asm) parse_location_items.simps) (auto split: if_splits option.splits sum.splits)
    have "typed_directive location_expectation d"
      using parse_directive_typed [of kind location_expectation, OF k(3) scalar_expectations(2)] .
    with "1.IH" [OF False _ k(2,3) refl k(4)] k(1) "1.prems"(2) show ?thesis by simp
  qed
qed

lemma parse_server_item_typed:
  assumes "parse_server_item server p = Inr (server', p')" "typed_server server"
  shows "typed_server server'"
proof -
  consider b where "parse_location p = Inr (b, p')"
      "server' = server\<lparr>server_locations := server_locations server @ [b]\<rparr>"
    | kind d where "parse_directive kind (server_expectation kind) p = Inr (d, p')"
        "server' = server\<lparr>server_directives := server_directives server @ [d]\<rparr>"
    using assms(1) by (auto simp: parse_server_item_def split: if_splits option.splits sum.splits prod.splits)
  then show ?thesis
  proof cases
    case 1
    then obtain p3 p4 where "parse_location_items p3 [] = Inr (location_directives b, p4)"
      by (auto simp: parse_location_def split: sum.splits prod.splits if_splits)
    from parse_location_items_typed [OF this] 1 assms(2) show ?thesis
      by (simp add: typed_server_def typed_location_def)
  next
    case 2
    with parse_directive_typed [of kind server_expectation, OF 2(1) scalar_expectations(1)] assms(2) show ?thesis
      by (simp add: typed_server_def)
  qed
qed

lemma parse_server_items_typed:
  "parse_server_items server p = Inr (server', p') \<Longrightarrow> typed_server server \<Longrightarrow> typed_server server'"
proof (induction server p rule: parse_server_items.induct)
  case (1 server p)
  show ?case
  proof (cases "cur_kind p = Right_brace \<or> cur_kind p = End_of_input")
    case True
    with "1.prems" show ?thesis by (subst (asm) parse_server_items.simps) auto
  next
    case False
    with "1.prems" obtain server1 p1 where s: "parse_server_item server p = Inr (server1, p1)"
      "parse_server_items server1 p1 = Inr (server', p')"
      by (subst (asm) parse_server_items.simps) (auto split: sum.splits)
    with "1.IH" [OF False s(1) refl s(2)] parse_server_item_typed "1.prems"(2) show ?thesis by blast
  qed
qed

lemma parse_config_typed: "parse_config l = Inr cfg \<Longrightarrow> typed_server (parsed_server cfg)"
proof -
  assume "parse_config l = Inr cfg"
  then obtain s0 p3 server p4 where s: "parse_server_items s0 p3 = Inr (server, p4)"
    "server_directives s0 = []" "server_locations s0 = []"
    "server_directives (parsed_server cfg) = server_directives server"
    "server_locations (parsed_server cfg) = server_locations server"
    by (auto simp: parse_config_def split: sum.splits prod.splits if_splits)
  from parse_server_items_typed [OF s(1)] s(2-) show ?thesis by (simp add: typed_server_def)
qed

end
