(* ===== verification/Config_Validator.thy ===== *)
theory Config_Validator
  imports Config_Parser Ip_Address
begin

text \<open>
  Semantic validation of \<^verbatim>\<open>spnode.conf\<close>: \<^verbatim>\<open>src/configuration/config_validator.cpp\<close> with the settings of
  \<^verbatim>\<open>include/sparenode/configuration/settings.hpp\<close>. The members of \<^verbatim>\<open>ValidationState\<close> are a record, its
  methods functions on it. \<^verbatim>\<open>std::get\<close> on a scalar of another type throws; that is the value \<^term>\<open>None\<close>
  of the methods that call it.
\<close>

section \<open>Settings\<close>

datatype log_level = Log_debug | Log_info | Log_warning | Log_error

datatype transport_mode = Loopback_http | Trusted_lan_http | Trusted_proxy_https

type_synonym configured_path = "string \<times> source_location"

record location_settings =
  ls_api_path :: string
  ls_root :: configured_path
  allow_read :: bool
  allow_write :: bool
  allow_delete :: bool

record server_settings =
  ss_location :: source_location
  bind_address :: string
  ss_port :: nat
  multithreading_enabled :: bool
  ss_worker_threads :: nat
  ss_log_level :: log_level
  ss_header_timeout_ms :: nat
  ss_body_timeout_ms :: nat
  ss_request_timeout_ms :: nat
  ss_response_timeout_ms :: nat
  ss_transport_mode :: transport_mode
  ss_trusted_proxy :: "string option"
  ss_mime_types_file :: "configured_path option"
  ss_credentials_file :: "configured_path option"
  ss_locations :: "location_settings list"

definition default_settings :: "source_location \<Rightarrow> server_settings" where
  "default_settings loc =
     \<lparr>ss_location = loc, bind_address = ''127.0.0.1'', ss_port = 8080,
      multithreading_enabled = False, ss_worker_threads = 1, ss_log_level = Log_info,
      ss_header_timeout_ms = 10000, ss_body_timeout_ms = 10000, ss_request_timeout_ms = 30000,
      ss_response_timeout_ms = 300000, ss_transport_mode = Loopback_http, ss_trusted_proxy = None,
      ss_mime_types_file = None, ss_credentials_file = None, ss_locations = []\<rparr>"

datatype validation_code =
  Duplicate_server_directive | Missing_location | Invalid_bind_address | Port_out_of_range |
  Missing_worker_threads | Unexpected_worker_threads | Worker_threads_out_of_range |
  Invalid_log_level | Invalid_mime_types_file | Invalid_credentials_file | Timeout_out_of_range |
  Invalid_transport_mode | Invalid_trusted_proxy | Missing_trusted_proxy | Unexpected_trusted_proxy |
  Unsafe_transport_bind | Invalid_location_path | Conflicting_location_path |
  Duplicate_location_directive | Missing_location_root | Invalid_location_root

record validation_error =
  ve_code :: validation_code
  ve_location :: source_location
  ve_server_directive :: "server_directive_kind option"
  ve_location_directive :: "location_directive_kind option"
  ve_location_path :: "string option"

section \<open>Value rules\<close>

definition minimum_port :: nat where "minimum_port = 1"

definition maximum_port :: nat where "maximum_port = 65535"

definition minimum_worker_threads :: nat where "minimum_worker_threads = 2"

definition maximum_worker_threads :: nat where "maximum_worker_threads = 64"

definition maximum_timeout_ms :: nat where "maximum_timeout_ms = 86400000"

definition is_loopback_ip_address :: "string \<Rightarrow> bool" where
  "is_loopback_ip_address v =
     (case parse_numeric_address v of None \<Rightarrow> False | Some a \<Rightarrow> is_loopback_address a)"

definition is_unspecified_ip_address :: "string \<Rightarrow> bool" where
  "is_unspecified_ip_address v =
     (case parse_numeric_address v of None \<Rightarrow> False | Some a \<Rightarrow> is_unspecified_address a)"

definition parse_configured_log_level :: "string \<Rightarrow> log_level option" where
  "parse_configured_log_level v =
     (if v = ''debug'' then Some Log_debug
      else if v = ''info'' then Some Log_info
      else if v = ''warning'' then Some Log_warning
      else if v = ''error'' then Some Log_error
      else None)"

definition parse_configured_transport_mode :: "string \<Rightarrow> transport_mode option" where
  "parse_configured_transport_mode v =
     (if v = ''loopback_http'' then Some Loopback_http
      else if v = ''trusted_lan_http'' then Some Trusted_lan_http
      else if v = ''trusted_proxy_https'' then Some Trusted_proxy_https
      else None)"

definition location_punctuation :: string where
  "location_punctuation = ''-._~!$&'' @ [CHR 0x27] @ ''()+,;=:@''"

definition is_location_byte :: "char \<Rightarrow> bool" where
  "is_location_byte byte \<longleftrightarrow>
     byte = CHR ''/'' \<or>
     (CHR ''0'' \<le> byte \<and> byte \<le> CHR ''9'') \<or> (CHR ''A'' \<le> byte \<and> byte \<le> CHR ''Z'') \<or>
     (CHR ''a'' \<le> byte \<and> byte \<le> CHR ''z'') \<or> byte \<in> set location_punctuation"

definition location_hexadecimal :: "char \<Rightarrow> bool" where
  "location_hexadecimal digit \<longleftrightarrow>
     (CHR ''0'' \<le> digit \<and> digit \<le> CHR ''9'') \<or> (CHR ''A'' \<le> digit \<and> digit \<le> CHR ''F'') \<or>
     (CHR ''a'' \<le> digit \<and> digit \<le> CHR ''f'')"

fun location_bytes :: "string \<Rightarrow> bool" where
  "location_bytes [] = True"
| "location_bytes (c # cs) =
     (if is_location_byte c then location_bytes cs
      else if c \<noteq> CHR ''%'' then False
      else (case cs of
              h # l # rest \<Rightarrow>
                (if \<not> location_hexadecimal h \<or> \<not> location_hexadecimal l then False
                 else location_bytes rest)
            | _ \<Rightarrow> False))"

definition segment_ok :: "string \<Rightarrow> bool" where
  "segment_ok s \<longleftrightarrow> \<not> (s = [] \<or> s = ''.'' \<or> s = ''..'')"

function location_segments :: "string \<Rightarrow> nat \<Rightarrow> bool" where
  "location_segments path segment_begin =
     (if segment_begin < length path then
        (case sv_find (CHR ''/'') path segment_begin of
           None \<Rightarrow> segment_ok (drop segment_begin path)
         | Some separator \<Rightarrow>
             (if \<not> segment_ok (sv_substr path segment_begin (separator - segment_begin)) then False
              else location_segments path (separator + 1)))
      else True)"
  by pat_completeness auto
termination
  by (relation "measure (\<lambda>(path, b). length path - b)") (auto dest: sv_find_Some)

declare location_segments.simps [simp del]

definition is_valid_location_path :: "string \<Rightarrow> bool" where
  "is_valid_location_path path =
     (if path = [] \<or> hd path \<noteq> CHR ''/'' \<or> (length path > 1 \<and> last path = CHR ''/'') then False
      else if \<not> location_bytes (tl path) then False
      else if path = ''/'' then True
      else location_segments path 1)"

definition location_contains :: "string \<Rightarrow> string \<Rightarrow> bool" where
  "location_contains parent child \<longleftrightarrow>
     parent = child \<or> parent = ''/'' \<or>
     (prefix parent child \<and> length child > length parent \<and> child ! length parent = CHR ''/'')"

definition location_paths_conflict :: "string \<Rightarrow> string \<Rightarrow> bool" where
  "location_paths_conflict left right \<longleftrightarrow> location_contains left right \<or> location_contains right left"

section \<open>Validation state\<close>

record validation_state =
  vs_errors :: "validation_error list"
  vs_server :: server_settings
  vs_multithreading :: bool
  vs_worker_threads :: nat
  vs_worker_directive :: "server_directive_kind directive option"
  vs_bind_address :: string
  vs_mode_valid :: bool
  vs_bind_directive :: "server_directive_kind directive option"
  vs_proxy_directive :: "server_directive_kind directive option"

definition initial_validation :: "parsed_configuration \<Rightarrow> validation_state" where
  "initial_validation cfg =
     \<lparr>vs_errors = [], vs_server = default_settings (server_location (parsed_server cfg)),
      vs_multithreading = False, vs_worker_threads = 0, vs_worker_directive = None,
      vs_bind_address = ''127.0.0.1'', vs_mode_valid = True, vs_bind_directive = None,
      vs_proxy_directive = None\<rparr>"

fun get_string :: "config_scalar \<Rightarrow> string option" where
  "get_string (Scalar_string s) = Some s"
| "get_string _ = None"

fun get_integer :: "config_scalar \<Rightarrow> nat option" where
  "get_integer (Scalar_integer n) = Some n"
| "get_integer _ = None"

fun get_bool :: "config_scalar \<Rightarrow> bool option" where
  "get_bool (Scalar_bool b) = Some b"
| "get_bool _ = None"

abbreviation scalar_of :: "'k directive \<Rightarrow> config_scalar" where
  "scalar_of d \<equiv> value_scalar (directive_value d)"

abbreviation value_place :: "'k directive \<Rightarrow> source_location" where
  "value_place d \<equiv> value_location (directive_value d)"

definition add_server_error ::
    "validation_code \<Rightarrow> server_directive_kind \<Rightarrow> source_location \<Rightarrow> validation_state \<Rightarrow> validation_state" where
  "add_server_error code kind loc st =
     st\<lparr>vs_errors := vs_errors st @ [\<lparr>ve_code = code, ve_location = loc,
        ve_server_directive = Some kind, ve_location_directive = None, ve_location_path = None\<rparr>]\<rparr>"

definition add_location_error ::
    "validation_code \<Rightarrow> location_block \<Rightarrow> location_directive_kind option \<Rightarrow> source_location \<Rightarrow>
     validation_state \<Rightarrow> validation_state" where
  "add_location_error code block kind loc st =
     st\<lparr>vs_errors := vs_errors st @ [\<lparr>ve_code = code, ve_location = loc,
        ve_server_directive = None, ve_location_directive = kind,
        ve_location_path = Some (api_path block)\<rparr>]\<rparr>"

definition error_unless ::
    "bool \<Rightarrow> validation_code \<Rightarrow> server_directive_kind \<Rightarrow> source_location \<Rightarrow> validation_state \<Rightarrow>
     validation_state" where
  "error_unless condition code kind loc st = (if condition then st else add_server_error code kind loc st)"

section \<open>Server directives\<close>

type_synonym sdirective = "server_directive_kind directive"

definition validate_transport_mode :: "sdirective \<Rightarrow> validation_state \<Rightarrow> validation_state option" where
  "validate_transport_mode d st =
     map_option (\<lambda>v. case parse_configured_transport_mode v of
         None \<Rightarrow> add_server_error Invalid_transport_mode (directive_kind d) (value_place d)
                   (st\<lparr>vs_mode_valid := False\<rparr>)
       | Some mode \<Rightarrow> st\<lparr>vs_server := (vs_server st)\<lparr>ss_transport_mode := mode\<rparr>\<rparr>) (get_string (scalar_of d))"

definition validate_trusted_proxy :: "sdirective \<Rightarrow> validation_state \<Rightarrow> validation_state option" where
  "validate_trusted_proxy d st =
     map_option (\<lambda>address.
       error_unless (parse_numeric_address address \<noteq> None) Invalid_trusted_proxy (directive_kind d)
         (value_place d)
         (st\<lparr>vs_proxy_directive := Some d,
             vs_server := (vs_server st)\<lparr>ss_trusted_proxy := Some address\<rparr>\<rparr>)) (get_string (scalar_of d))"

definition set_timeout :: "server_directive_kind \<Rightarrow> nat \<Rightarrow> server_settings \<Rightarrow> server_settings" where
  "set_timeout kind v s =
     (case kind of
        Header_timeout_ms \<Rightarrow> s\<lparr>ss_header_timeout_ms := v\<rparr>
      | Body_timeout_ms \<Rightarrow> s\<lparr>ss_body_timeout_ms := v\<rparr>
      | Request_timeout_ms \<Rightarrow> s\<lparr>ss_request_timeout_ms := v\<rparr>
      | Response_timeout_ms \<Rightarrow> s\<lparr>ss_response_timeout_ms := v\<rparr>
      | _ \<Rightarrow> s)"

definition validate_timeout :: "sdirective \<Rightarrow> validation_state \<Rightarrow> validation_state option" where
  "validate_timeout d st =
     map_option (\<lambda>v.
       (let st1 = error_unless (\<not> (v = 0 \<or> v > maximum_timeout_ms)) Timeout_out_of_range
                    (directive_kind d) (value_place d) st
        in st1\<lparr>vs_server := set_timeout (directive_kind d) v (vs_server st1)\<rparr>)) (get_integer (scalar_of d))"

definition validate_bind :: "sdirective \<Rightarrow> validation_state \<Rightarrow> validation_state option" where
  "validate_bind d st =
     map_option (\<lambda>address.
       error_unless (parse_numeric_address address \<noteq> None) Invalid_bind_address (directive_kind d)
         (value_place d)
         (st\<lparr>vs_bind_address := address, vs_server := (vs_server st)\<lparr>bind_address := address\<rparr>,
             vs_bind_directive := Some d\<rparr>)) (get_string (scalar_of d))"

definition validate_port :: "sdirective \<Rightarrow> validation_state \<Rightarrow> validation_state option" where
  "validate_port d st =
     map_option (\<lambda>port.
       (let st1 = error_unless (\<not> (port < minimum_port \<or> port > maximum_port)) Port_out_of_range
                    (directive_kind d) (value_place d) st
        in st1\<lparr>vs_server := (vs_server st1)\<lparr>ss_port := port mod 2 ^ 16\<rparr>\<rparr>)) (get_integer (scalar_of d))"

definition validate_log_level :: "sdirective \<Rightarrow> validation_state \<Rightarrow> validation_state option" where
  "validate_log_level d st =
     map_option (\<lambda>v. case parse_configured_log_level v of
         None \<Rightarrow> add_server_error Invalid_log_level (directive_kind d) (value_place d) st
       | Some level \<Rightarrow> st\<lparr>vs_server := (vs_server st)\<lparr>ss_log_level := level\<rparr>\<rparr>) (get_string (scalar_of d))"

definition validate_mime_types_file :: "sdirective \<Rightarrow> validation_state \<Rightarrow> validation_state option" where
  "validate_mime_types_file d st =
     map_option (\<lambda>path.
       (let st1 = error_unless (path \<noteq> []) Invalid_mime_types_file (directive_kind d) (value_place d) st
        in st1\<lparr>vs_server := (vs_server st1)\<lparr>ss_mime_types_file := Some (path, value_place d)\<rparr>\<rparr>))
       (get_string (scalar_of d))"

definition validate_credentials_file :: "sdirective \<Rightarrow> validation_state \<Rightarrow> validation_state option" where
  "validate_credentials_file d st =
     map_option (\<lambda>path.
       (let st1 = error_unless (path \<noteq> []) Invalid_credentials_file (directive_kind d) (value_place d) st
        in st1\<lparr>vs_server := (vs_server st1)\<lparr>ss_credentials_file := Some (path, value_place d)\<rparr>\<rparr>))
       (get_string (scalar_of d))"

definition validate_server_directive :: "sdirective \<Rightarrow> validation_state \<Rightarrow> validation_state option" where
  "validate_server_directive d st =
     (case directive_kind d of
        Bind \<Rightarrow> validate_bind d st
      | Port \<Rightarrow> validate_port d st
      | Multithreading \<Rightarrow>
          map_option (\<lambda>b. st\<lparr>vs_multithreading := b,
              vs_server := (vs_server st)\<lparr>multithreading_enabled := b\<rparr>\<rparr>) (get_bool (scalar_of d))
      | Worker_threads \<Rightarrow>
          map_option (\<lambda>n. st\<lparr>vs_worker_threads := n,
              vs_server := (vs_server st)\<lparr>ss_worker_threads := n\<rparr>,
              vs_worker_directive := Some d\<rparr>) (get_integer (scalar_of d))
      | Log_level \<Rightarrow> validate_log_level d st
      | Mime_types_file \<Rightarrow> validate_mime_types_file d st
      | Credentials_file \<Rightarrow> validate_credentials_file d st
      | Header_timeout_ms \<Rightarrow> validate_timeout d st
      | Body_timeout_ms \<Rightarrow> validate_timeout d st
      | Request_timeout_ms \<Rightarrow> validate_timeout d st
      | Response_timeout_ms \<Rightarrow> validate_timeout d st
      | Transport_mode \<Rightarrow> validate_transport_mode d st
      | Trusted_proxy \<Rightarrow> validate_trusted_proxy d st)"

fun server_directive_loop ::
    "server_directive_kind list \<Rightarrow> sdirective list \<Rightarrow> validation_state \<Rightarrow> validation_state option" where
  "server_directive_loop encountered [] st = Some st"
| "server_directive_loop encountered (d # ds) st =
     (if directive_kind d \<in> set encountered then
        server_directive_loop encountered ds
          (add_server_error Duplicate_server_directive (directive_kind d) (directive_location d) st)
      else
        (case validate_server_directive d st of
           None \<Rightarrow> None
         | Some st1 \<Rightarrow> server_directive_loop (directive_kind d # encountered) ds st1))"

definition validate_enabled_threading :: "parsed_configuration \<Rightarrow> validation_state \<Rightarrow> validation_state" where
  "validate_enabled_threading cfg st =
     (case vs_worker_directive st of
        None \<Rightarrow> add_server_error Missing_worker_threads Worker_threads
                  (server_closing_location (parsed_server cfg)) st
      | Some d \<Rightarrow>
          error_unless (\<not> (vs_worker_threads st < minimum_worker_threads \<or>
                          vs_worker_threads st > maximum_worker_threads))
            Worker_threads_out_of_range (directive_kind d) (value_place d) st)"

definition validate_threading_relationship ::
    "parsed_configuration \<Rightarrow> validation_state \<Rightarrow> validation_state" where
  "validate_threading_relationship cfg st =
     (if vs_multithreading st then validate_enabled_threading cfg st
      else (case vs_worker_directive st of
              None \<Rightarrow> st
            | Some d \<Rightarrow> add_server_error Unexpected_worker_threads (directive_kind d) (directive_location d) st))"

definition reject_trusted_proxy :: "validation_state \<Rightarrow> validation_state" where
  "reject_trusted_proxy st =
     (case vs_proxy_directive st of
        None \<Rightarrow> st
      | Some d \<Rightarrow> add_server_error Unexpected_trusted_proxy (directive_kind d) (directive_location d) st)"

definition reject_bind_if :: "bool \<Rightarrow> validation_state \<Rightarrow> validation_state" where
  "reject_bind_if condition st =
     (case vs_bind_directive st of
        None \<Rightarrow> st
      | Some d \<Rightarrow> error_unless (\<not> condition) Unsafe_transport_bind (directive_kind d) (value_place d) st)"

definition validate_transport_relationship ::
    "parsed_configuration \<Rightarrow> validation_state \<Rightarrow> validation_state" where
  "validate_transport_relationship cfg st =
     (if \<not> vs_mode_valid st then st
      else if ss_transport_mode (vs_server st) = Loopback_http then
        reject_trusted_proxy (reject_bind_if (\<not> is_loopback_ip_address (vs_bind_address st)) st)
      else if ss_transport_mode (vs_server st) = Trusted_lan_http then reject_trusted_proxy st
      else
        (let st1 = (if vs_proxy_directive st = None
                    then add_server_error Missing_trusted_proxy Trusted_proxy
                           (server_closing_location (parsed_server cfg)) st
                    else st)
         in reject_bind_if (is_unspecified_ip_address (vs_bind_address st1)) st1))"

definition validate_server_directives ::
    "parsed_configuration \<Rightarrow> validation_state \<Rightarrow> validation_state option" where
  "validate_server_directives cfg st =
     (case server_directive_loop [] (server_directives (parsed_server cfg)) st of
        None \<Rightarrow> None
      | Some st1 \<Rightarrow>
          Some (validate_transport_relationship cfg (validate_threading_relationship cfg st1)))"

section \<open>Locations\<close>

definition validate_location_identity ::
    "location_block \<Rightarrow> string list \<Rightarrow> validation_state \<Rightarrow> string list \<times> validation_state" where
  "validate_location_identity block paths st =
     (if \<not> is_valid_location_path (api_path block) then
        (paths, add_location_error Invalid_location_path block None (api_path_location block) st)
      else if list_ex (\<lambda>path. location_paths_conflict path (api_path block)) paths then
        (paths, add_location_error Conflicting_location_path block None (api_path_location block) st)
      else (paths @ [api_path block], st))"

definition validate_location_root ::
    "location_block \<Rightarrow> location_directive_kind directive option \<Rightarrow> validation_state \<Rightarrow>
     (validation_state \<times> configured_path option) option" where
  "validate_location_root block path_directive st =
     (case path_directive of
        None \<Rightarrow>
          Some (add_location_error Missing_location_root block (Some Path) (closing_brace_location block) st,
                None)
      | Some d \<Rightarrow>
          map_option (\<lambda>path_text.
            (if path_text = []
             then (add_location_error Invalid_location_root block (Some Path) (value_place d) st, None)
             else (st, Some (path_text, value_place d)))) (get_string (scalar_of d)))"

fun location_directive_loop ::
    "location_block \<Rightarrow> location_directive_kind list \<Rightarrow> location_directive_kind directive list \<Rightarrow>
     validation_state \<times> location_directive_kind directive option \<times> location_settings \<Rightarrow>
     (validation_state \<times> location_directive_kind directive option \<times> location_settings) option" where
  "location_directive_loop block encountered [] acc = Some acc"
| "location_directive_loop block encountered (d # ds) (st, path_directive, settings) =
     (if directive_kind d \<in> set encountered then
        location_directive_loop block encountered ds
          (add_location_error Duplicate_location_directive block (Some (directive_kind d))
             (directive_location d) st, path_directive, settings)
      else
        (let continue = location_directive_loop block (directive_kind d # encountered) ds in
         case directive_kind d of
           Path \<Rightarrow> continue (st, Some d, settings)
         | Read_permission \<Rightarrow>
             Option.bind (get_bool (scalar_of d))
               (\<lambda>b. continue (st, path_directive, settings\<lparr>allow_read := b\<rparr>))
         | Write_permission \<Rightarrow>
             Option.bind (get_bool (scalar_of d))
               (\<lambda>b. continue (st, path_directive, settings\<lparr>allow_write := b\<rparr>))
         | Delete_permission \<Rightarrow>
             Option.bind (get_bool (scalar_of d))
               (\<lambda>b. continue (st, path_directive, settings\<lparr>allow_delete := b\<rparr>))))"

definition default_location_settings :: "string \<Rightarrow> location_settings" where
  "default_location_settings path =
     \<lparr>ls_api_path = path, ls_root = ([], default_location), allow_read = True, allow_write = False,
      allow_delete = False\<rparr>"

definition validate_location_directives ::
    "location_block \<Rightarrow> validation_state \<Rightarrow> validation_state option" where
  "validate_location_directives block st =
     (case location_directive_loop block [] (location_directives block)
             (st, None, default_location_settings (api_path block)) of
        None \<Rightarrow> None
      | Some (st1, path_directive, settings) \<Rightarrow>
          (case validate_location_root block path_directive st1 of
             None \<Rightarrow> None
           | Some (st2, None) \<Rightarrow> Some st2
           | Some (st2, Some root) \<Rightarrow>
               Some (st2\<lparr>vs_server := (vs_server st2)
                 \<lparr>ss_locations := ss_locations (vs_server st2) @ [settings\<lparr>ls_root := root\<rparr>]\<rparr>\<rparr>)))"

fun validate_location_blocks ::
    "location_block list \<Rightarrow> string list \<Rightarrow> validation_state \<Rightarrow> validation_state option" where
  "validate_location_blocks [] paths st = Some st"
| "validate_location_blocks (b # bs) paths st =
     (case validate_location_identity b paths st of
        (paths1, st1) \<Rightarrow>
          (case validate_location_directives b st1 of
             None \<Rightarrow> None
           | Some st2 \<Rightarrow> validate_location_blocks bs paths1 st2))"

definition validate_locations :: "parsed_configuration \<Rightarrow> validation_state \<Rightarrow> validation_state option" where
  "validate_locations cfg st =
     (if server_locations (parsed_server cfg) = [] then
        Some (st\<lparr>vs_errors := vs_errors st @ [\<lparr>ve_code = Missing_location,
           ve_location = server_closing_location (parsed_server cfg), ve_server_directive = None,
           ve_location_directive = None, ve_location_path = None\<rparr>]\<rparr>)
      else validate_location_blocks (server_locations (parsed_server cfg)) [] st)"

definition validate_config ::
    "parsed_configuration \<Rightarrow> (validation_error list, server_settings list) result option" where
  "validate_config cfg =
     (case validate_server_directives cfg (initial_validation cfg) of
        None \<Rightarrow> None
      | Some st1 \<Rightarrow>
          (case validate_locations cfg st1 of
             None \<Rightarrow> None
           | Some st2 \<Rightarrow>
               (let errors = sort_key (\<lambda>e. byte_offset (ve_location e)) (vs_errors st2) in
                if errors \<noteq> [] then Some (Inl errors) else Some (Inr [vs_server st2]))))"

section \<open>Typing\<close>

lemma typed_getters:
  "scalar_matches Expect_string v \<Longrightarrow> \<exists>s. get_string v = Some s"
  "scalar_matches Expect_integer v \<Longrightarrow> \<exists>n. get_integer v = Some n"
  "scalar_matches Expect_boolean v \<Longrightarrow> \<exists>b. get_bool v = Some b"
  by (cases v; simp)+

lemmas directive_rules =
  validate_server_directive_def validate_bind_def validate_port_def validate_log_level_def
  validate_mime_types_file_def validate_credentials_file_def validate_timeout_def
  validate_transport_mode_def validate_trusted_proxy_def

lemma validate_server_directive_typed:
  assumes "typed_directive server_expectation d"
  shows "\<exists>st'. validate_server_directive d st = Some st'"
  using assms typed_getters [of "scalar_of d"]
  by (cases "directive_kind d")
    (auto simp: directive_rules typed_directive_def server_expectation_def)

lemma server_directive_loop_typed:
  "list_all (typed_directive server_expectation) ds \<Longrightarrow>
     \<exists>st'. server_directive_loop encountered ds st = Some st'"
proof (induction ds arbitrary: encountered st)
  case (Cons d ds)
  then show ?case using validate_server_directive_typed [of d st] by fastforce
qed simp

lemma location_directive_loop_typed:
  assumes "list_all (typed_directive location_expectation) ds"
    and "\<forall>d. path_directive = Some d \<longrightarrow> (\<exists>s. get_string (scalar_of d) = Some s)"
  shows "\<exists>st' pd settings'. location_directive_loop block encountered ds (st, path_directive, settings) =
           Some (st', pd, settings') \<and> (\<forall>d. pd = Some d \<longrightarrow> (\<exists>s. get_string (scalar_of d) = Some s))"
  using assms
proof (induction ds arbitrary: encountered st path_directive settings)
  case (Cons d ds)
  have d: "scalar_matches (location_expectation (directive_kind d)) (scalar_of d)"
    using Cons.prems(1) by (simp add: typed_directive_def)
  have ds: "list_all (typed_directive location_expectation) ds" using Cons.prems(1) by simp
  show ?case
  proof (cases "directive_kind d \<in> set encountered")
    case True
    with Cons.IH [OF ds Cons.prems(2)] show ?thesis by simp
  next
    case False
    show ?thesis
    proof (cases "directive_kind d = Path")
      case True
      with d typed_getters(1) have "\<exists>s. get_string (scalar_of d) = Some s"
        by (simp add: location_expectation_def)
      with Cons.IH [OF ds, of "Some d"] False True show ?thesis by simp
    next
      case p: False
      with d typed_getters(3) obtain b where "get_bool (scalar_of d) = Some b"
        by (auto simp: location_expectation_def)
      with Cons.IH [OF ds Cons.prems(2)] False p show ?thesis
        by (cases "directive_kind d") simp_all
    qed
  qed
qed simp

lemma validate_location_blocks_typed:
  "list_all typed_location bs \<Longrightarrow> \<exists>st'. validate_location_blocks bs paths st = Some st'"
proof (induction bs arbitrary: paths st)
  case (Cons b bs)
  obtain paths1 st1 where i: "validate_location_identity b paths st = (paths1, st1)" by force
  have ds: "list_all (typed_directive location_expectation) (location_directives b)"
    using Cons.prems by (simp add: typed_location_def)
  obtain st2 pd settings where l: "location_directive_loop b [] (location_directives b)
      (st1, None, default_location_settings (api_path b)) = Some (st2, pd, settings)"
    "\<forall>d. pd = Some d \<longrightarrow> (\<exists>s. get_string (scalar_of d) = Some s)"
    using location_directive_loop_typed [OF ds, of None b "[]" st1] by fastforce
  then have "validate_location_root b pd st2 \<noteq> None"
    by (cases pd) (auto simp: validate_location_root_def simp del: not_None_eq)
  with l(1) have "validate_location_directives b st1 \<noteq> None"
    by (auto simp: validate_location_directives_def split: option.splits)
  with i Cons.IH Cons.prems show ?case by auto
qed simp

lemma parsed_configuration_valid:
  assumes "parse_config l = Inr cfg"
  shows "typed_server (parsed_server cfg) \<and> (\<exists>r. validate_config cfg = Some r)"
proof -
  have ty: "typed_server (parsed_server cfg)" using assms by (rule parse_config_typed)
  then obtain st0 where "server_directive_loop [] (server_directives (parsed_server cfg))
      (initial_validation cfg) = Some st0"
    using server_directive_loop_typed unfolding typed_server_def by blast
  then obtain st1 where "validate_server_directives cfg (initial_validation cfg) = Some st1"
    by (simp add: validate_server_directives_def)
  moreover obtain st2 where "validate_location_blocks (server_locations (parsed_server cfg)) [] st1 = Some st2"
    using ty validate_location_blocks_typed unfolding typed_server_def by blast
  then have "\<exists>st2. validate_locations cfg st1 = Some st2" by (simp add: validate_locations_def)
  ultimately show ?thesis using ty by (auto simp: validate_config_def Let_def)
qed

text \<open>
  C36. Type safety of configuration loading: every scalar of a parsed configuration has the type its
  directive requires, integers below \<open>2 ^ 64\<close>, so that validation never asks a variant for another
  type: it always ends in errors or settings.
\<close>

theorem parsed_configuration_typed:
  assumes "parse_config l = Inr cfg"
  shows "typed_server (parsed_server cfg) \<and> (\<exists>r. validate_config cfg = Some r)"
  using parsed_configuration_valid [OF assms] .

section \<open>Safety of validated settings\<close>

definition timeout_ok :: "nat \<Rightarrow> bool" where
  "timeout_ok t \<longleftrightarrow> 1 \<le> t \<and> t \<le> maximum_timeout_ms"

definition values_ok :: "server_settings \<Rightarrow> bool" where
  "values_ok s \<longleftrightarrow>
     minimum_port \<le> ss_port s \<and> ss_port s \<le> maximum_port \<and>
     timeout_ok (ss_header_timeout_ms s) \<and> timeout_ok (ss_body_timeout_ms s) \<and>
     timeout_ok (ss_request_timeout_ms s) \<and> timeout_ok (ss_response_timeout_ms s) \<and>
     parse_numeric_address (bind_address s) \<noteq> None \<and>
     (\<forall>a. ss_trusted_proxy s = Some a \<longrightarrow> parse_numeric_address a \<noteq> None) \<and>
     (\<forall>p. ss_mime_types_file s = Some p \<longrightarrow> fst p \<noteq> []) \<and>
     (\<forall>p. ss_credentials_file s = Some p \<longrightarrow> fst p \<noteq> [])"

definition transport_ok :: "server_settings \<Rightarrow> bool" where
  "transport_ok s \<longleftrightarrow>
     (case ss_transport_mode s of
        Loopback_http \<Rightarrow> is_loopback_ip_address (bind_address s) \<and> ss_trusted_proxy s = None
      | Trusted_lan_http \<Rightarrow> ss_trusted_proxy s = None
      | Trusted_proxy_https \<Rightarrow>
          ss_trusted_proxy s \<noteq> None \<and> \<not> is_unspecified_ip_address (bind_address s))"

definition threads_ok :: "server_settings \<Rightarrow> bool" where
  "threads_ok s \<longleftrightarrow>
     (if multithreading_enabled s
      then minimum_worker_threads \<le> ss_worker_threads s \<and> ss_worker_threads s \<le> maximum_worker_threads
      else ss_worker_threads s = 1)"

definition locations_ok :: "location_settings list \<Rightarrow> bool" where
  "locations_ok ls \<longleftrightarrow>
     list_all (\<lambda>l. is_valid_location_path (ls_api_path l) \<and> fst (ls_root l) \<noteq> []) ls \<and>
     sorted_wrt (\<lambda>a b. \<not> location_paths_conflict (ls_api_path a) (ls_api_path b)) ls"

text \<open>What the state knows about the settings while no error has been reported.\<close>

definition tracked :: "validation_state \<Rightarrow> bool" where
  "tracked st \<longleftrightarrow>
     (let s = vs_server st in
      values_ok s \<and> ss_locations s = [] \<and> vs_mode_valid st \<and>
      vs_bind_address st = bind_address s \<and>
      (vs_bind_directive st = None \<longrightarrow> bind_address s = ''127.0.0.1'') \<and>
      (vs_proxy_directive st = None \<longleftrightarrow> ss_trusted_proxy s = None) \<and>
      vs_multithreading st = multithreading_enabled s \<and>
      (if vs_worker_directive st = None then ss_worker_threads s = 1
       else ss_worker_threads s = vs_worker_threads st))"

lemma default_bind_address:
  "parse_numeric_address ''127.0.0.1'' \<noteq> None" "is_loopback_ip_address ''127.0.0.1''"
  "\<not> is_unspecified_ip_address ''127.0.0.1''"
  by code_simp+

lemma initial_tracked: "tracked (initial_validation cfg)"
  using default_bind_address(1)
  by (simp add: tracked_def initial_validation_def default_settings_def values_ok_def timeout_ok_def
      maximum_timeout_ms_def minimum_port_def maximum_port_def Let_def)

lemma error_unless_clean [simp]:
  "vs_errors (error_unless c code kind loc st) = [] \<longleftrightarrow> c \<and> vs_errors st = []"
  "vs_errors (add_server_error code kind loc st) \<noteq> []"
  "vs_errors (add_location_error code b k loc st) \<noteq> []"
  "c \<Longrightarrow> error_unless c code kind loc st = st"
  by (simp_all add: error_unless_def add_server_error_def add_location_error_def)

lemma set_timeout_tracked:
  assumes "tracked st" "timeout_ok v"
  shows "tracked (st\<lparr>vs_server := set_timeout k v (vs_server st)\<rparr>)"
  using assms by (cases k) (simp_all add: tracked_def values_ok_def set_timeout_def Let_def)

lemma validate_server_directive_tracked:
  assumes "validate_server_directive d st = Some st'" "vs_errors st' = []"
    and "vs_errors st = [] \<Longrightarrow> tracked st"
  shows "vs_errors st = [] \<and> tracked st'"
proof (cases "directive_kind d \<in> {Header_timeout_ms, Body_timeout_ms, Request_timeout_ms, Response_timeout_ms}")
  case True
  then obtain v where v: "get_integer (scalar_of d) = Some v"
    "st' = (let st1 = error_unless (\<not> (v = 0 \<or> v > maximum_timeout_ms)) Timeout_out_of_range
        (directive_kind d) (value_place d) st
      in st1\<lparr>vs_server := set_timeout (directive_kind d) v (vs_server st1)\<rparr>)"
    using assms(1) by (auto simp: validate_server_directive_def validate_timeout_def)
  with assms(2) have "vs_errors st = []" "timeout_ok v"
    by (auto simp: Let_def timeout_ok_def)
  with v assms(3) set_timeout_tracked [of st v "directive_kind d"] show ?thesis
    by (auto simp: Let_def timeout_ok_def)
next
  case False
  then show ?thesis
  proof (cases "directive_kind d")
    case Port
    then obtain v where v: "st' = (let st1 = error_unless (\<not> (v < minimum_port \<or> v > maximum_port))
        Port_out_of_range (directive_kind d) (value_place d) st
      in st1\<lparr>vs_server := (vs_server st1)\<lparr>ss_port := v mod 2 ^ 16\<rparr>\<rparr>)"
      using assms(1) by (auto simp: validate_server_directive_def validate_port_def)
    with assms(2) have c: "vs_errors st = []" "minimum_port \<le> v" "v \<le> maximum_port"
      by (auto simp: Let_def)
    then have "v mod 2 ^ 16 = v" by (simp add: maximum_port_def)
    with c v assms(3) show ?thesis by (auto simp: Let_def tracked_def values_ok_def)
  qed (use assms in \<open>auto simp: directive_rules tracked_def values_ok_def Let_def
      split: option.splits\<close>)
qed

lemma server_directive_loop_tracked:
  assumes "server_directive_loop encountered ds st = Some st'" "vs_errors st' = []"
    and "vs_errors st = [] \<Longrightarrow> tracked st"
  shows "vs_errors st = [] \<and> tracked st'"
  using assms
proof (induction ds arbitrary: encountered st)
  case (Cons d ds)
  show ?case
  proof (cases "directive_kind d \<in> set encountered")
    case True
    with Cons.prems Cons.IH [of encountered "add_server_error Duplicate_server_directive
      (directive_kind d) (directive_location d) st"] show ?thesis by auto
  next
    case False
    with Cons.prems(1) obtain st1 where st1: "validate_server_directive d st = Some st1"
      "server_directive_loop (directive_kind d # encountered) ds st1 = Some st'"
      by (auto split: option.splits)
    have "vs_errors st1 = [] \<Longrightarrow> tracked st1"
      using validate_server_directive_tracked [OF st1(1)] Cons.prems(3) by blast
    with Cons.IH [OF st1(2) Cons.prems(2)] have "vs_errors st1 = []" "tracked st'" by auto
    with validate_server_directive_tracked [OF st1(1)] Cons.prems(3) show ?thesis by blast
  qed
qed auto

lemma relationships_ok:
  assumes "vs_errors (validate_transport_relationship cfg (validate_threading_relationship cfg st)) = []"
    and "vs_errors st = [] \<Longrightarrow> tracked st"
  shows "vs_errors st = [] \<and> values_ok (vs_server st) \<and> threads_ok (vs_server st) \<and>
         transport_ok (vs_server st) \<and> ss_locations (vs_server st) = [] \<and>
         validate_transport_relationship cfg (validate_threading_relationship cfg st) = st"
proof -
  let ?t = "validate_threading_relationship cfg st"
  have t: "vs_errors ?t = []"
    using assms(1)
    by (auto simp: validate_transport_relationship_def reject_trusted_proxy_def reject_bind_if_def Let_def
        split: if_splits option.splits)
  then have c: "vs_errors st = []" "?t = st"
    by (auto simp: validate_threading_relationship_def validate_enabled_threading_def
        split: if_splits option.splits)
  with assms(2) have tr: "tracked st" by simp
  then have v: "values_ok (vs_server st)" "ss_locations (vs_server st) = []" by (auto simp: tracked_def Let_def)
  have th: "threads_ok (vs_server st)"
    using tr t by (auto simp: threads_ok_def tracked_def validate_threading_relationship_def
        validate_enabled_threading_def Let_def split: if_splits option.splits)
  have "transport_ok (vs_server st) \<and> validate_transport_relationship cfg st = st"
    using tr assms(1) default_bind_address unfolding c(2)
    by (cases "ss_transport_mode (vs_server st)")
      (auto simp: transport_ok_def tracked_def validate_transport_relationship_def
        reject_trusted_proxy_def reject_bind_if_def Let_def split: if_splits option.splits)
  with c v th show ?thesis by simp
qed

lemma location_directive_loop_clean:
  assumes "location_directive_loop block encountered ds (st, pd, settings) = Some (st', pd', settings')"
    and "vs_errors st' = []"
  shows "st' = st \<and> ls_api_path settings' = ls_api_path settings"
  using assms
proof (induction ds arbitrary: encountered st pd settings)
  case (Cons d ds)
  show ?case
  proof (cases "directive_kind d \<in> set encountered")
    case True
    with Cons.prems Cons.IH have "st' = add_location_error Duplicate_location_directive block
      (Some (directive_kind d)) (directive_location d) st" by (auto dest: Cons.IH)
    with Cons.prems(2) show ?thesis by simp
  next
    case False
    with Cons.prems show ?thesis
      by (cases "directive_kind d") (auto dest!: Cons.IH simp: bind_eq_Some_conv)
  qed
qed simp

lemma validate_location_directives_clean:
  assumes "validate_location_directives b st = Some st'" "vs_errors st' = []"
  shows "vs_errors st = [] \<and>
         (\<exists>l. ls_api_path l = api_path b \<and> fst (ls_root l) \<noteq> [] \<and>
              vs_server st' = (vs_server st)\<lparr>ss_locations := ss_locations (vs_server st) @ [l]\<rparr>)"
proof -
  obtain st1 pd settings r where l: "location_directive_loop b [] (location_directives b)
      (st, None, default_location_settings (api_path b)) = Some (st1, pd, settings)"
    and r: "validate_location_root b pd st1 = Some r"
    using assms(1) by (auto simp: validate_location_directives_def split: option.splits)
  obtain st2 ro where r2: "r = (st2, ro)" by force
  have "vs_errors st2 = []" "ro \<noteq> None"
    using assms l r r2
    by (auto simp: validate_location_directives_def validate_location_root_def
        split: option.splits if_splits)
  then obtain root where root: "ro = Some root" "fst root \<noteq> []" "st2 = st1"
    using r r2 by (auto simp: validate_location_root_def split: option.splits if_splits)
  with \<open>vs_errors st2 = []\<close> location_directive_loop_clean [OF l] have "st1 = st"
    "ls_api_path settings = api_path b" by (auto simp: default_location_settings_def)
  with assms(1) l r r2 root \<open>vs_errors st2 = []\<close> show ?thesis
    by (intro conjI exI [of _ "settings\<lparr>ls_root := root\<rparr>"])
      (auto simp: validate_location_directives_def)
qed

lemma validate_location_blocks_clean:
  assumes "validate_location_blocks bs paths st = Some st'" "vs_errors st' = []"
    and "vs_errors st = [] \<Longrightarrow>
      locations_ok (ss_locations (vs_server st)) \<and> map ls_api_path (ss_locations (vs_server st)) = paths"
  shows "vs_errors st = [] \<and>
         (\<exists>ls. vs_server st' = (vs_server st)\<lparr>ss_locations := ss_locations (vs_server st) @ ls\<rparr> \<and>
               length ls = length bs \<and> locations_ok (ss_locations (vs_server st) @ ls))"
  using assms
proof (induction bs arbitrary: paths st)
  case Nil
  then show ?case by (auto intro!: exI [of _ "[]"])
next
  case (Cons b bs)
  obtain paths1 st1 where i: "validate_location_identity b paths st = (paths1, st1)" by force
  obtain st2 where s: "validate_location_directives b st1 = Some st2"
    "validate_location_blocks bs paths1 st2 = Some st'"
    using Cons.prems(1) i by (auto split: option.splits)
  have step: "locations_ok (ss_locations (vs_server st2)) \<and>
      map ls_api_path (ss_locations (vs_server st2)) = paths1 \<and> vs_errors st = [] \<and>
      (\<exists>l. vs_server st2 = (vs_server st)\<lparr>ss_locations := ss_locations (vs_server st) @ [l]\<rparr>)"
    if c: "vs_errors st2 = []"
  proof -
    from validate_location_directives_clean [OF s(1) c] obtain l where l: "vs_errors st1 = []"
      "ls_api_path l = api_path b" "fst (ls_root l) \<noteq> []"
      "vs_server st2 = (vs_server st1)\<lparr>ss_locations := ss_locations (vs_server st1) @ [l]\<rparr>" by auto
    with i have id: "is_valid_location_path (api_path b)" "paths1 = paths @ [api_path b]" "st1 = st"
      "\<not> list_ex (\<lambda>path. location_paths_conflict path (api_path b)) paths"
      by (auto simp: validate_location_identity_def split: if_splits)
    with l Cons.prems(3) have old: "locations_ok (ss_locations (vs_server st))"
      "map ls_api_path (ss_locations (vs_server st)) = paths" by auto
    with l id show ?thesis
      by (auto simp: locations_ok_def sorted_wrt_append list_ex_iff)
  qed
  from Cons.IH [OF s(2) Cons.prems(2)] step obtain ls where ls: "vs_errors st2 = []"
    "vs_server st' = (vs_server st2)\<lparr>ss_locations := ss_locations (vs_server st2) @ ls\<rparr>"
    "length ls = length bs" "locations_ok (ss_locations (vs_server st2) @ ls)" by auto
  from step [OF ls(1)] obtain l where
    "vs_server st2 = (vs_server st)\<lparr>ss_locations := ss_locations (vs_server st) @ [l]\<rparr>" "vs_errors st = []"
    by auto
  with ls show ?case by (auto intro!: exI [of _ "l # ls"])
qed

lemma sort_key_Nil [simp]: "sort_key f xs = [] \<longleftrightarrow> xs = []"
  by (metis length_0_conv length_sort)

lemma settings_ok_locations [simp]:
  "values_ok (s\<lparr>ss_locations := ls\<rparr>) = values_ok s"
  "threads_ok (s\<lparr>ss_locations := ls\<rparr>) = threads_ok s"
  "transport_ok (s\<lparr>ss_locations := ls\<rparr>) = transport_ok s"
  by (simp_all add: values_ok_def threads_ok_def transport_ok_def split: transport_mode.splits)

lemma validate_config_settings:
  assumes "validate_config cfg = Some (Inr servers)"
  obtains s where "servers = [s]" "values_ok s" "threads_ok s" "transport_ok s" "ss_locations s \<noteq> []"
    "locations_ok (ss_locations s)"
proof -
  from assms obtain st0 st2 where d: "server_directive_loop [] (server_directives (parsed_server cfg))
      (initial_validation cfg) = Some st0"
    and l: "validate_locations cfg (validate_transport_relationship cfg
      (validate_threading_relationship cfg st0)) = Some st2"
    and e: "vs_errors st2 = []" "servers = [vs_server st2]"
    by (auto simp: validate_config_def validate_server_directives_def Let_def
        split: option.splits if_splits)
  let ?st1 = "validate_transport_relationship cfg (validate_threading_relationship cfg st0)"
  have tr: "vs_errors st0 = [] \<Longrightarrow> tracked st0"
    using server_directive_loop_tracked [OF d] initial_tracked by blast
  have ne: "server_locations (parsed_server cfg) \<noteq> []"
    using l e(1) by (auto simp: validate_locations_def)
  then have b: "validate_location_blocks (server_locations (parsed_server cfg)) [] ?st1 = Some st2"
    using l by (simp add: validate_locations_def)
  have start: "locations_ok (ss_locations (vs_server ?st1)) \<and> map ls_api_path (ss_locations (vs_server ?st1)) = []"
    if "vs_errors ?st1 = []"
  proof -
    have "ss_locations (vs_server ?st1) = []" using relationships_ok [OF that tr] by simp
    then show ?thesis by (simp add: locations_ok_def)
  qed
  from validate_location_blocks_clean [OF b e(1) start] obtain ls where c: "vs_errors ?st1 = []"
    and ls: "vs_server st2 = (vs_server ?st1)\<lparr>ss_locations := ss_locations (vs_server ?st1) @ ls\<rparr>"
      "length ls = length (server_locations (parsed_server cfg))"
      "locations_ok (ss_locations (vs_server ?st1) @ ls)" by blast
  have r: "?st1 = st0" "values_ok (vs_server st0)" "threads_ok (vs_server st0)"
    "transport_ok (vs_server st0)" "ss_locations (vs_server st0) = []"
    using relationships_ok [OF c tr] by blast+
  have "vs_server st2 = (vs_server st0)\<lparr>ss_locations := ls\<rparr>" "locations_ok ls" "ls \<noteq> []"
    using ls r(5) ne unfolding r(1) by auto
  with r(2-4) that [of "vs_server st2"] e(2) show thesis
    by simp
qed

text \<open>
  C16. Validated settings are safe: ports, timeouts and worker counts are within their limits, listener
  and proxy addresses are numeric, plain HTTP without a trusted network listens on loopback only, and
  HTTPS behind a proxy names exactly one proxy and never listens on a wildcard address.
\<close>

theorem validated_settings_safe:
  assumes "validate_config cfg = Some (Inr servers)"
  shows "\<exists>s. servers = [s] \<and> values_ok s \<and> threads_ok s \<and> transport_ok s"
  using assms by (rule validate_config_settings) blast

text \<open>Whatever lies below two prefixes makes the prefixes overlap.\<close>

lemma location_contains_join:
  assumes "location_contains a p" "location_contains b p"
  shows "location_paths_conflict a b"
proof (cases "a = ''/'' \<or> b = ''/''")
  case True
  then show ?thesis by (auto simp: location_paths_conflict_def location_contains_def)
next
  case False
  with assms have pre: "prefix a p" "prefix b p" by (auto simp: location_contains_def)
  then consider "prefix a b" | "prefix b a" by (meson prefix_same_cases)
  then show ?thesis
  proof cases
    case 1
    then show ?thesis using assms False pre
      by (auto simp: location_paths_conflict_def location_contains_def prefix_def nth_append)
  next
    case 2
    then show ?thesis using assms False pre
      by (auto simp: location_paths_conflict_def location_contains_def prefix_def nth_append)
  qed
qed

text \<open>
  Locations do not overlap: a validated server has at least one location, all with valid public
  paths and nonempty roots, and no request path lies below two of them.
\<close>

lemma validated_locations_disjoint:
  assumes "validate_config cfg = Some (Inr servers)" "s \<in> set servers"
  shows "ss_locations s \<noteq> [] \<and>
         (\<forall>l\<in>set (ss_locations s). is_valid_location_path (ls_api_path l) \<and> fst (ls_root l) \<noteq> []) \<and>
         (\<forall>i j p. i < j \<and> j < length (ss_locations s) \<longrightarrow>
            \<not> (location_contains (ls_api_path (ss_locations s ! i)) p \<and>
               location_contains (ls_api_path (ss_locations s ! j)) p))"
proof -
  have "ss_locations s \<noteq> []" "locations_ok (ss_locations s)"
    using assms(2) by (auto intro: validate_config_settings [OF assms(1)])
  moreover have "\<not> (location_contains (ls_api_path (ss_locations s ! i)) p \<and>
      location_contains (ls_api_path (ss_locations s ! j)) p)"
    if "i < j" "j < length (ss_locations s)" for i j p
  proof -
    have "\<not> location_paths_conflict (ls_api_path (ss_locations s ! i)) (ls_api_path (ss_locations s ! j))"
      using \<open>locations_ok (ss_locations s)\<close> that
      by (simp add: locations_ok_def sorted_wrt_iff_nth_less)
    then show ?thesis using location_contains_join by blast
  qed
  ultimately show ?thesis by (auto simp: locations_ok_def list_all_iff)
qed

section \<open>A sample configuration\<close>

definition sample_config :: string where
  "sample_config =
     ''server{port 9;location'' @ [DQUOTE] @ ''/'' @ [DQUOTE] @ ''{path'' @ [DQUOTE] @ ''a'' @ [DQUOTE] @
     '';}}''"

definition sample_parsed :: parsed_configuration where
  "sample_parsed =
     (case parse_config (make_lexer sample_config) of Inr cfg \<Rightarrow> cfg | Inl _ \<Rightarrow> undefined)"

definition sample_settings :: "server_settings list" where
  "sample_settings =
     (case validate_config sample_parsed of Some (Inr s) \<Rightarrow> s | _ \<Rightarrow> undefined)"

lemma sample_parsed_ok: "parse_config (make_lexer sample_config) = Inr sample_parsed"
proof -
  have "case parse_config (make_lexer sample_config) of Inr _ \<Rightarrow> True | Inl _ \<Rightarrow> False" by code_simp
  then show ?thesis by (auto simp: sample_parsed_def split: sum.splits)
qed

lemma sample_settings_ok: "validate_config sample_parsed = Some (Inr sample_settings)"
proof -
  have "case validate_config sample_parsed of Some (Inr _) \<Rightarrow> True | _ \<Rightarrow> False" by code_simp
  then show ?thesis by (auto simp: sample_settings_def split: option.splits sum.splits)
qed

theorem parsed_configuration_typed_witness:
  "typed_server (parsed_server sample_parsed) \<and> (\<exists>r. validate_config sample_parsed = Some r)"
  using sample_parsed_ok by (rule parsed_configuration_typed)

theorem validated_settings_safe_witness:
  "\<exists>s. sample_settings = [s] \<and> values_ok s \<and> threads_ok s \<and> transport_ok s"
  using sample_settings_ok by (rule validated_settings_safe)

end
