(* ===== verification/Posix_Files.thy ===== *)
theory Posix_Files
  imports Safe_Path Temporary_Storage
begin

text \<open>
  The POSIX side of the filesystem: descriptors (\<^verbatim>\<open>src/filesystem/detail/posix_file_descriptor.hpp\<close>),
  confined directories (\<^verbatim>\<open>linux_directory_entry_reader.cpp\<close>), directory creation
  (\<^verbatim>\<open>linux_directory_creator.cpp\<close>), removal inside a Landlock domain
  (\<^verbatim>\<open>linux_filesystem_entry_remover.cpp\<close>), reading (\<^verbatim>\<open>linux_file_read_stream.cpp\<close>), temporary files
  (\<^verbatim>\<open>src/storage/temporary_file.cpp\<close>) and the publication of uploads
  (\<^verbatim>\<open>linux_upload_finalizer.cpp\<close>).

  The system calls are the record \<open>posix\<close>, one field per call, with the state of the operating system
  as the world \<open>'w\<close>. A descriptor's destructor is the explicit \<open>closing\<close>. Loops that retry after
  \<^verbatim>\<open>EINTR\<close> are partial functions. Allocation failures are not modelled.
\<close>

section \<open>System calls\<close>

type_synonym errno = int

abbreviation EPERM :: errno where "EPERM \<equiv> 1"
abbreviation ENOENT :: errno where "ENOENT \<equiv> 2"
abbreviation EINTR :: errno where "EINTR \<equiv> 4"
abbreviation EACCES :: errno where "EACCES \<equiv> 13"
abbreviation EEXIST :: errno where "EEXIST \<equiv> 17"
abbreviation ENOTDIR :: errno where "ENOTDIR \<equiv> 20"
abbreviation EISDIR :: errno where "EISDIR \<equiv> 21"
abbreviation EROFS :: errno where "EROFS \<equiv> 30"
abbreviation ENOTEMPTY :: errno where "ENOTEMPTY \<equiv> 39"

type_synonym fd = nat

datatype open_flag =
  O_PATH | O_RDONLY | O_WRONLY | O_DIRECTORY | O_CREAT | O_EXCL | O_NOFOLLOW | O_NONBLOCK | O_CLOEXEC

datatype file_kind = Stat_regular | Stat_directory | Stat_link | Stat_other

record stat_info =
  stat_kind :: file_kind
  stat_size :: int
  stat_mtime :: int

record 'w posix =
  px_open :: "string list \<Rightarrow> open_flag list \<Rightarrow> 'w \<Rightarrow> 'w \<times> (errno, fd) result"
  px_openat :: "fd \<Rightarrow> string \<Rightarrow> open_flag list \<Rightarrow> 'w \<Rightarrow> 'w \<times> (errno, fd) result"
  px_close :: "fd \<Rightarrow> 'w \<Rightarrow> 'w \<times> (errno, unit) result"
  px_fstat :: "fd \<Rightarrow> 'w \<Rightarrow> 'w \<times> (errno, stat_info) result"
  px_read_link :: "fd \<Rightarrow> 'w \<Rightarrow> 'w \<times> (errno, bool \<times> string list) result"
  px_get_flags :: "fd \<Rightarrow> 'w \<Rightarrow> 'w \<times> (errno, open_flag list) result"
  px_set_flags :: "fd \<Rightarrow> open_flag list \<Rightarrow> 'w \<Rightarrow> 'w \<times> (errno, unit) result"
  px_read :: "fd \<Rightarrow> nat \<Rightarrow> 'w \<Rightarrow> 'w \<times> (errno, string) result"
  px_write :: "fd \<Rightarrow> string \<Rightarrow> 'w \<Rightarrow> 'w \<times> (errno, nat) result"
  px_fsync :: "fd \<Rightarrow> 'w \<Rightarrow> 'w \<times> (errno, unit) result"
  px_mkdirat :: "fd \<Rightarrow> string \<Rightarrow> 'w \<Rightarrow> 'w \<times> (errno, unit) result"
  px_unlinkat :: "fd \<Rightarrow> string \<Rightarrow> bool \<Rightarrow> 'w \<Rightarrow> 'w \<times> (errno, unit) result"
  px_linkat :: "bool \<Rightarrow> fd \<Rightarrow> fd \<Rightarrow> string \<Rightarrow> 'w \<Rightarrow> 'w \<times> (errno, unit) result"
  px_remove :: "string list \<Rightarrow> 'w \<Rightarrow> 'w \<times> (errno, unit) result"
  px_create_ruleset :: "'w \<Rightarrow> 'w \<times> (errno, fd) result"
  px_add_rule :: "fd \<Rightarrow> fd \<Rightarrow> 'w \<Rightarrow> 'w \<times> (errno, unit) result"
  px_no_new_privs :: "'w \<Rightarrow> 'w \<times> (errno, unit) result"
  px_restrict_self :: "fd \<Rightarrow> 'w \<Rightarrow> 'w \<times> (errno, unit) result"
  px_start_thread :: "'w \<Rightarrow> 'w \<times> (errno, unit) result"
  px_status :: "string list \<Rightarrow> 'w \<Rightarrow> 'w \<times> (errno, file_kind option) result"
  px_iterate :: "string list \<Rightarrow> 'w \<Rightarrow> 'w \<times> (errno, string list \<times> errno option) result"
  px_temp_directory :: "'w \<Rightarrow> 'w \<times> (errno, string list) result"
  px_name_seed :: "'w \<Rightarrow> 'w \<times> 64 word \<times> 64 word \<times> 32 word \<times> 32 word"
  px_errno :: "'w \<Rightarrow> errno"
  px_view :: "'w \<Rightarrow> fs_view"
  px_host :: "'w host"

text \<open>
  \<open>px_linkat\<close>'s first argument tells the two forms of the call apart: the descriptor itself
  (\<^verbatim>\<open>AT_EMPTY_PATH\<close>), or its link under \<^verbatim>\<open>/proc/self/fd\<close> (\<^verbatim>\<open>AT_SYMLINK_FOLLOW\<close>). \<open>px_read_link\<close> reads
  \<^verbatim>\<open>/proc/self/fd/N\<close>: whether the result is absolute, and its components. \<open>px_unlinkat\<close>'s last argument
  is \<^verbatim>\<open>AT_REMOVEDIR\<close>. \<open>px_status\<close> is \<^verbatim>\<open>std::filesystem::status\<close>, \<open>None\<close> for an object that does not exist;
  \<open>px_iterate\<close> is a whole directory iteration: the names in order, and the error that ended it, if any.
  \<open>px_errno\<close> is the value of \<^verbatim>\<open>errno\<close> left by earlier calls.
\<close>

section \<open>Descriptors\<close>

definition closing :: "'w posix \<Rightarrow> fd \<Rightarrow> 'w \<times> 'a \<Rightarrow> 'w \<times> 'a" where
  "closing px d wr = (fst (px_close px d (fst wr)), snd wr)"

definition descriptor_path :: "'w posix \<Rightarrow> fd \<Rightarrow> 'w \<Rightarrow> 'w \<times> (errno, string list) result" where
  "descriptor_path px d w =
     (case px_read_link px d w of
        (w1, Inl e) \<Rightarrow> (w1, Inl e)
      | (w1, Inr (absolute, p)) \<Rightarrow>
          (w1, if absolute then Inr (lexically_normal True p) else Inl EPERM))"

text \<open>\<^verbatim>\<open>native_name != native_name.filename()\<close>, for a path that is not empty.\<close>

definition basename :: "string \<Rightarrow> string" where
  "basename name = last (split_slash name)"

definition single_name :: "string \<Rightarrow> bool" where
  "single_name name \<longleftrightarrow> name \<noteq> [] \<and> name = basename name"

section \<open>Confined directories\<close>

record confined_directory =
  cd_root :: fd
  cd_directory :: fd
  cd_shared_root :: "string list"

definition open_directory :: "'w posix \<Rightarrow> string list \<Rightarrow> 'w \<Rightarrow> 'w \<times> (errno, fd) result" where
  "open_directory px path w = px_open px path [O_PATH, O_DIRECTORY, O_CLOEXEC, O_NOFOLLOW] w"

definition open_confined_directory ::
    "'w posix \<Rightarrow> string list \<Rightarrow> string list \<Rightarrow> 'w \<Rightarrow> 'w \<times> (errno, confined_directory) result" where
  "open_confined_directory px shared_root directory w =
     (case open_directory px shared_root w of
        (w1, Inl e) \<Rightarrow> (w1, Inl e)
      | (w1, Inr root) \<Rightarrow>
          (case descriptor_path px root w1 of
             (w2, Inl e) \<Rightarrow> closing px root (w2, Inl e)
           | (w2, Inr stable_root) \<Rightarrow>
               (if stable_root \<noteq> lexically_normal True shared_root
                then closing px root (w2, Inl EPERM)
                else
                  (case open_directory px directory w2 of
                     (w3, Inl e) \<Rightarrow> closing px root (w3, Inl e)
                   | (w3, Inr d) \<Rightarrow>
                       (case descriptor_path px d w3 of
                          (w4, Inl e) \<Rightarrow> closing px root (closing px d (w4, Inl e))
                        | (w4, Inr stable_directory) \<Rightarrow>
                            (if \<not> is_within_root stable_directory stable_root
                             then closing px root (closing px d (w4, Inl EPERM))
                             else (w4, Inr \<lparr>cd_root = root, cd_directory = d,
                                            cd_shared_root = stable_root\<rparr>)))))))"

definition open_confined_mutation_directory where
  "open_confined_mutation_directory px shared_root directory w =
     open_confined_directory px shared_root directory w"

definition close_confined :: "'w posix \<Rightarrow> confined_directory \<Rightarrow> 'w \<times> 'a \<Rightarrow> 'w \<times> 'a" where
  "close_confined px cd wr = closing px (cd_root cd) (closing px (cd_directory cd) wr)"

datatype confined_kind = Confined_regular | Confined_directory_kind | Confined_link | Confined_other

record confined_metadata =
  cm_kind :: confined_kind
  cm_size :: "nat option"
  cm_modified :: int

definition classify_confined :: "stat_info \<Rightarrow> stat_info \<Rightarrow> confined_kind" where
  "classify_confined link target =
     (if stat_kind link = Stat_link then Confined_link
      else if stat_kind target = Stat_regular then Confined_regular
      else if stat_kind target = Stat_directory then Confined_directory_kind
      else Confined_other)"

definition confined_entry_metadata ::
    "(errno, stat_info) result \<Rightarrow> (errno, stat_info) result \<Rightarrow> confined_metadata option" where
  "confined_entry_metadata link target =
     (case (link, target) of
        (Inr l, Inr t) \<Rightarrow>
          (let kind = classify_confined l t in
           if kind = Confined_regular \<and> stat_size t < 0 then None
           else Some \<lparr>cm_kind = kind,
                      cm_size = (if kind = Confined_regular then Some (nat (stat_size t)) else None),
                      cm_modified = stat_mtime t\<rparr>)
      | _ \<Rightarrow> None)"

definition read_confined_directory_entry ::
    "'w posix \<Rightarrow> confined_directory \<Rightarrow> string \<Rightarrow> 'w \<Rightarrow> 'w \<times> confined_metadata option" where
  "read_confined_directory_entry px cd name w =
     (if \<not> single_name name then (w, None)
      else
        (case px_openat px (cd_directory cd) name [O_PATH, O_CLOEXEC, O_NOFOLLOW] w of
           (w1, Inl _) \<Rightarrow> (w1, None)
         | (w1, Inr link) \<Rightarrow>
             closing px link
               (case px_openat px (cd_directory cd) name [O_PATH, O_CLOEXEC] w1 of
                  (w2, Inl _) \<Rightarrow> (w2, None)
                | (w2, Inr target) \<Rightarrow>
                    closing px target
                      (case descriptor_path px target w2 of
                         (w3, Inl _) \<Rightarrow> (w3, None)
                       | (w3, Inr path) \<Rightarrow>
                           (if \<not> is_within_root path (cd_shared_root cd) then (w3, None)
                            else
                              (case px_fstat px link w3 of
                                 (w4, Inl e) \<Rightarrow> (w4, None)
                               | (w4, Inr l) \<Rightarrow>
                                   (case px_fstat px target w4 of
                                      (w5, t) \<Rightarrow> (w5, confined_entry_metadata (Inr l) t))))))))"

section \<open>Creating a directory\<close>

type_synonym path_detail = "(safe_path_error \<times> string) option"

datatype creation_error_code =
    Creation_invalid_destination | Creation_parent_unavailable | Creation_destination_exists
  | Creation_permission_denied | Creation_failed | Creation_resource_failure

type_synonym creation_error = "creation_error_code \<times> path_detail \<times> errno option"

definition creation_failure :: "errno \<Rightarrow> creation_error" where
  "creation_failure e =
     ((if e = EEXIST then Creation_destination_exists
       else if e = ENOENT \<or> e = ENOTDIR then Creation_parent_unavailable
       else if e = EACCES \<or> e = EPERM \<or> e = EROFS then Creation_permission_denied
       else Creation_failed), None, Some e)"

definition create_confined_directory ::
    "'w posix \<Rightarrow> confined_directory \<Rightarrow> string \<Rightarrow> 'w \<Rightarrow> 'w \<times> (creation_error, unit) result" where
  "create_confined_directory px parent name w =
     (if \<not> single_name name then (w, Inl (Creation_invalid_destination, None, None))
      else
        (case px_mkdirat px (cd_directory parent) name w of
           (w1, Inl e) \<Rightarrow> (w1, Inl (creation_failure e))
         | (w1, Inr _) \<Rightarrow> (w1, Inr ())))"

section \<open>Removing an entry\<close>

datatype removal_error_code =
    Removal_invalid_destination | Removal_parent_unavailable | Removal_not_found
  | Removal_directory_not_empty | Removal_permission_denied | Removal_failed | Removal_resource_failure

type_synonym removal_error = "removal_error_code \<times> path_detail \<times> errno option"

definition removal_failure :: "errno \<Rightarrow> removal_error" where
  "removal_failure e =
     ((if e = ENOENT \<or> e = ENOTDIR then Removal_not_found
       else if e = ENOTEMPTY \<or> e = EEXIST then Removal_directory_not_empty
       else if e = EACCES \<or> e = EPERM \<or> e = EROFS then Removal_permission_denied
       else Removal_failed), None, Some e)"

definition apply_deletion_landlock :: "'w posix \<Rightarrow> fd \<Rightarrow> 'w \<Rightarrow> 'w \<times> (errno, unit) result" where
  "apply_deletion_landlock px root w =
     (case px_create_ruleset px w of
        (w1, Inl e) \<Rightarrow> (w1, Inl e)
      | (w1, Inr ruleset) \<Rightarrow>
          closing px ruleset
            (case px_add_rule px ruleset root w1 of
               (w2, Inl e) \<Rightarrow> (w2, Inl e)
             | (w2, Inr _) \<Rightarrow>
                 (case px_no_new_privs px w2 of
                    (w3, Inl e) \<Rightarrow> (w3, Inl e)
                  | (w3, Inr _) \<Rightarrow> px_restrict_self px ruleset w3)))"

definition remove_in_landlock ::
    "'w posix \<Rightarrow> confined_directory \<Rightarrow> string \<Rightarrow> 'w \<Rightarrow> 'w \<times> (removal_error, unit) result" where
  "remove_in_landlock px parent name w =
     (case apply_deletion_landlock px (cd_root parent) w of
        (w1, Inl e) \<Rightarrow> (w1, Inl (Removal_failed, None, Some e))
      | (w1, Inr _) \<Rightarrow>
          (case px_unlinkat px (cd_directory parent) name False w1 of
             (w2, Inr _) \<Rightarrow> (w2, Inr ())
           | (w2, Inl file_error) \<Rightarrow>
               (if file_error = EISDIR then
                  (case px_unlinkat px (cd_directory parent) name True w2 of
                     (w3, Inr _) \<Rightarrow> (w3, Inr ())
                   | (w3, Inl e) \<Rightarrow> (w3, Inl (removal_failure e)))
                else (w2, Inl (removal_failure file_error)))))"

text \<open>
  The thread that enters the domain may fail to start: \<^verbatim>\<open>std::thread\<close> then throws an exception that
  \<^verbatim>\<open>remove_filesystem_entry\<close>, the only caller, turns into \<open>Removal_failed\<close> with its code.
\<close>

definition remove_confined_entry ::
    "'w posix \<Rightarrow> confined_directory \<Rightarrow> string \<Rightarrow> 'w \<Rightarrow> 'w \<times> (removal_error, unit) result" where
  "remove_confined_entry px parent name w =
     (if \<not> single_name name then (w, Inl (Removal_invalid_destination, None, None))
      else
        (case px_start_thread px w of
           (w1, Inl e) \<Rightarrow> (w1, Inl (Removal_failed, None, Some e))
         | (w1, Inr _) \<Rightarrow> remove_in_landlock px parent name w1))"

section \<open>Reading a file\<close>

datatype read_error_code =
    Read_invalid_path | Read_not_found | Read_not_regular_file | Read_permission_denied
  | Read_outside_shared_root | Read_filesystem_failure | Read_cancelled
  | Read_resource_allocation_failed

type_synonym read_error = "read_error_code \<times> errno option \<times> safe_path_error option"

record file_read_stream =
  stream_descriptor :: fd
  stream_size :: nat

definition read_system_failure :: "errno \<Rightarrow> read_error" where
  "read_system_failure e =
     ((if e = ENOENT \<or> e = ENOTDIR then Read_not_found
       else if e = EACCES then Read_permission_denied
       else Read_filesystem_failure), Some e, None)"

text \<open>The checks on the opened file: containment, a regular file, and blocking reads again.\<close>

definition verify_opened_file ::
    "'w posix \<Rightarrow> string list \<Rightarrow> fd \<Rightarrow> 'w \<Rightarrow> 'w \<times> (read_error, nat) result" where
  "verify_opened_file px stable_root file w =
     (case descriptor_path px file w of
        (w1, Inl e) \<Rightarrow> (w1, Inl (read_system_failure e))
      | (w1, Inr stable_file) \<Rightarrow>
          (if \<not> is_within_root stable_file stable_root
           then (w1, Inl (Read_outside_shared_root, None, Some Outside_shared_root))
           else
             (case px_fstat px file w1 of
                (w2, Inl e) \<Rightarrow> (w2, Inl (read_system_failure e))
              | (w2, Inr info) \<Rightarrow>
                  (if stat_kind info \<noteq> Stat_regular \<or> stat_size info < 0
                   then (w2, Inl (Read_not_regular_file, None, None))
                   else
                     (case px_get_flags px file w2 of
                        (w3, Inl e) \<Rightarrow> (w3, Inl (read_system_failure e))
                      | (w3, Inr flags) \<Rightarrow>
                          (case px_set_flags px file (removeAll O_NONBLOCK flags) w3 of
                             (w4, Inl e) \<Rightarrow> (w4, Inl (read_system_failure e))
                           | (w4, Inr _) \<Rightarrow> (w4, Inr (nat (stat_size info)))))))))"

definition file_stream_open ::
    "'w posix \<Rightarrow> string list \<Rightarrow> string \<Rightarrow> 'w \<Rightarrow> 'w \<times> (read_error, file_read_stream) result" where
  "file_stream_open px shared_root requested w =
     (case safe_path_resolve (px_view px w) shared_root requested of
        Inl (code, _) \<Rightarrow> (w, Inl (Read_invalid_path, None, Some code))
      | Inr path \<Rightarrow>
          (case px_open px shared_root [O_PATH, O_DIRECTORY, O_CLOEXEC, O_NOFOLLOW] w of
             (w1, Inl e) \<Rightarrow> (w1, Inl (read_system_failure e))
           | (w1, Inr root) \<Rightarrow>
               closing px root
                 (case descriptor_path px root w1 of
                    (w2, Inl e) \<Rightarrow> (w2, Inl (read_system_failure e))
                  | (w2, Inr stable_root) \<Rightarrow>
                      (case px_open px path [O_RDONLY, O_CLOEXEC, O_NOFOLLOW, O_NONBLOCK] w2 of
                         (w3, Inl e) \<Rightarrow> (w3, Inl (read_system_failure e))
                       | (w3, Inr file) \<Rightarrow>
                           (case verify_opened_file px stable_root file w3 of
                              (w4, Inl e) \<Rightarrow> closing px file (w4, Inl e)
                            | (w4, Inr n) \<Rightarrow>
                                (w4, Inr \<lparr>stream_descriptor = file, stream_size = n\<rparr>))))))"

text \<open>
  The stop token of a read is observed as in \<open>interruption_of\<close>: a token that cannot be stopped is never
  asked. The loop retries while the call is interrupted.
\<close>

definition stop_requested :: "'w posix \<Rightarrow> io_options \<Rightarrow> 'w \<Rightarrow> 'w \<times> bool" where
  "stop_requested px opts w = (if io_stop_possible opts then host_stop (px_host px) w else (w, False))"

partial_function (option) file_stream_read_loop ::
    "'w posix \<Rightarrow> io_options \<Rightarrow> fd \<Rightarrow> nat \<Rightarrow> 'w \<Rightarrow> ('w \<times> (read_error, string) result) option" where
  "file_stream_read_loop px opts d capacity w =
     (case px_read px d capacity w of
        (w1, Inr bytes) \<Rightarrow> Some (w1, Inr bytes)
      | (w1, Inl e) \<Rightarrow>
          (if e \<noteq> EINTR then Some (w1, Inl (read_system_failure e))
           else
             (case stop_requested px opts w1 of
                (w2, stop) \<Rightarrow>
                  (if stop then Some (w2, Inl (Read_cancelled, None, None))
                   else file_stream_read_loop px opts d capacity w2))))"

definition file_stream_read ::
    "'w posix \<Rightarrow> io_options \<Rightarrow> file_read_stream \<Rightarrow> nat \<Rightarrow> 'w \<Rightarrow> ('w \<times> (read_error, string) result) option" where
  "file_stream_read px opts stream capacity w =
     (case stop_requested px opts w of
        (w1, stop) \<Rightarrow>
          (if stop then Some (w1, Inl (Read_cancelled, None, None))
           else if capacity = 0 then Some (w1, Inr [])
           else file_stream_read_loop px opts (stream_descriptor stream) capacity w1))"

section \<open>Temporary files\<close>

unbundle bit_operations_syntax

fun suffix_digits :: "nat \<Rightarrow> 64 word \<Rightarrow> 64 word \<Rightarrow> string" where
  "suffix_digits 0 count v = []"
| "suffix_digits (Suc n) count v =
     digit_char (unat (v AND 0x0F)) #
     suffix_digits n count (drop_bit 4 v XOR push_bit 60 v XOR count)"

definition candidate_suffix :: "64 word \<Rightarrow> 64 word \<Rightarrow> 32 word \<Rightarrow> 32 word \<Rightarrow> string" where
  "candidate_suffix clock count random1 random2 =
     (let entropy = push_bit 32 (ucast random1 :: 64 word) XOR ucast random2 in
      suffix_digits 32 count (clock XOR (count * 0x9E3779B97F4A7C15) XOR entropy))"

definition temporary_name_suffix :: "'w posix \<Rightarrow> 'w \<Rightarrow> 'w \<times> string" where
  "temporary_name_suffix px w =
     (case px_name_seed px w of (w1, clock, count, r1, r2) \<Rightarrow> (w1, candidate_suffix clock count r1 r2))"

record temporary_file =
  tf_path :: "string list"
  tf_handle :: "fd option"
  tf_size :: nat
  tf_completed :: bool

definition maximum_creation_attempts :: nat where "maximum_creation_attempts = 100"
definition maximum_native_write_bytes :: nat where "maximum_native_write_bytes = 16 * 1024"

fun tf_create_loop ::
    "'w posix \<Rightarrow> string list \<Rightarrow> nat \<Rightarrow> errno \<Rightarrow> 'w \<Rightarrow> 'w \<times> (file_error, temporary_file) result" where
  "tf_create_loop px directory 0 last_error w =
     (w, Inl \<lparr>file_code = Create_failed, native_code = last_error\<rparr>)"
| "tf_create_loop px directory (Suc n) last_error w =
     (case temporary_name_suffix px w of
        (w1, name_suffix) \<Rightarrow>
          (let path = directory @ [''.sparenode-body-'' @ name_suffix @ ''.tmp''] in
           case px_open px path [O_WRONLY, O_CREAT, O_EXCL, O_CLOEXEC] w1 of
             (w2, Inr handle) \<Rightarrow>
               (w2, Inr \<lparr>tf_path = path, tf_handle = Some handle, tf_size = 0, tf_completed = False\<rparr>)
           | (w2, Inl e) \<Rightarrow>
               (if e \<noteq> EEXIST then (w2, Inl \<lparr>file_code = Create_failed, native_code = e\<rparr>)
                else tf_create_loop px directory n e w2)))"

definition tf_create :: "'w posix \<Rightarrow> 'w \<Rightarrow> 'w \<times> (file_error, temporary_file) result" where
  "tf_create px w =
     (case px_temp_directory px w of
        (w1, Inl e) \<Rightarrow> (w1, Inl \<lparr>file_code = Temporary_directory_unavailable, native_code = e\<rparr>)
      | (w1, Inr directory) \<Rightarrow> tf_create_loop px directory maximum_creation_attempts 0 w1)"

partial_function (option) tf_write_loop ::
    "'w posix \<Rightarrow> io_options \<Rightarrow> fd \<Rightarrow> string \<Rightarrow> 'w \<Rightarrow> ('w \<times> (file_error, unit) result) option" where
  "tf_write_loop px opts handle bytes w =
     (if bytes = [] then Some (w, Inr ())
      else
        (case file_interruption (px_host px) opts w of
           (w1, Some e) \<Rightarrow> Some (w1, Inl e)
         | (w1, None) \<Rightarrow>
             (case px_write px handle (take maximum_native_write_bytes bytes) w1 of
                (w2, Inl e) \<Rightarrow>
                  (if e = EINTR then tf_write_loop px opts handle bytes w2
                   else Some (w2, Inl \<lparr>file_code = Write_failed, native_code = e\<rparr>))
              | (w2, Inr n) \<Rightarrow>
                  (if n = 0 then Some (w2, Inl \<lparr>file_code = Write_failed, native_code = 0\<rparr>)
                   else
                     (case file_interruption (px_host px) opts w2 of
                        (w3, Some e) \<Rightarrow> Some (w3, Inl e)
                      | (w3, None) \<Rightarrow> tf_write_loop px opts handle (drop n bytes) w3)))))"

definition tf_write ::
    "'w posix \<Rightarrow> io_options \<Rightarrow> temporary_file \<Rightarrow> string \<Rightarrow> 'w \<Rightarrow>
     ('w \<times> temporary_file \<times> (file_error, unit) result) option" where
  "tf_write px opts t bytes w =
     (if tf_completed t then Some (w, t, invalid_state)
      else
        (case tf_handle t of
           None \<Rightarrow> Some (w, t, invalid_state)
         | Some handle \<Rightarrow>
             map_option (\<lambda>(w1, r).
                 (w1, (case r of Inl _ \<Rightarrow> t | Inr _ \<Rightarrow> t\<lparr>tf_size := tf_size t + length bytes\<rparr>), r))
               (tf_write_loop px opts handle bytes w)))"

definition tf_complete ::
    "'w posix \<Rightarrow> io_options \<Rightarrow> temporary_file \<Rightarrow> 'w \<Rightarrow> 'w \<times> temporary_file \<times> (file_error, unit) result" where
  "tf_complete px opts t w =
     (if tf_completed t then (w, t, invalid_state)
      else
        (case tf_handle t of
           None \<Rightarrow> (w, t, invalid_state)
         | Some handle \<Rightarrow>
             (case file_interruption (px_host px) opts w of
                (w1, Some e) \<Rightarrow> (w1, t, Inl e)
              | (w1, None) \<Rightarrow>
                  (case px_fsync px handle w1 of
                     (w2, Inl e) \<Rightarrow> (w2, t, Inl \<lparr>file_code = Flush_failed, native_code = e\<rparr>)
                   | (w2, Inr _) \<Rightarrow>
                       (case file_interruption (px_host px) opts w2 of
                          (w3, Some e) \<Rightarrow> (w3, t, Inl e)
                        | (w3, None) \<Rightarrow>
                            (case px_close px handle w3 of
                               (w4, Inl e) \<Rightarrow>
                                 (w4, t\<lparr>tf_handle := None\<rparr>,
                                  Inl \<lparr>file_code = Close_failed, native_code = e\<rparr>)
                             | (w4, Inr _) \<Rightarrow>
                                 (case file_interruption (px_host px) opts w4 of
                                    (w5, Some e) \<Rightarrow> (w5, t\<lparr>tf_handle := None\<rparr>, Inl e)
                                  | (w5, None) \<Rightarrow>
                                      (w5, t\<lparr>tf_handle := None, tf_completed := True\<rparr>, Inr ()))))))))"

definition tf_release :: "temporary_file \<Rightarrow> temporary_file \<times> (file_error, string list) result" where
  "tf_release t =
     (if \<not> tf_completed t \<or> tf_path t = [] then (t, invalid_state)
      else (t\<lparr>tf_path := []\<rparr>, Inr (tf_path t)))"

definition tf_cleanup :: "'w posix \<Rightarrow> temporary_file \<Rightarrow> 'w \<Rightarrow> 'w" where
  "tf_cleanup px t w =
     (let w1 = (case tf_handle t of None \<Rightarrow> w | Some handle \<Rightarrow> fst (px_close px handle w)) in
      if tf_path t = [] then w1 else fst (px_remove px (tf_path t) w1))"

end
