(* ===== verification/Upload_Publication.thy ===== *)
theory Upload_Publication
  imports Posix_Files
begin

text \<open>
  Publication of a completed upload, \<^verbatim>\<open>src/filesystem/detail/linux_upload_finalizer.cpp\<close> with the policy of
  \<^verbatim>\<open>upload_finalization_policy.hpp\<close>: the bytes are copied to a private sibling of the destination,
  flushed, and the sibling's inode is linked under the destination name, which must be new; the sibling
  is unlinked on every path.
\<close>

section \<open>Publication\<close>

datatype upload_error_code =
    Upload_invalid_source | Upload_invalid_destination | Upload_parent_unavailable
  | Upload_destination_exists | Upload_source_read_failed | Upload_staging_failed
  | Upload_staging_write_failed | Upload_staging_flush_failed | Upload_publish_failed
  | Upload_cancelled | Upload_deadline_exceeded | Upload_resource_failure

type_synonym upload_error = "upload_error_code \<times> path_detail \<times> errno option"

definition upload_copy_buffer_bytes :: nat where "upload_copy_buffer_bytes = 64 * 1024"
definition maximum_upload_stage_attempts :: nat where "maximum_upload_stage_attempts = 100"

definition upload_interruption :: "'w posix \<Rightarrow> io_options \<Rightarrow> 'w \<Rightarrow> 'w \<times> upload_error option" where
  "upload_interruption px opts w =
     (case interruption_of (px_host px) opts w of
        (w1, Interruption_cancelled) \<Rightarrow> (w1, Some (Upload_cancelled, None, None))
      | (w1, Interruption_deadline) \<Rightarrow> (w1, Some (Upload_deadline_exceeded, None, None))
      | (w1, Not_interrupted) \<Rightarrow> (w1, None))"

fun create_stage_loop :: "'w posix \<Rightarrow> fd \<Rightarrow> nat \<Rightarrow> 'w \<Rightarrow> 'w \<times> (upload_error, fd \<times> string) result" where
  "create_stage_loop px parent 0 w = (w, Inl (Upload_staging_failed, None, Some EEXIST))"
| "create_stage_loop px parent (Suc n) w =
     (case temporary_name_suffix px w of
        (w1, name_suffix) \<Rightarrow>
          (let name = upload_stage_prefix @ name_suffix @ ''.tmp'' in
           case px_openat px parent name [O_WRONLY, O_CREAT, O_EXCL, O_CLOEXEC, O_NOFOLLOW] w1 of
             (w2, Inr d) \<Rightarrow> (w2, Inr (d, name))
           | (w2, Inl e) \<Rightarrow>
               (if e \<noteq> EEXIST then (w2, Inl (Upload_staging_failed, None, Some e))
                else create_stage_loop px parent n w2)))"

definition create_stage :: "'w posix \<Rightarrow> fd \<Rightarrow> 'w \<Rightarrow> 'w \<times> (upload_error, fd \<times> string) result" where
  "create_stage px parent w = create_stage_loop px parent maximum_upload_stage_attempts w"

text \<open>The inner loop: everything read goes to the stage, \<open>bytes\<close> being what is left from \<^verbatim>\<open>offset\<close> on.\<close>

partial_function (option) stage_write ::
    "'w posix \<Rightarrow> io_options \<Rightarrow> fd \<Rightarrow> string \<Rightarrow> 'w \<Rightarrow> ('w \<times> (upload_error, unit) result) option" where
  "stage_write px opts stage bytes w =
     (if bytes = [] then Some (w, Inr ())
      else
        (case upload_interruption px opts w of
           (w1, Some e) \<Rightarrow> Some (w1, Inl e)
         | (w1, None) \<Rightarrow>
             (case px_write px stage bytes w1 of
                (w2, Inl e) \<Rightarrow>
                  (if e = EINTR then stage_write px opts stage bytes w2
                   else Some (w2, Inl (Upload_staging_write_failed, None, Some e)))
              | (w2, Inr n) \<Rightarrow>
                  (if n = 0 then Some (w2, Inl (Upload_staging_write_failed, None, None))
                   else stage_write px opts stage (drop n bytes) w2))))"

text \<open>The outer loop; \<open>remaining\<close> is the number of bytes still expected from the source.\<close>

partial_function (option) copy_source ::
    "'w posix \<Rightarrow> io_options \<Rightarrow> fd \<Rightarrow> fd \<Rightarrow> nat \<Rightarrow> 'w \<Rightarrow> ('w \<times> (upload_error, unit) result) option" where
  "copy_source px opts source stage remaining w =
     (if remaining = 0 then Some (w, Inr ())
      else
        (case upload_interruption px opts w of
           (w1, Some e) \<Rightarrow> Some (w1, Inl e)
         | (w1, None) \<Rightarrow>
             (case px_read px source (min remaining upload_copy_buffer_bytes) w1 of
                (w2, Inl e) \<Rightarrow>
                  (if e = EINTR then copy_source px opts source stage remaining w2
                   else Some (w2, Inl (Upload_source_read_failed, None, Some e)))
              | (w2, Inr bytes) \<Rightarrow>
                  (if bytes = [] then Some (w2, Inl (Upload_source_read_failed, None, None))
                   else Option.bind (stage_write px opts stage bytes w2) (\<lambda>(w3, r).
                          case r of
                            Inl e \<Rightarrow> Some (w3, Inl e)
                          | Inr _ \<Rightarrow> copy_source px opts source stage (remaining - length bytes) w3)))))"

definition publish_stage :: "'w posix \<Rightarrow> fd \<Rightarrow> fd \<Rightarrow> string \<Rightarrow> 'w \<Rightarrow> 'w \<times> (upload_error, unit) result" where
  "publish_stage px stage parent name w =
     (case px_linkat px True stage parent name w of
        (w1, Inr _) \<Rightarrow> (w1, Inr ())
      | (w1, Inl e) \<Rightarrow>
          (if e = EEXIST then (w1, Inl (Upload_destination_exists, None, Some e))
           else
             (case px_linkat px False stage parent name w1 of
                (w2, Inr _) \<Rightarrow> (w2, Inr ())
              | (w2, Inl e2) \<Rightarrow>
                  (w2, Inl (if e2 = EEXIST then Upload_destination_exists else Upload_publish_failed,
                            None, Some e2)))))"

text \<open>What happens between the creation of the stage and its removal.\<close>

definition fill_and_publish ::
    "'w posix \<Rightarrow> io_options \<Rightarrow> fd \<Rightarrow> fd \<Rightarrow> fd \<Rightarrow> nat \<Rightarrow> string \<Rightarrow> 'w \<Rightarrow>
     ('w \<times> (upload_error, unit) result) option" where
  "fill_and_publish px opts source stage parent expected name w =
     Option.bind (copy_source px opts source stage expected w) (\<lambda>(w1, r).
       case r of
         Inl e \<Rightarrow> Some (w1, Inl e)
       | Inr _ \<Rightarrow>
           Some (case upload_interruption px opts w1 of
                   (w2, Some e) \<Rightarrow> (w2, Inl e)
                 | (w2, None) \<Rightarrow>
                     (case px_fsync px stage w2 of
                        (w3, Inl e) \<Rightarrow> (w3, Inl (Upload_staging_flush_failed, None, Some e))
                      | (w3, Inr _) \<Rightarrow>
                          (case upload_interruption px opts w3 of
                             (w4, Some e) \<Rightarrow> (w4, Inl e)
                           | (w4, None) \<Rightarrow> publish_stage px stage parent name w4))))"

text \<open>The destructors run in reverse order: the stage is unlinked, then closed, then the source.\<close>

definition stage_and_publish ::
    "'w posix \<Rightarrow> io_options \<Rightarrow> confined_directory \<Rightarrow> fd \<Rightarrow> nat \<Rightarrow> string \<Rightarrow> 'w \<Rightarrow>
     ('w \<times> (upload_error, unit) result) option" where
  "stage_and_publish px opts cd source expected name w =
     (case create_stage px (cd_directory cd) w of
        (w1, Inl (_, _, system_error)) \<Rightarrow> Some (w1, Inl (Upload_staging_failed, None, system_error))
      | (w1, Inr (stage, stage_name)) \<Rightarrow>
          map_option (\<lambda>(w2, r).
              closing px stage (fst (px_unlinkat px (cd_directory cd) stage_name False w2), r))
            (fill_and_publish px opts source stage (cd_directory cd) expected name w1))"

definition publish_opened ::
    "'w posix \<Rightarrow> io_options \<Rightarrow> confined_directory \<Rightarrow> fd \<Rightarrow> nat \<Rightarrow> string \<Rightarrow> 'w \<Rightarrow>
     ('w \<times> (upload_error, unit) result) option" where
  "publish_opened px opts cd file expected name w =
     (case px_fstat px file w of
        (w1, Inl e) \<Rightarrow> Some (w1, Inl (Upload_source_read_failed, None, Some e))
      | (w1, Inr info) \<Rightarrow>
          (if stat_kind info \<noteq> Stat_regular \<or> stat_size info < 0 \<or> nat (stat_size info) \<noteq> expected
           then Some (w1, Inl (Upload_source_read_failed, None, Some (px_errno px w1)))
           else stage_and_publish px opts cd file expected name w1))"

definition publish_confined_upload ::
    "'w posix \<Rightarrow> io_options \<Rightarrow> confined_directory \<Rightarrow> temporary_file \<Rightarrow> string \<Rightarrow> 'w \<Rightarrow>
     ('w \<times> (upload_error, unit) result) option" where
  "publish_confined_upload px opts cd source name w =
     (case px_open px (tf_path source) [O_RDONLY, O_CLOEXEC, O_NOFOLLOW] w of
        (w1, Inl e) \<Rightarrow> Some (w1, Inl (Upload_source_read_failed, None, Some e))
      | (w1, Inr file) \<Rightarrow>
          map_option (closing px file) (publish_opened px opts cd file (tf_size source) name w1))"

section \<open>What the operating system promises\<close>

text \<open>
  What publication relies on, as POSIX documents it, over an abstract disk: the entries of directories,
  the bytes of inodes, and the open descriptors with their directory or their inode and offset. Laws
  are equations on the disk, so they describe the calls of a process that is alone in changing it.
  \<open>path_file\<close> and \<open>path_dir\<close> tell what a path names, given the entries, and \<open>budget\<close> bounds how often
  calls are still interrupted.
\<close>

record ('d, 'i) disk =
  entries :: "('d \<times> string) \<Rightarrow> 'i option"
  contents :: "'i \<Rightarrow> string"
  dir_fds :: "fd \<Rightarrow> 'd option"
  file_fds :: "fd \<Rightarrow> ('i \<times> nat) option"

definition quiet :: "('w \<Rightarrow> ('d, 'i) disk) \<Rightarrow> ('w \<Rightarrow> nat) \<Rightarrow> ('w \<Rightarrow> 'w \<times> 'a) \<Rightarrow> bool" where
  "quiet disk budget call \<longleftrightarrow>
     (\<forall>w. disk (fst (call w)) = disk w \<and> budget (fst (call w)) \<le> budget w)"

definition fresh_inode :: "('d, 'i) disk \<Rightarrow> 'i \<Rightarrow> bool" where
  "fresh_inode D i \<longleftrightarrow> i \<notin> ran (entries D) \<and> i \<notin> fst ` ran (file_fds D)"

definition open_law where
  "open_law disk path_file budget px \<longleftrightarrow>
     (\<forall>path w w' r. px_open px path [O_RDONLY, O_CLOEXEC, O_NOFOLLOW] w = (w', r) \<longrightarrow>
        budget w' \<le> budget w \<and>
        (case r of
           Inl e \<Rightarrow> disk w' = disk w
         | Inr d \<Rightarrow>
             \<exists>i. path_file (entries (disk w)) path = Some i \<and> file_fds (disk w) d = None \<and> dir_fds (disk w) d = None \<and>
               disk w' = (disk w)\<lparr>file_fds := (file_fds (disk w))(d \<mapsto> (i, 0))\<rparr>))"

definition create_law where
  "create_law disk budget px \<longleftrightarrow>
     (\<forall>parent dir name w w' r.
        px_openat px parent name [O_WRONLY, O_CREAT, O_EXCL, O_CLOEXEC, O_NOFOLLOW] w = (w', r) \<longrightarrow>
        dir_fds (disk w) parent = Some dir \<longrightarrow>
        budget w' \<le> budget w \<and>
        (case r of
           Inl e \<Rightarrow> disk w' = disk w
         | Inr d \<Rightarrow>
             \<exists>i. fresh_inode (disk w) i \<and> entries (disk w) (dir, name) = None \<and>
               file_fds (disk w) d = None \<and> dir_fds (disk w) d = None \<and>
               disk w' = (disk w)\<lparr>entries := (entries (disk w))((dir, name) \<mapsto> i),
                 contents := (contents (disk w))(i := []),
                 file_fds := (file_fds (disk w))(d \<mapsto> (i, 0))\<rparr>))"

definition stat_law where
  "stat_law disk budget px \<longleftrightarrow>
     (\<forall>d. quiet disk budget (px_fstat px d)) \<and>
     (\<forall>d w w' info i off. px_fstat px d w = (w', Inr info) \<longrightarrow> file_fds (disk w) d = Some (i, off) \<longrightarrow>
        stat_kind info = Stat_regular \<longrightarrow> stat_size info = int (length (contents (disk w) i)))"

definition read_law where
  "read_law disk budget px \<longleftrightarrow>
     (\<forall>d n w w' r i off. px_read px d n w = (w', r) \<longrightarrow> file_fds (disk w) d = Some (i, off) \<longrightarrow>
        (case r of
           Inl e \<Rightarrow> disk w' = disk w \<and> (if e = EINTR then budget w' < budget w else budget w' \<le> budget w)
         | Inr bytes \<Rightarrow>
             budget w' \<le> budget w \<and> length bytes \<le> n \<and>
             bytes = take (length bytes) (drop off (contents (disk w) i)) \<and>
             disk w' = (disk w)\<lparr>file_fds := (file_fds (disk w))(d \<mapsto> (i, off + length bytes))\<rparr>))"

definition write_law where
  "write_law disk budget px \<longleftrightarrow>
     (\<forall>d bytes w w' r i. px_write px d bytes w = (w', r) \<longrightarrow>
        file_fds (disk w) d = Some (i, length (contents (disk w) i)) \<longrightarrow>
        (case r of
           Inl e \<Rightarrow> disk w' = disk w \<and> (if e = EINTR then budget w' < budget w else budget w' \<le> budget w)
         | Inr n \<Rightarrow>
             budget w' \<le> budget w \<and> n \<le> length bytes \<and>
             disk w' = (disk w)\<lparr>
               contents := (contents (disk w))(i := contents (disk w) i @ take n bytes),
               file_fds := (file_fds (disk w))(d \<mapsto> (i, length (contents (disk w) i) + n))\<rparr>))"

definition link_law where
  "link_law disk budget px \<longleftrightarrow>
     (\<forall>form stage parent name w w' r dir i off. px_linkat px form stage parent name w = (w', r) \<longrightarrow>
        file_fds (disk w) stage = Some (i, off) \<longrightarrow> dir_fds (disk w) parent = Some dir \<longrightarrow>
        budget w' \<le> budget w \<and>
        (case r of
           Inl e \<Rightarrow> disk w' = disk w
         | Inr _ \<Rightarrow>
             entries (disk w) (dir, name) = None \<and>
             disk w' = (disk w)\<lparr>entries := (entries (disk w))((dir, name) \<mapsto> i)\<rparr>))"

definition unlink_law where
  "unlink_law disk budget px \<longleftrightarrow>
     (\<forall>parent name w w' r dir. px_unlinkat px parent name False w = (w', r) \<longrightarrow>
        dir_fds (disk w) parent = Some dir \<longrightarrow>
        budget w' \<le> budget w \<and>
        (case r of
           Inl e \<Rightarrow> disk w' = disk w
         | Inr _ \<Rightarrow> disk w' = (disk w)\<lparr>entries := (entries (disk w))((dir, name) := None)\<rparr>))"

definition close_law where
  "close_law disk budget px \<longleftrightarrow>
     (\<forall>d w. budget (fst (px_close px d w)) \<le> budget w \<and>
        disk (fst (px_close px d w)) =
          (disk w)\<lparr>file_fds := (file_fds (disk w))(d := None), dir_fds := (dir_fds (disk w))(d := None)\<rparr>)"

definition open_directory_law where
  "open_directory_law disk path_dir budget px \<longleftrightarrow>
     (\<forall>path w w' r. px_open px path [O_PATH, O_DIRECTORY, O_CLOEXEC, O_NOFOLLOW] w = (w', r) \<longrightarrow>
        budget w' \<le> budget w \<and>
        (case r of
           Inl e \<Rightarrow> disk w' = disk w
         | Inr d \<Rightarrow>
             \<exists>dir. path_dir (entries (disk w)) path = Some dir \<and>
               file_fds (disk w) d = None \<and> dir_fds (disk w) d = None \<and>
               disk w' = (disk w)\<lparr>dir_fds := (dir_fds (disk w))(d \<mapsto> dir)\<rparr>))"

type_synonym ('d, 'i, 'a) lookup = "(('d \<times> string) \<Rightarrow> 'i option) \<Rightarrow> string list \<Rightarrow> 'a option"

definition posix_laws ::
    "('w \<Rightarrow> ('d, 'i) disk) \<Rightarrow> ('d, 'i, 'i) lookup \<Rightarrow> ('d, 'i, 'd) lookup \<Rightarrow> ('w \<Rightarrow> nat) \<Rightarrow> 'w posix \<Rightarrow> bool" where
  "posix_laws disk path_file path_dir budget px \<longleftrightarrow>
     quiet disk budget (host_now (px_host px)) \<and> quiet disk budget (host_stop (px_host px)) \<and>
     quiet disk budget (px_name_seed px) \<and> (\<forall>d. quiet disk budget (px_fsync px d)) \<and>
     (\<forall>d. quiet disk budget (px_read_link px d)) \<and> open_directory_law disk path_dir budget px \<and>
     open_law disk path_file budget px \<and> create_law disk budget px \<and> stat_law disk budget px \<and>
     read_law disk budget px \<and> write_law disk budget px \<and> link_law disk budget px \<and>
     unlink_law disk budget px \<and> close_law disk budget px"

lemma quietD:
  assumes "quiet disk budget call" "call w = (w', r)"
  shows "disk w' = disk w" "budget w' \<le> budget w"
  using assms by (auto simp: quiet_def dest: spec [of _ w])

section \<open>Copying\<close>

text \<open>The disk \<open>D\<close> while the stage holds \<open>b\<close> and \<open>n\<close> bytes of the source have been read.\<close>

definition staged :: "('d, 'i) disk \<Rightarrow> 'i \<Rightarrow> 'i \<Rightarrow> fd \<Rightarrow> fd \<Rightarrow> string \<Rightarrow> nat \<Rightarrow> ('d, 'i) disk" where
  "staged D i j stage source b n =
     D\<lparr>contents := (contents D)(i := b),
       file_fds := (file_fds D)(stage \<mapsto> (i, length b), source \<mapsto> (j, n))\<rparr>"

lemma upload_interruption_quiet:
  assumes L: "posix_laws disk path_file path_dir budget px" and u: "upload_interruption px opts w = (w', r)"
  shows "disk w' = disk w" "budget w' \<le> budget w"
proof -
  have h: "quiet disk budget (host_now (px_host px))" "quiet disk budget (host_stop (px_host px))"
    using L by (simp_all add: posix_laws_def)
  have "disk w' = disk w \<and> budget w' \<le> budget w"
    using u quietD [OF h(1)] quietD [OF h(2)] le_trans
    by (fastforce simp: upload_interruption_def interruption_of_def
        split: prod.splits interruption_state.splits if_splits)
  then show "disk w' = disk w" "budget w' \<le> budget w" by simp_all
qed

lemma staged_write:
  assumes L: "posix_laws disk path_file path_dir budget px" and ne: "stage \<noteq> source"
    and d: "disk w = staged D i j stage source b n" and w: "px_write px stage bytes w = (w', r)"
  shows "case r of
      Inl e \<Rightarrow> disk w' = disk w \<and> (if e = EINTR then budget w' < budget w else budget w' \<le> budget w)
    | Inr m \<Rightarrow> budget w' \<le> budget w \<and> m \<le> length bytes \<and>
        disk w' = staged D i j stage source (b @ take m bytes) n"
proof -
  have "file_fds (disk w) stage = Some (i, length (contents (disk w) i))"
    using d ne by (simp add: staged_def)
  then have "case r of
      Inl e \<Rightarrow> disk w' = disk w \<and> (if e = EINTR then budget w' < budget w else budget w' \<le> budget w)
    | Inr m \<Rightarrow> budget w' \<le> budget w \<and> m \<le> length bytes \<and> disk w' = (disk w)\<lparr>
          contents := (contents (disk w))(i := contents (disk w) i @ take m bytes),
          file_fds := (file_fds (disk w))(stage \<mapsto> (i, length (contents (disk w) i) + m))\<rparr>"
    using L w unfolding posix_laws_def write_law_def by blast
  with d ne show ?thesis by (cases r) (auto simp: staged_def fun_upd_twist)
qed

lemma staged_read:
  assumes L: "posix_laws disk path_file path_dir budget px" and "i \<noteq> j"
    and d: "disk w = staged D i j stage source b n" and w: "px_read px source capacity w = (w', r)"
  shows "case r of
      Inl e \<Rightarrow> disk w' = disk w \<and> (if e = EINTR then budget w' < budget w else budget w' \<le> budget w)
    | Inr bytes \<Rightarrow> budget w' \<le> budget w \<and> length bytes \<le> capacity \<and>
        bytes = take (length bytes) (drop n (contents D j)) \<and>
        disk w' = staged D i j stage source b (n + length bytes)"
proof -
  have "file_fds (disk w) source = Some (j, n)" using d by (simp add: staged_def)
  then have "case r of
      Inl e \<Rightarrow> disk w' = disk w \<and> (if e = EINTR then budget w' < budget w else budget w' \<le> budget w)
    | Inr bytes \<Rightarrow> budget w' \<le> budget w \<and> length bytes \<le> capacity \<and>
        bytes = take (length bytes) (drop n (contents (disk w) j)) \<and>
        disk w' = (disk w)\<lparr>file_fds := (file_fds (disk w))(source \<mapsto> (j, n + length bytes))\<rparr>"
    using L w unfolding posix_laws_def read_law_def by blast
  moreover have "contents (disk w) j = contents D j" using d assms(2) by (simp add: staged_def)
  ultimately show ?thesis using d by (cases r) (simp_all add: staged_def)
qed

text \<open>Enough interruption budget makes every loop return: the measure is what is left and the budget.\<close>

lemma stage_write_spec:
  assumes L: "posix_laws disk path_file path_dir budget px" and ne: "stage \<noteq> source"
    and "disk w = staged D i j stage source b n"
  shows "\<exists>w' r k. stage_write px opts stage bytes w = Some (w', r) \<and> budget w' \<le> budget w \<and>
    k \<le> length bytes \<and> disk w' = staged D i j stage source (b @ take k bytes) n \<and>
    (r = Inr () \<longrightarrow> k = length bytes)"
  using assms(3)
proof (induction "length bytes + budget w" arbitrary: bytes w b rule: less_induct)
  case less
  obtain w1 s where s: "upload_interruption px opts w = (w1, s)" by (cases "upload_interruption px opts w")
  obtain w2 r where r: "px_write px stage bytes w1 = (w2, r)" by (cases "px_write px stage bytes w1")
  note q = upload_interruption_quiet [OF L s]
  note step = staged_write [OF L ne _ r, of D i j b n]
  note stop = exI [of _ "0 :: nat"]
  consider "bytes = []" | "bytes \<noteq> []" "s \<noteq> None" | (retry) "bytes \<noteq> []" "s = None" "r = Inl EINTR"
    | (failed) e where "bytes \<noteq> []" "s = None" "r = Inl e" "e \<noteq> EINTR"
    | (some) m where "bytes \<noteq> []" "s = None" "r = Inr m" by (cases s; cases r) blast+
  then show ?case
  proof cases
    case retry
    then have "budget w2 < budget w" "disk w2 = staged D i j stage source b n"
      using q step less(2) by auto
    moreover from this less(1) [of bytes w2 b] obtain w' r' k where
      "stage_write px opts stage bytes w2 = Some (w', r')" "budget w' \<le> budget w2" "k \<le> length bytes"
      "disk w' = staged D i j stage source (b @ take k bytes) n" "r' = Inr () \<longrightarrow> k = length bytes"
      by auto
    ultimately show ?thesis
      using retry s r by (subst stage_write.simps) (auto intro!: exI [of _ k])
  next
    case (some m)
    then have d2: "disk w2 = staged D i j stage source (b @ take m bytes) n" "m \<le> length bytes"
      "budget w2 \<le> budget w" using q step less(2) by auto
    show ?thesis
    proof (cases "m = 0")
      case True
      with d2 some s r show ?thesis by (subst stage_write.simps) (auto intro!: stop)
    next
      case False
      then have "length (drop m bytes) + budget w2 < length bytes + budget w" using d2 some(1) by simp
      with less(1) [of "drop m bytes" w2 "b @ take m bytes"] d2 obtain w' r' k where
        "stage_write px opts stage (drop m bytes) w2 = Some (w', r')" "budget w' \<le> budget w2"
        "k \<le> length (drop m bytes)"
        "disk w' = staged D i j stage source ((b @ take m bytes) @ take k (drop m bytes)) n"
        "r' = Inr () \<longrightarrow> k = length (drop m bytes)" by blast
      with d2 False some s r show ?thesis
        by (subst stage_write.simps) (auto simp: take_add intro!: exI [of _ "m + k"])
    qed
  qed (use q s r step less(2) in \<open>subst stage_write.simps; auto intro!: stop\<close>)+
qed

lemma copy_source_spec:
  assumes L: "posix_laws disk path_file path_dir budget px" and ne: "stage \<noteq> source" "i \<noteq> j"
    and "disk w = staged D i j stage source b n" "n + remaining = length (contents D j)"
  shows "\<exists>w' r c n'. copy_source px opts source stage remaining w = Some (w', r) \<and> budget w' \<le> budget w \<and>
    disk w' = staged D i j stage source (b @ c) n' \<and> (r = Inr () \<longrightarrow> c = drop n (contents D j))"
  using assms(4,5)
proof (induction "remaining + budget w" arbitrary: remaining w b n rule: less_induct)
  case less
  let ?cap = "min remaining upload_copy_buffer_bytes"
  obtain w1 s where s: "upload_interruption px opts w = (w1, s)" by (cases "upload_interruption px opts w")
  obtain w2 r where r: "px_read px source ?cap w1 = (w2, r)" by (cases "px_read px source ?cap w1")
  note q = upload_interruption_quiet [OF L s]
  note step = staged_read [OF L ne(2) _ r, of D stage b n]
  note stop = exI [of _ "[] :: string"]
  consider "remaining = 0" | "remaining > 0" "s \<noteq> None" | (retry) "remaining > 0" "s = None" "r = Inl EINTR"
    | (failed) e where "remaining > 0" "s = None" "r = Inl e" "e \<noteq> EINTR"
    | "remaining > 0" "s = None" "r = Inr []"
    | (some) bytes where "remaining > 0" "s = None" "r = Inr bytes" "bytes \<noteq> []"
    by (cases s; cases r) blast+
  then show ?case
  proof cases
    case retry
    then have "budget w2 < budget w" "disk w2 = staged D i j stage source b n"
      using q step less(2) by auto
    moreover from this less(1) [of remaining w2 b n] less(3) obtain w' r' c n' where
      "copy_source px opts source stage remaining w2 = Some (w', r')" "budget w' \<le> budget w2"
      "disk w' = staged D i j stage source (b @ c) n'" "r' = Inr () \<longrightarrow> c = drop n (contents D j)"
      by auto
    ultimately show ?thesis
      using retry s r by (subst copy_source.simps) (auto intro!: exI [of _ c])
  next
    case (some bytes)
    then have d2: "disk w2 = staged D i j stage source b (n + length bytes)" "length bytes \<le> remaining"
      "budget w2 \<le> budget w" "bytes = take (length bytes) (drop n (contents D j))"
      using q step less(2) by auto
    from stage_write_spec [OF L ne(1) d2(1), of opts bytes] obtain w3 r3 k where
      w3: "stage_write px opts stage bytes w2 = Some (w3, r3)" "budget w3 \<le> budget w2"
        "disk w3 = staged D i j stage source (b @ take k bytes) (n + length bytes)"
        "r3 = Inr () \<longrightarrow> k = length bytes" by blast
    show ?thesis
    proof (cases r3)
      case (Inl e)
      with w3 d2 some s r show ?thesis
        by (subst copy_source.simps) (auto intro!: exI [of _ "take k bytes"])
    next
      case (Inr u)
      then have "disk w3 = staged D i j stage source (b @ bytes) (n + length bytes)" using w3 by simp
      moreover have "remaining - length bytes + budget w3 < remaining + budget w"
        using d2 w3 some by (cases bytes) auto
      moreover have "n + length bytes + (remaining - length bytes) = length (contents D j)"
        using less(3) d2(2) by simp
      ultimately obtain w' r' c n' where
        c: "copy_source px opts source stage (remaining - length bytes) w3 = Some (w', r')"
          "budget w' \<le> budget w3" "disk w' = staged D i j stage source ((b @ bytes) @ c) n'"
          "r' = Inr () \<longrightarrow> c = drop (n + length bytes) (contents D j)"
        using less(1) by blast
      have "drop n (contents D j) = bytes @ drop (n + length bytes) (contents D j)"
        using d2(4) by (metis append_take_drop_id drop_drop add.commute)
      with c d2 w3 some s r Inr show ?thesis
        by (subst copy_source.simps) (auto intro!: exI [of _ "bytes @ c"])
    qed
  qed (use q s r step less(2,3) in \<open>subst copy_source.simps; auto intro!: stop exI [of _ n]\<close>)+
qed

section \<open>Publishing\<close>

text \<open>The entries a client can reach: safe paths never name a staging sibling.\<close>

definition visible :: "('d, 'i) disk \<Rightarrow> ('d \<times> string) \<Rightarrow> 'i option" where
  "visible D = (\<lambda>e. if is_upload_stage_component (snd e) then None else entries D e)"

definition link_entry :: "('d \<times> string) \<Rightarrow> 'i \<Rightarrow> ('d, 'i) disk \<Rightarrow> ('d, 'i) disk" where
  "link_entry e i D = D\<lparr>entries := (entries D)(e \<mapsto> i)\<rparr>"

lemma publish_stage_spec:
  assumes L: "posix_laws disk path_file path_dir budget px"
    and "file_fds (disk w) stage = Some (i, off)" "dir_fds (disk w) parent = Some dir"
    and p: "publish_stage px stage parent name w = (w', r)"
  shows "budget w' \<le> budget w \<and>
    (case r of Inl e \<Rightarrow> disk w' = disk w
     | Inr _ \<Rightarrow> entries (disk w) (dir, name) = None \<and> disk w' = link_entry (dir, name) i (disk w))"
proof -
  have law: "budget w2 \<le> budget w1 \<and>
      (case r of Inl e \<Rightarrow> disk w2 = disk w1
       | Inr _ \<Rightarrow> entries (disk w1) (dir, name) = None \<and> disk w2 = link_entry (dir, name) i (disk w1))"
    if "px_linkat px form stage parent name w1 = (w2, r)" "disk w1 = disk w" for form w1 w2 r
  proof -
    have "file_fds (disk w1) stage = Some (i, off)" "dir_fds (disk w1) parent = Some dir"
      using assms(2,3) that(2) by simp_all
    with L that(1) show ?thesis unfolding posix_laws_def link_law_def link_entry_def by blast
  qed
  obtain w1 r1 where 1: "px_linkat px True stage parent name w = (w1, r1)"
    by (cases "px_linkat px True stage parent name w")
  obtain w2 r2 where 2: "px_linkat px False stage parent name w1 = (w2, r2)"
    by (cases "px_linkat px False stage parent name w1")
  from law [OF 1] law [OF 2] show ?thesis
    using p 1 2 by (cases r1; cases r2) (auto simp: publish_stage_def split: if_splits)
qed

lemma fill_and_publish_spec:
  assumes L: "posix_laws disk path_file path_dir budget px" and ne: "stage \<noteq> source" "i \<noteq> j"
    and d: "disk w = staged D i j stage source [] 0" and "dir_fds D parent = Some dir"
  shows "\<exists>w' r b n. fill_and_publish px opts source stage parent (length (contents D j)) name w = Some (w', r) \<and>
    budget w' \<le> budget w \<and>
    (case r of Inl e \<Rightarrow> disk w' = staged D i j stage source b n
     | Inr _ \<Rightarrow> entries D (dir, name) = None \<and>
         disk w' = link_entry (dir, name) i (staged D i j stage source (contents D j) n))"
proof -
  from copy_source_spec [OF L ne d] obtain w1 r1 c n where
    c: "copy_source px opts source stage (length (contents D j)) w = Some (w1, r1)" "budget w1 \<le> budget w"
      "disk w1 = staged D i j stage source c n" "r1 = Inr () \<longrightarrow> c = contents D j" by fastforce
  obtain w2 s2 where s2: "upload_interruption px opts w1 = (w2, s2)" by (cases "upload_interruption px opts w1")
  obtain w3 f where f: "px_fsync px stage w2 = (w3, f)" by (cases "px_fsync px stage w2")
  obtain w4 s4 where s4: "upload_interruption px opts w3 = (w4, s4)" by (cases "upload_interruption px opts w3")
  obtain w5 r5 where p: "publish_stage px stage parent name w4 = (w5, r5)"
    by (cases "publish_stage px stage parent name w4")
  have "quiet disk budget (px_fsync px stage)" using L by (simp add: posix_laws_def)
  note q = upload_interruption_quiet [OF L s2] upload_interruption_quiet [OF L s4] quietD [OF this f]
  then have d4: "disk w2 = disk w1" "disk w3 = disk w1" "disk w4 = disk w1"
    "budget w2 \<le> budget w" "budget w3 \<le> budget w" "budget w4 \<le> budget w" using c by auto
  have "file_fds (disk w4) stage = Some (i, length c)" "dir_fds (disk w4) parent = Some dir"
    using c d4 ne assms(5) by (simp_all add: staged_def)
  note pub = publish_stage_spec [OF L this p]
  let ?fill = "fill_and_publish px opts source stage parent (length (contents D j)) name w"
  consider (failed) w' e where "?fill = Some (w', Inl e)" "disk w' = disk w1" "budget w' \<le> budget w"
    | (published) "r1 = Inr ()" "?fill = Some (w5, r5)"
    using c(1,2) s2 f s4 p d4 unfolding fill_and_publish_def
    by (cases r1; cases s2; cases f; cases s4) simp_all
  then show ?thesis
  proof cases
    case failed
    then show ?thesis using c(3) by auto
  next
    case published
    then have "c = contents D j" "budget w5 \<le> budget w" using c(4) pub d4 by auto
    with published(2) pub c(3) d4 show ?thesis by (cases r5) (auto simp: staged_def)
  qed
qed

lemma create_stage_spec:
  assumes L: "posix_laws disk path_file path_dir budget px" and "dir_fds (disk w) parent = Some dir"
    and "create_stage_loop px parent n w = (w', r)"
  shows "budget w' \<le> budget w \<and>
    (case r of
       Inl e \<Rightarrow> disk w' = disk w
     | Inr (d, name) \<Rightarrow> is_upload_stage_component name \<and>
         (\<exists>i. fresh_inode (disk w) i \<and> entries (disk w) (dir, name) = None \<and>
           file_fds (disk w) d = None \<and> dir_fds (disk w) d = None \<and>
           disk w' = (disk w)\<lparr>entries := (entries (disk w))((dir, name) \<mapsto> i),
             contents := (contents (disk w))(i := []),
             file_fds := (file_fds (disk w))(d \<mapsto> (i, 0))\<rparr>))"
  using assms(2,3)
proof (induction n arbitrary: w)
  case (Suc n)
  obtain w1 x where x: "temporary_name_suffix px w = (w1, x)" by (cases "temporary_name_suffix px w")
  let ?name = "upload_stage_prefix @ x @ ''.tmp''"
  obtain w2 r2 where o: "px_openat px parent ?name [O_WRONLY, O_CREAT, O_EXCL, O_CLOEXEC, O_NOFOLLOW] w1 = (w2, r2)"
    by (cases "px_openat px parent ?name [O_WRONLY, O_CREAT, O_EXCL, O_CLOEXEC, O_NOFOLLOW] w1")
  have "quiet disk budget (px_name_seed px)" using L by (simp add: posix_laws_def)
  then have q: "disk w1 = disk w" "budget w1 \<le> budget w"
    using x by (auto simp: temporary_name_suffix_def quiet_def split: prod.splits dest: spec [of _ w])
  have "dir_fds (disk w1) parent = Some dir" using q Suc(2) by simp
  with L o have law: "budget w2 \<le> budget w1 \<and>
     (case r2 of
        Inl e \<Rightarrow> disk w2 = disk w1
      | Inr d \<Rightarrow> \<exists>i. fresh_inode (disk w1) i \<and> entries (disk w1) (dir, ?name) = None \<and>
          file_fds (disk w1) d = None \<and> dir_fds (disk w1) d = None \<and>
          disk w2 = (disk w1)\<lparr>entries := (entries (disk w1))((dir, ?name) \<mapsto> i),
            contents := (contents (disk w1))(i := []), file_fds := (file_fds (disk w1))(d \<mapsto> (i, 0))\<rparr>)"
    unfolding posix_laws_def create_law_def by blast
  show ?case
  proof (cases "r2 = Inl EEXIST")
    case True
    then have "create_stage_loop px parent n w2 = (w', r)" using Suc(3) x o by simp
    with Suc(1) [of w2] law q Suc(2) True show ?thesis by (auto split: sum.splits prod.splits)
  next
    case False
    then show ?thesis using Suc(3) law q x o
      by (cases r2) (auto simp: is_upload_stage_component_def)
  qed
qed auto

text \<open>
  What is left of the disk \<open>D\<close> when publication ends with the result \<open>r\<close>: entries that were visible
  stay, nothing that existed changes its bytes, and on success exactly the destination is new.
\<close>

definition published ::
    "('d, 'i) disk \<Rightarrow> ('d \<times> string) \<Rightarrow> string \<Rightarrow> (upload_error, unit) result \<Rightarrow> ('d, 'i) disk \<Rightarrow> bool" where
  "published D e bytes r D' \<longleftrightarrow>
     (\<forall>k. \<not> fresh_inode D k \<longrightarrow> contents D' k = contents D k) \<and>
     (case r of
        Inl _ \<Rightarrow> visible D' = visible D
      | Inr _ \<Rightarrow> visible D e = None \<and>
          (\<exists>i. fresh_inode D i \<and> contents D' i = bytes \<and> visible D' = (visible D)(e \<mapsto> i)))"

lemma stage_cleanup_spec:
  assumes L: "posix_laws disk path_file path_dir budget px"
    and "dir_fds (disk w) parent = Some dir" "is_upload_stage_component stage_name"
    and "(w', r') = closing px stage (fst (px_unlinkat px parent stage_name False w), r)"
  shows "r' = r" "visible (disk w') = visible (disk w)" "contents (disk w') = contents (disk w)"
    "file_fds (disk w') = (file_fds (disk w))(stage := None)"
    "dir_fds (disk w') = (dir_fds (disk w))(stage := None)"
proof -
  obtain w1 r1 where u: "px_unlinkat px parent stage_name False w = (w1, r1)"
    by (cases "px_unlinkat px parent stage_name False w")
  have unlinked: "case r1 of Inl e \<Rightarrow> disk w1 = disk w
      | Inr _ \<Rightarrow> disk w1 = (disk w)\<lparr>entries := (entries (disk w))((dir, stage_name) := None)\<rparr>"
    using L u assms(2) unfolding posix_laws_def unlink_law_def by blast
  have closed: "disk (fst (px_close px stage w1)) = (disk w1)\<lparr>
      file_fds := (file_fds (disk w1))(stage := None), dir_fds := (dir_fds (disk w1))(stage := None)\<rparr>"
    using L unfolding posix_laws_def close_law_def by blast
  have w': "r' = r" "w' = fst (px_close px stage w1)" using assms(4) u by (simp_all add: closing_def)
  show "r' = r" by (rule w')
  show "visible (disk w') = visible (disk w)" "contents (disk w') = contents (disk w)"
    "file_fds (disk w') = (file_fds (disk w))(stage := None)"
    "dir_fds (disk w') = (dir_fds (disk w))(stage := None)"
    using unlinked closed w'(2) assms(3) by (cases r1; auto simp: visible_def fun_eq_iff)+
qed

lemma stage_and_publish_spec:
  assumes L: "posix_laws disk path_file path_dir budget px" and dir: "dir_fds (disk w) (cd_directory cd) = Some dir"
    and src: "file_fds (disk w) source = Some (j, 0)"
    and name: "\<not> is_upload_stage_component name"
  shows "\<exists>w' r n. stage_and_publish px opts cd source (length (contents (disk w) j)) name w = Some (w', r) \<and>
    published (disk w) (dir, name) (contents (disk w) j) r (disk w') \<and>
    dir_fds (disk w') = dir_fds (disk w) \<and> file_fds (disk w') = (file_fds (disk w))(source \<mapsto> (j, n))"
proof -
  obtain w1 c where c: "create_stage px (cd_directory cd) w = (w1, c)"
    by (cases "create_stage px (cd_directory cd) w")
  note spec = create_stage_spec [OF L dir c [unfolded create_stage_def]]
  show ?thesis
  proof (cases c)
    case (Inl e)
    with c spec src show ?thesis
      by (cases e) (auto simp: stage_and_publish_def published_def fun_upd_idem intro!: exI [of _ 0])
  next
    case (Inr x)
    obtain stage sname where x: "x = (stage, sname)" by (cases x)
    from spec Inr x obtain i where i: "is_upload_stage_component sname" "fresh_inode (disk w) i"
      "file_fds (disk w) stage = None" "dir_fds (disk w) stage = None"
      and d1: "disk w1 = (disk w)\<lparr>entries := (entries (disk w))((dir, sname) \<mapsto> i),
        contents := (contents (disk w))(i := []), file_fds := (file_fds (disk w))(stage \<mapsto> (i, 0))\<rparr>" by auto
    have ne: "stage \<noteq> source" "i \<noteq> j"
      using i src by (auto simp: fresh_inode_def ran_def image_iff)
    have staged: "disk w1 = staged (disk w1) i j stage source [] 0"
      using d1 src ne by (auto simp: staged_def fun_upd_idem)
    have dir1: "dir_fds (disk w1) (cd_directory cd) = Some dir" using d1 dir by simp
    have len: "contents (disk w1) j = contents (disk w) j" using d1 ne by simp
    from fill_and_publish_spec [OF L ne staged dir1] obtain w2 r b n where
      f: "fill_and_publish px opts source stage (cd_directory cd) (length (contents (disk w) j)) name w1 =
          Some (w2, r)"
        "case r of Inl e \<Rightarrow> disk w2 = staged (disk w1) i j stage source b n
         | Inr _ \<Rightarrow> entries (disk w1) (dir, name) = None \<and>
             disk w2 = link_entry (dir, name) i (staged (disk w1) i j stage source (contents (disk w) j) n)"
      unfolding len by blast
    obtain w' r' where w': "(w', r') = closing px stage (fst (px_unlinkat px (cd_directory cd) sname False w2), r)"
      by (metis surj_pair)
    have "dir_fds (disk w2) (cd_directory cd) = Some dir"
      using f(2) dir1 by (cases r) (auto simp: staged_def link_entry_def)
    note clean = stage_cleanup_spec [OF L this i(1) w']
    have run: "stage_and_publish px opts cd source (length (contents (disk w) j)) name w = Some (w', r)"
      using c Inr x f(1) w' clean(1) by (simp add: stage_and_publish_def)
    have fds: "dir_fds (disk w') = dir_fds (disk w)" "file_fds (disk w') = (file_fds (disk w))(source \<mapsto> (j, n))"
      using clean(4,5) f(2) d1 i(3,4) ne
      by (cases r; auto simp: staged_def link_entry_def fun_eq_iff)+
    have "name \<noteq> sname" using i(1) name by auto
    then have "published (disk w) (dir, name) (contents (disk w) j) r (disk w')"
      using clean(2,3) f(2) d1 i(1,2) name ne
      by (cases r) (auto simp: published_def visible_def staged_def link_entry_def fun_eq_iff)
    with run fds show ?thesis by blast
  qed
qed

lemma publish_opened_spec:
  assumes L: "posix_laws disk path_file path_dir budget px" and dir: "dir_fds (disk w) (cd_directory cd) = Some dir"
    and opened: "file_fds (disk w) d = Some (i, 0)"
    and name: "\<not> is_upload_stage_component name"
  shows "\<exists>w' r n. publish_opened px opts cd d expected name w = Some (w', r) \<and>
    published (disk w) (dir, name) (contents (disk w) i) r (disk w') \<and>
    (r = Inr () \<longrightarrow> length (contents (disk w) i) = expected) \<and>
    dir_fds (disk w') = dir_fds (disk w) \<and> file_fds (disk w') = (file_fds (disk w))(d \<mapsto> (i, n))"
proof -
  obtain w1 r1 where st: "px_fstat px d w = (w1, r1)" by (cases "px_fstat px d w")
  have d1: "disk w1 = disk w" using L st quietD unfolding posix_laws_def stat_law_def by metis
  show ?thesis
  proof (cases "\<exists>info. r1 = Inr info \<and> stat_kind info = Stat_regular \<and> 0 \<le> stat_size info \<and>
      nat (stat_size info) = expected")
    case True
    then obtain info where info: "r1 = Inr info" "stat_kind info = Stat_regular" "0 \<le> stat_size info"
      "nat (stat_size info) = expected" by blast
    have "stat_size info = int (length (contents (disk w) i))"
      using L st info(1,2) opened unfolding posix_laws_def stat_law_def by fastforce
    then have "expected = length (contents (disk w1) i)" using info d1 by simp
    with stage_and_publish_spec [OF L, of w1 cd dir d i name opts] info st d1 dir opened name show ?thesis
      unfolding publish_opened_def by auto
  next
    case False
    then have "\<exists>e. publish_opened px opts cd d expected name w = Some (w1, Inl e)"
      using st unfolding publish_opened_def by (cases r1) (auto simp: not_less)
    with opened d1 show ?thesis by (auto simp: published_def fun_upd_idem intro!: exI [of _ 0])
  qed
qed

lemma visible_fds [simp]:
  "visible (D\<lparr>file_fds := F\<rparr>) = visible D" "visible (D\<lparr>file_fds := F, dir_fds := G\<rparr>) = visible D"
  by (auto simp: visible_def fun_eq_iff)

lemma fresh_inode_opened:
  "fresh_inode (D\<lparr>file_fds := (file_fds D)(d \<mapsto> x)\<rparr>) k \<Longrightarrow> file_fds D d = None \<Longrightarrow> fresh_inode D k"
  by (auto simp: fresh_inode_def)

lemma published_opened:
  assumes "published (D\<lparr>file_fds := (file_fds D)(d \<mapsto> x)\<rparr>) e bytes r D'" "file_fds D d = None"
  shows "published D e bytes r D'"
  using assms fresh_inode_opened [of D d x] unfolding published_def by (cases r) fastforce+

lemma published_closed [simp]:
  "published D e bytes r (D'\<lparr>file_fds := F, dir_fds := G\<rparr>) = published D e bytes r D'"
  by (cases r) (simp_all add: published_def)

lemma publish_confined_upload_spec:
  assumes L: "posix_laws disk path_file path_dir budget px" and dir: "dir_fds (disk w) (cd_directory cd) = Some dir"
    and name: "\<not> is_upload_stage_component name"
  shows "\<exists>w' r bytes. publish_confined_upload px opts cd source name w = Some (w', r) \<and>
    published (disk w) (dir, name) bytes r (disk w') \<and>
    (r = Inr () \<longrightarrow> length bytes = tf_size source \<and>
       (\<exists>i. path_file (entries (disk w)) (tf_path source) = Some i \<and> contents (disk w) i = bytes)) \<and>
    dir_fds (disk w') = dir_fds (disk w) \<and> file_fds (disk w') = file_fds (disk w)"
proof -
  obtain w1 r1 where o: "px_open px (tf_path source) [O_RDONLY, O_CLOEXEC, O_NOFOLLOW] w = (w1, r1)"
    by (cases "px_open px (tf_path source) [O_RDONLY, O_CLOEXEC, O_NOFOLLOW] w")
  have law: "case r1 of Inl e \<Rightarrow> disk w1 = disk w
      | Inr d \<Rightarrow> \<exists>i. path_file (entries (disk w)) (tf_path source) = Some i \<and> file_fds (disk w) d = None \<and>
          dir_fds (disk w) d = None \<and> disk w1 = (disk w)\<lparr>file_fds := (file_fds (disk w))(d \<mapsto> (i, 0))\<rparr>"
    using L o unfolding posix_laws_def open_law_def by blast
  show ?thesis
  proof (cases r1)
    case (Inl e)
    with o law show ?thesis by (auto simp: publish_confined_upload_def published_def)
  next
    case (Inr d)
    with law obtain i where i: "path_file (entries (disk w)) (tf_path source) = Some i" "file_fds (disk w) d = None"
      "dir_fds (disk w) d = None" "disk w1 = (disk w)\<lparr>file_fds := (file_fds (disk w))(d \<mapsto> (i, 0))\<rparr>" by auto
    have "dir_fds (disk w1) (cd_directory cd) = Some dir" "file_fds (disk w1) d = Some (i, 0)"
      using i(4) dir by simp_all
    from publish_opened_spec [OF L this name, of opts "tf_size source"] obtain w2 r n where
      p: "publish_opened px opts cd d (tf_size source) name w1 = Some (w2, r)"
        "published (disk w1) (dir, name) (contents (disk w1) i) r (disk w2)"
        "r = Inr () \<longrightarrow> length (contents (disk w1) i) = tf_size source"
        "dir_fds (disk w2) = dir_fds (disk w1)" "file_fds (disk w2) = (file_fds (disk w1))(d \<mapsto> (i, n))"
      by blast
    have "disk (fst (px_close px d w2)) = (disk w2)\<lparr>
        file_fds := (file_fds (disk w2))(d := None), dir_fds := (dir_fds (disk w2))(d := None)\<rparr>"
      using L unfolding posix_laws_def close_law_def by blast
    moreover have "published (disk w) (dir, name) (contents (disk w) i) r (disk w2)"
      using p(2) i by (auto intro: published_opened)
    moreover have "publish_confined_upload px opts cd source name w = Some (fst (px_close px d w2), r)"
      using o Inr p(1) by (simp add: publish_confined_upload_def closing_def)
    ultimately show ?thesis using i p(3-5)
      by (intro exI [of _ "fst (px_close px d w2)"] exI [of _ r] exI [of _ "contents (disk w) i"])
        (auto simp: fun_upd_idem)
  qed
qed

end
