(* ===== verification/Json_Codec.thy ===== *)
theory Json_Codec
  imports Utf8 Http_Response
begin

text \<open>
  The two JSON codecs of the program: the writer of \<^verbatim>\<open>src/http/api/filesystem/json_writer.cpp\<close>, which
  serializes directory listings and error identifiers, and the reader of login bodies, the class
  \<^verbatim>\<open>LoginJsonParser\<close> of \<^verbatim>\<open>src/authentication/api/authentication_api.cpp\<close>. The reader's position only
  moves forward, so its state is the input that remains. The secure erasure of the parser's buffers
  is not modelled.
\<close>

section \<open>The writer\<close>

abbreviation quote :: char where "quote \<equiv> CHR 0x22"
abbreviation backslash :: char where "backslash \<equiv> CHR 0x5C"

definition json_hexadecimal :: string where
  "json_hexadecimal = ''0123456789ABCDEF''"

definition json_escape :: "char \<Rightarrow> string" where
  "json_escape byte =
     (if byte = quote then [backslash, quote]
      else if byte = backslash then [backslash, backslash]
      else if byte = CHR 0x08 then [backslash, CHR ''b'']
      else if byte = CHR 0x0C then [backslash, CHR ''f'']
      else if byte = CHR 0x0A then [backslash, CHR ''n'']
      else if byte = CHR 0x0D then [backslash, CHR ''r'']
      else if byte = CHR 0x09 then [backslash, CHR ''t'']
      else if byte < CHR 0x20 then
        [backslash, CHR ''u'', CHR ''0'', CHR ''0'', json_hexadecimal ! (of_char byte div 16),
         json_hexadecimal ! (of_char byte mod 16)]
      else [byte])"

definition append_json_string :: "string \<Rightarrow> string \<Rightarrow> string" where
  "append_json_string output v = output @ [quote] @ concat (map json_escape v) @ [quote]"

datatype entry_type = Regular_file_entry | Directory_entry | Symbolic_link_entry | Other_entry

record listing_entry =
  listed_name :: string
  listed_type :: entry_type
  listed_size :: "nat option"
  listed_modification_time :: int

definition entry_type_name :: "entry_type \<Rightarrow> string" where
  "entry_type_name t =
     (case t of
        Regular_file_entry \<Rightarrow> ''file''
      | Directory_entry \<Rightarrow> ''directory''
      | Symbolic_link_entry \<Rightarrow> ''symlink''
      | Other_entry \<Rightarrow> ''other'')"

text \<open>A number written to a stream with fill character 0 and a minimal width.\<close>

definition stream_number :: "nat \<Rightarrow> int \<Rightarrow> string" where
  "stream_number width v =
     (let digits = (if v < 0 then CHR ''-'' # print_base 10 (nat (- v)) else print_base 10 (nat v)) in
      replicate (width - length digits) CHR ''0'' @ digits)"

definition format_timestamp :: "int \<Rightarrow> string" where
  "format_timestamp v =
     (let day_point = v div 86400; time = v - day_point * 86400 in
      case civil_from_days day_point of
        (year, month, day) \<Rightarrow>
          stream_number 4 year @ ''-'' @ stream_number 2 month @ ''-'' @ stream_number 2 day @ ''T'' @
          stream_number 2 (time div 3600) @ '':'' @ stream_number 2 (time mod 3600 div 60) @ '':'' @
          stream_number 2 (time mod 60) @ ''Z'')"

definition append_entry :: "string \<Rightarrow> listing_entry \<Rightarrow> string" where
  "append_entry output e =
     append_json_string
       (append_json_string
          (append_json_string (output @ ''{'' @ [quote] @ ''name'' @ [quote] @ '':'') (listed_name e) @
           '','' @ [quote] @ ''type'' @ [quote] @ '':'') (entry_type_name (listed_type e)) @
        '','' @ [quote] @ ''size'' @ [quote] @ '':'' @
        (case listed_size e of Some n \<Rightarrow> print_base 10 n | None \<Rightarrow> ''null'') @
        '','' @ [quote] @ ''modifiedAt'' @ [quote] @ '':'')
       (format_timestamp (listed_modification_time e)) @ ''}''"

fun append_entries :: "string \<Rightarrow> bool \<Rightarrow> listing_entry list \<Rightarrow> string" where
  "append_entries output first [] = output"
| "append_entries output first (e # es) =
     append_entries (append_entry (if \<not> first then output @ '','' else output) e) False es"

definition serialize_listing :: "listing_entry list \<Rightarrow> string" where
  "serialize_listing es =
     append_entries (''{'' @ [quote] @ ''entries'' @ [quote] @ '':['') True es @ '']}''"

section \<open>The login reader\<close>

definition maximum_owner_login_bytes :: nat where "maximum_owner_login_bytes = 128"
definition maximum_password_bytes :: nat where "maximum_password_bytes = 4096"

definition json_consume :: "char \<Rightarrow> string \<Rightarrow> string \<times> bool" where
  "json_consume expected rest =
     (if rest = [] \<or> hd rest \<noteq> expected then (rest, False) else (tl rest, True))"

definition json_skip_whitespace :: "string \<Rightarrow> string" where
  "json_skip_whitespace rest = dropWhile (\<lambda>c. c \<in> {CHR '' '', CHR 0x09, CHR 0x0D, CHR 0x0A}) rest"

fun hex_quad_loop :: "nat \<Rightarrow> u32 \<Rightarrow> string \<Rightarrow> (u32 \<times> string) option" where
  "hex_quad_loop 0 code_point rest = Some (code_point, rest)"
| "hex_quad_loop (Suc n) code_point rest =
     (case rest of
        [] \<Rightarrow> None
      | c # rest' \<Rightarrow>
          (case hex_digit_value c of
             None \<Rightarrow> None
           | Some digit \<Rightarrow> hex_quad_loop n (push_bit 4 code_point OR of_nat digit) rest'))"

definition parse_hex_quad :: "string \<Rightarrow> (u32 \<times> string) option" where
  "parse_hex_quad rest = (if length rest < 4 then None else hex_quad_loop 4 0 rest)"

definition parse_unicode_escape :: "string \<Rightarrow> (u32 \<times> string) option" where
  "parse_unicode_escape rest =
     (case parse_hex_quad rest of
        None \<Rightarrow> None
      | Some (code_point, rest1) \<Rightarrow>
          (if 0xD800 \<le> code_point \<and> code_point \<le> 0xDBFF then
             (case json_consume backslash rest1 of
                (_, False) \<Rightarrow> None
              | (rest2, True) \<Rightarrow>
                  (case json_consume CHR ''u'' rest2 of
                     (_, False) \<Rightarrow> None
                   | (rest3, True) \<Rightarrow>
                       (case parse_hex_quad rest3 of
                          None \<Rightarrow> None
                        | Some (low, rest4) \<Rightarrow>
                            (if low < 0xDC00 \<or> low > 0xDFFF then None
                             else Some (0x10000 + push_bit 10 (code_point - 0xD800) + (low - 0xDC00),
                                        rest4)))))
           else if 0xDC00 \<le> code_point \<and> code_point \<le> 0xDFFF then None
           else Some (code_point, rest1)))"

definition simple_escapes :: "(char \<times> char) list" where
  "simple_escapes =
     [(quote, quote), (backslash, backslash), (CHR ''/'', CHR ''/''), (CHR ''b'', CHR 0x08),
      (CHR ''f'', CHR 0x0C), (CHR ''n'', CHR 0x0A), (CHR ''r'', CHR 0x0D), (CHR ''t'', CHR 0x09)]"

text \<open>The output and the remaining input after an escape, \<open>None\<close> when it is rejected.\<close>

definition append_escape :: "string \<Rightarrow> string \<Rightarrow> (string \<times> string) option" where
  "append_escape output rest =
     (case rest of
        [] \<Rightarrow> None
      | escaped # rest1 \<Rightarrow>
          (case map_of simple_escapes escaped of
             Some c \<Rightarrow> Some (output @ [c], rest1)
           | None \<Rightarrow>
               (if escaped \<noteq> CHR ''u'' then None
                else (case parse_unicode_escape rest1 of
                        None \<Rightarrow> None
                      | Some (code_point, rest2) \<Rightarrow>
                          (case append_code_point output code_point of
                             (True, output1) \<Rightarrow> Some (output1, rest2)
                           | (False, _) \<Rightarrow> None)))))"

lemma hex_quad_loop_rest: "hex_quad_loop n cp rest = Some (v, rest') \<Longrightarrow> length rest = n + length rest'"
  by (induction n arbitrary: cp rest) (auto split: list.splits option.splits)

lemma json_consume_rest: "json_consume c rest = (rest', True) \<longleftrightarrow> rest = c # rest'"
  by (cases rest) (auto simp: json_consume_def)

lemma parse_unicode_escape_rest:
  assumes "parse_unicode_escape rest = Some (v, rest')" shows "length rest' < length rest"
proof -
  have quad: "length s = 4 + length s'" if "parse_hex_quad s = Some (x, s')" for s x s'
    using that hex_quad_loop_rest [of 4 0 s x s'] by (auto simp: parse_hex_quad_def split: if_splits)
  show ?thesis
    using assms
    by (auto simp: parse_unicode_escape_def json_consume_rest split: option.splits if_splits
        prod.splits bool.splits dest!: quad)
qed

lemma append_escape_rest:
  "append_escape output rest = Some (output', rest') \<Longrightarrow> length rest' < length rest"
  by (auto simp: append_escape_def split: list.splits option.splits if_splits prod.splits bool.splits
      dest: parse_unicode_escape_rest)

function json_string_loop :: "string \<Rightarrow> string \<Rightarrow> (string \<times> string) option" where
  "json_string_loop output rest =
     (case rest of
        [] \<Rightarrow> None
      | byte # rest1 \<Rightarrow>
          (if byte = quote then Some (output, rest1)
           else if byte < CHR 0x20 then None
           else if byte \<noteq> backslash then json_string_loop (output @ [byte]) rest1
           else (case append_escape output rest1 of
                   None \<Rightarrow> None
                 | Some (output1, rest2) \<Rightarrow> json_string_loop output1 rest2)))"
  by pat_completeness auto
termination
  by (relation "measure (\<lambda>(output, rest). length rest)") (auto dest: append_escape_rest)

declare json_string_loop.simps [simp del]

definition json_parse_string :: "string \<Rightarrow> (string \<times> string) option" where
  "json_parse_string rest =
     (case json_consume quote rest of
        (_, False) \<Rightarrow> None
      | (rest1, True) \<Rightarrow> json_string_loop [] rest1)"

record login_members =
  member_login :: "string option"
  member_password :: "string option"

definition json_parse_member :: "login_members \<Rightarrow> string \<Rightarrow> (login_members \<times> string) option" where
  "json_parse_member ms rest =
     (case json_parse_string rest of
        None \<Rightarrow> None
      | Some (name, rest1) \<Rightarrow>
          (case json_consume CHR '':'' (json_skip_whitespace rest1) of
             (_, False) \<Rightarrow> None
           | (rest2, True) \<Rightarrow>
               (case json_parse_string (json_skip_whitespace rest2) of
                  None \<Rightarrow> None
                | Some (v, rest3) \<Rightarrow>
                    (if v = [] then None
                     else if name = ''login'' \<and> member_login ms = None \<and>
                             length v \<le> maximum_owner_login_bytes
                     then Some (ms\<lparr>member_login := Some v\<rparr>, rest3)
                     else if name \<noteq> ''password'' then None
                     else if member_password ms = None \<and> length v \<le> maximum_password_bytes
                     then Some (ms\<lparr>member_password := Some v\<rparr>, rest3)
                     else None))))"

lemma json_string_loop_simps [simp]:
  "json_string_loop out [] = None"
  "json_string_loop out (quote # rest) = Some (out, rest)"
  "byte < CHR 0x20 \<Longrightarrow> json_string_loop out (byte # rest) = None"
  "byte \<noteq> quote \<Longrightarrow> byte \<noteq> backslash \<Longrightarrow> \<not> byte < CHR 0x20 \<Longrightarrow>
     json_string_loop out (byte # rest) = json_string_loop (out @ [byte]) rest"
  "json_string_loop out (backslash # rest) =
     (case append_escape out rest of None \<Rightarrow> None | Some (out1, rest2) \<Rightarrow> json_string_loop out1 rest2)"
  by (auto simp: json_string_loop.simps less_char_def)

text \<open>What the loop does with one unit of its input.\<close>

lemma json_string_loop_cases:
  assumes "json_string_loop out rest = Some (v, rest')"
  obtains (closed) "rest = quote # rest'" "v = out"
  | (plain) byte rest1 where "rest = byte # rest1" "byte \<noteq> quote" "byte \<noteq> backslash"
      "json_string_loop (out @ [byte]) rest1 = Some (v, rest')"
  | (escape) rest1 out1 rest2 where "rest = backslash # rest1" "append_escape out rest1 = Some (out1, rest2)"
      "json_string_loop out1 rest2 = Some (v, rest')"
  using assms
  by (subst (asm) json_string_loop.simps) (auto split: list.splits if_splits option.splits)

lemma json_string_loop_rest:
  "json_string_loop out rest = Some (v, rest') \<Longrightarrow> length rest' < length rest"
proof (induction "length rest" arbitrary: out rest rule: less_induct)
  case less
  from less.prems show ?case
  proof (cases rule: json_string_loop_cases)
    case (plain byte rest1)
    with less.hyps [OF _ plain(4)] show ?thesis by simp
  next
    case (escape rest1 out1 rest2)
    with less.hyps [OF _ escape(3)] append_escape_rest [OF escape(2)] show ?thesis by simp
  qed simp
qed

lemma json_parse_string_rest:
  "json_parse_string rest = Some (v, rest') \<Longrightarrow> length rest' < length rest"
  by (auto simp: json_parse_string_def json_consume_rest split: prod.splits bool.splits
      dest: json_string_loop_rest)

lemma json_skip_whitespace_rest: "length (json_skip_whitespace rest) \<le> length rest"
  by (simp add: json_skip_whitespace_def length_dropWhile_le)

lemma json_parse_member_rest:
  assumes "json_parse_member ms rest = Some (ms', rest')" shows "length rest' < length rest"
proof -
  from assms obtain name rest1 rest2 v where
    "json_parse_string rest = Some (name, rest1)" "json_skip_whitespace rest1 = CHR '':'' # rest2"
    "json_parse_string (json_skip_whitespace rest2) = Some (v, rest')"
    by (auto simp: json_parse_member_def json_consume_rest
        split: option.splits prod.splits bool.splits if_splits)
  then show ?thesis
    using json_parse_string_rest [of rest] json_parse_string_rest [of "json_skip_whitespace rest2"]
      json_skip_whitespace_rest [of rest1] json_skip_whitespace_rest [of rest2]
    by fastforce
qed

lemma json_members_rest:
  assumes "json_parse_member ms rest = Some (ms1, rest1)"
    "json_consume c (json_skip_whitespace rest1) = (rest2, ok)" "json_consume d rest2 = (rest3, ok')"
  shows "length (json_skip_whitespace rest3) < length rest"
  using assms json_parse_member_rest [OF assms(1)] json_skip_whitespace_rest [of rest1]
    json_skip_whitespace_rest [of rest3]
  by (auto simp: json_consume_def split: if_splits)

function json_members_loop :: "login_members \<Rightarrow> string \<Rightarrow> (login_members \<times> string) option" where
  "json_members_loop ms rest =
     (case json_parse_member ms rest of
        None \<Rightarrow> None
      | Some (ms1, rest1) \<Rightarrow>
          (case json_consume CHR ''}'' (json_skip_whitespace rest1) of
             (rest2, True) \<Rightarrow> Some (ms1, rest2)
           | (rest2, False) \<Rightarrow>
               (case json_consume CHR '','' rest2 of
                  (_, False) \<Rightarrow> None
                | (rest3, True) \<Rightarrow> json_members_loop ms1 (json_skip_whitespace rest3))))"
  by pat_completeness auto
termination
  by (relation "measure (\<lambda>(ms, rest). length rest)") (auto dest: sym intro: json_members_rest)

declare json_members_loop.simps [simp del]

definition parse_login :: "string \<Rightarrow> (string \<times> string) option" where
  "parse_login input =
     (if \<not> utf8_is_valid input then None
      else
        (case json_consume CHR ''{'' (json_skip_whitespace input) of
           (_, False) \<Rightarrow> None
         | (rest1, True) \<Rightarrow>
             (case json_consume CHR ''}'' (json_skip_whitespace rest1) of
                (_, True) \<Rightarrow> None
              | (rest2, False) \<Rightarrow>
                  (case json_members_loop \<lparr>member_login = None, member_password = None\<rparr> rest2 of
                     None \<Rightarrow> None
                   | Some (ms, rest3) \<Rightarrow>
                       (if json_skip_whitespace rest3 \<noteq> [] then None
                        else (case (member_login ms, member_password ms) of
                                (Some login, Some password) \<Rightarrow> Some (login, password)
                              | _ \<Rightarrow> None))))))"

section \<open>Strings written and read\<close>

lemma append_code_point_append:
  "append_code_point out v = (fst (append_code_point [] v), out @ snd (append_code_point [] v))"
  by (simp add: append_code_point_def)

lemma append_code_point_ascii:
  "byte_u32 c < 0x80 \<Longrightarrow> append_code_point out (byte_u32 c) = (True, out @ [c])"
  using ascii_encode [of c] by (simp add: append_code_point_def)

lemma hex_digit_value_hexadecimal: "k < 16 \<Longrightarrow> hex_digit_value (json_hexadecimal ! k) = Some k"
proof -
  have "list_all (\<lambda>k. hex_digit_value (json_hexadecimal ! k) = Some k) [0..<16]" by code_simp
  then show "k < 16 \<Longrightarrow> ?thesis" by (simp add: list_all_iff)
qed

lemma parse_hex_quad_byte:
  assumes "of_char c < (32 :: nat)"
  shows "parse_hex_quad (CHR ''0'' # CHR ''0'' # json_hexadecimal ! (of_char c div 16) #
     json_hexadecimal ! (of_char c mod 16) # rest) = Some (byte_u32 c, rest)"
proof -
  let ?hi = "of_char c div 16 :: nat" and ?lo = "of_char c mod 16 :: nat"
  have "hex_digit_value CHR ''0'' = Some 0" by code_simp
  moreover have "hex_digit_value (json_hexadecimal ! ?hi) = Some ?hi"
    "hex_digit_value (json_hexadecimal ! ?lo) = Some ?lo"
    using assms by (simp_all add: hex_digit_value_hexadecimal)
  moreover have "push_bit 4 (of_nat ?hi) OR of_nat ?lo = byte_u32 c"
  proof -
    have eq: "?hi = drop_bit 4 (of_char c)" "?lo = take_bit 4 (of_char c)"
      by (simp_all add: take_bit_eq_mod drop_bit_eq_div)
    have "push_bit 4 ?hi OR ?lo = (of_char c :: nat)"
      unfolding eq by (rule bit_eqI) (auto simp: bit_simps)
    then have "of_nat (push_bit 4 ?hi OR ?lo) = byte_u32 c" by (simp only: byte_u32_def)
    then show ?thesis by (simp only: of_nat_or_eq of_nat_push_bit)
  qed
  moreover have "hex_quad_loop 4 = hex_quad_loop (Suc (Suc (Suc (Suc 0))))"
    by (rule arg_cong [of _ _ hex_quad_loop]) simp
  ultimately show ?thesis by (simp add: parse_hex_quad_def)
qed

lemma append_escape_quad:
  assumes "parse_hex_quad rest1 = Some (v, rest)" "v < 0xD800" "append_code_point out v = (True, out1)"
  shows "append_escape out (CHR ''u'' # rest1) = Some (out1, rest)"
proof -
  have "\<not> 0xD800 \<le> v" "\<not> 0xDC00 \<le> v" using assms(2) by (auto simp: word_less_nat_alt word_le_nat_alt)
  with assms(1) have "parse_unicode_escape rest1 = Some (v, rest)"
    unfolding parse_unicode_escape_def by (simp del: not_le)
  moreover have "map_of simple_escapes CHR ''u'' = None" by code_simp
  ultimately show ?thesis using assms(3) by (simp add: append_escape_def)
qed

lemma json_string_loop_escape:
  "json_string_loop out (json_escape c @ rest) = json_string_loop (out @ [c]) rest"
proof (cases "c < CHR 0x20 \<and> c \<notin> {CHR 0x08, CHR 0x0C, CHR 0x0A, CHR 0x0D, CHR 0x09}")
  case True
  then have n: "of_char c < (32 :: nat)" by (simp add: less_char_def)
  then have byte: "byte_u32 c < 0x80" by (simp add: byte_u32_def word_less_nat_alt unat_of_nat)
  then have "byte_u32 c < 0xD800" by (simp add: word_less_nat_alt)
  note quad = append_escape_quad [OF parse_hex_quad_byte [OF n, of rest] this append_code_point_ascii [OF byte]]
  have "c \<noteq> quote" "c \<noteq> backslash" using n by auto
  with True have "json_escape c = [backslash, CHR ''u'', CHR ''0'', CHR ''0'',
      json_hexadecimal ! (of_char c div 16), json_hexadecimal ! (of_char c mod 16)]"
    unfolding json_escape_def by simp
  with quad show ?thesis by simp
next
  case False
  then show ?thesis
    by (auto simp: json_escape_def append_escape_def simple_escapes_def)
qed

lemma json_string_loop_escapes:
  "json_string_loop out (concat (map json_escape v) @ quote # rest) = Some (out @ v, rest)"
  by (induction v arbitrary: out) (simp_all add: json_string_loop_escape)

text \<open>The reader restores any string the writer writes, of whatever bytes it consists.\<close>

lemma json_string_roundtrip: "json_parse_string (append_json_string [] v @ rest) = Some (v, rest)"
  by (simp add: json_parse_string_def append_json_string_def json_consume_def json_string_loop_escapes)

section \<open>What the login reader accepts\<close>

lemma utf8_valid_tail: "utf8_is_valid (c # b) \<Longrightarrow> byte_u32 c < 0x80 \<Longrightarrow> utf8_is_valid b"
  using utf8_valid_cut [of "[]" c b] by simp

lemma ascii_byte: "of_char c < (128 :: nat) \<Longrightarrow> byte_u32 c < 0x80"
  by (simp add: byte_u32_def word_less_nat_alt unat_of_nat)

lemma ascii_tail: "utf8_is_valid (c # b) \<Longrightarrow> of_char c < (128 :: nat) \<Longrightarrow> utf8_is_valid b"
  by (rule utf8_valid_tail) (auto intro: ascii_byte)

lemma hex_digit_ascii: "hex_digit_value c = Some d \<Longrightarrow> byte_u32 c < 0x80"
  by (rule ascii_byte) (auto simp: hex_digit_value_def less_eq_char_def split: if_splits)

lemma hex_quad_loop_valid:
  "hex_quad_loop n v rest = Some (v', rest') \<Longrightarrow> utf8_is_valid rest \<Longrightarrow> utf8_is_valid rest'"
  by (induction n arbitrary: v rest)
    (auto split: list.splits option.splits dest: hex_digit_ascii utf8_valid_tail)

lemma parse_hex_quad_valid:
  "parse_hex_quad rest = Some (v, rest') \<Longrightarrow> utf8_is_valid rest \<Longrightarrow> utf8_is_valid rest'"
  by (auto simp: parse_hex_quad_def split: if_splits dest: hex_quad_loop_valid)

lemma parse_unicode_escape_valid:
  assumes "parse_unicode_escape rest = Some (v, rest')" "utf8_is_valid rest"
  shows "utf8_is_valid rest'"
proof -
  from assms(1) obtain v1 rest1 where q: "parse_hex_quad rest = Some (v1, rest1)"
    by (auto simp: parse_unicode_escape_def split: option.splits)
  then have v: "utf8_is_valid rest1" using assms(2) by (rule parse_hex_quad_valid)
  consider "rest' = rest1" | rest3 v2 where "rest1 = backslash # CHR ''u'' # rest3" "parse_hex_quad rest3 = Some (v2, rest')"
    using assms(1) q
    by (auto simp: parse_unicode_escape_def json_consume_rest
        split: option.splits if_splits prod.splits bool.splits)
  then show ?thesis
  proof cases
    case (2 rest3 v2)
    have "utf8_is_valid rest3"
      using v 2(1) ascii_tail [of backslash "CHR ''u'' # rest3"] ascii_tail [of "CHR ''u''" rest3] by simp
    with 2(2) show ?thesis by (rule parse_hex_quad_valid)
  qed (simp add: v)
qed

lemma append_escape_valid:
  assumes "append_escape out rest = Some (out1, rest')" "utf8_is_valid out" "utf8_is_valid rest"
  shows "utf8_is_valid out1 \<and> utf8_is_valid rest'"
proof -
  from assms(1) obtain e rest1 where e: "rest = e # rest1" by (auto simp: append_escape_def split: list.splits)
  show ?thesis
  proof (cases "map_of simple_escapes e")
    case (Some c)
    then have "byte_u32 e < 0x80" "byte_u32 c < 0x80"
      by (auto simp: simple_escapes_def split: if_splits intro: ascii_byte)
    moreover have "out1 = out @ [c]" "rest' = rest1"
      using assms(1) e Some by (auto simp: append_escape_def)
    ultimately show ?thesis
      using assms(2,3) e ascii_encode [of c] utf8_encode_valid [of "byte_u32 c"]
      by (auto intro: utf8_valid_append dest: utf8_valid_tail)
  next
    case None
    with assms(1) e obtain v where v: "e = CHR ''u''" "parse_unicode_escape rest1 = Some (v, rest')"
      "append_code_point out v = (True, out1)"
      by (auto simp: append_escape_def split: option.splits prod.splits bool.splits if_splits)
    then have "is_scalar_value v" "out1 = out @ utf8_encode v"
      using append_code_point_append [of out v]
      by (auto simp: utf8_encode_def) (auto simp: append_code_point_def split: if_splits)
    moreover have "utf8_is_valid rest1"
      using assms(3) e v(1) ascii_tail [of "CHR ''u''" rest1] by simp
    ultimately show ?thesis
      using parse_unicode_escape_valid [OF v(2)] assms(2) utf8_encode_valid utf8_valid_append by auto
  qed
qed

lemma json_string_loop_valid:
  "json_string_loop out rest = Some (v, rest') \<Longrightarrow> utf8_is_valid (out @ rest) \<Longrightarrow>
     utf8_is_valid v \<and> utf8_is_valid rest'"
proof (induction "length rest" arbitrary: out rest rule: less_induct)
  case less
  from less.prems(1) show ?case
  proof (cases rule: json_string_loop_cases)
    case closed
    with less.prems(2) utf8_valid_cut [of out quote rest'] show ?thesis by (simp add: ascii_byte)
  next
    case (plain byte rest1)
    with less.hyps [OF _ plain(4)] less.prems(2) show ?thesis by simp
  next
    case (escape rest1 out1 rest2)
    with less.prems(2) utf8_valid_cut [of out backslash rest1] have "utf8_is_valid out" "utf8_is_valid rest1"
      by (simp_all add: ascii_byte)
    with escape(2) have "utf8_is_valid (out1 @ rest2)"
      using append_escape_valid utf8_valid_append by blast
    with less.hyps [OF _ escape(3)] append_escape_rest [OF escape(2)] escape(1) show ?thesis by simp
  qed
qed

lemma json_parse_string_valid:
  assumes "json_parse_string rest = Some (v, rest')" "utf8_is_valid rest"
  shows "utf8_is_valid v \<and> utf8_is_valid rest'"
proof -
  from assms(1) obtain rest1 where r: "rest = quote # rest1" "json_string_loop [] rest1 = Some (v, rest')"
    by (auto simp: json_parse_string_def json_consume_rest split: prod.splits bool.splits)
  with assms(2) ascii_tail [of quote rest1] have "utf8_is_valid rest1" by simp
  with json_string_loop_valid [OF r(2)] show ?thesis by simp
qed

lemma json_skip_whitespace_valid: "utf8_is_valid rest \<Longrightarrow> utf8_is_valid (json_skip_whitespace rest)"
  by (induction rest) (auto simp: json_skip_whitespace_def dest!: utf8_valid_tail simp: ascii_byte)

lemma json_consume_valid:
  "json_consume c rest = (rest', ok) \<Longrightarrow> of_char c < (128 :: nat) \<Longrightarrow> utf8_is_valid rest \<Longrightarrow> utf8_is_valid rest'"
  by (cases rest) (auto simp: json_consume_def ascii_byte dest: utf8_valid_tail split: if_splits)

definition members_ok :: "login_members \<Rightarrow> bool" where
  "members_ok ms \<longleftrightarrow>
     (\<forall>v. member_login ms = Some v \<longrightarrow> v \<noteq> [] \<and> length v \<le> maximum_owner_login_bytes \<and> utf8_is_valid v) \<and>
     (\<forall>v. member_password ms = Some v \<longrightarrow> v \<noteq> [] \<and> length v \<le> maximum_password_bytes \<and> utf8_is_valid v)"

lemma json_parse_member_ok:
  assumes "json_parse_member ms rest = Some (ms', rest')" "members_ok ms" "utf8_is_valid rest"
  shows "members_ok ms' \<and> utf8_is_valid rest'"
proof -
  from assms(1) obtain name rest1 rest2 v where
    r: "json_parse_string rest = Some (name, rest1)" "json_skip_whitespace rest1 = CHR '':'' # rest2"
      "json_parse_string (json_skip_whitespace rest2) = Some (v, rest')"
    by (auto simp: json_parse_member_def json_consume_rest
        split: option.splits prod.splits bool.splits if_splits)
  have "utf8_is_valid (CHR '':'' # rest2)"
    using json_parse_string_valid [OF r(1) assms(3)] json_skip_whitespace_valid [of rest1] r(2) by simp
  then have "utf8_is_valid rest2" using ascii_tail [of "CHR '':''" rest2] by simp
  then have v: "utf8_is_valid v \<and> utf8_is_valid rest'"
    using json_parse_string_valid [OF r(3)] json_skip_whitespace_valid by blast
  have "json_consume CHR '':'' (json_skip_whitespace rest1) = (rest2, True)"
    using r(2) by (simp add: json_consume_def)
  with assms(1) r v have "v \<noteq> [] \<and>
      (ms' = ms\<lparr>member_login := Some v\<rparr> \<and> length v \<le> maximum_owner_login_bytes \<or>
       ms' = ms\<lparr>member_password := Some v\<rparr> \<and> length v \<le> maximum_password_bytes)"
    by (simp add: json_parse_member_def split: if_splits)
  with assms(2) v show ?thesis by (auto simp: members_ok_def)
qed

lemma json_members_loop_ok:
  "json_members_loop ms rest = Some (ms', rest') \<Longrightarrow> members_ok ms \<Longrightarrow> utf8_is_valid rest \<Longrightarrow> members_ok ms'"
proof (induction "length rest" arbitrary: ms rest rule: less_induct)
  case less
  from less.prems(1) obtain ms1 rest1 where m: "json_parse_member ms rest = Some (ms1, rest1)"
    by (subst (asm) json_members_loop.simps) (auto split: option.splits)
  obtain rest2 ok where c: "json_consume CHR ''}'' (json_skip_whitespace rest1) = (rest2, ok)" by force
  obtain rest3 ok' where d: "json_consume CHR '','' rest2 = (rest3, ok')" by force
  have ok1: "members_ok ms1" "utf8_is_valid rest1"
    using json_parse_member_ok [OF m less.prems(2,3)] by auto
  have "utf8_is_valid (json_skip_whitespace rest3)"
    using ok1(2) json_consume_valid [OF c] json_consume_valid [OF d] json_skip_whitespace_valid by simp
  moreover have "ms' = ms1 \<or> json_members_loop ms1 (json_skip_whitespace rest3) = Some (ms', rest')"
    using less.prems(1) m c d
    by (subst (asm) json_members_loop.simps) (simp split: bool.splits)
  ultimately show ?case
    using less.hyps [OF json_members_rest [OF m c d]] ok1 by blast
qed


section \<open>Login documents\<close>

text \<open>
  The JSON objects with given members, each string in the writer's form, with any white space
  between the tokens.
\<close>

definition json_blank :: "string \<Rightarrow> bool" where
  "json_blank w \<longleftrightarrow> set w \<subseteq> {CHR '' '', CHR 0x09, CHR 0x0D, CHR 0x0A}"

fun print_members :: "(nat \<Rightarrow> string) \<Rightarrow> nat \<Rightarrow> (string \<times> string) list \<Rightarrow> string" where
  "print_members ws i [] = []"
| "print_members ws i ((name, v) # members) =
     append_json_string [] name @ ws i @ '':'' @ ws (i + 1) @ append_json_string [] v @ ws (i + 2) @
     (if members = [] then [] else '','' @ ws (i + 3) @ print_members ws (i + 4) members)"

definition print_object :: "(nat \<Rightarrow> string) \<Rightarrow> (string \<times> string) list \<Rightarrow> string" where
  "print_object ws members = ws 0 @ ''{'' @ ws 1 @ print_members ws 3 members @ ''}'' @ ws 2"

lemma json_skip_whitespace_simps [simp]:
  "json_blank w \<Longrightarrow> json_skip_whitespace (w @ rest) = json_skip_whitespace rest"
  "json_blank w \<Longrightarrow> json_skip_whitespace w = []"
  "c \<notin> {CHR '' '', CHR 0x09, CHR 0x0D, CHR 0x0A} \<Longrightarrow> json_skip_whitespace (c # rest) = c # rest"
  "json_skip_whitespace (append_json_string [] v @ rest) = append_json_string [] v @ rest"
  by (auto simp: json_skip_whitespace_def json_blank_def append_json_string_def dropWhile_append1
      dropWhile_append2 subset_iff)

lemma json_consume_print [simp]: "c \<noteq> quote \<Longrightarrow> json_consume c (append_json_string [] v @ rest) =
    (append_json_string [] v @ rest, False)"
  by (simp add: json_consume_def append_json_string_def)

lemma json_consume_Cons [simp]: "json_consume c (d # rest) = (if c = d then (rest, True) else (d # rest, False))"
  by (simp add: json_consume_def)

lemma json_parse_member_print:
  assumes "json_blank w1" "json_blank w2"
  shows "json_parse_member ms (append_json_string [] name @ w1 @ CHR '':'' # w2 @
      append_json_string [] v @ rest) =
    (if v = [] then None
     else if name = ''login'' \<and> member_login ms = None \<and> length v \<le> maximum_owner_login_bytes
     then Some (ms\<lparr>member_login := Some v\<rparr>, rest)
     else if name = ''password'' \<and> member_password ms = None \<and> length v \<le> maximum_password_bytes
     then Some (ms\<lparr>member_password := Some v\<rparr>, rest)
     else None)"
  using assms by (simp add: json_parse_member_def json_string_roundtrip)

lemma ascii_valid: "list_all (\<lambda>c. of_char c < (128 :: nat)) s \<Longrightarrow> utf8_is_valid s"
proof (induction s)
  case (Cons c s)
  then have "utf8_is_valid [c]"
    using ascii_encode [of c] utf8_encode_valid [of "byte_u32 c"] by (simp add: ascii_byte)
  with Cons utf8_valid_append [of "[c]" s] show ?case by simp
qed simp

lemma utf8_valid_Cons [simp]: "of_char c < (128 :: nat) \<Longrightarrow> utf8_is_valid (c # s) \<longleftrightarrow> utf8_is_valid s"
  using ascii_tail [of c s] utf8_valid_append [of "[c]" s] ascii_valid [of "[c]"] by auto

lemma json_escape_ascii:
  assumes "of_char c < (128 :: nat)" shows "list_all (\<lambda>c. of_char c < (128 :: nat)) (json_escape c)"
proof -
  have "list_all (\<lambda>k. of_char (json_hexadecimal ! k) < (128 :: nat)) [0..<16]" by code_simp
  then have hex: "k < 16 \<Longrightarrow> of_char (json_hexadecimal ! k) < (128 :: nat)" for k by (simp add: list_all_iff)
  define hi lo where "hi = json_hexadecimal ! (of_char c div 16)" and "lo = json_hexadecimal ! (of_char c mod 16)"
  have "of_char hi < (128 :: nat)" "of_char lo < (128 :: nat)"
    unfolding hi_def lo_def using assms by (intro hex; simp)+
  with assms show ?thesis
    unfolding json_escape_def hi_def [symmetric] lo_def [symmetric] by simp
qed

lemma json_escape_high:
  assumes "\<not> of_char c < (128 :: nat)" shows "json_escape c = [c]"
proof -
  have "c \<notin> {quote, backslash, CHR 0x08, CHR 0x0C, CHR 0x0A, CHR 0x0D, CHR 0x09}" using assms by auto
  moreover have "\<not> c < CHR 0x20" using assms by (simp add: less_char_def)
  ultimately show ?thesis unfolding json_escape_def by simp
qed

lemma json_escapes_valid: "utf8_is_valid v \<Longrightarrow> utf8_is_valid (concat (map json_escape v))"
proof -
  have "utf8_is_valid (concat (map json_escape (utf8_encode u)))" if scalar: "is_scalar_value u" for u
  proof (cases "\<exists>c\<in>set (utf8_encode u). of_char c < (128 :: nat)")
    case True
    then obtain c where c: "of_char c < (128 :: nat)" "utf8_encode u = [c]"
      using ascii_in_encode scalar ascii_byte by blast
    then show ?thesis by (simp add: json_escape_ascii ascii_valid)
  next
    case False
    then have eq: "map json_escape (utf8_encode u) = map (\<lambda>c. [c]) (utf8_encode u)"
      by (intro map_cong) (auto intro: json_escape_high)
    show ?thesis unfolding eq using scalar by (simp add: utf8_encode_valid)
  qed
  then have "list_all is_scalar_value us \<Longrightarrow>
      utf8_is_valid (concat (map json_escape (concat (map utf8_encode us))))" for us
    by (induction us) (auto intro: utf8_valid_append)
  then show "utf8_is_valid v \<Longrightarrow> ?thesis" by (metis utf8_valid_scalars)
qed

lemma append_json_string_valid: "utf8_is_valid v \<Longrightarrow> utf8_is_valid (append_json_string [] v)"
  unfolding append_json_string_def
  by (intro utf8_valid_append json_escapes_valid) (simp_all add: ascii_valid)

lemma json_blank_valid: "json_blank w \<Longrightarrow> utf8_is_valid w"
  by (rule ascii_valid) (auto simp: json_blank_def list_all_iff)

lemma print_members_valid:
  "\<forall>i. json_blank (ws i) \<Longrightarrow> list_all (\<lambda>(name, v). utf8_is_valid name \<and> utf8_is_valid v) members \<Longrightarrow>
     utf8_is_valid (print_members ws i members)"
proof (induction members arbitrary: i)
  case (Cons m members)
  obtain name v where m: "m = (name, v)" by force
  have "utf8_is_valid (ws k)" for k using Cons.prems(1) json_blank_valid by blast
  with Cons m show ?case by (auto intro!: utf8_valid_append append_json_string_valid)
qed simp

text \<open>
  C39. Login documents read back: a JSON object with exactly a login and a password member, in either
  order, with any white space between the tokens and with both strings escaped as the program's own
  writer escapes them, is read as exactly that login and password, provided they are nonempty, valid
  UTF-8 and within the limits.
\<close>

theorem login_json_roundtrip:
  assumes "\<forall>i. json_blank (ws i)" "utf8_is_valid login" "utf8_is_valid password"
    and "login \<noteq> []" "length login \<le> maximum_owner_login_bytes"
    and "password \<noteq> []" "length password \<le> maximum_password_bytes"
    and "members = [(''login'', login), (''password'', password)] \<or>
         members = [(''password'', password), (''login'', login)]"
  shows "parse_login (print_object ws members) = Some (login, password)"
proof -
  have ws [simp]: "json_blank (ws i)" for i using assms(1) by blast
  have "utf8_is_valid ''login''" "utf8_is_valid ''password''" by simp_all
  then have "utf8_is_valid (print_members ws 3 members)"
    using assms by (intro print_members_valid) auto
  moreover have "utf8_is_valid (ws i)" for i by (simp add: json_blank_valid)
  ultimately have "utf8_is_valid (print_object ws members)"
    by (auto simp: print_object_def intro!: utf8_valid_append)
  then show ?thesis
    using assms(4-8)
    by (auto simp: parse_login_def print_object_def json_members_loop.simps json_parse_member_print)
qed

theorem login_json_roundtrip_witness:
  "parse_login (print_object (\<lambda>i. if i = 1 then [CHR 0x0A] else '' '')
     [(''password'', [quote, CHR 0x01]), (''login'', ''owner'')]) = Some (''owner'', [quote, CHR 0x01])"
  by (rule login_json_roundtrip)
    (simp_all add: json_blank_def maximum_owner_login_bytes_def maximum_password_bytes_def)


end
