(* ===== verification/Filesystem_Operations.thy ===== *)
theory Filesystem_Operations
  imports Upload_Publication Json_Codec Resource_Coordinator
begin

text \<open>
  The portable filesystem operations on a shared root: listing (\<^verbatim>\<open>src/filesystem/directory_listing.cpp\<close>),
  directory creation (\<^verbatim>\<open>directory_creator.cpp\<close>), removal (\<^verbatim>\<open>filesystem_entry_remover.cpp\<close>) and the
  finalisation of uploads (\<^verbatim>\<open>upload_finalizer.cpp\<close>). Each resolves the untrusted path, opens the parent
  inside the root and acts relative to that descriptor.
\<close>

section \<open>Paths\<close>

definition filename :: "string list \<Rightarrow> string" where
  "filename path = (if path = [] then [] else last path)"

definition parent_path :: "string list \<Rightarrow> string list" where
  "parent_path path = butlast path"

definition unnamed_destination :: "string list \<Rightarrow> string list \<Rightarrow> bool" where
  "unnamed_destination shared_root path \<longleftrightarrow>
     path = shared_root \<or> filename path = [] \<or> filename path = ''.'' \<or> filename path = ''..''"

section \<open>Finalising an upload\<close>

definition finalize_upload ::
    "'w posix \<Rightarrow> io_options \<Rightarrow> string list \<Rightarrow> string \<Rightarrow> temporary_file \<Rightarrow> 'w \<Rightarrow>
     ('w \<times> (upload_error, string list) result) option" where
  "finalize_upload px opts shared_root requested source w =
     (if \<not> tf_completed source \<or> tf_path source = []
      then Some (w, Inl (Upload_invalid_source, None, None))
      else
        (case upload_interruption px opts w of
           (w1, Some e) \<Rightarrow> Some (w1, Inl e)
         | (w1, None) \<Rightarrow>
             (case safe_path_resolve (px_view px w1) shared_root requested of
                Inl e \<Rightarrow> Some (w1, Inl (Upload_invalid_destination, Some e, None))
              | Inr path \<Rightarrow>
                  (if unnamed_destination shared_root path
                   then Some (w1, Inl (Upload_invalid_destination, None, None))
                   else
                     (case open_confined_directory px shared_root (parent_path path) w1 of
                        (w2, Inl e) \<Rightarrow> Some (w2, Inl (Upload_parent_unavailable, None, Some e))
                      | (w2, Inr cd) \<Rightarrow>
                          map_option (\<lambda>(w3, r). close_confined px cd (w3, map_sum id (\<lambda>_. path) r))
                            (publish_confined_upload px opts cd source (filename path) w2))))))"

section \<open>Creating a directory\<close>

definition create_directory ::
    "'w posix \<Rightarrow> string list \<Rightarrow> string \<Rightarrow> 'w \<Rightarrow> 'w \<times> (creation_error, string list) result" where
  "create_directory px shared_root requested w =
     (case safe_path_resolve (px_view px w) shared_root requested of
        Inl e \<Rightarrow> (w, Inl (Creation_invalid_destination, Some e, None))
      | Inr path \<Rightarrow>
          (if unnamed_destination shared_root path
           then (w, Inl (Creation_invalid_destination, None, None))
           else
             (case open_confined_directory px shared_root (parent_path path) w of
                (w1, Inl e) \<Rightarrow> (w1, Inl (Creation_parent_unavailable, None, Some e))
              | (w1, Inr cd) \<Rightarrow>
                  close_confined px cd
                    (map_prod id (map_sum id (\<lambda>_. path)) (create_confined_directory px cd (filename path) w1)))))"

section \<open>Removing an entry\<close>

text \<open>
  The lexical path keeps a final link, which is then removed itself; \<open>None\<close> is the empty path given for
  a request that cannot be decoded.
\<close>

definition lexical_destination :: "string list \<Rightarrow> string \<Rightarrow> string list option" where
  "lexical_destination shared_root requested =
     (case decode_path_request requested of
        Inl _ \<Rightarrow> None
      | Inr decoded \<Rightarrow>
          Some (resolve_candidate shared_root (lexically_normal False (path_components decoded))))"

definition remove_filesystem_entry ::
    "'w posix \<Rightarrow> string list \<Rightarrow> string \<Rightarrow> 'w \<Rightarrow> 'w \<times> (removal_error, unit) result" where
  "remove_filesystem_entry px shared_root requested w =
     (case safe_path_resolve (px_view px w) shared_root requested of
        Inl e \<Rightarrow> (w, Inl (Removal_invalid_destination, Some e, None))
      | Inr _ \<Rightarrow>
          (case lexical_destination shared_root requested of
             None \<Rightarrow> (w, Inl (Removal_invalid_destination, None, None))
           | Some path \<Rightarrow>
               (if unnamed_destination shared_root path
                then (w, Inl (Removal_invalid_destination, None, None))
                else
                  (case open_confined_mutation_directory px shared_root (parent_path path) w of
                     (w1, Inl e) \<Rightarrow> (w1, Inl (Removal_parent_unavailable, None, Some e))
                   | (w1, Inr cd) \<Rightarrow>
                       close_confined px cd (remove_confined_entry px cd (filename path) w1)))))"

section \<open>Listing a directory\<close>

datatype listing_error_code =
    Listing_invalid_path | Listing_not_found | Listing_not_directory | Listing_permission_denied
  | Listing_too_many_entries | Listing_filesystem_failure | Listing_resource_allocation_failed

type_synonym listing_error = "listing_error_code \<times> errno option \<times> safe_path_error option"

definition maximum_directory_listing_entries :: nat where
  "maximum_directory_listing_entries = 512"

definition filesystem_error :: "errno \<Rightarrow> listing_error" where
  "filesystem_error e =
     ((if e = ENOENT then Listing_not_found
       else if e = EACCES then Listing_permission_denied
       else Listing_filesystem_failure), Some e, None)"

definition encode_path_component :: "string \<Rightarrow> string" where
  "encode_path_component component =
     concat (map (\<lambda>b.
       if (CHR ''A'' \<le> b \<and> b \<le> CHR ''Z'') \<or> (CHR ''a'' \<le> b \<and> b \<le> CHR ''z'') \<or>
          (CHR ''0'' \<le> b \<and> b \<le> CHR ''9'') \<or> b \<in> set ''-._~'' then [b]
       else [CHR ''%'', json_hexadecimal ! (of_char b div 16), json_hexadecimal ! (of_char b mod 16)])
       component)"

definition child_request :: "string \<Rightarrow> string \<Rightarrow> string" where
  "child_request parent encoded_name =
     (if parent \<noteq> [] \<and> last parent \<noteq> CHR ''/'' \<and> last parent \<noteq> CHR 0x5C then parent @ ''/'' else parent)
     @ encoded_name"

definition classify_entry :: "confined_kind \<Rightarrow> entry_type" where
  "classify_entry kind =
     (case kind of
        Confined_regular \<Rightarrow> Regular_file_entry
      | Confined_directory_kind \<Rightarrow> Directory_entry
      | Confined_link \<Rightarrow> Symbolic_link_entry
      | Confined_other \<Rightarrow> Other_entry)"

definition resolve_directory ::
    "'w posix \<Rightarrow> string list \<Rightarrow> string \<Rightarrow> 'w \<Rightarrow> 'w \<times> (listing_error, string list) result" where
  "resolve_directory px shared_root requested w =
     (case safe_path_resolve (px_view px w) shared_root requested of
        Inl (code, _) \<Rightarrow> (w, Inl (Listing_invalid_path, None, Some code))
      | Inr path \<Rightarrow>
          (case px_status px path w of
             (w1, Inl e) \<Rightarrow> (w1, Inl (filesystem_error e))
           | (w1, Inr None) \<Rightarrow> (w1, Inl (Listing_not_found, None, None))
           | (w1, Inr (Some kind)) \<Rightarrow>
               (w1, if kind \<noteq> Stat_directory then Inl (Listing_not_directory, None, None) else Inr path)))"

definition read_entry ::
    "'w posix \<Rightarrow> string list \<Rightarrow> string \<Rightarrow> confined_directory \<Rightarrow> string \<Rightarrow> 'w \<Rightarrow> 'w \<times> listing_entry option" where
  "read_entry px shared_root requested cd name w =
     (case safe_path_resolve (px_view px w) shared_root
             (child_request requested (encode_path_component name)) of
        Inl _ \<Rightarrow> (w, None)
      | Inr _ \<Rightarrow>
          (case read_confined_directory_entry px cd name w of
             (w1, None) \<Rightarrow> (w1, None)
           | (w1, Some meta) \<Rightarrow>
               (w1, Some \<lparr>listed_name = name, listed_type = classify_entry (cm_kind meta),
                          listed_size = cm_size meta, listed_modification_time = cm_modified meta\<rparr>)))"

text \<open>The iteration: \<open>inspected\<close> entries have been counted, \<open>acc\<close> is what has been kept so far.\<close>

fun collect_loop ::
    "'w posix \<Rightarrow> string list \<Rightarrow> string \<Rightarrow> confined_directory \<Rightarrow> nat \<Rightarrow> listing_entry list \<Rightarrow> string list \<Rightarrow>
     errno option \<Rightarrow> 'w \<Rightarrow> 'w \<times> (listing_error, listing_entry list) result" where
  "collect_loop px shared_root requested cd inspected acc [] failed_with w =
     (w, case failed_with of
           Some e \<Rightarrow> Inl (filesystem_error e)
         | None \<Rightarrow> Inr (sort_key listed_name acc))"
| "collect_loop px shared_root requested cd inspected acc (name # names) failed_with w =
     (if inspected + 1 > maximum_directory_listing_entries
      then (w, Inl (Listing_too_many_entries, None, None))
      else
        (case read_entry px shared_root requested cd name w of
           (w1, e) \<Rightarrow>
             collect_loop px shared_root requested cd (inspected + 1)
               (case e of None \<Rightarrow> acc | Some x \<Rightarrow> acc @ [x]) names failed_with w1))"

definition collect_entries ::
    "'w posix \<Rightarrow> string list \<Rightarrow> string \<Rightarrow> string list \<Rightarrow> 'w \<Rightarrow>
     'w \<times> (listing_error, listing_entry list) result" where
  "collect_entries px shared_root requested directory w =
     (case open_confined_directory px shared_root directory w of
        (w1, Inl e) \<Rightarrow> (w1, Inl (filesystem_error e))
      | (w1, Inr cd) \<Rightarrow>
          close_confined px cd
            (case px_iterate px directory w1 of
               (w2, Inl e) \<Rightarrow> (w2, Inl (filesystem_error e))
             | (w2, Inr (names, failed_with)) \<Rightarrow>
                 collect_loop px shared_root requested cd 0 [] names failed_with w2))"

definition list_directory ::
    "'w posix \<Rightarrow> string list \<Rightarrow> string \<Rightarrow> 'w \<Rightarrow> 'w \<times> (listing_error, listing_entry list) result" where
  "list_directory px shared_root requested w =
     (case resolve_directory px shared_root requested w of
        (w1, Inl e) \<Rightarrow> (w1, Inl e)
      | (w1, Inr directory) \<Rightarrow> collect_entries px shared_root requested directory w1)"

section \<open>Uploads are atomic\<close>

lemma closing_disk:
  assumes "posix_laws disk path_file path_dir budget px"
  shows "disk (fst (closing px d (w, r))) =
    (disk w)\<lparr>file_fds := (file_fds (disk w))(d := None), dir_fds := (dir_fds (disk w))(d := None)\<rparr>"
  using assms unfolding posix_laws_def close_law_def closing_def by simp

lemma open_directory_disk:
  assumes "posix_laws disk path_file path_dir budget px" "open_directory px path w = (w', r)"
  shows "case r of Inl e \<Rightarrow> disk w' = disk w
    | Inr d \<Rightarrow> \<exists>dir. path_dir (entries (disk w)) path = Some dir \<and> file_fds (disk w) d = None \<and>
        dir_fds (disk w) d = None \<and> disk w' = (disk w)\<lparr>dir_fds := (dir_fds (disk w))(d \<mapsto> dir)\<rparr>"
  using assms unfolding posix_laws_def open_directory_law_def open_directory_def by blast

lemma descriptor_path_disk:
  assumes "posix_laws disk path_file path_dir budget px" "descriptor_path px d w = (w', r)"
  shows "disk w' = disk w"
proof -
  have "quiet disk budget (px_read_link px d)" using assms(1) by (simp add: posix_laws_def)
  from quietD(1) [OF this] assms(2) show ?thesis
    by (auto simp: descriptor_path_def split: prod.splits sum.splits)
qed

lemma open_confined_directory_disk:
  assumes L: "posix_laws disk path_file path_dir budget px"
    and o: "open_confined_directory px root directory w = (w', r)"
  shows "case r of Inl e \<Rightarrow> disk w' = disk w
    | Inr cd \<Rightarrow> \<exists>dir. path_dir (entries (disk w)) directory = Some dir \<and>
        dir_fds (disk w') (cd_directory cd) = Some dir \<and>
        (\<exists>G. disk w' = (disk w)\<lparr>dir_fds := G\<rparr> \<and>
          G(cd_directory cd := None, cd_root cd := None) = dir_fds (disk w) \<and>
          file_fds (disk w) (cd_directory cd) = None \<and> file_fds (disk w) (cd_root cd) = None)"
proof -
  obtain w1 r1 where 1: "open_directory px root w = (w1, r1)" by (cases "open_directory px root w")
  note law1 = open_directory_disk [OF L 1]
  show ?thesis
  proof (cases r1)
    case (Inl e)
    with o 1 law1 show ?thesis by (auto simp: open_confined_directory_def)
  next
    case (Inr rd)
    with law1 obtain rdir where rd: "file_fds (disk w) rd = None" "dir_fds (disk w) rd = None"
      "disk w1 = (disk w)\<lparr>dir_fds := (dir_fds (disk w))(rd \<mapsto> rdir)\<rparr>" by auto
    obtain w2 r2 where 2: "descriptor_path px rd w1 = (w2, r2)" by (cases "descriptor_path px rd w1")
    obtain w3 r3 where 3: "open_directory px directory w2 = (w3, r3)" by (cases "open_directory px directory w2")
    note law2 = descriptor_path_disk [OF L 2] and law3 = open_directory_disk [OF L 3]
    have undo: "disk w2 = disk w1" "(disk w1)\<lparr>file_fds := (file_fds (disk w1))(rd := None),
        dir_fds := (dir_fds (disk w1))(rd := None)\<rparr> = disk w"
      using law2 rd by (auto simp: fun_upd_idem)
    show ?thesis
    proof (cases r3)
      case (Inl e)
      with o 1 Inr 2 3 law3 undo rd show ?thesis
        using closing_disk [OF L, of rd]
        by (cases r2) (auto simp: open_confined_directory_def closing_def split: if_splits)
    next
      case d: (Inr d)
      with law3 undo(1) rd obtain dir where dir: "path_dir (entries (disk w)) directory = Some dir"
        "file_fds (disk w) d = None" "dir_fds (disk w) d = None" "d \<noteq> rd"
        "disk w3 = (disk w)\<lparr>dir_fds := (dir_fds (disk w))(rd \<mapsto> rdir, d \<mapsto> dir)\<rparr>"
        by (auto split: if_splits)
      obtain w4 r4 where 4: "descriptor_path px d w3 = (w4, r4)" by (cases "descriptor_path px d w3")
      have w4: "disk w4 = disk w3" by (rule descriptor_path_disk [OF L 4])
      have close: "disk (fst (closing px rd (closing px d (w4, x)))) = disk w" for x :: "(errno, confined_directory) result"
        using closing_disk [OF L, of rd "fst (closing px d (w4, x))" x] closing_disk [OF L, of d w4 x] w4 dir rd
        by (simp add: closing_def fun_upd_idem fun_upd_twist)
      have close2: "disk (fst (closing px rd (w2, x))) = disk w" for x :: "(errno, confined_directory) result"
        using closing_disk [OF L, of rd w2 x] undo by simp
      consider (failed) x where "closing px rd (closing px d (w4, Inl x)) = (w', r)"
        | (early) x where "closing px rd (w2, Inl x) = (w', r)"
        | (opened) sr where "w' = w4" "r = Inr \<lparr>cd_root = rd, cd_directory = d, cd_shared_root = sr\<rparr>"
        using o 1 Inr 2 3 d 4 unfolding open_confined_directory_def
        by (cases r2; cases r4) (auto split: if_splits)
      then show ?thesis
      proof cases
        case failed
        then show ?thesis using close [of "Inl x"] by (auto simp: closing_def)
      next
        case early
        then show ?thesis using close2 [of "Inl x"] by (auto simp: closing_def)
      next
        case opened
        then show ?thesis using dir rd w4 by (auto simp: fun_eq_iff)
      qed
    qed
  qed
qed

lemma resolved_destination:
  assumes "canonical_names fs" "list_all path_name root" "safe_path_resolve fs root requested = Inr path"
    and "\<not> unnamed_destination root path"
  shows "prefix root path" "path = parent_path path @ [filename path]"
    "\<not> is_upload_stage_component (filename path)" "path_name (filename path)"
proof -
  from safe_path_resolved [OF assms(1-3)] have p: "prefix root path" "list_all path_name path"
    "list_all (\<lambda>c. \<not> is_upload_stage_component c) (drop (length root) path)" by blast+
  with assms(4) obtain ns where ns: "path = root @ ns" "ns \<noteq> []"
    by (auto simp: prefix_def unnamed_destination_def)
  then show "prefix root path" "path = parent_path path @ [filename path]"
    "\<not> is_upload_stage_component (filename path)" "path_name (filename path)"
    using p by (simp_all add: filename_def parent_path_def list_all_iff butlast_append)
qed

lemma close_confined_disk:
  assumes L: "posix_laws disk path_file path_dir budget px"
    and "disk w = D\<lparr>dir_fds := G\<rparr>" "G(cd_directory cd := None, cd_root cd := None) = dir_fds D'"
    and "file_fds D (cd_directory cd) = None" "file_fds D (cd_root cd) = None"
  shows "disk (fst (close_confined px cd (w, r))) = D\<lparr>dir_fds := dir_fds D'\<rparr>"
proof -
  obtain w1 where w1: "closing px (cd_directory cd) (w, r) = (w1, r)"
    by (simp add: closing_def)
  have "disk w1 = D\<lparr>dir_fds := G(cd_directory cd := None)\<rparr>"
    using closing_disk [OF L, of "cd_directory cd" w r] w1 assms(2,4) by (simp add: fun_upd_idem)
  then show ?thesis
    using closing_disk [OF L, of "cd_root cd" w1 r] w1 assms(3,5)
    by (simp add: close_confined_def fun_upd_idem fun_upd_twist)
qed

lemma published_dir_fds [simp]:
  "published (D\<lparr>dir_fds := G\<rparr>) e bytes r D' = published D e bytes r D'"
  "published D e bytes r (D'\<lparr>dir_fds := G\<rparr>) = published D e bytes r D'"
proof -
  have "visible (D\<lparr>dir_fds := G\<rparr>) = visible D" for D :: "('a, 'b) disk"
    by (auto simp: visible_def)
  then show "published (D\<lparr>dir_fds := G\<rparr>) e bytes r D' = published D e bytes r D'"
    "published D e bytes r (D'\<lparr>dir_fds := G\<rparr>) = published D e bytes r D'"
    by (cases r; simp add: published_def fresh_inode_def)+
qed

lemma publish_in_parent:
  assumes L: "posix_laws disk path_file path_dir budget px"
    and o: "open_confined_directory px root parent w = (w1, Inr cd)"
    and name: "\<not> is_upload_stage_component name"
  shows "\<exists>w' r bytes dir. map_option (\<lambda>(w2, r). close_confined px cd (w2, f r))
        (publish_confined_upload px opts cd source name w1) = Some (w', f r) \<and>
    path_dir (entries (disk w)) parent = Some dir \<and>
    published (disk w) (dir, name) bytes r (disk w') \<and>
    (r = Inr () \<longrightarrow> length bytes = tf_size source \<and>
       (\<exists>j. path_file (entries (disk w)) (tf_path source) = Some j \<and> contents (disk w) j = bytes)) \<and>
    dir_fds (disk w') = dir_fds (disk w) \<and> file_fds (disk w') = file_fds (disk w)"
proof -
  from open_confined_directory_disk [OF L o] obtain dir G where
    cd: "path_dir (entries (disk w)) parent = Some dir" "dir_fds (disk w1) (cd_directory cd) = Some dir"
      "disk w1 = (disk w)\<lparr>dir_fds := G\<rparr>" "G(cd_directory cd := None, cd_root cd := None) = dir_fds (disk w)"
      "file_fds (disk w) (cd_directory cd) = None" "file_fds (disk w) (cd_root cd) = None" by auto
  from publish_confined_upload_spec [OF L cd(2) name, of opts source] obtain w2 r bytes where
    p: "publish_confined_upload px opts cd source name w1 = Some (w2, r)"
      "published (disk w1) (dir, name) bytes r (disk w2)"
      "r = Inr () \<longrightarrow> length bytes = tf_size source \<and>
         (\<exists>j. path_file (entries (disk w1)) (tf_path source) = Some j \<and> contents (disk w1) j = bytes)"
      "dir_fds (disk w2) = dir_fds (disk w1)" "file_fds (disk w2) = file_fds (disk w1)" by blast
  have "disk w2 = (disk w2)\<lparr>dir_fds := G\<rparr>" using p(4) cd(3) by simp
  from close_confined_disk [OF L this cd(4)] p(5) cd
  have c: "disk (fst (close_confined px cd (w2, f r))) = (disk w2)\<lparr>dir_fds := dir_fds (disk w)\<rparr>" by simp
  then show ?thesis
    using p cd by (intro exI [of _ "fst (close_confined px cd (w2, f r))"] exI [of _ r] exI [of _ bytes]
        exI [of _ dir]) (auto simp: close_confined_def closing_def)
qed

text \<open>
  C4. Atomic uploads: whatever the client sends and the disk answers, finalising an upload returns, and
  leaves no descriptor open and no byte of an existing file changed. When it fails, every directory
  entry a client can reach is as before; when it succeeds, exactly one is new, it lies below the shared
  root at the resolved path, its name was free, and it holds exactly the bytes of the completed body.
\<close>

theorem upload_atomic:
  assumes "posix_laws disk path_file path_dir budget px"
    and "\<forall>w. canonical_names (px_view px w)" "list_all path_name root"
  shows "\<exists>w' r. finalize_upload px opts root requested source w = Some (w', r) \<and>
    dir_fds (disk w') = dir_fds (disk w) \<and> file_fds (disk w') = file_fds (disk w) \<and>
    (\<forall>k. \<not> fresh_inode (disk w) k \<longrightarrow> contents (disk w') k = contents (disk w) k) \<and>
    (case r of
       Inl e \<Rightarrow> visible (disk w') = visible (disk w)
     | Inr path \<Rightarrow> prefix root path \<and>
         (\<exists>dir name i j. path_dir (entries (disk w)) (parent_path path) = Some dir \<and>
            path = parent_path path @ [name] \<and> visible (disk w) (dir, name) = None \<and>
            visible (disk w') = (visible (disk w))((dir, name) \<mapsto> i) \<and>
            path_file (entries (disk w)) (tf_path source) = Some j \<and>
            contents (disk w') i = contents (disk w) j \<and>
            length (contents (disk w) j) = tf_size source))"
proof -
  obtain w1 s where s: "upload_interruption px opts w = (w1, s)" by (cases "upload_interruption px opts w")
  note d1 = upload_interruption_quiet(1) [OF assms(1) s]
  let ?run = "finalize_upload px opts root requested source w"
  have "(\<exists>w' e. ?run = Some (w', Inl e) \<and> disk w' = disk w) \<or>
      (tf_completed source \<and> tf_path source \<noteq> [] \<and> s = None \<and>
       (\<exists>path. safe_path_resolve (px_view px w1) root requested = Inr path \<and> \<not> unnamed_destination root path))"
    using s d1 unfolding finalize_upload_def
    by (cases "tf_completed source \<and> tf_path source \<noteq> []"; cases s;
        cases "safe_path_resolve (px_view px w1) root requested") auto
  then consider (early) w' e where "?run = Some (w', Inl e)" "disk w' = disk w"
    | (resolved) path where "tf_completed source" "tf_path source \<noteq> []" "s = None"
        "safe_path_resolve (px_view px w1) root requested = Inr path" "\<not> unnamed_destination root path" by blast
  then show ?thesis
  proof cases
    case early
    then show ?thesis by auto
  next
    case resolved
    note dest = resolved_destination [OF _ assms(3) resolved(4,5)]
    obtain w2 o2 where o2: "open_confined_directory px root (parent_path path) w1 = (w2, o2)"
      by (cases "open_confined_directory px root (parent_path path) w1")
    note law = open_confined_directory_disk [OF assms(1) o2]
    show ?thesis
    proof (cases o2)
      case (Inl e)
      with resolved s o2 law d1 show ?thesis by (simp add: finalize_upload_def)
    next
      case (Inr cd)
      from publish_in_parent [OF assms(1) o2 [unfolded Inr], of "filename path"
          "map_sum id (\<lambda>_. path)" opts source] dest(3) assms(2)
      obtain w' r bytes dir where
        p: "map_option (\<lambda>(w3, r). close_confined px cd (w3, map_sum id (\<lambda>_. path) r))
              (publish_confined_upload px opts cd source (filename path) w2) =
            Some (w', map_sum id (\<lambda>_. path) r)"
          "path_dir (entries (disk w)) (parent_path path) = Some dir"
          "published (disk w) (dir, filename path) bytes r (disk w')"
          "r = Inr () \<longrightarrow> length bytes = tf_size source \<and>
             (\<exists>j. path_file (entries (disk w)) (tf_path source) = Some j \<and> contents (disk w) j = bytes)"
          "dir_fds (disk w') = dir_fds (disk w)" "file_fds (disk w') = file_fds (disk w)"
        unfolding d1 by blast
      have "?run = Some (w', map_sum id (\<lambda>_. path) r)"
        using resolved s o2 Inr p(1) by (simp add: finalize_upload_def)
      with p(2-) dest(1,2) assms(2) show ?thesis
        by (cases r) (fastforce simp: published_def)+
    qed
  qed
qed

section \<open>Examples\<close>

text \<open>A small disk, with one directory and one file, on which the calls behave as the laws say.\<close>

record sample_world =
  sw_entries :: "((nat \<times> string) \<times> nat) list"
  sw_contents :: "(nat \<times> string) list"
  sw_dirs :: "(fd \<times> nat) list"
  sw_files :: "(fd \<times> nat \<times> nat) list"
  sw_next :: nat

definition sample_bytes :: "sample_world \<Rightarrow> nat \<Rightarrow> string" where
  "sample_bytes w i = (case map_of (sw_contents w) i of None \<Rightarrow> [] | Some b \<Rightarrow> b)"

definition sample_disk :: "sample_world \<Rightarrow> (nat, nat) disk" where
  "sample_disk w = \<lparr>entries = map_of (sw_entries w), contents = sample_bytes w,
     dir_fds = map_of (sw_dirs w), file_fds = map_of (sw_files w)\<rparr>"

definition sample_path_dir :: "(nat, nat, nat) lookup" where
  "sample_path_dir E path = (if path = [''srv''] then Some 0 else None)"

definition sample_path_file :: "(nat, nat, nat) lookup" where
  "sample_path_file E path = (if path = [''tmp'', ''body''] then Some 7 else None)"

definition free_number :: "sample_world \<Rightarrow> bool" where
  "free_number w \<longleftrightarrow> list_all (\<lambda>e. fst e \<noteq> sw_next w) (sw_dirs w) \<and>
     list_all (\<lambda>e. fst e \<noteq> sw_next w \<and> fst (snd e) \<noteq> sw_next w) (sw_files w) \<and>
     list_all (\<lambda>e. snd e \<noteq> sw_next w) (sw_entries w)"

definition sample_open where
  "sample_open path flags w =
     (let n = sw_next w in
      if \<not> free_number w then (w, Inl EACCES)
      else if O_DIRECTORY \<in> set flags then
        (case sample_path_dir (map_of (sw_entries w)) path of
           None \<Rightarrow> (w, Inl ENOENT)
         | Some dir \<Rightarrow> (w\<lparr>sw_dirs := (n, dir) # sw_dirs w, sw_next := n + 1\<rparr>, Inr n))
      else
        (case sample_path_file (map_of (sw_entries w)) path of
           None \<Rightarrow> (w, Inl ENOENT)
         | Some i \<Rightarrow> (w\<lparr>sw_files := (n, i, 0) # sw_files w, sw_next := n + 1\<rparr>, Inr n)))"

definition sample_openat where
  "sample_openat parent name (flags :: open_flag list) w =
     (let n = sw_next w in
      case map_of (sw_dirs w) parent of
        None \<Rightarrow> (w, Inl ENOENT)
      | Some dir \<Rightarrow>
          if \<not> free_number w then (w, Inl EACCES)
          else if map_of (sw_entries w) (dir, name) \<noteq> None then (w, Inl EEXIST)
          else (w\<lparr>sw_entries := ((dir, name), n) # sw_entries w, sw_contents := (n, []) # sw_contents w,
                  sw_files := (n, n, 0) # sw_files w, sw_next := n + 1\<rparr>, Inr n))"

definition sample_close where
  "sample_close d w =
     (w\<lparr>sw_files := filter (\<lambda>e. fst e \<noteq> d) (sw_files w), sw_dirs := filter (\<lambda>e. fst e \<noteq> d) (sw_dirs w)\<rparr>, Inr ())"

definition sample_fstat where
  "sample_fstat d w =
     (case map_of (sw_files w) d of
        None \<Rightarrow> (w, Inl EACCES)
      | Some (i, off) \<Rightarrow>
          (w, Inr \<lparr>stat_kind = Stat_regular, stat_size = int (length (sample_bytes w i)), stat_mtime = 0\<rparr>))"

definition sample_read where
  "sample_read d n w =
     (case map_of (sw_files w) d of
        None \<Rightarrow> (w, Inl EACCES)
      | Some (i, off) \<Rightarrow>
          (let b = take n (drop off (sample_bytes w i)) in
           (w\<lparr>sw_files := (d, i, off + length b) # sw_files w\<rparr>, Inr b)))"

definition sample_write where
  "sample_write d bytes w =
     (case map_of (sw_files w) d of
        None \<Rightarrow> (w, Inl EACCES)
      | Some (i, off) \<Rightarrow>
          (w\<lparr>sw_contents := (i, sample_bytes w i @ bytes) # sw_contents w,
             sw_files := (d, i, off + length bytes) # sw_files w\<rparr>, Inr (length bytes)))"

definition sample_linkat where
  "sample_linkat (form :: bool) stage parent name w =
     (case (map_of (sw_files w) stage, map_of (sw_dirs w) parent) of
        (Some (i, off), Some dir) \<Rightarrow>
          (if map_of (sw_entries w) (dir, name) \<noteq> None then (w, Inl EEXIST)
           else (w\<lparr>sw_entries := ((dir, name), i) # sw_entries w\<rparr>, Inr ()))
      | _ \<Rightarrow> (w, Inl ENOENT))"

definition sample_unlinkat where
  "sample_unlinkat parent name (dir_only :: bool) w =
     (case map_of (sw_dirs w) parent of
        None \<Rightarrow> (w, Inl ENOENT)
      | Some dir \<Rightarrow> (w\<lparr>sw_entries := filter (\<lambda>e. fst e \<noteq> (dir, name)) (sw_entries w)\<rparr>, Inr ()))"

definition sample_px :: "sample_world posix" where
  "sample_px =
     \<lparr>px_open = sample_open, px_openat = sample_openat, px_close = sample_close, px_fstat = sample_fstat,
      px_read_link = (\<lambda>d w. (w, Inr (True, [''srv'']))), px_get_flags = (\<lambda>d w. (w, Inr [])),
      px_set_flags = (\<lambda>d fs w. (w, Inr ())), px_read = sample_read, px_write = sample_write,
      px_fsync = (\<lambda>d w. (w, Inr ())), px_mkdirat = (\<lambda>d n w. (w, Inl EACCES)),
      px_unlinkat = sample_unlinkat, px_linkat = sample_linkat, px_remove = (\<lambda>p w. (w, Inr ())),
      px_create_ruleset = (\<lambda>w. (w, Inl EACCES)), px_add_rule = (\<lambda>a b w. (w, Inr ())),
      px_no_new_privs = (\<lambda>w. (w, Inr ())), px_restrict_self = (\<lambda>d w. (w, Inr ())),
      px_start_thread = (\<lambda>w. (w, Inr ())), px_status = (\<lambda>p w. (w, Inr None)),
      px_iterate = (\<lambda>p w. (w, Inr ([], None))), px_temp_directory = (\<lambda>w. (w, Inr [''tmp''])),
      px_name_seed = (\<lambda>w. (w, 0, 0, 0, 0)), px_errno = (\<lambda>w. 0), px_view = (\<lambda>w. sample_fs),
      px_host = \<lparr>host_now = (\<lambda>w. (w, 0)), host_stop = (\<lambda>w. (w, False))\<rparr>\<rparr>"

lemma map_of_filter_key: "map_of (filter (\<lambda>e. fst e \<noteq> k) xs) = (map_of xs)(k := None)"
  by (induction xs) (auto simp: fun_eq_iff)

lemma free_number_fresh:
  assumes "free_number w"
  shows "fresh_inode (sample_disk w) (sw_next w)" "map_of (sw_files w) (sw_next w) = None"
    "map_of (sw_dirs w) (sw_next w) = None"
  using assms
  by (auto simp: free_number_def fresh_inode_def sample_disk_def list_all_iff ran_def map_of_eq_None_iff
      dest!: map_of_SomeD)

lemmas sample_call_defs = sample_px_def sample_disk_def sample_open_def sample_openat_def sample_close_def
  sample_fstat_def sample_read_def sample_write_def sample_linkat_def sample_unlinkat_def Let_def

definition sample_budget :: "sample_world \<Rightarrow> nat" where "sample_budget w = 0"

lemma sample_laws: "posix_laws sample_disk sample_path_file sample_path_dir sample_budget sample_px"
proof -
  have "open_law sample_disk sample_path_file sample_budget sample_px"
    by (auto simp: open_law_def sample_call_defs sample_bytes_def fun_eq_iff sample_budget_def free_number_fresh split: option.splits if_splits)
  moreover have "open_directory_law sample_disk sample_path_dir sample_budget sample_px"
    by (auto simp: open_directory_law_def sample_call_defs sample_bytes_def fun_eq_iff sample_budget_def free_number_fresh split: option.splits if_splits)
  moreover have "create_law sample_disk sample_budget sample_px"
    using free_number_fresh
    by (auto simp: create_law_def sample_call_defs sample_bytes_def fun_eq_iff sample_budget_def split: option.splits if_splits)
  moreover have "stat_law sample_disk sample_budget sample_px"
    by (auto simp: stat_law_def quiet_def sample_call_defs sample_bytes_def fun_eq_iff sample_budget_def split: option.splits)
  moreover have "read_law sample_disk sample_budget sample_px"
    by (auto simp: read_law_def min_def sample_call_defs sample_bytes_def fun_eq_iff sample_budget_def split: option.splits)
  moreover have "write_law sample_disk sample_budget sample_px"
    by (auto simp: write_law_def sample_call_defs sample_bytes_def fun_eq_iff sample_budget_def split: option.splits)
  moreover have "link_law sample_disk sample_budget sample_px"
    by (auto simp: link_law_def sample_call_defs sample_bytes_def fun_eq_iff sample_budget_def split: option.splits if_splits)
  moreover have "unlink_law sample_disk sample_budget sample_px"
    by (auto simp: unlink_law_def sample_call_defs sample_bytes_def fun_eq_iff sample_budget_def map_of_filter_key split: option.splits)
  moreover have "close_law sample_disk sample_budget sample_px"
    by (auto simp: close_law_def sample_call_defs sample_bytes_def fun_eq_iff sample_budget_def map_of_filter_key)
  ultimately show ?thesis by (auto simp: posix_laws_def quiet_def sample_px_def sample_budget_def)
qed


definition sample_upload_world :: sample_world where
  "sample_upload_world = \<lparr>sw_entries = [((0, ''old''), 5)], sw_contents = [(5, ''x''), (7, ''hello'')],
     sw_dirs = [], sw_files = [], sw_next = 10\<rparr>"

definition sample_source :: temporary_file where
  "sample_source = \<lparr>tf_path = [''tmp'', ''body''], tf_handle = None, tf_size = 5, tf_completed = True\<rparr>"

definition sample_io :: io_options where
  "sample_io = \<lparr>io_stop_possible = True, io_deadline = Some 9\<rparr>"

theorem upload_atomic_witness:
  "\<exists>w' r. finalize_upload sample_px sample_io [''srv''] ''new'' sample_source sample_upload_world = Some (w', r) \<and>
     sample_bytes w' 5 = ''x'' \<and> sw_files w' = [] \<and>
     (r = Inr [''srv'', ''new''] \<longrightarrow>
        (\<exists>i. map_of (sw_entries w') (0, ''new'') = Some i \<and> sample_bytes w' i = ''hello''))"
proof -
  let ?w = sample_upload_world
  have names: "\<forall>w. canonical_names (px_view sample_px w)" "list_all path_name [''srv'']"
    by (simp_all add: sample_px_def canonical_names_def sample_fs_def path_name_def)
  have old: "\<not> fresh_inode (sample_disk ?w) 5" "contents (sample_disk ?w) 5 = ''x''"
    by (auto simp: fresh_inode_def sample_disk_def sample_upload_world_def sample_bytes_def ran_def)
  have new: "\<not> is_upload_stage_component ''new''"
    by (simp add: is_upload_stage_component_def upload_stage_prefix_def)
  have body: "contents (sample_disk ?w) 7 = ''hello''"
    by (simp add: sample_disk_def sample_upload_world_def sample_bytes_def)
  from upload_atomic [OF sample_laws names, of sample_io "''new''" sample_source ?w]
  obtain w' r where u: "finalize_upload sample_px sample_io [''srv''] ''new'' sample_source ?w = Some (w', r)"
    "file_fds (sample_disk w') = file_fds (sample_disk ?w)" "contents (sample_disk w') 5 = contents (sample_disk ?w) 5"
    "\<forall>path. r = Inr path \<longrightarrow> (\<exists>dir name i j. sample_path_dir (entries (sample_disk ?w)) (parent_path path) = Some dir \<and>
       path = parent_path path @ [name] \<and> visible (sample_disk w') = (visible (sample_disk ?w))((dir, name) \<mapsto> i) \<and>
       sample_path_file (entries (sample_disk ?w)) (tf_path sample_source) = Some j \<and>
       contents (sample_disk w') i = contents (sample_disk ?w) j)"
    using old(1) by fastforce
  have "sw_files w' = []"
    using u(2) by (simp add: sample_disk_def sample_upload_world_def)
  moreover have "\<exists>i. map_of (sw_entries w') (0, ''new'') = Some i \<and> sample_bytes w' i = ''hello''"
    if "r = Inr [''srv'', ''new'']"
    using u(4) that new body
    by (auto simp: parent_path_def sample_path_dir_def sample_path_file_def sample_source_def sample_disk_def
        visible_def fun_eq_iff split: if_splits)
  moreover have "sample_bytes w' 5 = ''x''" using u(3) old(2) by (simp add: sample_disk_def)
  ultimately show ?thesis using u(1) by blast
qed

end
