(* ===== verification/Filesystem_Service.thy ===== *)
theory Filesystem_Service
  imports Filesystem_Operations
begin

text \<open>
  The filesystem use cases, \<^verbatim>\<open>src/application/filesystem_service.cpp\<close>: each checks the permissions of its
  location (\<^verbatim>\<open>include/sparenode/filesystem/location_permissions.hpp\<close>), takes a lease from the resource
  coordinator, runs the operation on the disk and gives the lease back; a file being streamed keeps it.

  The state is the operating system and the registry of the coordinator, which all locations share.
  What other threads do to the registry while a lease is acquired is \<open>fs_meanwhile\<close>.
\<close>

section \<open>Services\<close>

record location_permissions =
  allows_read :: bool
  allows_write :: bool
  allows_delete :: bool

record filesystem_service =
  service_root :: "string list"
  service_permissions :: location_permissions

record 'w files_state =
  files_os :: 'w
  files_registry :: coordinator_state

record 'w fs_env =
  fs_posix :: "'w posix"
  fs_meanwhile :: "coordinator_state \<Rightarrow> coordinator_state"

definition fs_observe :: "'w posix \<Rightarrow> io_options \<Rightarrow> 'w \<Rightarrow> 'w \<times> bool \<times> int" where
  "fs_observe px opts w =
     (case host_now (px_host px) w of
        (w1, now) \<Rightarrow> (case stop_requested px opts w1 of (w2, stop) \<Rightarrow> (w2, stop, now)))"

definition service_acquire ::
    "'w fs_env \<Rightarrow> filesystem_service \<Rightarrow> string \<Rightarrow> access_mode \<Rightarrow> io_options \<Rightarrow> 'w files_state \<Rightarrow>
     'w files_state \<times> (access_error, nat) result" where
  "service_acquire env svc requested mode opts s =
     (case acquire (px_view (fs_posix env) (files_os s)) (fs_observe (fs_posix env) opts) (fs_meanwhile env)
             (service_root svc) requested mode (io_deadline opts) (files_os s, files_registry s) of
        ((w, registry), r) \<Rightarrow> (s\<lparr>files_os := w, files_registry := registry\<rparr>, r))"

text \<open>The destructor of a lease.\<close>

definition release_lease :: "nat \<Rightarrow> 'w files_state \<Rightarrow> 'w files_state" where
  "release_lease lease s = s\<lparr>files_registry := release lease (files_registry s)\<rparr>"

section \<open>Reading\<close>

record file_read =
  fr_stream :: file_read_stream
  fr_lease :: nat
  fr_options :: io_options

datatype read_resource = Read_directory "listing_entry list" | Read_file file_read

datatype service_read_error =
    Reading_forbidden | Reading_coordination_failed access_error
  | Reading_listing_failed listing_error | Reading_file_failed read_error

definition read_coordination_error :: "access_error \<Rightarrow> service_read_error" where
  "read_coordination_error e =
     (case e of
        (Invalid_path, Some (code, _)) \<Rightarrow> Reading_listing_failed (Listing_invalid_path, None, Some code)
      | _ \<Rightarrow> Reading_coordination_failed e)"

definition service_read ::
    "'w fs_env \<Rightarrow> filesystem_service \<Rightarrow> string \<Rightarrow> io_options \<Rightarrow> 'w files_state \<Rightarrow>
     'w files_state \<times> (service_read_error, read_resource) result" where
  "service_read env svc requested opts s =
     (if \<not> allows_read (service_permissions svc) then (s, Inl Reading_forbidden)
      else
        (case service_acquire env svc requested Shared_read opts s of
           (s1, Inl e) \<Rightarrow> (s1, Inl (read_coordination_error e))
         | (s1, Inr lease) \<Rightarrow>
             (case list_directory (fs_posix env) (service_root svc) requested (files_os s1) of
                (w2, Inr listing) \<Rightarrow>
                  (release_lease lease (s1\<lparr>files_os := w2\<rparr>), Inr (Read_directory listing))
              | (w2, Inl e) \<Rightarrow>
                  (if fst e \<noteq> Listing_not_directory
                   then (release_lease lease (s1\<lparr>files_os := w2\<rparr>), Inl (Reading_listing_failed e))
                   else
                     (case file_stream_open (fs_posix env) (service_root svc) requested w2 of
                        (w3, Inl e3) \<Rightarrow>
                          (release_lease lease (s1\<lparr>files_os := w3\<rparr>), Inl (Reading_file_failed e3))
                      | (w3, Inr stream) \<Rightarrow>
                          (s1\<lparr>files_os := w3\<rparr>,
                           Inr (Read_file \<lparr>fr_stream = stream, fr_lease = lease, fr_options = opts\<rparr>)))))))"

definition fr_size :: "file_read \<Rightarrow> nat" where
  "fr_size f = stream_size (fr_stream f)"

text \<open>The interruption of the current operation is checked before that of the whole response.\<close>

definition fr_read ::
    "'w posix \<Rightarrow> file_read \<Rightarrow> nat \<Rightarrow> io_options \<Rightarrow> 'w \<Rightarrow> ('w \<times> (read_error, string) result) option" where
  "fr_read px f capacity opts w =
     (case interruption_of (px_host px) opts w of
        (w1, status) \<Rightarrow>
          (if status \<noteq> Not_interrupted then Some (w1, Inl (Read_cancelled, None, None))
           else
             (case interruption_of (px_host px) (fr_options f) w1 of
                (w2, status2) \<Rightarrow>
                  (if status2 \<noteq> Not_interrupted then Some (w2, Inl (Read_cancelled, None, None))
                   else file_stream_read px opts (fr_stream f) capacity w2))))"

text \<open>Destroying the resource closes the file before the lease is released.\<close>

definition fr_close :: "'w posix \<Rightarrow> file_read \<Rightarrow> 'w files_state \<Rightarrow> 'w files_state" where
  "fr_close px f s =
     release_lease (fr_lease f)
       (s\<lparr>files_os := fst (px_close px (stream_descriptor (fr_stream f)) (files_os s))\<rparr>)"

section \<open>Uploading\<close>

record upload_content =
  content_memory :: string
  content_size :: nat
  content_artifact :: "temporary_file option"
  content_options :: io_options

datatype service_upload_error =
    Uploading_forbidden | Uploading_invalid | Uploading_coordination_failed access_error
  | Uploading_temporary_failed file_error | Uploading_finalization_failed upload_error

definition upload_coordination_error :: "access_error \<Rightarrow> service_upload_error" where
  "upload_coordination_error e =
     (case e of
        (Invalid_path, Some p) \<Rightarrow> Uploading_finalization_failed (Upload_invalid_destination, Some p, None)
      | _ \<Rightarrow> Uploading_coordination_failed e)"

definition publish_source ::
    "'w fs_env \<Rightarrow> filesystem_service \<Rightarrow> string \<Rightarrow> io_options \<Rightarrow> temporary_file \<Rightarrow> 'w \<Rightarrow>
     ('w \<times> (service_upload_error, unit) result) option" where
  "publish_source env svc requested opts source w =
     map_option (map_prod id (map_sum Uploading_finalization_failed (\<lambda>_. ())))
       (finalize_upload (fs_posix env) opts (service_root svc) requested source w)"

text \<open>A body kept in memory is first written to a temporary file, which is removed at the end.\<close>

definition upload_memory ::
    "'w fs_env \<Rightarrow> filesystem_service \<Rightarrow> string \<Rightarrow> upload_content \<Rightarrow> 'w \<Rightarrow>
     ('w \<times> (service_upload_error, unit) result) option" where
  "upload_memory env svc requested content w =
     (if content_size content \<noteq> length (content_memory content) then Some (w, Inl Uploading_invalid)
      else
        (case tf_create (fs_posix env) w of
           (w1, Inl e) \<Rightarrow> Some (w1, Inl (Uploading_temporary_failed e))
         | (w1, Inr t) \<Rightarrow>
             Option.bind (tf_write (fs_posix env) (content_options content) t (content_memory content) w1)
               (\<lambda>(w2, t2, written).
                  case written of
                    Inl e \<Rightarrow> Some (tf_cleanup (fs_posix env) t2 w2, Inl (Uploading_temporary_failed e))
                  | Inr _ \<Rightarrow>
                      (case tf_complete (fs_posix env) (content_options content) t2 w2 of
                         (w3, t3, Inl e) \<Rightarrow>
                           Some (tf_cleanup (fs_posix env) t3 w3, Inl (Uploading_temporary_failed e))
                       | (w3, t3, Inr _) \<Rightarrow>
                           map_option (\<lambda>(w4, r). (tf_cleanup (fs_posix env) t3 w4, r))
                             (publish_source env svc requested (content_options content) t3 w3)))))"

definition service_upload ::
    "'w fs_env \<Rightarrow> filesystem_service \<Rightarrow> string \<Rightarrow> upload_content \<Rightarrow> 'w files_state \<Rightarrow>
     ('w files_state \<times> (service_upload_error, unit) result) option" where
  "service_upload env svc requested content s =
     (if \<not> allows_write (service_permissions svc) then Some (s, Inl Uploading_forbidden)
      else
        (case service_acquire env svc requested Exclusive_mutation (content_options content) s of
           (s1, Inl e) \<Rightarrow> Some (s1, Inl (upload_coordination_error e))
         | (s1, Inr lease) \<Rightarrow>
             map_option (\<lambda>(w2, r). (release_lease lease (s1\<lparr>files_os := w2\<rparr>), r))
               (case content_artifact content of
                  Some source \<Rightarrow>
                    publish_source env svc requested (content_options content) source (files_os s1)
                | None \<Rightarrow> upload_memory env svc requested content (files_os s1))))"

section \<open>Creating a directory and removing an entry\<close>

datatype service_creation_error =
    Creating_forbidden | Creating_content_not_allowed | Creating_coordination_failed access_error
  | Creating_failed creation_error

definition creation_coordination_error :: "access_error \<Rightarrow> service_creation_error" where
  "creation_coordination_error e =
     (case e of
        (Invalid_path, Some p) \<Rightarrow> Creating_failed (Creation_invalid_destination, Some p, None)
      | _ \<Rightarrow> Creating_coordination_failed e)"

definition service_create_directory ::
    "'w fs_env \<Rightarrow> filesystem_service \<Rightarrow> string \<Rightarrow> nat \<Rightarrow> io_options \<Rightarrow> 'w files_state \<Rightarrow>
     'w files_state \<times> (service_creation_error, unit) result" where
  "service_create_directory env svc requested content_bytes opts s =
     (if \<not> allows_write (service_permissions svc) then (s, Inl Creating_forbidden)
      else if content_bytes \<noteq> 0 then (s, Inl Creating_content_not_allowed)
      else
        (case service_acquire env svc requested Exclusive_mutation opts s of
           (s1, Inl e) \<Rightarrow> (s1, Inl (creation_coordination_error e))
         | (s1, Inr lease) \<Rightarrow>
             (case create_directory (fs_posix env) (service_root svc) requested (files_os s1) of
                (w2, r) \<Rightarrow> (release_lease lease (s1\<lparr>files_os := w2\<rparr>), map_sum Creating_failed (\<lambda>_. ()) r))))"

datatype service_removal_error =
    Removing_forbidden | Removing_content_not_allowed | Removing_coordination_failed access_error
  | Removing_failed removal_error

definition removal_coordination_error :: "access_error \<Rightarrow> service_removal_error" where
  "removal_coordination_error e =
     (case e of
        (Invalid_path, Some p) \<Rightarrow> Removing_failed (Removal_invalid_destination, Some p, None)
      | _ \<Rightarrow> Removing_coordination_failed e)"

definition service_remove ::
    "'w fs_env \<Rightarrow> filesystem_service \<Rightarrow> string \<Rightarrow> nat \<Rightarrow> io_options \<Rightarrow> 'w files_state \<Rightarrow>
     'w files_state \<times> (service_removal_error, unit) result" where
  "service_remove env svc requested content_bytes opts s =
     (if \<not> allows_delete (service_permissions svc) then (s, Inl Removing_forbidden)
      else if content_bytes \<noteq> 0 then (s, Inl Removing_content_not_allowed)
      else
        (case service_acquire env svc requested Exclusive_mutation opts s of
           (s1, Inl e) \<Rightarrow> (s1, Inl (removal_coordination_error e))
         | (s1, Inr lease) \<Rightarrow>
             (case remove_filesystem_entry (fs_posix env) (service_root svc) requested (files_os s1) of
                (w2, r) \<Rightarrow> (release_lease lease (s1\<lparr>files_os := w2\<rparr>), map_sum Removing_failed id r))))"

end
