(* ===== verification/Api_Routing.thy ===== *)
theory Api_Routing
  imports Http_Router Buffered_Request
begin

text \<open>
  The composition layer of the HTTP API: JSON responses (\<^verbatim>\<open>src/http/api/json_response.cpp\<close>), the
  pipeline of protected-route policies (\<^verbatim>\<open>src/http/api/protected_route_policy.cpp\<close>), the builder
  that keeps public and protected routes apart (\<^verbatim>\<open>src/http/api/api_router_builder.cpp\<close>) and the
  application made from a router (\<^verbatim>\<open>make_http_application\<close>). A handler is a state transformer over a
  world \<open>'w\<close>; its response may carry a body source \<open>'s\<close>.
\<close>

section \<open>Responses\<close>

type_synonym 's api_result = "(route_error, http_response \<times> 's option) result"

type_synonym ('w, 's) api_action = "'w \<Rightarrow> 'w \<times> 's api_result"

definition without_source :: "(route_error, http_response) result \<Rightarrow> 's api_result" where
  "without_source r = map_sum id (\<lambda>response. (response, None)) r"

definition json_content_type :: http_header where
  "json_content_type =
     \<lparr>field_name = ''Content-Type'', field_value = ''application/json; charset=utf-8''\<rparr>"

definition make_json_response ::
    "string \<Rightarrow> nat \<Rightarrow> string \<Rightarrow> http_header list \<Rightarrow> (route_error, http_response) result" where
  "make_json_response date status body additional_headers =
     (let headers = json_content_type #
            filter (\<lambda>h. \<not> ascii_case_insensitive_equal (field_name h) ''Content-Type'')
              additional_headers in
      case create_response date status (http_reason_phrase status) headers body of
        Inl e \<Rightarrow> Inl (Response_validation_failure (fst e))
      | Inr response \<Rightarrow> Inr response)"

section \<open>Policies of protected routes\<close>

record 'f api_context =
  ctx_request :: "'f request_view"
  ctx_parameters :: string
  ctx_principal :: "string option"

text \<open>The context is a mutable reference: a handler returns it as it leaves it.\<close>

type_synonym ('f, 'w, 's) api_handler = "'f api_context \<Rightarrow> 'w \<Rightarrow> 'w \<times> 'f api_context \<times> 's api_result"

type_synonym ('f, 'w, 's) api_decorator = "('f, 'w, 's) api_handler \<Rightarrow> ('f, 'w, 's) api_handler"

type_synonym ('f, 'w, 's) http_handler = "('f request_view, ('w, 's) api_action) route_handler"

record ('f, 'w, 's) protected_policies =
  policy_transport :: "('f, 'w, 's) api_decorator option"
  policy_session_authentication :: "('f, 'w, 's) api_decorator option"
  policy_origin_csrf :: "('f, 'w, 's) api_decorator option"
  policy_authorization :: "('f, 'w, 's) api_decorator option"
  policy_throttling :: "('f, 'w, 's) api_decorator option"
  policy_resource_coordination :: "('f, 'w, 's) api_decorator option"

definition policy_order ::
    "('f, 'w, 's) protected_policies \<Rightarrow> ('f, 'w, 's) api_decorator option list" where
  "policy_order p =
     [policy_transport p, policy_session_authentication p, policy_origin_csrf p,
      policy_authorization p, policy_throttling p, policy_resource_coordination p]"

definition operation_handler :: "('f, 'w, 's) http_handler \<Rightarrow> ('f, 'w, 's) api_handler" where
  "operation_handler handler ctx w =
     (case handler (ctx_request ctx) (ctx_parameters ctx) w of (w1, r) \<Rightarrow> (w1, ctx, r))"

definition decorate ::
    "('f, 'w, 's) protected_policies \<Rightarrow> ('f, 'w, 's) http_handler \<Rightarrow> ('f, 'w, 's) http_handler" where
  "decorate policies handler request parameters w =
     (let decorated = foldl (\<lambda>h policy. case policy of None \<Rightarrow> h | Some p \<Rightarrow> p h)
            (operation_handler handler) (rev (policy_order policies)) in
      case decorated \<lparr>ctx_request = request, ctx_parameters = parameters, ctx_principal = None\<rparr> w of
        (w1, ctx, r) \<Rightarrow> (w1, r))"

section \<open>The builder\<close>

type_synonym ('f, 'w, 's) api_routes = "('f request_view, ('w, 's) api_action) route list"

record ('f, 'w, 's) api_builder =
  builder_decorator :: "(('f, 'w, 's) http_handler \<Rightarrow> ('f, 'w, 's) http_handler) option"
  builder_routes :: "('f, 'w, 's) api_routes"
  public_routes :: "(http_method \<times> string) list"
  protected_routes :: "(http_method \<times> string) list"

definition make_builder ::
    "(('f, 'w, 's) http_handler \<Rightarrow> ('f, 'w, 's) http_handler) option \<Rightarrow> ('f, 'w, 's) api_builder" where
  "make_builder decorator =
     \<lparr>builder_decorator = decorator, builder_routes = [], public_routes = [], protected_routes = []\<rparr>"

definition register_public ::
    "http_method \<Rightarrow> string \<Rightarrow> ('f, 'w, 's) http_handler option \<Rightarrow> ('f, 'w, 's) api_builder \<Rightarrow>
     ('f, 'w, 's) api_builder \<times> (route_registration_error, unit) result" where
  "register_public meth pattern handler b =
     (case register_route meth pattern handler (builder_routes b) of
        (routes, Inl e) \<Rightarrow> (b\<lparr>builder_routes := routes\<rparr>, Inl e)
      | (routes, Inr u) \<Rightarrow>
          (b\<lparr>builder_routes := routes, public_routes := public_routes b @ [(meth, pattern)]\<rparr>, Inr u))"

text \<open>A protected route is registered with a handler that can be called.\<close>

definition register_protected ::
    "http_method \<Rightarrow> string \<Rightarrow> ('f, 'w, 's) http_handler \<Rightarrow> ('f, 'w, 's) api_builder \<Rightarrow>
     ('f, 'w, 's) api_builder \<times> (route_registration_error, unit) result" where
  "register_protected meth pattern handler b =
     (let decorated = (case builder_decorator b of None \<Rightarrow> handler | Some d \<Rightarrow> d handler) in
      case register_route meth pattern (Some decorated) (builder_routes b) of
        (routes, Inl e) \<Rightarrow> (b\<lparr>builder_routes := routes\<rparr>, Inl e)
      | (routes, Inr u) \<Rightarrow>
          (b\<lparr>builder_routes := routes, protected_routes := protected_routes b @ [(meth, pattern)]\<rparr>, Inr u))"

definition build_router :: "('f, 'w, 's) api_builder \<Rightarrow> ('f, 'w, 's) api_routes" where
  "build_router b = builder_routes b"

section \<open>The application\<close>

definition route_error_detail :: "route_error \<Rightarrow> int" where
  "route_error_detail e =
     (case e of
        Handler_failure detail \<Rightarrow> detail
      | Response_validation_failure code \<Rightarrow>
          (case code of
             Invalid_status_code \<Rightarrow> 0 | Invalid_reason_phrase \<Rightarrow> 1 | Too_many_response_headers \<Rightarrow> 2
           | Invalid_header_name \<Rightarrow> 3 | Invalid_header_value \<Rightarrow> 4 | Managed_framing_header \<Rightarrow> 5
           | Managed_connection_header \<Rightarrow> 6 | Body_not_allowed \<Rightarrow> 7 | Response_head_too_large \<Rightarrow> 8
           | Memory_body_too_large \<Rightarrow> 9 | Missing_body_reader \<Rightarrow> 10 | Managed_date_header \<Rightarrow> 11))"

definition dispatch_api ::
    "string \<Rightarrow> ('f, 'w, 's) api_routes \<Rightarrow> 'f request_view \<Rightarrow> ('w, 's) api_action" where
  "dispatch_api date routes request =
     dispatch (\<lambda>r w. (w, without_source r)) date view_method view_target routes request"

definition make_http_application ::
    "string \<Rightarrow> ('f, 'w, 's) api_routes option \<Rightarrow>
     ('f request_view \<Rightarrow> 'w \<Rightarrow> 'w \<times> (int + http_response \<times> 's option) option) option" where
  "make_http_application date router =
     map_option (\<lambda>routes request w.
         case dispatch_api date routes request w of
           (w1, Inl e) \<Rightarrow> (w1, Some (Inl (route_error_detail e)))
         | (w1, Inr response) \<Rightarrow> (w1, Some (Inr response))) router"

end
