(* ===== verification/Auth_Api.thy ===== *)
theory Auth_Api
  imports Api_Routing Json_Codec Authentication
begin

text \<open>
  Login, logout and the session policy of protected routes:
  \<^verbatim>\<open>src/authentication/api/authentication_api.cpp\<close> and
  \<^verbatim>\<open>src/authentication/api/session_authentication_policy.cpp\<close>, over the session and authentication
  services. What the services need from outside (credential provider, password verifier, session
  codec, clock) is the record \<open>auth_env\<close>; the text of the current date is an argument of the
  handlers. Allocation failures, which the handlers map to 503, are not modelled.
\<close>

section \<open>The session cookie\<close>

definition session_cookie_name :: string where
  "session_cookie_name = ''spnode_session''"

text \<open>The credential found in the Cookie field, \<open>None\<close> for a malformed one.\<close>

type_synonym cookie_credential = "string option"

text \<open>\<^verbatim>\<open>std::string_view::substr(0, find(c))\<close> and what follows the byte found.\<close>

function cookie_loop :: "string \<Rightarrow> string \<Rightarrow> cookie_credential" where
  "cookie_loop v remaining =
     (if remaining = [] then Some v
      else
        (let delimiter = sv_find CHR '';'' remaining 0;
             component = trim_optional_whitespace
               (case delimiter of None \<Rightarrow> remaining | Some i \<Rightarrow> take i remaining);
             continue = (\<lambda>v. case delimiter of
                               None \<Rightarrow> Some v
                             | Some i \<Rightarrow> cookie_loop v (drop (i + 1) remaining)) in
         case sv_find CHR ''='' component 0 of
           None \<Rightarrow> continue v
         | Some separator \<Rightarrow>
             (if take separator component = session_cookie_name then
                (if v \<noteq> [] then None
                 else if drop (separator + 1) component = [] then None
                 else continue (drop (separator + 1) component))
              else continue v)))"
  by pat_completeness auto
termination
  by (relation "measure (\<lambda>(v, remaining). length remaining)") (auto dest: sv_find_Some)

declare cookie_loop.simps [simp del]

definition cookie_field_credential :: "string \<Rightarrow> cookie_credential" where
  "cookie_field_credential field = cookie_loop [] field"

fun extract_credential :: "http_header list \<Rightarrow> bool \<Rightarrow> cookie_credential \<Rightarrow> cookie_credential" where
  "extract_credential [] found result = result"
| "extract_credential (h # hs) found result =
     (if \<not> ascii_case_insensitive_equal (field_name h) ''cookie'' then extract_credential hs found result
      else if found then None
      else extract_credential hs True (cookie_field_credential (field_value h)))"

definition session_cookie_credential :: "'f request_view \<Rightarrow> cookie_credential" where
  "session_cookie_credential request = extract_credential (view_fields request) False (Some [])"

section \<open>State and environment\<close>

record ('c, 'd, 'x) api_world =
  world_host :: 'c
  world_auth :: auth_service
  world_sessions :: "('d, string) session_store"
  world_files :: 'x

record ('c, 'd) auth_env =
  auth_find :: "string \<Rightarrow> (unit, credential_record option) result"
  auth_verify :: "string \<Rightarrow> string \<Rightarrow> (unit, bool) result"
  auth_generate :: "'c \<Rightarrow> 'c \<times> (credential_error, string \<times> 'd) result"
  auth_digest :: "string \<Rightarrow> (credential_error, 'd) result"
  auth_clock :: "'c \<Rightarrow> 'c \<times> int"

definition request_secure :: "'f request_view \<Rightarrow> bool" where
  "request_secure request =
     (case view_transport request of None \<Rightarrow> False | Some c \<Rightarrow> context_secure c)"

section \<open>Responses\<close>

definition json_error :: "string \<Rightarrow> string" where
  "json_error code = ''{'' @ [quote] @ ''error'' @ [quote] @ '':'' @ [quote] @ code @ [quote] @ ''}''"

definition malformed_login :: "string \<Rightarrow> (route_error, http_response) result" where
  "malformed_login date = make_json_response date 400 (json_error ''invalid_login_request'') []"

definition unsupported_media_type :: "string \<Rightarrow> (route_error, http_response) result" where
  "unsupported_media_type date = make_json_response date 415 (json_error ''unsupported_media_type'') []"

definition invalid_credentials :: "string \<Rightarrow> (route_error, http_response) result" where
  "invalid_credentials date = make_json_response date 401 (json_error ''invalid_credentials'') []"

definition authentication_unavailable :: "string \<Rightarrow> (route_error, http_response) result" where
  "authentication_unavailable date =
     make_json_response date 503 (json_error ''authentication_unavailable'') []"

definition authentication_throttled :: "string \<Rightarrow> (route_error, http_response) result" where
  "authentication_throttled date = make_json_response date 429 (json_error ''authentication_throttled'') []"

definition authentication_required :: "string \<Rightarrow> (route_error, http_response) result" where
  "authentication_required date =
     make_json_response date 401 (json_error ''authentication_required'')
       [\<lparr>field_name = ''WWW-Authenticate'',
         field_value = ''SpareNodeSession realm='' @ [quote] @ ''SpareNode'' @ [quote]\<rparr>]"

definition session_cookie :: "string \<Rightarrow> bool \<Rightarrow> string" where
  "session_cookie credential secure =
     session_cookie_name @ ''='' @ credential @ ''; Path=/; HttpOnly; SameSite=Strict'' @
     (if secure then ''; Secure'' else [])"

definition expired_session_cookie :: "bool \<Rightarrow> string" where
  "expired_session_cookie secure = session_cookie [] secure @ ''; Max-Age=0''"

definition authentication_response ::
    "string \<Rightarrow> string option \<Rightarrow> (route_error, http_response) result" where
  "authentication_response date cookie =
     (case create_response date 204 (http_reason_phrase 204)
             (case cookie of
                None \<Rightarrow> []
              | Some c \<Rightarrow> [\<lparr>field_name = ''Set-Cookie'', field_value = c\<rparr>]) [] of
        Inl e \<Rightarrow> Inl (Response_validation_failure (fst e))
      | Inr response \<Rightarrow> Inr response)"

section \<open>Login and logout\<close>

fun content_type_loop :: "http_header list \<Rightarrow> string option \<Rightarrow> string option option" where
  "content_type_loop [] v = Some v"
| "content_type_loop (h # hs) v =
     (if \<not> ascii_case_insensitive_equal (field_name h) ''Content-Type'' then content_type_loop hs v
      else if v \<noteq> None then None
      else content_type_loop hs (Some (field_value h)))"

definition has_json_content_type :: "'f request_view \<Rightarrow> bool" where
  "has_json_content_type request =
     (case content_type_loop (view_fields request) None of
        None \<Rightarrow> False
      | Some None \<Rightarrow> False
      | Some (Some v) \<Rightarrow>
          (let separator = sv_find CHR '';'' v 0;
               media_type = trim_optional_whitespace
                 (case separator of None \<Rightarrow> v | Some i \<Rightarrow> take i v) in
           if \<not> ascii_case_insensitive_equal media_type ''application/json'' then False
           else
             (case separator of
                None \<Rightarrow> True
              | Some i \<Rightarrow>
                  (let parameter = trim_optional_whitespace (drop (i + 1) v) in
                   case sv_find CHR ''='' parameter 0 of
                     None \<Rightarrow> False
                   | Some equals \<Rightarrow>
                       (if sv_find CHR '';'' parameter 0 \<noteq> None then False
                        else
                          ascii_case_insensitive_equal
                            (trim_optional_whitespace (take equals parameter)) ''charset'' \<and>
                          ascii_case_insensitive_equal
                            (trim_optional_whitespace (drop (equals + 1) parameter)) ''utf-8'')))))"

definition maximum_login_body_bytes :: nat where
  "maximum_login_body_bytes = 4096"

definition login_service where
  "login_service env login password previous w =
     (case session_login (auth_find env) (auth_verify env) (auth_generate env) (auth_digest env)
             (auth_clock env) login password previous
             (world_host w, world_auth w, world_sessions w) of
        ((c, a, s), r) \<Rightarrow>
          (w\<lparr>world_host := c, world_auth := a, world_sessions := s\<rparr>, r))"

definition api_login ::
    "string \<Rightarrow> ('c, 'd) auth_env \<Rightarrow> 'f request_view \<Rightarrow> ('c, 'd, 'x) api_world \<Rightarrow>
     ('c, 'd, 'x) api_world \<times> (route_error, http_response) result" where
  "api_login date env request w =
     (if \<not> has_json_content_type request then (w, unsupported_media_type date)
      else if view_body_size request = 0 \<or> view_body_size request > maximum_login_body_bytes \<or>
              length (view_body request) \<noteq> view_body_size request \<or>
              view_temporary_body request \<noteq> None
      then (w, malformed_login date)
      else
        (case parse_login (view_body request) of
           None \<Rightarrow> (w, malformed_login date)
         | Some (login, password) \<Rightarrow>
             (case session_cookie_credential request of
                None \<Rightarrow> (w, malformed_login date)
              | Some previous \<Rightarrow>
                  (case login_service env login password previous w of
                     (w1, Inl Invalid_credentials) \<Rightarrow> (w1, invalid_credentials date)
                   | (w1, Inl Throttled) \<Rightarrow> (w1, authentication_throttled date)
                   | (w1, Inl Unavailable) \<Rightarrow> (w1, authentication_unavailable date)
                   | (w1, Inr credential) \<Rightarrow>
                       (w1, authentication_response date
                              (Some (session_cookie credential (request_secure request))))))))"

definition api_logout ::
    "string \<Rightarrow> ('c, 'd) auth_env \<Rightarrow> 'f request_view \<Rightarrow> ('c, 'd, 'x) api_world \<Rightarrow>
     ('c, 'd, 'x) api_world \<times> (route_error, http_response) result" where
  "api_logout date env request w =
     (case session_cookie_credential request of
        None \<Rightarrow> (w, authentication_response date None)
      | Some credential \<Rightarrow>
          (if credential = [] then (w, authentication_response date None)
           else
             (case session_logout (auth_digest env) (auth_clock env) credential
                     (world_host w, world_sessions w) of
                ((c, s), Inl _) \<Rightarrow>
                  (w\<lparr>world_host := c, world_sessions := s\<rparr>, authentication_unavailable date)
              | ((c, s), Inr _) \<Rightarrow>
                  (w\<lparr>world_host := c, world_sessions := s\<rparr>,
                   authentication_response date
                     (Some (expired_session_cookie (request_secure request)))))))"

section \<open>The session policy\<close>

definition session_authentication_policy ::
    "string \<Rightarrow> ('c, 'd) auth_env \<Rightarrow> bool \<Rightarrow> ('f, ('c, 'd, 'x) api_world, 's) api_decorator" where
  "session_authentication_policy date env has_store next_handler ctx w =
     (if \<not> has_store then (w, ctx, without_source (authentication_unavailable date))
      else
        (case session_cookie_credential (ctx_request ctx) of
           None \<Rightarrow> (w, ctx, without_source (authentication_required date))
         | Some credential \<Rightarrow>
             (if credential = [] then (w, ctx, without_source (authentication_required date))
              else
                (case session_authenticate (auth_digest env) (auth_clock env) credential
                        (world_host w, world_sessions w) of
                   ((c, s), r) \<Rightarrow>
                     (let w1 = w\<lparr>world_host := c, world_sessions := s\<rparr> in
                      case r of
                        Inl _ \<Rightarrow> (w1, ctx, without_source (authentication_unavailable date))
                      | Inr None \<Rightarrow> (w1, ctx, without_source (authentication_required date))
                      | Inr (Some identity) \<Rightarrow>
                          next_handler (ctx\<lparr>ctx_principal := Some identity\<rparr>) w1)))))"

section \<open>Routes\<close>

definition login_path :: string where "login_path = ''/api/auth/login''"
definition logout_path :: string where "logout_path = ''/api/auth/logout''"

datatype authentication_api_error = Missing_service | Route_registration_failed route_registration_error

definition register_authentication_api_routes ::
    "string \<Rightarrow> ('c, 'd) auth_env option \<Rightarrow> ('f, ('c, 'd, 'x) api_world, 's) api_builder \<Rightarrow>
     ('f, ('c, 'd, 'x) api_world, 's) api_builder \<times> (authentication_api_error, unit) result" where
  "register_authentication_api_routes date service b =
     (case service of
        None \<Rightarrow> (b, Inl Missing_service)
      | Some env \<Rightarrow>
          (case register_public Post login_path
                  (Some (\<lambda>request parameters w. map_prod id without_source (api_login date env request w))) b of
             (b1, Inl e) \<Rightarrow> (b1, Inl (Route_registration_failed e))
           | (b1, Inr _) \<Rightarrow>
               (case register_public Post logout_path
                       (Some (\<lambda>request parameters w.
                          map_prod id without_source (api_logout date env request w))) b1 of
                  (b2, Inl e) \<Rightarrow> (b2, Inl (Route_registration_failed e))
                | (b2, Inr _) \<Rightarrow> (b2, Inr ()))))"

definition authentication_body_storage_policy :: "request_head \<Rightarrow> storage_policy" where
  "authentication_body_storage_policy head =
     (let path = request_path (head_target head) in
      if head_method head = Post \<and> path = login_path
      then \<lparr>policy_storage_mode = Memory_mode, policy_max_body_bytes = maximum_login_body_bytes\<rparr>
      else \<lparr>policy_storage_mode = Temporary_file_mode, policy_max_body_bytes = 0\<rparr>)"

section \<open>What the cookie says\<close>

text \<open>The values that the components of a Cookie field give the session cookie.\<close>

fun split_semicolon :: "string \<Rightarrow> string list" where
  "split_semicolon [] = [[]]"
| "split_semicolon (c # cs) =
     (if c = CHR '';'' then [] # split_semicolon cs
      else (c # hd (split_semicolon cs)) # tl (split_semicolon cs))"

definition session_value :: "string \<Rightarrow> string list" where
  "session_value component =
     (let c = trim_optional_whitespace component in
      case sv_find CHR ''='' c 0 of
        None \<Rightarrow> []
      | Some i \<Rightarrow> if take i c = session_cookie_name then [drop (i + 1) c] else [])"

definition session_values :: "string \<Rightarrow> string list" where
  "session_values field = concat (map session_value (split_semicolon field))"

lemma split_semicolon_nonempty [simp]: "split_semicolon s \<noteq> []"
  by (cases s) auto

lemma split_semicolon_find:
  "split_semicolon s =
     (case sv_find CHR '';'' s 0 of
        None \<Rightarrow> [s]
      | Some i \<Rightarrow> take i s # split_semicolon (drop (i + 1) s))"
proof (induction s)
  case Nil
  then show ?case by (simp add: sv_find_0)
next
  case (Cons c s)
  show ?case
  proof (cases "c = CHR '';''")
    case True
    then show ?thesis by (simp add: sv_find_0)
  next
    case False
    with Cons.IH show ?thesis
      by (cases "find_index ((=) CHR '';'') s") (auto simp: sv_find_0)
  qed
qed

lemma session_value_Nil [simp]: "session_value [] = []"
  by (simp add: session_value_def trim_optional_whitespace_eq sv_find_0)

definition cookie_result :: "string list \<Rightarrow> cookie_credential" where
  "cookie_result vs =
     (case vs of [] \<Rightarrow> Some [] | [x] \<Rightarrow> (if x = [] then None else Some x) | _ \<Rightarrow> None)"

lemma cookie_loop_step:
  assumes "s \<noteq> []"
  shows "cookie_loop v s =
    (let delimiter = sv_find CHR '';'' s 0;
         rest = (\<lambda>u. case delimiter of None \<Rightarrow> Some u | Some i \<Rightarrow> cookie_loop u (drop (Suc i) s)) in
     case session_value (case delimiter of None \<Rightarrow> s | Some i \<Rightarrow> take i s) of
       [] \<Rightarrow> rest v
     | x # _ \<Rightarrow> (if v \<noteq> [] \<or> x = [] then None else rest x))"
  using assms
  by (subst cookie_loop.simps) (simp add: session_value_def Let_def split: option.splits)

lemma session_value_cases:
  obtains "session_value c = []" | x where "session_value c = [x]"
proof -
  have "session_value c = [] \<or> (\<exists>x. session_value c = [x])"
    by (simp add: session_value_def Let_def split: option.splits)
  then show thesis using that by blast
qed

lemma cookie_loop_values:
  "cookie_loop v s = cookie_result (if v = [] then session_values s else v # session_values s)"
proof (induction "length s" arbitrary: v s rule: less_induct)
  case less
  show ?case
  proof (cases "s = []")
    case True
    then show ?thesis by (subst cookie_loop.simps) (simp add: session_values_def cookie_result_def)
  next
    case False
    show ?thesis
    proof (cases "sv_find CHR '';'' s 0")
      case None
      then have "session_values s = session_value s"
        by (simp add: session_values_def split_semicolon_find [of s])
      with None False show ?thesis
        by (cases rule: session_value_cases [of s]) (auto simp: cookie_loop_step cookie_result_def)
    next
      case (Some i)
      then have s: "session_values s = session_value (take i s) @ session_values (drop (Suc i) s)"
        by (simp add: session_values_def split_semicolon_find [of s])
      have IH: "cookie_loop u (drop (Suc i) s) = cookie_result
          (if u = [] then session_values (drop (Suc i) s) else u # session_values (drop (Suc i) s))" for u
        by (rule less.hyps) (use Some False in \<open>auto dest: sv_find_Some\<close>)
      show ?thesis
      proof (cases rule: session_value_cases [of "take i s"])
        case 1
        with Some False s IH [of v] show ?thesis by (simp add: cookie_loop_step)
      next
        case (2 x)
        with Some False s IH [of x] show ?thesis
          by (auto simp: cookie_loop_step cookie_result_def split: list.splits)
      qed
    qed
  qed
qed

lemma cookie_field_credential_values: "cookie_field_credential field = cookie_result (session_values field)"
  by (simp add: cookie_field_credential_def cookie_loop_values)

text \<open>A request presents a credential when its only Cookie field names it once, among other cookies or alone.\<close>

definition cookie_fields :: "'f request_view \<Rightarrow> string list" where
  "cookie_fields request =
     map field_value
       (filter (\<lambda>h. ascii_case_insensitive_equal (field_name h) ''cookie'') (view_fields request))"

lemma extract_credential_fields:
  "extract_credential hs found r =
     (let cs = map field_value (filter (\<lambda>h. ascii_case_insensitive_equal (field_name h) ''cookie'') hs) in
      case cs of
        [] \<Rightarrow> r
      | [c] \<Rightarrow> (if found then None else cookie_field_credential c)
      | _ \<Rightarrow> None)"
  by (induction hs found r rule: extract_credential.induct) (auto simp: Let_def split: list.splits)

lemma session_cookie_credential_fields:
  "session_cookie_credential request =
     (case cookie_fields request of
        [] \<Rightarrow> Some []
      | [c] \<Rightarrow> cookie_result (session_values c)
      | _ \<Rightarrow> None)"
  by (simp add: session_cookie_credential_def extract_credential_fields cookie_fields_def Let_def
      cookie_field_credential_values split: list.splits)

definition cookie_text :: "string \<Rightarrow> bool" where
  "cookie_text c \<longleftrightarrow>
     c \<noteq> [] \<and> list_all (\<lambda>b. CHR ''0'' \<le> b \<and> b \<le> CHR ''9'' \<or> CHR ''a'' \<le> b \<and> b \<le> CHR ''f'') c"

lemma trim_id:
  assumes "s \<noteq> []" "\<not> is_ows (hd s)" "\<not> is_ows (last s)" shows "trim_optional_whitespace s = s"
proof -
  from assms(1,2) have "dropWhile is_ows s = s" by (cases s) auto
  moreover from assms(1,3) have "dropWhile is_ows (rev s) = rev s" by (cases s rule: rev_cases) auto
  ultimately show ?thesis by (simp add: trim_optional_whitespace_eq)
qed

lemma session_values_cookie:
  assumes "cookie_text c" shows "session_values (session_cookie_name @ ''='' @ c) = [c]"
proof -
  let ?s = "session_cookie_name @ ''='' @ c"
  have plain: "b \<noteq> CHR '';'' \<and> \<not> is_ows b" if "b \<in> set c" for b
    using assms that by (auto simp: cookie_text_def list_all_iff is_ows_def less_eq_char_def)
  have "CHR '';'' \<notin> set session_cookie_name" "CHR ''='' \<notin> set session_cookie_name" by code_simp+
  moreover have "CHR '';'' \<notin> set c" using plain by blast
  ultimately have "CHR '';'' \<notin> set ?s" "find_index ((=) CHR ''='') session_cookie_name = None"
    by (auto simp: find_index_None_iff)
  then have "sv_find CHR '';'' ?s 0 = None" and "sv_find CHR ''='' ?s 0 = Some (length session_cookie_name)"
    unfolding sv_find_None by (simp_all add: sv_find_0 find_index_append)
  moreover have "trim_optional_whitespace ?s = ?s"
  proof (rule trim_id)
    have "\<not> is_ows (hd session_cookie_name)" "session_cookie_name \<noteq> []" by code_simp+
    then show "\<not> is_ows (hd ?s)" by simp
    show "\<not> is_ows (last ?s)" using plain assms by (auto simp: cookie_text_def)
  qed simp
  ultimately have "session_value ?s = [c]" "split_semicolon ?s = [?s]"
    using split_semicolon_find [of ?s] by (simp_all add: session_value_def)
  then show ?thesis by (simp add: session_values_def)
qed

section \<open>Access\<close>

text \<open>What the session policy decides: a refusal, or the identity that the inner handlers see.\<close>

definition policy_decision ::
    "string \<Rightarrow> ('c, 'd) auth_env \<Rightarrow> 'f request_view \<Rightarrow> ('c, 'd, 'x) api_world \<Rightarrow>
     ('c, 'd, 'x) api_world \<times> ((route_error, http_response) result + string)" where
  "policy_decision date env request w =
     (case session_cookie_credential request of
        None \<Rightarrow> (w, Inl (authentication_required date))
      | Some [] \<Rightarrow> (w, Inl (authentication_required date))
      | Some credential \<Rightarrow>
          (case session_authenticate (auth_digest env) (auth_clock env) credential
                  (world_host w, world_sessions w) of
             ((c, s), r) \<Rightarrow>
               (w\<lparr>world_host := c, world_sessions := s\<rparr>,
                case r of
                  Inl _ \<Rightarrow> Inl (authentication_unavailable date)
                | Inr None \<Rightarrow> Inl (authentication_required date)
                | Inr (Some identity) \<Rightarrow> Inr identity)))"

lemma session_policy_decision:
  "session_authentication_policy date env True next_handler ctx w =
     (case policy_decision date env (ctx_request ctx) w of
        (w1, Inl r) \<Rightarrow> (w1, ctx, without_source r)
      | (w1, Inr identity) \<Rightarrow> next_handler (ctx\<lparr>ctx_principal := Some identity\<rparr>) w1)"
  by (auto simp: session_authentication_policy_def policy_decision_def Let_def
      split: option.splits list.splits sum.splits prod.splits)

text \<open>The policies of the server: the session policy is the only one it installs.\<close>

definition server_policies ::
    "string \<Rightarrow> ('c, 'd) auth_env \<Rightarrow> ('f, ('c, 'd, 'x) api_world, 's) protected_policies" where
  "server_policies date env =
     \<lparr>policy_transport = None,
      policy_session_authentication = Some (session_authentication_policy date env True),
      policy_origin_csrf = None, policy_authorization = None, policy_throttling = None,
      policy_resource_coordination = None\<rparr>"

lemma decorate_server_policies:
  "decorate (server_policies date env) handler request parameters w =
     (case session_authentication_policy date env True (operation_handler handler)
             \<lparr>ctx_request = request, ctx_parameters = parameters, ctx_principal = None\<rparr> w of
        (w1, ctx, r) \<Rightarrow> (w1, r))"
  by (simp add: decorate_def server_policies_def policy_order_def)

text \<open>A request that presents the credential of a session that is still live.\<close>

definition live_session :: "('c, 'd) auth_env \<Rightarrow> 'f request_view \<Rightarrow> ('c, 'd, 'x) api_world \<Rightarrow> bool" where
  "live_session env request w \<longleftrightarrow>
     (\<exists>credential d e. session_cookie_credential request = Some credential \<and>
        auth_digest env credential = Inr d \<and> e \<in> set (store_entries (world_sessions w)) \<and>
        entry_digest e = d \<and>
        snd (auth_clock env (world_host w)) - entry_created e <
          absolute_lifetime (store_policy (world_sessions w)) \<and>
        snd (auth_clock env (world_host w)) - entry_last_activity e <
          idle_timeout (store_policy (world_sessions w)))"

lemma decorate_decision:
  "decorate (server_policies date env) handler request parameters w =
     (case policy_decision date env request w of
        (w1, Inl r) \<Rightarrow> (w1, without_source r)
      | (w1, Inr identity) \<Rightarrow> handler request parameters w1)"
  by (simp add: decorate_server_policies session_policy_decision operation_handler_def
      split: prod.splits sum.splits)

lemma policy_decision_files: "world_files (fst (policy_decision date env request w)) = world_files w"
  by (auto simp: policy_decision_def split: option.splits list.splits prod.splits)

lemma policy_decision_refusal:
  "snd (policy_decision date env request w) = Inl r \<Longrightarrow>
     r = authentication_required date \<or> r = authentication_unavailable date"
  by (auto simp: policy_decision_def split: option.splits list.splits prod.splits sum.splits)

lemma policy_decision_live:
  assumes "snd (policy_decision date env request w) = Inr identity"
  shows "live_session env request w"
proof -
  from assms obtain credential where "session_cookie_credential request = Some credential"
    "snd (session_authenticate (auth_digest env) (auth_clock env) credential
       (world_host w, world_sessions w)) = Inr (Some identity)"
    by (auto simp: policy_decision_def split: option.splits list.splits prod.splits sum.splits)
  with session_authenticated_entry show ?thesis unfolding live_session_def by metis
qed

lemma make_json_response_status:
  "make_json_response date status body hs = Inr r \<Longrightarrow> resp_status r = status"
  by (auto simp: make_json_response_def create_response_def make_http_response_def Let_def
      split: sum.splits if_splits)

lemma authentication_response_fields:
  "authentication_response date cookie = Inr r \<Longrightarrow>
     resp_status r = 204 \<and>
     resp_headers r = (case cookie of None \<Rightarrow> [] | Some c \<Rightarrow> [\<lparr>field_name = ''Set-Cookie'', field_value = c\<rparr>])"
  by (auto simp: authentication_response_def create_response_def make_http_response_def
      split: sum.splits if_splits)

lemmas api_statuses =
  malformed_login_def unsupported_media_type_def invalid_credentials_def authentication_throttled_def
  authentication_unavailable_def authentication_required_def

lemma api_login_success:
  assumes "api_login date env request w = (w1, Inr response)" "resp_status response = 204"
  obtains login password previous credential where
    "parse_login (view_body request) = Some (login, password)"
    "session_cookie_credential request = Some previous"
    "login_service env login password previous w = (w1, Inr credential)"
    "resp_headers response =
       [\<lparr>field_name = ''Set-Cookie'', field_value = session_cookie credential (request_secure request)\<rparr>]"
  using assms
  by (auto simp: api_login_def api_statuses split: if_splits option.splits prod.splits sum.splits
      auth_error.splits dest!: make_json_response_status authentication_response_fields)

text \<open>Generated credentials are hexadecimal text, as \<^verbatim>\<open>sodium_bin2hex\<close> writes it.\<close>

definition generates_cookie_text :: "('c, 'd) auth_env \<Rightarrow> bool" where
  "generates_cookie_text env \<longleftrightarrow>
     (\<forall>c c' credential d. auth_generate env c = (c', Inr (credential, d)) \<longrightarrow> cookie_text credential)"

lemma create_attempts_generated:
  "create_attempts generate clock owner n ws = (ws', Inr credential) \<Longrightarrow>
     \<exists>v v' d. generate v = (v', Inr (credential, d))"
  by (induction n arbitrary: ws)
    (auto simp: Let_def split: prod.splits sum.splits if_splits)

lemma session_cookie_pair:
  assumes "cookie_text credential"
  shows "takeWhile (\<lambda>b. b \<noteq> CHR '';'') (session_cookie credential secure) =
    session_cookie_name @ ''='' @ credential"
proof -
  have "\<forall>b\<in>set (session_cookie_name @ ''='' @ credential). b \<noteq> CHR '';''"
  proof -
    have "CHR '';'' \<notin> set session_cookie_name" by code_simp
    moreover have "CHR '';'' \<notin> set credential"
      using assms by (auto simp: cookie_text_def list_all_iff less_eq_char_def)
    ultimately show ?thesis by auto
  qed
  moreover have "session_cookie credential secure = (session_cookie_name @ ''='' @ credential) @
      CHR '';'' # '' Path=/; HttpOnly; SameSite=Strict'' @ (if secure then ''; Secure'' else [])"
    by (simp add: session_cookie_def)
  ultimately show ?thesis by (simp only: takeWhile_append2) simp
qed

lemma presented_credential:
  assumes "cookie_fields request = [session_cookie_name @ ''='' @ credential]" "cookie_text credential"
  shows "session_cookie_credential request = Some credential"
  using assms session_values_cookie [OF assms(2)]
  by (simp add: session_cookie_credential_fields cookie_result_def cookie_text_def)

lemma policy_admits:
  assumes "session_cookie_credential (ctx_request ctx) = Some credential" "credential \<noteq> []"
    and "snd (session_authenticate (auth_digest env) (auth_clock env) credential
      (world_host w, world_sessions w)) = Inr (Some identity)"
  shows "\<exists>w1. world_files w1 = world_files w \<and>
    session_authentication_policy date env True next_handler ctx w =
      next_handler (ctx\<lparr>ctx_principal := Some identity\<rparr>) w1"
proof -
  from assms(3) obtain c s where "session_authenticate (auth_digest env) (auth_clock env) credential
      (world_host w, world_sessions w) = ((c, s), Inr (Some identity))" by (metis prod.collapse)
  with assms(1,2) show ?thesis
    by (intro exI [of _ "w\<lparr>world_host := c, world_sessions := s\<rparr>"])
      (simp add: session_authentication_policy_def)
qed

text \<open>
  C22. Login opens exactly the verified account: when the login handler answers 204, the posted JSON
  named a known login whose stored verifier accepted the posted password, and a later request that
  returns the cookie the answer set, as a browser does, passes the session policy of protected routes
  with that account's identity, as long as neither lifetime has elapsed.
\<close>

theorem login_opens_session:
  assumes "codec_consistent (auth_generate env) (auth_digest env)" "generates_cookie_text env"
    and "store_ok (world_sessions w)"
    and "api_login date env request w = (w1, Inr response)" "resp_status response = 204"
    and "world_sessions w2 = world_sessions w1"
    and "cookie_fields (ctx_request ctx) =
      [takeWhile (\<lambda>b. b \<noteq> CHR '';'') (field_value (hd (resp_headers response)))]"
    and "snd (auth_clock env (world_host w2)) - entry_created (last (store_entries (world_sessions w1))) <
      absolute_lifetime (store_policy (world_sessions w))"
    and "snd (auth_clock env (world_host w2)) - entry_created (last (store_entries (world_sessions w1))) <
      idle_timeout (store_policy (world_sessions w))"
  shows "\<exists>login password c w3. parse_login (view_body request) = Some (login, password) \<and>
    auth_find env login = Inr (Some c) \<and> auth_verify env password (cred_verifier c) = Inr True \<and>
    world_files w3 = world_files w2 \<and>
    session_authentication_policy date2 env True next_handler ctx w2 =
      next_handler (ctx\<lparr>ctx_principal := Some (cred_identity c)\<rparr>) w3"
proof -
  from api_login_success [OF assms(4,5)] obtain login password previous credential where
    l: "parse_login (view_body request) = Some (login, password)"
      "login_service env login password previous w = (w1, Inr credential)"
      "resp_headers response =
        [\<lparr>field_name = ''Set-Cookie'', field_value = session_cookie credential (request_secure request)\<rparr>]" .
  from l(2) obtain c' a' where login: "session_login (auth_find env) (auth_verify env)
      (auth_generate env) (auth_digest env) (auth_clock env) login password previous
      (world_host w, world_auth w, world_sessions w) = ((c', a', world_sessions w1), Inr credential)"
    by (auto simp: login_service_def split: prod.splits)
  obtain a :: credential_record and v s where
    "create_session (auth_generate env) (auth_clock env) (cred_identity a) (v, s) =
      ((c', world_sessions w1), Inr credential)"
    by (rule session_login_success [OF login])
  then have hex: "cookie_text credential"
    using assms(2) create_attempts_generated unfolding create_session_def generates_cookie_text_def by metis
  from session_login_authenticates [OF assms(1,3) login surjective_pairing assms(8,9)] obtain a where
    a: "auth_find env login = Inr (Some a)" "auth_verify env password (cred_verifier a) = Inr True"
      "snd (session_authenticate (auth_digest env) (auth_clock env) credential
         (world_host w2, world_sessions w2)) = Inr (Some (cred_identity a))"
    using assms(6) by auto
  have "session_cookie_credential (ctx_request ctx) = Some credential"
    using assms(7) l(3) hex by (simp add: session_cookie_pair presented_credential)
  moreover have "credential \<noteq> []" using hex by (simp add: cookie_text_def)
  ultimately obtain w3 where w3: "world_files w3 = world_files w2"
    "session_authentication_policy date2 env True next_handler ctx w2 =
      next_handler (ctx\<lparr>ctx_principal := Some (cred_identity a)\<rparr>) w3"
    using policy_admits [OF _ _ a(3)] by blast
  show ?thesis
    by (intro exI [of _ login] exI [of _ password] exI [of _ a] exI [of _ w3] conjI l(1) a(1,2) w3)
qed


section \<open>Examples\<close>

definition sample_auth_env :: "(nat, nat) auth_env" where
  "sample_auth_env =
     \<lparr>auth_find = sample_find, auth_verify = sample_verify, auth_generate = sample_generate,
      auth_digest = sample_digest, auth_clock = sample_clock\<rparr>"

definition sample_api_world :: "(nat, nat, unit) api_world" where
  "sample_api_world =
     \<lparr>world_host = 5, world_auth = sample_service, world_sessions = sample_store, world_files = ()\<rparr>"

definition sample_logged_in_world :: "(nat, nat, unit) api_world" where
  "sample_logged_in_world =
     \<lparr>world_host = 6, world_auth = sample_service, world_sessions = sample_logged_in, world_files = ()\<rparr>"

definition sample_view :: "http_header list \<Rightarrow> string \<Rightarrow> unit request_view" where
  "sample_view headers body =
     \<lparr>view_method = Post, view_target = login_path, view_fields = headers, view_body = body,
      view_body_size = length body, view_temporary_body = None, view_file_options = None,
      view_response_options = None, view_transport = None\<rparr>"

definition sample_login_view :: "unit request_view" where
  "sample_login_view =
     sample_view [\<lparr>field_name = ''Content-Type'', field_value = ''application/json''\<rparr>,
                  \<lparr>field_name = ''Cookie'', field_value = ''spnode_session=3''\<rparr>]
       (print_object (\<lambda>i. []) [(''login'', ''ann''), (''password'', ''pw'')])"

definition sample_cookie_view :: "unit request_view" where
  "sample_cookie_view = sample_view [\<lparr>field_name = ''Cookie'', field_value = ''spnode_session=5''\<rparr>] []"

definition sample_login_response :: http_response where
  "sample_login_response = make_http_response 204 ''No Content''
     [\<lparr>field_name = ''Set-Cookie'',
       field_value = ''spnode_session=5; Path=/; HttpOnly; SameSite=Strict''\<rparr>] [] 0 ''d'' False"

lemma sample_api_login:
  "api_login ''d'' sample_auth_env sample_login_view sample_api_world =
     (sample_logged_in_world, Inr sample_login_response)"
  by code_simp

lemma sample_cookie_text: "generates_cookie_text sample_auth_env"
proof -
  have "list_all is_ascii_digit (print_base 10 n)" for n
    using print_base_digits [of 10 n] by (simp add: list_all_iff is_ascii_digit_std)
  then have "cookie_text (print_base 10 n)" for n
    by (auto simp: cookie_text_def list_all_iff is_ascii_digit_def)
  then show ?thesis
    by (auto simp: generates_cookie_text_def sample_auth_env_def sample_generate_def)
qed

theorem login_opens_session_witness:
  "\<exists>login password c w3. parse_login (view_body sample_login_view) = Some (login, password) \<and>
     auth_find sample_auth_env login = Inr (Some c) \<and>
     auth_verify sample_auth_env password (cred_verifier c) = Inr True \<and>
     world_files w3 = world_files sample_logged_in_world \<and>
     session_authentication_policy ''d'' sample_auth_env True (\<lambda>ctx w. (w, ctx, Inl (Handler_failure 1)))
       \<lparr>ctx_request = sample_cookie_view, ctx_parameters = [], ctx_principal = None\<rparr>
       sample_logged_in_world =
     (w3, \<lparr>ctx_request = sample_cookie_view, ctx_parameters = [], ctx_principal = Some (cred_identity c)\<rparr>,
      Inl (Handler_failure 1) :: unit api_result)"
proof -
  let ?ctx = "\<lparr>ctx_request = sample_cookie_view, ctx_parameters = [], ctx_principal = None\<rparr>"
  have codec: "codec_consistent (auth_generate sample_auth_env) (auth_digest sample_auth_env)"
    by (simp add: sample_auth_env_def sample_codec_consistent)
  have st: "store_ok (world_sessions sample_api_world)" by (simp add: sample_api_world_def sample_store_ok)
  have status: "resp_status sample_login_response = 204"
    by (simp add: sample_login_response_def make_http_response_def)
  have cookie: "cookie_fields (ctx_request ?ctx) =
      [takeWhile (\<lambda>b. b \<noteq> CHR '';'') (field_value (hd (resp_headers sample_login_response)))]" by code_simp
  have age: "snd (auth_clock sample_auth_env (world_host sample_logged_in_world)) -
      entry_created (last (store_entries (world_sessions sample_logged_in_world))) <
      absolute_lifetime (store_policy (world_sessions sample_api_world))"
    "snd (auth_clock sample_auth_env (world_host sample_logged_in_world)) -
      entry_created (last (store_entries (world_sessions sample_logged_in_world))) <
      idle_timeout (store_policy (world_sessions sample_api_world))" by code_simp+
  show ?thesis
    using login_opens_session [OF codec sample_cookie_text st sample_api_login status refl cookie age, of "''d''"
        "\<lambda>ctx w. (w, ctx, Inl (Handler_failure 1) :: unit api_result)"] by simp
qed

definition sample_logged_out_world :: "(nat, nat, unit) api_world" where
  "sample_logged_out_world = fst (api_logout ''d'' sample_auth_env sample_cookie_view sample_logged_in_world)"

definition sample_logout_response :: http_response where
  "sample_logout_response = make_http_response 204 ''No Content''
     [\<lparr>field_name = ''Set-Cookie'', field_value = expired_session_cookie False\<rparr>] [] 0 ''d'' False"

lemma sample_api_logout:
  "api_logout ''d'' sample_auth_env sample_cookie_view sample_logged_in_world =
     (sample_logged_out_world, Inr sample_logout_response)"
proof -
  have "snd (api_logout ''d'' sample_auth_env sample_cookie_view sample_logged_in_world) =
      Inr sample_logout_response" by code_simp
  then show ?thesis unfolding sample_logged_out_world_def by (metis prod.collapse)
qed


end
