(* ===== verification/Mime_Types.thy ===== *)
theory Mime_Types
  imports Ascii "HOL-Library.List_Lexorder" "HOL-Library.Multiset"
begin

text \<open>
  The media-type registry of \<^verbatim>\<open>src/http/mime_type_registry.cpp\<close> and the reader of
  \<^verbatim>\<open>mime.types\<close> files, \<^verbatim>\<open>src/bootstrap/mime_types_loader.cpp\<close>. The binary searches of the
  standard library are written out; its stable sort is \<open>sort_key\<close>. Opening and reading the file, and
  allocation failures, are not modelled: \<open>load_mime_types\<close> takes the stream as a parameter.
\<close>

section \<open>Searching sorted ranges\<close>

text \<open>\<^verbatim>\<open>std::ranges::lower_bound\<close> on \<open>len\<close> elements from position \<open>first\<close>.\<close>

function lower_bound :: "('a \<Rightarrow> 'k :: linorder) \<Rightarrow> 'a list \<Rightarrow> 'k \<Rightarrow> nat \<Rightarrow> nat \<Rightarrow> nat" where
  "lower_bound key xs v first len =
     (if len = 0 then first
      else
        (let half = len div 2; middle = first + half in
         if key (xs ! middle) < v then lower_bound key xs v (middle + 1) (len - half - 1)
         else lower_bound key xs v first half))"
  by pat_completeness auto
termination
  by (relation "measure (\<lambda>(key, xs, v, first, len). len)") auto

declare lower_bound.simps [simp del]

definition binary_search :: "'a :: linorder list \<Rightarrow> 'a \<Rightarrow> bool" where
  "binary_search xs v =
     (let i = lower_bound (\<lambda>x. x) xs v 0 (length xs) in i < length xs \<and> \<not> v < xs ! i)"

section \<open>The registry\<close>

definition binary_fallback :: string where "binary_fallback = ''application/octet-stream''"
definition safe_text_type :: string where "safe_text_type = ''text/plain; charset=utf-8''"

definition active_extensions :: "string list" where
  "active_extensions =
     [''.css'', ''.htm'', ''.html'', ''.js'', ''.mjs'', ''.svg'', ''.svgz'', ''.xht'', ''.xhtml'',
      ''.xml'', ''.xsl'', ''.xslt'']"

definition maximum_mime_entries :: nat where "maximum_mime_entries = 4096"
definition maximum_extension_bytes :: nat where "maximum_extension_bytes = 32"
definition maximum_media_type_bytes :: nat where "maximum_media_type_bytes = 127"

record mime_mapping =
  mapping_extension :: string
  mapping_media_type :: string

datatype registry_error_code =
  Invalid_extension | Invalid_media_type | Duplicate_extension | Too_many_entries

type_synonym registry_error = "registry_error_code \<times> nat"

definition is_valid_media_type :: "string \<Rightarrow> bool" where
  "is_valid_media_type v =
     (if v = [] \<or> length v > maximum_media_type_bytes then False
      else (case sv_find CHR ''/'' v 0 of
              None \<Rightarrow> False
            | Some separator \<Rightarrow>
                (if separator = 0 \<or> separator + 1 = length v \<or>
                    sv_find CHR ''/'' v (separator + 1) \<noteq> None
                 then False
                 else list_all (\<lambda>byte. byte = CHR ''/'' \<or> is_http_token_character byte) v)))"

definition extension_byte :: "char \<Rightarrow> bool" where
  "extension_byte byte \<longleftrightarrow>
     CHR ''0'' \<le> byte \<and> byte \<le> CHR ''9'' \<or> CHR ''A'' \<le> byte \<and> byte \<le> CHR ''Z'' \<or>
     CHR ''a'' \<le> byte \<and> byte \<le> CHR ''z'' \<or> byte = CHR ''+'' \<or> byte = CHR ''-'' \<or> byte = CHR ''_''"

text \<open>The normalized extension, \<open>None\<close> when it is rejected.\<close>

definition normalize_extension :: "string \<Rightarrow> string option" where
  "normalize_extension extension =
     (let e = (if extension \<noteq> [] \<and> hd extension = CHR ''.'' then tl extension else extension) in
      if e = [] \<or> length e > maximum_extension_bytes \<or> \<not> list_all extension_byte e then None
      else Some (CHR ''.'' # map ascii_lower e))"

definition is_active_extension :: "string \<Rightarrow> bool" where
  "is_active_extension extension = binary_search active_extensions extension"

definition is_active_media_type :: "string \<Rightarrow> bool" where
  "is_active_media_type media_type =
     (if media_type = ''application/wasm'' \<or> media_type = ''text/css'' \<or> media_type = ''text/html'' \<or>
         suffix ''+xml'' media_type
      then True
      else
        (let subtype = (case sv_find CHR ''/'' media_type 0 of
                          None \<Rightarrow> media_type | Some separator \<Rightarrow> drop (separator + 1) media_type) in
         subtype = ''xml'' \<or> sv_find_sub ''javascript'' subtype 0 \<noteq> None \<or>
         sv_find_sub ''ecmascript'' subtype 0 \<noteq> None \<or> media_type = ''text/jscript'' \<or>
         media_type = ''text/livescript''))"

fun normalize_mappings ::
    "nat \<Rightarrow> string set \<Rightarrow> mime_mapping list \<Rightarrow> (registry_error, mime_mapping list) result" where
  "normalize_mappings index extensions [] = Inr []"
| "normalize_mappings index extensions (m # ms) =
     (case normalize_extension (mapping_extension m) of
        None \<Rightarrow> Inl (Invalid_extension, index)
      | Some e \<Rightarrow>
          (if \<not> is_valid_media_type (mapping_media_type m) then Inl (Invalid_media_type, index)
           else if e \<in> extensions then Inl (Duplicate_extension, index)
           else
             (case normalize_mappings (index + 1) (insert e extensions) ms of
                Inl x \<Rightarrow> Inl x
              | Inr normalized \<Rightarrow>
                  Inr (\<lparr>mapping_extension = e,
                        mapping_media_type = map ascii_lower (mapping_media_type m)\<rparr> # normalized))))"

definition create_registry :: "mime_mapping list \<Rightarrow> (registry_error, mime_mapping list) result" where
  "create_registry mappings =
     (if length mappings > maximum_mime_entries then Inl (Too_many_entries, maximum_mime_entries)
      else (case normalize_mappings 0 {} mappings of
              Inl e \<Rightarrow> Inl e
            | Inr normalized \<Rightarrow> Inr (sort_key mapping_extension normalized)))"

text \<open>\<^verbatim>\<open>find_last_of\<close>: the last position of a byte with the property.\<close>

definition find_last :: "(char \<Rightarrow> bool) \<Rightarrow> string \<Rightarrow> nat option" where
  "find_last P s = map_option (\<lambda>i. length s - 1 - i) (find_index P (rev s))"

definition content_type_for_path :: "mime_mapping list \<Rightarrow> string \<Rightarrow> string" where
  "content_type_for_path mappings path =
     (let slash = find_last (\<lambda>c. c = CHR ''/'' \<or> c = CHR 0x5C) path in
      case find_last ((=) CHR ''.'') path of
        None \<Rightarrow> binary_fallback
      | Some dot \<Rightarrow>
          (if (case slash of None \<Rightarrow> False | Some i \<Rightarrow> dot < i) \<or> dot + 1 = length path
           then binary_fallback
           else if length path - dot > maximum_extension_bytes + 1 then binary_fallback
           else
             (let extension = map ascii_lower (drop dot path) in
              if is_active_extension extension then safe_text_type
              else
                (let i = lower_bound mapping_extension mappings extension 0 (length mappings) in
                 if i = length mappings \<or> mapping_extension (mappings ! i) \<noteq> extension
                 then binary_fallback
                 else if is_active_media_type (mapping_media_type (mappings ! i)) then safe_text_type
                 else mapping_media_type (mappings ! i)))))"

section \<open>The loader\<close>

definition maximum_mime_file_bytes :: nat where "maximum_mime_file_bytes = 256 * 1024"
definition maximum_mime_line_bytes :: nat where "maximum_mime_line_bytes = 1024"

datatype load_error_code =
  Mime_open_failed | Mime_read_failed | Mime_file_too_large | Mime_line_too_long | Mime_invalid_line | Mime_registry registry_error_code

definition is_horizontal_space :: "char \<Rightarrow> bool" where
  "is_horizontal_space v \<longleftrightarrow> v = CHR '' '' \<or> v = CHR 0x09"

function split_tokens :: "string \<Rightarrow> string list" where
  "split_tokens line =
     (let rest = dropWhile is_horizontal_space line in
      if rest = [] \<or> hd rest = CHR ''#'' then []
      else
        (let in_token = (\<lambda>c. \<not> is_horizontal_space c \<and> c \<noteq> CHR ''#'');
             rest1 = dropWhile in_token rest in
         takeWhile in_token rest #
         (if rest1 \<noteq> [] \<and> hd rest1 = CHR ''#'' then [] else split_tokens rest1)))"
  by pat_completeness auto
termination
proof (relation "measure length", simp)
  fix line rest in_token rest1
  assume r: "rest = dropWhile is_horizontal_space line" "\<not> (rest = [] \<or> hd rest = CHR ''#'')"
    "in_token = (\<lambda>c. \<not> is_horizontal_space c \<and> c \<noteq> CHR ''#'')" "rest1 = dropWhile in_token rest"
  from r(2) obtain c cs where c: "rest = c # cs" by (cases rest) simp_all
  have "dropWhile is_horizontal_space line = c # cs" using r(1) c by simp
  then have "in_token c" using r(2,3) c hd_dropWhile [of is_horizontal_space line] by simp
  then have "rest1 = dropWhile in_token cs" using r(4) c by simp
  then have "length rest1 < length rest" using c length_dropWhile_le [of in_token cs] by simp
  also have "length rest \<le> length line" using r(1) length_dropWhile_le by simp
  finally show "(rest1, line) \<in> measure length" by simp
qed

declare split_tokens.simps [simp del]

fun push_mappings ::
    "string \<Rightarrow> nat \<Rightarrow> string list \<Rightarrow> mime_mapping list \<times> nat list \<Rightarrow>
     (load_error_code \<times> nat, mime_mapping list \<times> nat list) result" where
  "push_mappings media_type line_number [] acc = Inr acc"
| "push_mappings media_type line_number (extension # es) acc =
     (if length (fst acc) = maximum_mime_entries then Inl (Mime_registry Too_many_entries, line_number)
      else push_mappings media_type line_number es
             (fst acc @ [\<lparr>mapping_extension = extension, mapping_media_type = media_type\<rparr>],
              snd acc @ [line_number]))"

definition append_line_mappings ::
    "string \<Rightarrow> nat \<Rightarrow> mime_mapping list \<times> nat list \<Rightarrow>
     (load_error_code \<times> nat, mime_mapping list \<times> nat list) result" where
  "append_line_mappings line line_number acc =
     (if length line > maximum_mime_line_bytes then Inl (Mime_line_too_long, line_number)
      else
        (let tokens = split_tokens line in
         if tokens = [] then Inr acc
         else if length tokens < 2 then Inl (Mime_invalid_line, line_number)
         else push_mappings (hd tokens) line_number (tl tokens) acc))"

definition without_cr :: "string \<Rightarrow> string" where
  "without_cr line = (if line \<noteq> [] \<and> last line = CR then butlast line else line)"

function mime_lines ::
    "nat \<Rightarrow> mime_mapping list \<times> nat list \<Rightarrow> string \<Rightarrow>
     (load_error_code \<times> nat, nat \<times> mime_mapping list \<times> nat list) result" where
  "mime_lines line_number acc source =
     (let line = takeWhile (\<lambda>c. c \<noteq> LF) source; rest = dropWhile (\<lambda>c. c \<noteq> LF) source in
      case append_line_mappings (without_cr line) line_number acc of
        Inl e \<Rightarrow> Inl e
      | Inr acc1 \<Rightarrow>
          (if rest = [] then Inr (line_number, acc1)
           else mime_lines (line_number + 1) acc1 (tl rest)))"
  by pat_completeness auto
termination
proof (relation "measure (\<lambda>(n, acc, source). length source)", simp)
  fix n acc source line rest e acc1
  assume "rest = dropWhile (\<lambda>c. c \<noteq> LF) source" "rest \<noteq> []"
  then have "length (tl rest) < length rest" "length rest \<le> length source"
    by (simp_all add: length_dropWhile_le)
  then show "((n + 1, acc1, tl rest), n, acc, source) \<in> measure (\<lambda>(n, acc, source). length source)" by simp
qed

declare mime_lines.simps [simp del]

definition parse_mime_types :: "string \<Rightarrow> (load_error_code \<times> nat, mime_mapping list) result" where
  "parse_mime_types source =
     (if length source > maximum_mime_file_bytes then Inl (Mime_file_too_large, 1)
      else (case mime_lines 1 ([], []) source of
              Inl e \<Rightarrow> Inl e
            | Inr (line_number, mappings, source_lines) \<Rightarrow>
                (case create_registry mappings of
                   Inl (code, index) \<Rightarrow>
                     Inl (Mime_registry code,
                          if index < length source_lines then source_lines ! index else line_number)
                 | Inr registry \<Rightarrow> Inr registry)))"

text \<open>
  The loader reads at most one byte more than the limit. The stream is a parameter: it cannot be opened
  (\<open>None\<close>), or it is open, its state after the read may be bad, and the file has some bytes.
\<close>

definition load_mime_types ::
    "(bool \<times> string) option \<Rightarrow> (load_error_code \<times> nat, mime_mapping list) result" where
  "load_mime_types stream =
     (case stream of
        None \<Rightarrow> Inl (Mime_open_failed, 1)
      | Some (bad, file_bytes) \<Rightarrow>
          let source = take (maximum_mime_file_bytes + 1) file_bytes in
          if bad then Inl (Mime_read_failed, 1)
          else if length source > maximum_mime_file_bytes then Inl (Mime_file_too_large, 1)
          else parse_mime_types source)"

section \<open>The searches\<close>

lemma lower_bound_partition:
  assumes "sorted (map key xs)" "first + len \<le> length xs"
    and "\<forall>i<first. key (xs ! i) < v" "\<forall>i. first + len \<le> i \<longrightarrow> i < length xs \<longrightarrow> v \<le> key (xs ! i)"
  shows "lower_bound key xs v first len \<le> length xs \<and>
    (\<forall>i<lower_bound key xs v first len. key (xs ! i) < v) \<and>
    (\<forall>i. lower_bound key xs v first len \<le> i \<longrightarrow> i < length xs \<longrightarrow> v \<le> key (xs ! i))"
  using assms(2-4)
proof (induction len arbitrary: first rule: less_induct)
  case (less len)
  show ?case
  proof (cases "len = 0")
    case True
    with less.prems show ?thesis by (simp add: lower_bound.simps)
  next
    case False
    let ?half = "len div 2" let ?middle = "first + ?half"
    have mid: "?middle < length xs" "?half < len" using less.prems(1) False by auto
    have mono: "i \<le> j \<Longrightarrow> j < length xs \<Longrightarrow> key (xs ! i) \<le> key (xs ! j)" for i j
      using assms(1) by (simp add: sorted_iff_nth_mono)
    show ?thesis
    proof (cases "key (xs ! ?middle) < v")
      case True
      have "\<forall>i<?middle + 1. key (xs ! i) < v"
        using mono [OF _ mid(1)] True by (metis Suc_eq_plus1 less_Suc_eq_le order.strict_trans1)
      with less.IH [of "len - ?half - 1" "?middle + 1"] less.prems mid True False show ?thesis
        by (subst (1 2 3) lower_bound.simps) (simp add: Let_def)
    next
      case right: False
      then have "\<forall>i. ?middle \<le> i \<longrightarrow> i < length xs \<longrightarrow> v \<le> key (xs ! i)"
        using mono by (meson linorder_not_less order.trans)
      with less.IH [of ?half first] less.prems mid right False show ?thesis
        by (subst (1 2 3) lower_bound.simps) (simp add: Let_def)
    qed
  qed
qed

lemma lower_bound_whole:
  fixes v :: "'k :: linorder"
  assumes "sorted (map key xs)"
  defines "i \<equiv> lower_bound key xs v 0 (length xs)"
  shows "i \<le> length xs" "\<And>k. k < i \<Longrightarrow> key (xs ! k) < v"
    "\<And>k. i \<le> k \<Longrightarrow> k < length xs \<Longrightarrow> v \<le> key (xs ! k)"
  using lower_bound_partition [OF assms(1), where first = 0 and len = "length xs" and v = v] by (auto simp: i_def)

lemma binary_search_iff:
  fixes v :: "'k :: linorder"
  assumes "sorted xs" shows "binary_search xs v \<longleftrightarrow> v \<in> set xs"
proof -
  define i where "i = lower_bound (\<lambda>x. x) xs v 0 (length xs)"
  have "sorted (map (\<lambda>x. x) xs)" using assms by simp
  note b = lower_bound_whole [OF this, where v = v, folded i_def]
  show ?thesis
  proof
    assume "binary_search xs v"
    then have "i < length xs" "\<not> v < xs ! i" by (simp_all add: binary_search_def i_def Let_def)
    with b(3) [of i] have "xs ! i = v" by simp
    with \<open>i < length xs\<close> show "v \<in> set xs" by auto
  next
    assume "v \<in> set xs"
    then obtain k where k: "k < length xs" "xs ! k = v" by (auto simp: in_set_conv_nth)
    then have "i \<le> k" using b(2) [of k] by (metis less_irrefl not_le)
    moreover have "xs ! i \<le> v" using assms \<open>i \<le> k\<close> k by (auto simp: sorted_iff_nth_mono)
    ultimately show "binary_search xs v" using k(1) by (simp add: binary_search_def i_def Let_def)
  qed
qed

text \<open>In a list with distinct keys the search finds the entry with the key, if there is one.\<close>

lemma lower_bound_map_of:
  fixes v :: "'k :: linorder"
  assumes "sorted (map key xs)" "distinct (map key xs)"
  defines "i \<equiv> lower_bound key xs v 0 (length xs)"
  shows "(if i = length xs \<or> key (xs ! i) \<noteq> v then None else Some (f (xs ! i))) =
    map_of (map (\<lambda>x. (key x, f x)) xs) v"
proof (cases "\<exists>k<length xs. key (xs ! k) = v")
  case True
  then obtain k where k: "k < length xs" "key (xs ! k) = v" by blast
  note b = lower_bound_whole [OF assms(1), where v = v, folded i_def]
  have "i \<le> k" using b(2) [of k] k by (metis less_irrefl not_le)
  then have i: "i < length xs" using k(1) by simp
  have "key (xs ! i) \<le> v" using assms(1) \<open>i \<le> k\<close> k by (auto simp: sorted_iff_nth_mono)
  with b(3) [of i] i have "key (xs ! i) = v" by simp
  moreover have "map_of (map (\<lambda>x. (key x, f x)) xs) (key (xs ! i)) = Some (f (xs ! i))"
    using assms(2) i by (intro map_of_is_SomeI) (auto simp: comp_def)
  ultimately show ?thesis using i by auto
next
  case False
  then have "map_of (map (\<lambda>x. (key x, f x)) xs) v = None"
    by (auto simp: map_of_eq_None_iff in_set_conv_nth)
  moreover have "i = length xs \<or> key (xs ! i) \<noteq> v"
    using False lower_bound_whole(1) [OF assms(1), where v = v, folded i_def] by (metis le_neq_implies_less)
  ultimately show ?thesis by simp
qed

lemma is_active_extension_iff: "is_active_extension e \<longleftrightarrow> e \<in> set active_extensions"
proof -
  have "sorted active_extensions" by code_simp
  then show ?thesis unfolding is_active_extension_def by (rule binary_search_iff)
qed

section \<open>Registries\<close>

definition normalized :: "mime_mapping \<Rightarrow> string \<times> string" where
  "normalized m = (the (normalize_extension (mapping_extension m)), map ascii_lower (mapping_media_type m))"

lemma normalize_mappings_Inr:
  "normalize_mappings index extensions ms = Inr ns \<Longrightarrow>
     map (\<lambda>m. (mapping_extension m, mapping_media_type m)) ns = map normalized ms \<and>
     distinct (map mapping_extension ns) \<and> set (map mapping_extension ns) \<inter> extensions = {} \<and>
     list_all (\<lambda>m. length (mapping_extension m) \<le> maximum_extension_bytes + 1) ns \<and>
     list_all (\<lambda>m. \<exists>t. is_valid_media_type t \<and> mapping_media_type m = map ascii_lower t) ns"
proof (induction index extensions ms arbitrary: ns rule: normalize_mappings.induct)
  case (2 index extensions m ms)
  then obtain e ns1 where e: "normalize_extension (mapping_extension m) = Some e" "e \<notin> extensions"
    "is_valid_media_type (mapping_media_type m)"
    "normalize_mappings (index + 1) (insert e extensions) ms = Inr ns1"
    "ns = \<lparr>mapping_extension = e, mapping_media_type = map ascii_lower (mapping_media_type m)\<rparr> # ns1"
    by (auto split: option.splits if_splits sum.splits)
  have "length e \<le> maximum_extension_bytes + 1"
    using e(1) by (auto simp: normalize_extension_def Let_def split: if_splits)
  with 2(1) [OF e(1) _ e(2,4)] e show ?case by (auto simp: normalized_def)
qed simp

lemma create_registry_Inr:
  assumes "create_registry mappings = Inr reg"
  shows "sorted (map mapping_extension reg)" "distinct (map mapping_extension reg)"
    "map_of (map (\<lambda>m. (mapping_extension m, mapping_media_type m)) reg) = map_of (map normalized mappings)"
    "\<And>m. m \<in> set reg \<Longrightarrow> length (mapping_extension m) \<le> maximum_extension_bytes + 1"
    "\<And>m. m \<in> set reg \<Longrightarrow> \<exists>t. is_valid_media_type t \<and> mapping_media_type m = map ascii_lower t"
proof -
  from assms obtain ns where ns: "normalize_mappings 0 {} mappings = Inr ns"
    and reg: "reg = sort_key mapping_extension ns"
    by (auto simp: create_registry_def split: if_splits sum.splits)
  note n = normalize_mappings_Inr [OF ns]
  show "sorted (map mapping_extension reg)" unfolding reg by simp
  have mset: "mset reg = mset ns" unfolding reg by simp
  then show d: "distinct (map mapping_extension reg)"
    using n by (metis mset_map mset_eq_imp_distinct_iff)
  let ?p = "\<lambda>m. (mapping_extension m, mapping_media_type m)"
  have "set (map ?p reg) = set (map ?p ns)" using mset by (metis mset_map set_mset_mset)
  moreover from n have "distinct (map mapping_extension ns)" by blast
  with d have "distinct (map fst (map ?p reg))" "distinct (map fst (map ?p ns))"
    by (simp_all add: comp_def)
  ultimately have "map_of (map ?p reg) = map_of (map ?p ns)" by (metis map_of_inject_set)
  with n show "map_of (map ?p reg) = map_of (map normalized mappings)" by simp
  have "set reg = set ns" using mset by (metis set_mset_mset)
  with n show "\<And>m. m \<in> set reg \<Longrightarrow> length (mapping_extension m) \<le> maximum_extension_bytes + 1"
    "\<And>m. m \<in> set reg \<Longrightarrow> \<exists>t. is_valid_media_type t \<and> mapping_media_type m = map ascii_lower t"
    by (auto simp: list_all_iff)
qed

text \<open>
  The extension of a path: of its last component, from the last dot on, in lower case; none when
  there is no dot or nothing follows it.
\<close>

definition last_component :: "string \<Rightarrow> string" where
  "last_component path = rev (takeWhile (\<lambda>c. c \<noteq> CHR ''/'' \<and> c \<noteq> CHR 0x5C) (rev path))"

definition path_extension :: "string \<Rightarrow> string option" where
  "path_extension path =
     (let name = last_component path; e = rev (takeWhile (\<lambda>c. c \<noteq> CHR ''.'') (rev name)) in
      if CHR ''.'' \<notin> set name \<or> e = [] then None else Some (CHR ''.'' # map ascii_lower e))"

lemma find_last_None: "find_last P s = None \<longleftrightarrow> (\<forall>c\<in>set s. \<not> P c)"
  by (simp add: find_last_def find_index_None_iff)

lemma find_last_Some:
  assumes "find_last P s = Some i"
  shows "i < length s" "P (s ! i)" "\<forall>c\<in>set (drop (Suc i) s). \<not> P c"
proof -
  from assms obtain j where j: "j < length s" "P (rev s ! j)" "\<forall>k<j. \<not> P (rev s ! k)" "i = length s - 1 - j"
    by (auto simp: find_last_def find_index_Some_iff)
  then show "i < length s" "P (s ! i)" by (auto simp: rev_nth)
  have "\<not> P (drop (Suc i) s ! k)" if "k < length (drop (Suc i) s)" for k
  proof -
    have "drop (Suc i) s ! k = rev s ! (j - 1 - k)"
      using that j by (auto simp: rev_nth intro!: arg_cong [where f = "(!) s"])
    with j that show ?thesis by auto
  qed
  then show "\<forall>c\<in>set (drop (Suc i) s). \<not> P c" by (metis in_set_conv_nth)
qed

lemma set_last_component: "set (last_component path) \<subseteq> set path"
  unfolding last_component_def using set_takeWhileD by fastforce

lemma path_extension_split:
  assumes "path = a @ CHR ''.'' # b" "CHR ''.'' \<notin> set b"
  shows "path_extension path =
    (if CHR ''/'' \<in> set b \<or> CHR 0x5C \<in> set b \<or> b = [] then None
     else Some (CHR ''.'' # map ascii_lower b))"
proof (cases "CHR ''/'' \<in> set b \<or> CHR 0x5C \<in> set b")
  case True
  then have "last_component path = rev (takeWhile (\<lambda>c. c \<noteq> CHR ''/'' \<and> c \<noteq> CHR 0x5C) (rev b))"
    using assms(1) by (auto simp: last_component_def takeWhile_append1)
  with assms(2) True show ?thesis
    by (auto simp: path_extension_def Let_def dest: set_takeWhileD)
next
  case False
  then have "\<forall>x\<in>set b. x \<noteq> CHR ''/'' \<and> x \<noteq> CHR 0x5C" by blast
  then have name: "last_component path =
      rev (takeWhile (\<lambda>c. c \<noteq> CHR ''/'' \<and> c \<noteq> CHR 0x5C) (rev a)) @ CHR ''.'' # b"
    using assms(1) by (simp add: last_component_def takeWhile_append)
  have "\<forall>x\<in>set b. x \<noteq> CHR ''.''" using assms(2) by blast
  with name False show ?thesis
    by (simp add: path_extension_def Let_def takeWhile_append)
qed

lemma content_type_lookup:
  assumes "create_registry mappings = Inr reg"
  shows "content_type_for_path reg path =
    (case path_extension path of
       None \<Rightarrow> binary_fallback
     | Some e \<Rightarrow>
         (if e \<in> set active_extensions then safe_text_type
          else (case map_of (map normalized mappings) e of
                  None \<Rightarrow> binary_fallback
                | Some t \<Rightarrow> if is_active_media_type t then safe_text_type else t)))"
proof (cases "find_last ((=) CHR ''.'') path")
  case None
  then have "CHR ''.'' \<notin> set path" by (auto simp: find_last_None)
  then have "CHR ''.'' \<notin> set (last_component path)" using set_last_component by blast
  with None show ?thesis by (simp add: content_type_for_path_def path_extension_def)
next
  case (Some dot)
  note dot = find_last_Some [OF Some]
  define b where "b = drop (Suc dot) path"
  have path: "path = take dot path @ CHR ''.'' # b"
    using dot(1,2) by (simp add: b_def id_take_nth_drop [symmetric])
  have b: "CHR ''.'' \<notin> set b" "length path - dot = length b + 1" "dot + 1 = length path \<longleftrightarrow> b = []"
    "map ascii_lower (drop dot path) = CHR ''.'' # map ascii_lower b"
  proof -
    have "ascii_lower CHR ''.'' = CHR ''.''" by code_simp
    moreover have "drop dot path = CHR ''.'' # b"
      using dot(1,2) by (simp add: b_def Cons_nth_drop_Suc)
    ultimately show "map ascii_lower (drop dot path) = CHR ''.'' # map ascii_lower b" by simp
  qed (use dot in \<open>auto simp: b_def\<close>)
  let ?P = "\<lambda>c. c = CHR ''/'' \<or> c = CHR 0x5C"
  have slash: "(case find_last ?P path of None \<Rightarrow> False | Some i \<Rightarrow> dot < i) \<longleftrightarrow>
      CHR ''/'' \<in> set b \<or> CHR 0x5C \<in> set b"
  proof (cases "find_last ?P path")
    case None
    moreover from None have "\<forall>c\<in>set path. \<not> ?P c" by (simp only: find_last_None)
    then have "\<forall>c\<in>set b. \<not> ?P c" unfolding b_def by (meson in_set_dropD)
    ultimately show ?thesis by auto
  next
    case (Some i)
    note i = find_last_Some [OF Some]
    show ?thesis
    proof (cases "dot < i")
      case True
      then have "path ! i \<in> set b"
        using i(1) by (auto simp: b_def in_set_conv_nth intro!: exI [of _ "i - Suc dot"])
      with i(2) have "CHR ''/'' \<in> set b \<or> CHR 0x5C \<in> set b" by metis
      with True Some show ?thesis by simp
    next
      case False
      then have "set b \<subseteq> set (drop (Suc i) path)" unfolding b_def by (simp add: set_drop_subset_set_drop)
      with i(3) have "\<not> (CHR ''/'' \<in> set b \<or> CHR 0x5C \<in> set b)" by blast
      with False Some show ?thesis by simp
    qed
  qed
  let ?e = "CHR ''.'' # map ascii_lower b"
  note reg = create_registry_Inr [OF assms]
  let ?i = "lower_bound mapping_extension reg ?e 0 (length reg)"
  have lookup: "(if ?i = length reg \<or> mapping_extension (reg ! ?i) \<noteq> ?e then None
      else Some (mapping_media_type (reg ! ?i))) = map_of (map normalized mappings) ?e"
    unfolding reg(3) [symmetric] by (rule lower_bound_map_of [OF reg(1,2)])
  have long: "map_of (map normalized mappings) ?e = None \<and> ?e \<notin> set active_extensions"
    if "length b + 1 > maximum_extension_bytes + 1"
  proof -
    have "\<forall>m\<in>set reg. mapping_extension m \<noteq> ?e" using reg(4) that by force
    then have "map_of (map normalized mappings) ?e = None"
      unfolding reg(3) [symmetric] by (auto simp: map_of_eq_None_iff)
    moreover have "list_all (\<lambda>e. length e < 33) active_extensions" by code_simp
    ultimately show ?thesis using that by (auto simp: list_all_iff maximum_extension_bytes_def)
  qed
  show ?thesis
    using Some slash b path_extension_split [OF path b(1)] lookup [symmetric] long
    by (auto simp: content_type_for_path_def Let_def is_active_extension_iff split: if_splits)
qed

lemma token_printable: "is_http_token_character c \<Longrightarrow> (33 :: nat) \<le> of_char c \<and> of_char c < (127 :: nat)"
  by (auto simp: byte_class less_eq_char_def)

lemma lower_token: "is_http_token_character c \<or> c = CHR ''/'' \<Longrightarrow> is_http_field_value_byte (ascii_lower c)"
proof -
  assume "is_http_token_character c \<or> c = CHR ''/''"
  then have "(33 :: nat) \<le> of_char c \<and> of_char c < (127 :: nat)" using token_printable by auto
  then have "(33 :: nat) \<le> of_char (ascii_lower c) \<and> of_char (ascii_lower c) < (127 :: nat)"
    by (auto simp: ascii_lower_def less_eq_char_def)
  then show ?thesis by (auto simp: is_http_field_value_byte_def less_eq_char_def)
qed

lemma media_type_field_value:
  "is_valid_media_type t \<Longrightarrow> list_all is_http_field_value_byte (map ascii_lower t)"
  by (auto simp: is_valid_media_type_def list_all_iff split: if_splits option.splits
      intro!: lower_token)

lemma content_type_safe:
  assumes "create_registry mappings = Inr reg"
  shows "\<not> is_active_media_type (content_type_for_path reg path) \<and>
    list_all is_http_field_value_byte (content_type_for_path reg path)"
proof -
  have fixed: "\<not> is_active_media_type binary_fallback" "\<not> is_active_media_type safe_text_type"
    "list_all is_http_field_value_byte binary_fallback" "list_all is_http_field_value_byte safe_text_type"
    by code_simp+
  have typed: "list_all is_http_field_value_byte t" if t: "map_of (map normalized mappings) e = Some t" for e t
  proof -
    from t have "map_of (map (\<lambda>m. (mapping_extension m, mapping_media_type m)) reg) e = Some t"
      by (simp only: create_registry_Inr(3) [OF assms])
    then obtain m where m: "m \<in> set reg" "t = mapping_media_type m" by (auto dest!: map_of_SomeD)
    from create_registry_Inr(5) [OF assms m(1)] m(2) media_type_field_value show ?thesis by auto
  qed
  note c = content_type_lookup [OF assms, of path]
  show ?thesis
  proof (cases "path_extension path")
    case None
    with c fixed show ?thesis by simp
  next
    case (Some e)
    with c fixed typed [of e] show ?thesis
      by (cases "e \<in> set active_extensions"; cases "map_of (map normalized mappings) e") simp_all
  qed
qed

text \<open>What a source file says: one mapping per extension token of each of its lines.\<close>

function source_lines :: "string \<Rightarrow> string list" where
  "source_lines s =
     takeWhile (\<lambda>c. c \<noteq> LF) s #
     (let rest = dropWhile (\<lambda>c. c \<noteq> LF) s in if rest = [] then [] else source_lines (tl rest))"
  by pat_completeness auto
termination
proof (relation "measure length", simp)
  fix s rest
  assume "rest = dropWhile (\<lambda>c. c \<noteq> LF) s" "rest \<noteq> []"
  then have "length (tl rest) < length rest" "length rest \<le> length s" by (simp_all add: length_dropWhile_le)
  then show "(tl rest, s) \<in> measure length" by simp
qed

declare source_lines.simps [simp del]

definition line_mappings :: "string \<Rightarrow> mime_mapping list" where
  "line_mappings line =
     (let tokens = split_tokens (without_cr line) in
      map (\<lambda>e. \<lparr>mapping_extension = e, mapping_media_type = hd tokens\<rparr>) (tl tokens))"

lemma push_mappings_Inr:
  "push_mappings t n es acc = Inr acc' \<Longrightarrow>
     fst acc' = fst acc @ map (\<lambda>e. \<lparr>mapping_extension = e, mapping_media_type = t\<rparr>) es"
  by (induction t n es acc rule: push_mappings.induct) (auto split: if_splits)

lemma append_line_mappings_Inr:
  "append_line_mappings (without_cr line) n acc = Inr acc' \<Longrightarrow> fst acc' = fst acc @ line_mappings line"
  by (auto simp: append_line_mappings_def line_mappings_def Let_def split: if_splits
      dest!: push_mappings_Inr)

lemma mime_lines_Inr:
  "mime_lines n acc source = Inr (n', acc') \<Longrightarrow>
     fst acc' = fst acc @ concat (map line_mappings (source_lines source))"
proof (induction "length source" arbitrary: n acc source rule: less_induct)
  case less
  let ?rest = "dropWhile (\<lambda>c. c \<noteq> LF) source"
  from less.prems obtain acc1 where
    a: "append_line_mappings (without_cr (takeWhile (\<lambda>c. c \<noteq> LF) source)) n acc = Inr acc1"
    by (subst (asm) mime_lines.simps) (auto simp: Let_def split: sum.splits)
  show ?case
  proof (cases "?rest = []")
    case True
    with less.prems a append_line_mappings_Inr [OF a] show ?thesis
      by (subst (asm) mime_lines.simps) (simp add: source_lines.simps [of source])
  next
    case False
    then have "length (tl ?rest) < length source"
      using length_dropWhile_le [of "\<lambda>c. c \<noteq> LF" source]
      by (metis length_tl diff_less less_le_trans length_greater_0_conv less_numeral_extra(1))
    moreover have "mime_lines (n + 1) acc1 (tl ?rest) = Inr (n', acc')"
      using less.prems a False by (subst (asm) mime_lines.simps) (simp add: Let_def del: dropWhile_eq_Nil_conv)
    ultimately have "fst acc' = fst acc1 @ concat (map line_mappings (source_lines (tl ?rest)))"
      by (rule less.hyps)
    with append_line_mappings_Inr [OF a] False show ?thesis
      by (subst source_lines.simps) (simp add: Let_def del: dropWhile_eq_Nil_conv)
  qed
qed

lemma parse_mime_types_registry:
  assumes "parse_mime_types source = Inr reg"
  shows "create_registry (concat (map line_mappings (source_lines source))) = Inr reg"
  using assms
  by (auto simp: parse_mime_types_def split: if_splits sum.splits prod.splits dest!: mime_lines_Inr)

text \<open>
  Content types: whatever \<^verbatim>\<open>mime.types\<close> file a registry is loaded from and whatever path is
  requested, the binary searches give exactly the type that the file's lines give for the path's
  extension, \<^verbatim>\<open>application/octet-stream\<close> when they give none; an extension or a configured type that a
  browser would run as active content is answered as plain text, so the chosen type is never an
  active one, and it is always a valid header value.
\<close>

lemma mime_content_type:
  assumes "parse_mime_types source = Inr reg"
  shows "content_type_for_path reg path =
      (case path_extension path of
         None \<Rightarrow> binary_fallback
       | Some e \<Rightarrow>
           (if e \<in> set active_extensions then safe_text_type
            else (case map_of (map normalized (concat (map line_mappings (source_lines source)))) e of
                    None \<Rightarrow> binary_fallback
                  | Some t \<Rightarrow> if is_active_media_type t then safe_text_type else t))) \<and>
    \<not> is_active_media_type (content_type_for_path reg path) \<and>
    list_all is_http_field_value_byte (content_type_for_path reg path)"
  using content_type_lookup content_type_safe parse_mime_types_registry [OF assms] by blast

end
