(* ===== verification/Filesystem_Api.thy ===== *)
theory Filesystem_Api
  imports Filesystem_Service Auth_Api Mime_Types
begin

text \<open>
  The filesystem over HTTP: the mapping of failures to public answers
  (\<^verbatim>\<open>src/http/api/filesystem/filesystem_error_response.cpp\<close>), the handlers of the same directory, the
  registration of their protected routes (\<^verbatim>\<open>src/http/api/filesystem_api.cpp\<close>) and the composition of one
  server's routes (\<^verbatim>\<open>apps/sparenode/server.cpp\<close>).

  A handler works on the files of the world. A response that streams a file carries the open file as
  its source. An upload that never returns is observed as \<open>fa_diverges\<close>, an arbitrary parameter.
\<close>

section \<open>Public failures\<close>

type_synonym public_failure = "nat \<times> string"

definition hides_path_detail :: "safe_path_error \<Rightarrow> bool" where
  "hides_path_detail code \<longleftrightarrow>
     code = Outside_shared_root \<or> code = Resolution_failed \<or> code = Unsupported_reparse_point"

definition public_path_error :: "safe_path_error option \<Rightarrow> public_failure" where
  "public_path_error code =
     (case code of
        Some c \<Rightarrow> if hides_path_detail c then (404, ''not_found'') else (400, ''invalid_path'')
      | None \<Rightarrow> (400, ''invalid_path''))"

definition public_access_error :: "access_error \<Rightarrow> public_failure" where
  "public_access_error e =
     (case fst e of
        Invalid_path \<Rightarrow> public_path_error (map_option fst (snd e))
      | Claim_conflict \<Rightarrow> (423, ''resource_locked'')
      | Access_cancelled \<Rightarrow> (408, ''operation_interrupted'')
      | Access_deadline_exceeded \<Rightarrow> (408, ''operation_interrupted'')
      | Capacity_exceeded \<Rightarrow> (503, ''resource_coordination_unavailable'')
      | access_error_code.Resource_allocation_failed \<Rightarrow> (500, ''internal_error''))"

definition public_listing_error :: "listing_error \<Rightarrow> public_failure" where
  "public_listing_error e =
     (case e of (code, _, path_error) \<Rightarrow>
        (case code of
           Listing_invalid_path \<Rightarrow> public_path_error path_error
         | Listing_not_found \<Rightarrow> (404, ''not_found'')
         | Listing_not_directory \<Rightarrow> (400, ''not_directory'')
         | Listing_permission_denied \<Rightarrow> (403, ''permission_denied'')
         | Listing_too_many_entries \<Rightarrow> (413, ''directory_too_large'')
         | Listing_filesystem_failure \<Rightarrow> (500, ''internal_error'')
         | Listing_resource_allocation_failed \<Rightarrow> (500, ''internal_error'')))"

definition public_read_error :: "read_error \<Rightarrow> public_failure" where
  "public_read_error e =
     (case e of (code, _, path_error) \<Rightarrow>
        (case code of
           Read_invalid_path \<Rightarrow> public_path_error path_error
         | Read_not_found \<Rightarrow> (404, ''not_found'')
         | Read_not_regular_file \<Rightarrow> (404, ''not_found'')
         | Read_outside_shared_root \<Rightarrow> (404, ''not_found'')
         | Read_permission_denied \<Rightarrow> (403, ''permission_denied'')
         | Read_filesystem_failure \<Rightarrow> (500, ''internal_error'')
         | Read_cancelled \<Rightarrow> (500, ''internal_error'')
         | Read_resource_allocation_failed \<Rightarrow> (500, ''internal_error'')))"

definition public_upload_error :: "upload_error \<Rightarrow> public_failure" where
  "public_upload_error e =
     (case e of (code, path_error, _) \<Rightarrow>
        (case code of
           Upload_invalid_destination \<Rightarrow> public_path_error (map_option fst path_error)
         | Upload_parent_unavailable \<Rightarrow> (404, ''parent_not_found'')
         | Upload_destination_exists \<Rightarrow> (409, ''destination_exists'')
         | Upload_invalid_source \<Rightarrow> (400, ''invalid_upload'')
         | Upload_cancelled \<Rightarrow> (408, ''upload_interrupted'')
         | Upload_deadline_exceeded \<Rightarrow> (408, ''upload_interrupted'')
         | _ \<Rightarrow> (500, ''internal_error'')))"

definition public_file_error :: "file_error \<Rightarrow> public_failure" where
  "public_file_error e =
     (case file_code e of
        File_cancelled \<Rightarrow> (408, ''upload_interrupted'')
      | File_deadline_exceeded \<Rightarrow> (408, ''upload_interrupted'')
      | _ \<Rightarrow> (500, ''internal_error''))"

definition public_creation_error :: "creation_error \<Rightarrow> public_failure" where
  "public_creation_error e =
     (case e of (code, path_error, _) \<Rightarrow>
        (case code of
           Creation_invalid_destination \<Rightarrow> public_path_error (map_option fst path_error)
         | Creation_parent_unavailable \<Rightarrow> (404, ''parent_not_found'')
         | Creation_destination_exists \<Rightarrow> (409, ''destination_exists'')
         | Creation_permission_denied \<Rightarrow> (403, ''permission_denied'')
         | Creation_failed \<Rightarrow> (500, ''internal_error'')
         | Creation_resource_failure \<Rightarrow> (500, ''internal_error'')))"

definition public_removal_error :: "removal_error \<Rightarrow> public_failure" where
  "public_removal_error e =
     (case e of (code, path_error, _) \<Rightarrow>
        (case code of
           Removal_invalid_destination \<Rightarrow> public_path_error (map_option fst path_error)
         | Removal_parent_unavailable \<Rightarrow> (404, ''not_found'')
         | Removal_not_found \<Rightarrow> (404, ''not_found'')
         | Removal_directory_not_empty \<Rightarrow> (409, ''directory_not_empty'')
         | Removal_permission_denied \<Rightarrow> (403, ''permission_denied'')
         | Removal_failed \<Rightarrow> (500, ''internal_error'')
         | Removal_resource_failure \<Rightarrow> (500, ''internal_error'')))"

definition make_failure_response :: "string \<Rightarrow> public_failure \<Rightarrow> (route_error, http_response) result" where
  "make_failure_response date failure =
     make_json_response date (fst failure)
       (append_json_string (''{'' @ [quote] @ ''error'' @ [quote] @ '':'') (snd failure) @ ''}'') []"

definition read_failure :: "service_read_error \<Rightarrow> public_failure" where
  "read_failure e =
     (case e of
        Reading_forbidden \<Rightarrow> (403, ''read_forbidden'')
      | Reading_coordination_failed a \<Rightarrow> public_access_error a
      | Reading_listing_failed l \<Rightarrow> public_listing_error l
      | Reading_file_failed f \<Rightarrow> public_read_error f)"

definition upload_failure :: "service_upload_error \<Rightarrow> public_failure" where
  "upload_failure e =
     (case e of
        Uploading_forbidden \<Rightarrow> (403, ''write_forbidden'')
      | Uploading_invalid \<Rightarrow> (400, ''invalid_upload'')
      | Uploading_coordination_failed a \<Rightarrow> public_access_error a
      | Uploading_temporary_failed f \<Rightarrow> public_file_error f
      | Uploading_finalization_failed u \<Rightarrow> public_upload_error u)"

definition creation_failed_with :: "service_creation_error \<Rightarrow> public_failure" where
  "creation_failed_with e =
     (case e of
        Creating_forbidden \<Rightarrow> (403, ''write_forbidden'')
      | Creating_content_not_allowed \<Rightarrow> (400, ''body_not_allowed'')
      | Creating_coordination_failed a \<Rightarrow> public_access_error a
      | Creating_failed c \<Rightarrow> public_creation_error c)"

definition removal_failed_with :: "service_removal_error \<Rightarrow> public_failure" where
  "removal_failed_with e =
     (case e of
        Removing_forbidden \<Rightarrow> (403, ''delete_forbidden'')
      | Removing_content_not_allowed \<Rightarrow> (400, ''body_not_allowed'')
      | Removing_coordination_failed a \<Rightarrow> public_access_error a
      | Removing_failed r \<Rightarrow> public_removal_error r)"

section \<open>Handlers\<close>

record 'w files_api_env =
  fa_fs :: "'w fs_env"
  fa_diverges :: "'w files_state \<Rightarrow> 'w files_state \<times> file_read api_result"

definition options_or_default :: "io_options option \<Rightarrow> io_options" where
  "options_or_default opts =
     (case opts of None \<Rightarrow> \<lparr>io_stop_possible = False, io_deadline = None\<rparr> | Some given \<Rightarrow> given)"

definition status_body :: "string \<Rightarrow> string" where
  "status_body status = ''{'' @ [quote] @ ''status'' @ [quote] @ '':'' @ [quote] @ status @ [quote] @ ''}''"

text \<open>The numbers of \<^verbatim>\<open>FileReadErrorCode\<close>, in which body readers report errors.\<close>

datatype body_read_domain = Body_application | Body_filesystem | Body_cancellation

definition read_error_number :: "read_error_code \<Rightarrow> int" where
  "read_error_number code =
     (case code of
        Read_invalid_path \<Rightarrow> 0 | Read_not_found \<Rightarrow> 1 | Read_not_regular_file \<Rightarrow> 2
      | Read_permission_denied \<Rightarrow> 3 | Read_outside_shared_root \<Rightarrow> 4 | Read_filesystem_failure \<Rightarrow> 5
      | Read_cancelled \<Rightarrow> 6 | Read_resource_allocation_failed \<Rightarrow> 7)"

definition file_body_reader ::
    "'w posix \<Rightarrow> file_read \<Rightarrow> nat \<Rightarrow> io_options \<Rightarrow> 'w \<Rightarrow> ('w \<times> (body_read_domain \<times> int, string) result) option" where
  "file_body_reader px f capacity opts w =
     map_option (map_prod id (map_sum (\<lambda>e.
         (if fst e = Read_cancelled then Body_cancellation else Body_filesystem, read_error_number (fst e))) id))
       (fr_read px f capacity opts w)"

definition make_file_response ::
    "string \<Rightarrow> 'w posix \<Rightarrow> file_read \<Rightarrow> string \<Rightarrow> 'w files_state \<Rightarrow> 'w files_state \<times> file_read api_result" where
  "make_file_response date px f content_type s =
     (case create_streaming date 200 (http_reason_phrase 200)
             [\<lparr>field_name = ''Content-Type'', field_value = content_type\<rparr>,
              \<lparr>field_name = ''Content-Disposition'', field_value = ''inline''\<rparr>,
              \<lparr>field_name = ''X-Content-Type-Options'', field_value = ''nosniff''\<rparr>] (fr_size f) True of
        Inl e \<Rightarrow> (fr_close px f s, Inl (Response_validation_failure (fst e)))
      | Inr response \<Rightarrow> (s, Inr (response, Some f)))"

definition handle_file ::
    "string \<Rightarrow> 'w posix \<Rightarrow> mime_mapping list \<Rightarrow> file_read \<Rightarrow> string \<Rightarrow> 'w files_state \<Rightarrow>
     'w files_state \<times> file_read api_result" where
  "handle_file date px mime_types f requested s =
     make_file_response date px f
       (content_type_for_path mime_types (case decode_path_request requested of Inr p \<Rightarrow> p | Inl _ \<Rightarrow> [])) s"

definition handle_resource ::
    "string \<Rightarrow> 'w files_api_env \<Rightarrow> filesystem_service \<Rightarrow> mime_mapping list \<Rightarrow> temporary_file request_view \<Rightarrow>
     string \<Rightarrow> 'w files_state \<Rightarrow> 'w files_state \<times> file_read api_result" where
  "handle_resource date env svc mime_types request requested s =
     (case service_read (fa_fs env) svc requested (options_or_default (view_response_options request)) s of
        (s1, Inl e) \<Rightarrow> (s1, without_source (make_failure_response date (read_failure e)))
      | (s1, Inr (Read_directory listing)) \<Rightarrow>
          (s1, without_source (make_json_response date 200 (serialize_listing listing) []))
      | (s1, Inr (Read_file f)) \<Rightarrow> handle_file date (fs_posix (fa_fs env)) mime_types f requested s1)"

definition handle_upload ::
    "string \<Rightarrow> 'w files_api_env \<Rightarrow> filesystem_service \<Rightarrow> temporary_file request_view \<Rightarrow>
     string \<Rightarrow> 'w files_state \<Rightarrow> 'w files_state \<times> file_read api_result" where
  "handle_upload date env svc request requested s =
     (case service_upload (fa_fs env) svc requested
             \<lparr>content_memory = view_body request, content_size = view_body_size request,
              content_artifact = view_temporary_body request,
              content_options = options_or_default (view_file_options request)\<rparr> s of
        None \<Rightarrow> fa_diverges env s
      | Some (s1, Inl e) \<Rightarrow> (s1, without_source (make_failure_response date (upload_failure e)))
      | Some (s1, Inr _) \<Rightarrow> (s1, without_source (make_json_response date 201 (status_body ''created'') [])))"

definition handle_directory_creation ::
    "string \<Rightarrow> 'w files_api_env \<Rightarrow> filesystem_service \<Rightarrow> temporary_file request_view \<Rightarrow>
     string \<Rightarrow> 'w files_state \<Rightarrow> 'w files_state \<times> file_read api_result" where
  "handle_directory_creation date env svc request requested s =
     (case service_create_directory (fa_fs env) svc requested (view_body_size request)
             (options_or_default (view_file_options request)) s of
        (s1, Inl e) \<Rightarrow> (s1, without_source (make_failure_response date (creation_failed_with e)))
      | (s1, Inr _) \<Rightarrow> (s1, without_source (make_json_response date 201 (status_body ''created'') [])))"

definition handle_deletion ::
    "string \<Rightarrow> 'w files_api_env \<Rightarrow> filesystem_service \<Rightarrow> temporary_file request_view \<Rightarrow>
     string \<Rightarrow> 'w files_state \<Rightarrow> 'w files_state \<times> file_read api_result" where
  "handle_deletion date env svc request requested s =
     (case service_remove (fa_fs env) svc requested (view_body_size request)
             (options_or_default (view_file_options request)) s of
        (s1, Inl e) \<Rightarrow> (s1, without_source (make_failure_response date (removal_failed_with e)))
      | (s1, Inr _) \<Rightarrow> (s1, without_source (make_json_response date 200 (status_body ''deleted'') [])))"

section \<open>Routes\<close>

record api_location =
  location_api_path :: string
  location_service :: filesystem_service

datatype filesystem_api_error = Missing_location | Location_registration_failed route_registration_error

type_synonym ('c, 'd, 'w) server_world = "('c, 'd, 'w files_state) api_world"

type_synonym ('c, 'd, 'w) server_builder =
  "(temporary_file, ('c, 'd, 'w) server_world, file_read) api_builder"

definition on_files ::
    "('w files_state \<Rightarrow> 'w files_state \<times> 'r) \<Rightarrow> ('c, 'd, 'w) server_world \<Rightarrow> ('c, 'd, 'w) server_world \<times> 'r" where
  "on_files f w = (case f (world_files w) of (s, r) \<Rightarrow> (w\<lparr>world_files := s\<rparr>, r))"

text \<open>
  An operation takes the request and the path below the location; the exact route passes the empty
  path, the nested one what the wildcard captured.
\<close>

definition register_location_routes ::
    "http_method \<Rightarrow> string \<Rightarrow>
     (temporary_file request_view \<Rightarrow> string \<Rightarrow> 'w files_state \<Rightarrow> 'w files_state \<times> file_read api_result) \<Rightarrow>
     ('c, 'd, 'w) server_builder \<Rightarrow> ('c, 'd, 'w) server_builder \<times> (route_registration_error, unit) result" where
  "register_location_routes meth api_path operation b =
     (case register_protected meth api_path (\<lambda>request parameters. on_files (operation request [])) b of
        (b1, Inl e) \<Rightarrow> (b1, Inl e)
      | (b1, Inr _) \<Rightarrow>
          register_protected meth (if api_path = ''/'' then ''/*'' else api_path @ ''/*'')
            (\<lambda>request parameters. on_files (operation request parameters)) b1)"

definition register_read_routes where
  "register_read_routes date env mime_types loc b =
     register_location_routes Get (location_api_path loc)
       (handle_resource date env (location_service loc) mime_types) b"

definition register_upload_routes where
  "register_upload_routes date env loc b =
     register_location_routes Put (location_api_path loc) (handle_upload date env (location_service loc)) b"

definition register_directory_creation_routes where
  "register_directory_creation_routes date env loc b =
     register_location_routes Post (location_api_path loc)
       (handle_directory_creation date env (location_service loc)) b"

definition register_deletion_routes where
  "register_deletion_routes date env loc b =
     register_location_routes Delete_method (location_api_path loc)
       (handle_deletion date env (location_service loc)) b"

fun register_locations where
  "register_locations date env mime_types [] b = (b, Inr ())"
| "register_locations date env mime_types (loc # locs) b =
     (case register_read_routes date env mime_types loc b of
        (b1, Inl e) \<Rightarrow> (b1, Inl (Location_registration_failed e))
      | (b1, Inr _) \<Rightarrow>
          (case register_upload_routes date env loc b1 of
             (b2, Inl e) \<Rightarrow> (b2, Inl (Location_registration_failed e))
           | (b2, Inr _) \<Rightarrow>
               (case register_directory_creation_routes date env loc b2 of
                  (b3, Inl e) \<Rightarrow> (b3, Inl (Location_registration_failed e))
                | (b3, Inr _) \<Rightarrow>
                    (case register_deletion_routes date env loc b3 of
                       (b4, Inl e) \<Rightarrow> (b4, Inl (Location_registration_failed e))
                     | (b4, Inr _) \<Rightarrow> register_locations date env mime_types locs b4))))"

definition register_filesystem_api_routes where
  "register_filesystem_api_routes date env mime_types locations b =
     (if locations = [] then (b, Inl Missing_location)
      else register_locations date env mime_types locations b)"

datatype plan_error = Authentication_api authentication_api_error | Filesystem_api filesystem_api_error

definition make_server_routes ::
    "string \<Rightarrow> ('c, 'd) auth_env \<Rightarrow> 'w files_api_env \<Rightarrow> mime_mapping list \<Rightarrow> api_location list \<Rightarrow>
     (plan_error, (temporary_file, ('c, 'd, 'w) server_world, file_read) api_routes) result" where
  "make_server_routes date auth files mime_types locations =
     (case register_authentication_api_routes date (Some auth)
             (make_builder (Some (decorate (server_policies date auth)))) of
        (b1, Inl e) \<Rightarrow> Inl (Authentication_api e)
      | (b1, Inr _) \<Rightarrow>
          (case register_filesystem_api_routes date files mime_types locations b1 of
             (b2, Inl e) \<Rightarrow> Inl (Filesystem_api e)
           | (b2, Inr _) \<Rightarrow> Inr (build_router b2)))"

section \<open>Access\<close>

definition permits :: "location_permissions \<Rightarrow> http_method \<Rightarrow> bool" where
  "permits p m =
     (case m of
        Get \<Rightarrow> allows_read p | Head \<Rightarrow> allows_read p
      | Put \<Rightarrow> allows_write p | Post \<Rightarrow> allows_write p
      | Delete_method \<Rightarrow> allows_delete p | Options \<Rightarrow> False)"

definition below_location :: "string \<Rightarrow> string \<Rightarrow> bool" where
  "below_location api_path path \<longleftrightarrow>
     path = api_path \<or> prefix (if api_path = ''/'' then ''/'' else api_path @ ''/'') path"

text \<open>
  A guarded route changes files only for a live session, and then only below a configured location
  that permits the route's method.
\<close>

definition route_guarded ::
    "('c, 'd) auth_env \<Rightarrow> api_location list \<Rightarrow>
     (temporary_file request_view, (('c, 'd, 'w) server_world, file_read) api_action) route \<Rightarrow> bool" where
  "route_guarded auth locs r \<longleftrightarrow>
     (\<forall>request p w. world_files (fst (route_handler r request p w)) \<noteq> world_files w \<longrightarrow>
        live_session auth request w \<and>
        (\<exists>loc\<in>set locs. permits (service_permissions (location_service loc)) (route_method r) \<and>
           (\<forall>path. path_matches (route_wildcard r) (route_prefix r) path \<longrightarrow>
              below_location (location_api_path loc) path)))"

lemma decorated_change:
  assumes "world_files (fst (decorate (server_policies date auth)
      (\<lambda>request parameters. on_files (operation request (g parameters))) request parameters w)) \<noteq> world_files w"
  shows "live_session auth request w \<and> (\<exists>path s. fst (operation request path s) \<noteq> s)"
proof -
  obtain w1 d where d: "policy_decision date auth request w = (w1, d)"
    by (cases "policy_decision date auth request w")
  then have w1: "world_files w1 = world_files w" using policy_decision_files [of date auth request w] by simp
  from assms d w1 obtain identity where "d = Inr identity"
    "fst (operation request (g parameters) (world_files w1)) \<noteq> world_files w1"
    by (cases d) (auto simp: decorate_decision on_files_def split: prod.splits)
  with policy_decision_live [of date auth request w identity] d show ?thesis by auto
qed

lemma register_route_Inr:
  assumes "register_route meth pattern (Some h) routes = (routes', Inr u)"
  shows "is_valid_pattern pattern \<and>
    (\<exists>r. routes' = routes @ [r] \<and> route_method r = meth \<and> route_handler r = h \<and>
       route_wildcard r = suffix ''/*'' pattern \<and>
       route_prefix r = (if suffix ''/*'' pattern then take (length pattern - 1) pattern else pattern))"
  using assms by (auto simp: register_route_def Let_def split: if_splits)

lemma valid_nested_pattern:
  assumes "is_valid_pattern (api_path @ ''/*'')"
  shows "\<not> suffix ''/*'' api_path"
proof
  let ?p = "api_path @ ''/*''"
  assume "suffix ''/*'' api_path"
  then have star: "api_path \<noteq> []" "last api_path = CHR ''*''" by (auto simp: suffix_def)
  from assms obtain k where k: "find_index ((=) CHR ''*'') ?p = Some k" "k = length ?p - 1"
    by (auto simp: is_valid_pattern_def sv_find_0 find_index_None_iff split: if_splits option.splits)
  then have "?p ! j \<noteq> CHR ''*''" if "j < length ?p - 1" for j
    using that by (auto simp: find_index_Some_iff)
  from this [of "length api_path - 1"] star show False by (simp add: nth_append last_conv_nth)
qed

definition builder_guarded where
  "builder_guarded date auth locs b \<longleftrightarrow>
     builder_decorator b = Some (decorate (server_policies date auth)) \<and>
     (\<forall>r\<in>set (builder_routes b). route_guarded auth locs r)"

lemma register_location_guarded:
  assumes reg: "register_location_routes m (location_api_path loc) operation b = (b', Inr u)"
    and guarded: "builder_guarded date auth locs b" and loc: "loc \<in> set locs"
    and op: "\<And>request path s. fst (operation request path s) \<noteq> s \<Longrightarrow>
      permits (service_permissions (location_service loc)) m"
  shows "builder_guarded date auth locs b'"
proof -
  have dec: "builder_decorator b = Some (decorate (server_policies date auth))"
    using guarded by (simp add: builder_guarded_def)
  let ?path = "location_api_path loc"
  let ?nested = "if ?path = ''/'' then ''/*'' else ?path @ ''/*''"
  let ?h = "\<lambda>g. decorate (server_policies date auth) (\<lambda>request parameters. on_files (operation request (g parameters)))"
  from reg obtain b1 routes1 routes2 where
    r: "register_route m ?path (Some (?h (\<lambda>_. []))) (builder_routes b) = (routes1, Inr ())"
      "register_route m ?nested (Some (?h id)) routes1 = (routes2, Inr ())"
      "builder_routes b' = routes2" "builder_decorator b' = builder_decorator b"
    using dec
    by (auto simp: register_location_routes_def register_protected_def Let_def split: prod.splits sum.splits)
  note r1 = register_route_Inr [OF r(1)] and r2 = register_route_Inr [OF r(2)]
  have exact: "\<not> suffix ''/*'' ?path"
    using valid_nested_pattern [of ?path] r2 by (cases "?path = ''/''") (auto simp: suffix_def)
  have nested: "suffix ''/*'' ?nested" by (simp add: suffix_def)
  have guard: "route_guarded auth locs x"
    if "route_handler x = ?h g" "route_method x = m"
      "\<And>path. path_matches (route_wildcard x) (route_prefix x) path \<Longrightarrow> below_location ?path path" for x g
    using that loc op decorated_change unfolding route_guarded_def by metis
  from r1 exact obtain x1 where x1: "routes1 = builder_routes b @ [x1]" "route_method x1 = m"
    "route_handler x1 = ?h (\<lambda>_. [])" "\<not> route_wildcard x1" "route_prefix x1 = ?path" by auto
  then have "route_guarded auth locs x1"
    using guard [OF x1(3,2)] by (simp add: path_matches_def below_location_def)
  moreover
  from r2 nested obtain x2 where x2: "routes2 = routes1 @ [x2]" "route_method x2 = m" "route_handler x2 = ?h id"
    "route_wildcard x2" "route_prefix x2 = take (length ?nested - 1) ?nested" by auto
  have "route_prefix x2 = (if ?path = ''/'' then ''/'' else ?path @ ''/'')" using x2(5) by simp
  then have "route_guarded auth locs x2"
    using guard [OF x2(3,2)] x2(4) by (simp add: path_matches_def below_location_def)
  ultimately show ?thesis using x1(1) x2(1) guarded r(3,4) by (auto simp: builder_guarded_def)
qed

lemma handler_permits:
  "fst (handle_resource date env svc mime request path s) \<noteq> s \<Longrightarrow> permits (service_permissions svc) Get"
  "fst (handle_upload date env svc request path s) \<noteq> s \<Longrightarrow> permits (service_permissions svc) Put"
  "fst (handle_directory_creation date env svc request path s) \<noteq> s \<Longrightarrow> permits (service_permissions svc) Post"
  "fst (handle_deletion date env svc request path s) \<noteq> s \<Longrightarrow> permits (service_permissions svc) Delete_method"
  by (auto simp: handle_resource_def handle_upload_def handle_directory_creation_def handle_deletion_def
      service_read_def service_upload_def service_create_directory_def service_remove_def permits_def
      split: if_splits)

lemma register_locations_guarded:
  assumes "register_locations date env mime_types ls b = (b', Inr u)"
    and "builder_guarded pdate auth locs b" "set ls \<subseteq> set locs"
  shows "builder_guarded pdate auth locs b'"
  using assms
proof (induction ls arbitrary: b)
  case (Cons loc ls)
  have loc: "loc \<in> set locs" using Cons.prems(3) by simp
  note step = register_location_guarded [OF _ _ loc]
  from Cons.prems(1) obtain b1 b2 b3 b4 where
    r: "register_read_routes date env mime_types loc b = (b1, Inr ())"
      "register_upload_routes date env loc b1 = (b2, Inr ())"
      "register_directory_creation_routes date env loc b2 = (b3, Inr ())"
      "register_deletion_routes date env loc b3 = (b4, Inr ())"
      "register_locations date env mime_types ls b4 = (b', Inr u)"
    by (auto split: prod.splits sum.splits)
  have "builder_guarded pdate auth locs b1"
    by (rule step [OF r(1) [unfolded register_read_routes_def] Cons.prems(2)]) (erule handler_permits)
  from step [OF r(2) [unfolded register_upload_routes_def] this]
  have "builder_guarded pdate auth locs b2" using handler_permits(2) by blast
  from step [OF r(3) [unfolded register_directory_creation_routes_def] this]
  have "builder_guarded pdate auth locs b3" using handler_permits(3) by blast
  from step [OF r(4) [unfolded register_deletion_routes_def] this]
  have "builder_guarded pdate auth locs b4" using handler_permits(4) by blast
  with Cons.IH [OF r(5)] Cons.prems(3) show ?case by simp
qed simp

lemma public_route_guarded:
  assumes "register_public m pattern (Some h) b = (b', r)" "builder_guarded date auth locs b"
    and "\<And>request p w. world_files (fst (h request p w)) = world_files w"
  shows "builder_guarded date auth locs b'"
  using assms
  by (auto simp: register_public_def register_route_def builder_guarded_def route_guarded_def Let_def
      split: prod.splits sum.splits if_splits)

lemma api_login_files [simp]: "world_files (fst (api_login date env request w)) = world_files w"
  by (auto simp: api_login_def login_service_def split: option.splits sum.splits prod.splits auth_error.splits)

lemma api_logout_files [simp]: "world_files (fst (api_logout date env request w)) = world_files w"
  by (auto simp: api_logout_def split: option.splits sum.splits prod.splits)

lemma server_routes_guarded:
  assumes "make_server_routes date auth env mime_types locations = Inr routes"
  shows "\<forall>r\<in>set routes. route_guarded auth locations r"
proof -
  let ?b0 = "make_builder (Some (decorate (server_policies date auth)))"
  let ?login = "\<lambda>request parameters w. map_prod id without_source (api_login date auth request w)"
  let ?logout = "\<lambda>request parameters w. map_prod id without_source (api_logout date auth request w)"
  from assms obtain b1 b2 b3 u where
    r: "register_public Post login_path (Some ?login) ?b0 = (b1, Inr ())"
      "register_public Post logout_path (Some ?logout) b1 = (b2, Inr ())"
      "register_locations date env mime_types locations b2 = (b3, Inr u)" "routes = builder_routes b3"
    by (auto simp: make_server_routes_def register_authentication_api_routes_def
        register_filesystem_api_routes_def build_router_def split: prod.splits sum.splits if_splits)
  have "builder_guarded date auth locations ?b0" by (simp add: builder_guarded_def make_builder_def)
  from public_route_guarded [OF r(1) this] have "builder_guarded date auth locations b1" by simp
  from public_route_guarded [OF r(2) this] have "builder_guarded date auth locations b2" by simp
  from register_locations_guarded [OF r(3) this] r(4) show ?thesis by (simp add: builder_guarded_def)
qed

lemma dispatch_guarded:
  assumes "make_server_routes date auth env mime_types locations = Inr routes"
    and "dispatch_api date2 routes request w = (w', r)" "world_files w' \<noteq> world_files w"
  shows "live_session auth request w \<and>
    (\<exists>loc\<in>set locations. below_location (location_api_path loc) (request_path (view_target request)) \<and>
       permits (service_permissions (location_service loc)) (view_method request))"
proof -
  let ?path = "request_path (view_target request)"
  from assms(2,3) obtain x where x: "select_route routes (view_method request) ?path = Some x"
    "world_files (fst (route_handler x request (captured_suffix (route_wildcard x) (route_prefix x) ?path) w)) \<noteq>
      world_files w"
    by (auto simp: dispatch_api_def dispatch_def Let_def split: if_splits option.splits)
  from x(1) have "x \<in> set routes" "route_candidate (view_method request) ?path x"
    using select_route_max [of routes "view_method request" ?path] by auto
  moreover from this server_routes_guarded [OF assms(1)] x(2) obtain loc where
    "live_session auth request w" "loc \<in> set locations"
    "permits (service_permissions (location_service loc)) (route_method x)"
    "path_matches (route_wildcard x) (route_prefix x) ?path \<longrightarrow> below_location (location_api_path loc) ?path"
    unfolding route_guarded_def by metis
  ultimately show ?thesis by (auto simp: route_candidate_def permits_def)
qed

text \<open>
  C5. Authorised access: whatever request a server's router dispatches, if the files, the disk or a
  lease on it change at all, then the request presented a live session, its path lies below a
  configured location, and that location's permissions allow its method. In particular nothing a client
  without a session sends reaches the filesystem.
\<close>

theorem file_access_authorised:
  assumes "make_server_routes date auth env mime_types locations = Inr routes"
    and "dispatch_api date2 routes request w = (w', r)" "world_files w' \<noteq> world_files w"
  shows "live_session auth request w \<and>
    (\<exists>loc\<in>set locations. below_location (location_api_path loc) (request_path (view_target request)) \<and>
       permits (service_permissions (location_service loc)) (view_method request))"
  using assms by (rule dispatch_guarded)

section \<open>Examples\<close>

definition sample_files_env :: "sample_world files_api_env" where
  "sample_files_env =
     \<lparr>fa_fs = \<lparr>fs_posix = sample_px, fs_meanwhile = id\<rparr>, fa_diverges = (\<lambda>s. (s, Inl (Handler_failure 0)))\<rparr>"

definition sample_location :: api_location where
  "sample_location =
     \<lparr>location_api_path = ''/f'',
      location_service =
        \<lparr>service_root = [''srv''],
         service_permissions = \<lparr>allows_read = True, allows_write = False, allows_delete = False\<rparr>\<rparr>\<rparr>"

definition sample_server_world :: "(nat, nat, sample_world) server_world" where
  "sample_server_world =
     \<lparr>world_host = 6, world_auth = sample_service, world_sessions = sample_logged_in,
      world_files = \<lparr>files_os = sample_upload_world, files_registry = empty_coordinator\<rparr>\<rparr>"

definition sample_get :: "temporary_file request_view" where
  "sample_get =
     \<lparr>view_method = Get, view_target = ''/f/x?q'',
      view_fields = [\<lparr>field_name = ''Cookie'', field_value = ''spnode_session=5''\<rparr>], view_body = [],
      view_body_size = 0, view_temporary_body = None, view_file_options = None,
      view_response_options = None, view_transport = None\<rparr>"

theorem file_access_authorised_witness:
  "live_session sample_auth_env sample_get sample_server_world \<and>
     (\<exists>loc\<in>set [sample_location]. below_location (location_api_path loc) (request_path (view_target sample_get)) \<and>
        permits (service_permissions (location_service loc)) (view_method sample_get))"
proof -
  let ?routes = "make_server_routes ''d'' sample_auth_env sample_files_env [] [sample_location]"
  have "case ?routes of
      Inl e \<Rightarrow> False
    | Inr routes \<Rightarrow>
        next_identifier (files_registry (world_files
          (fst (dispatch_api ''d'' routes sample_get sample_server_world)))) = 2"
    by code_simp
  then obtain routes where r: "?routes = Inr routes"
    "next_identifier (files_registry (world_files
       (fst (dispatch_api ''d'' routes sample_get sample_server_world)))) = 2"
    by (cases ?routes) auto
  moreover have "next_identifier (files_registry (world_files sample_server_world)) = 1"
    by (simp add: sample_server_world_def empty_coordinator_def)
  ultimately have "world_files (fst (dispatch_api ''d'' routes sample_get sample_server_world)) \<noteq>
      world_files sample_server_world" by auto
  with file_access_authorised [OF r(1) surjective_pairing, of "''d''" sample_get sample_server_world]
  show ?thesis by blast
qed

end
