(* ===== verification/Diagnostics.thy ===== *)
theory Diagnostics
  imports Connection_Handler Utf8
begin

text \<open>
  Diagnostics that reach a terminal or a log: escaping (\<^verbatim>\<open>src/foundation/text/diagnostic_escape.cpp\<close>),
  severities, records and the filtering logger (\<^verbatim>\<open>src/logging/log_severity.cpp\<close>, \<^verbatim>\<open>src/logging/logger.cpp\<close>),
  the console sink with its colours (\<^verbatim>\<open>src/logging/console_log_sink.cpp\<close>), the rendering of network
  failures (\<^verbatim>\<open>src/adapters/network_logging.cpp\<close>) and the command line
  (\<^verbatim>\<open>src/application/command_line.cpp\<close>). Streams are the text written to them; whether a stream is a
  terminal is a parameter, and so is the sink of a logger, whose exceptions are the value \<open>None\<close>.
\<close>

section \<open>Escaping\<close>

datatype escape_style = Style_path | Style_log

definition hexadecimal_digits :: string where "hexadecimal_digits = ''0123456789ABCDEF''"

definition append_hexadecimal_byte :: "char \<Rightarrow> string" where
  "append_hexadecimal_byte byte =
     [BACKSLASH, CHR ''x'', hexadecimal_digits ! (of_char byte div 16), hexadecimal_digits ! (of_char byte mod 16)]"

definition append_scalar_bytes :: "string \<Rightarrow> bool \<Rightarrow> string" where
  "append_scalar_bytes bytes escape =
     concat (map (\<lambda>byte. if escape then append_hexadecimal_byte byte else [byte]) bytes)"

definition c1_control :: "u32 \<Rightarrow> bool" where
  "c1_control v \<longleftrightarrow> v \<ge> 0x80 \<and> v \<le> 0x9F"

definition escape_single_byte :: "escape_style \<Rightarrow> char \<Rightarrow> string" where
  "escape_single_byte style byte =
     (if style = Style_log \<and> byte = BACKSLASH then [BACKSLASH, BACKSLASH]
      else if style = Style_log \<and> byte = LF then [BACKSLASH, CHR ''n'']
      else if style = Style_log \<and> byte = CR then [BACKSLASH, CHR ''r'']
      else if style = Style_log \<and> byte = HTAB then [BACKSLASH, CHR ''t'']
      else if byte < CHR 0x20 \<or> byte = CHR 0x7F \<or> c1_control (byte_u32 byte)
      then append_hexadecimal_byte byte
      else [byte])"

text \<open>The scalar of more than one byte at the front, if there is one.\<close>

definition multi_byte_scalar :: "string \<Rightarrow> decoded_scalar option" where
  "multi_byte_scalar s =
     (case decode_one s of None \<Rightarrow> None | Some d \<Rightarrow> if byte_count d > 1 then Some d else None)"

function append_safe_diagnostic :: "escape_style \<Rightarrow> string \<Rightarrow> string" where
  "append_safe_diagnostic style value =
     (if value = [] then []
      else
        (case multi_byte_scalar value of
           Some d \<Rightarrow>
             append_scalar_bytes (take (byte_count d) value) (c1_control (scalar_value d)) @
             append_safe_diagnostic style (drop (byte_count d) value)
         | None \<Rightarrow> escape_single_byte style (hd value) @ append_safe_diagnostic style (tl value)))"
  by pat_completeness auto
termination
  by (relation "measure (\<lambda>(style, value). length value)")
    (auto simp: multi_byte_scalar_def split: option.splits if_splits)

declare append_safe_diagnostic.simps [simp del]

section \<open>Logging\<close>

datatype log_severity = Severity_debug | Severity_info | Severity_warning | Severity_error

fun severity_rank :: "log_severity \<Rightarrow> nat" where
  "severity_rank Severity_debug = 0"
| "severity_rank Severity_info = 1"
| "severity_rank Severity_warning = 2"
| "severity_rank Severity_error = 3"

instantiation log_severity :: linorder
begin

definition less_eq_log_severity :: "log_severity \<Rightarrow> log_severity \<Rightarrow> bool" where
  "a \<le> b \<longleftrightarrow> severity_rank a \<le> severity_rank b"

definition less_log_severity :: "log_severity \<Rightarrow> log_severity \<Rightarrow> bool" where
  "(a :: log_severity) < b \<longleftrightarrow> severity_rank a < severity_rank b"

instance
proof
  fix x y :: log_severity
  show "x \<le> y \<Longrightarrow> y \<le> x \<Longrightarrow> x = y" by (cases x; cases y) (simp_all add: less_eq_log_severity_def)
qed (auto simp: less_eq_log_severity_def less_log_severity_def)

end

fun severity_name :: "log_severity \<Rightarrow> string" where
  "severity_name Severity_debug = ''DEBUG''"
| "severity_name Severity_info = ''INFO''"
| "severity_name Severity_warning = ''WARNING''"
| "severity_name Severity_error = ''ERROR''"

definition parse_log_severity :: "string \<Rightarrow> log_severity option" where
  "parse_log_severity v =
     (if v = ''debug'' then Some Severity_debug
      else if v = ''info'' then Some Severity_info
      else if v = ''warning'' then Some Severity_warning
      else if v = ''error'' then Some Severity_error
      else None)"

record log_event =
  event_severity :: log_severity
  event_subsystem :: string
  event_message :: string

record log_record =
  record_timestamp :: int
  record_severity :: log_severity
  record_subsystem :: string
  record_message :: string

text \<open>
  The timestamp counts milliseconds since the epoch. \<^verbatim>\<open>put_time\<close> prints the year of a representable
  instant with four digits.
\<close>

definition format_log_timestamp :: "int \<Rightarrow> string" where
  "format_log_timestamp timestamp =
     (let seconds = timestamp div 1000; time = seconds mod 86400 in
      case civil_from_days (seconds div 86400) of
        (year, month, day) \<Rightarrow>
          pad_number 4 (nat year) @ ''-'' @ pad_number 2 (nat month) @ ''-'' @ pad_number 2 (nat day) @ ''T'' @
          pad_number 2 (nat (time div 3600)) @ '':'' @ pad_number 2 (nat (time mod 3600 div 60)) @ '':'' @
          pad_number 2 (nat (time mod 60)) @ ''.'' @ pad_number 3 (nat (timestamp mod 1000)) @ ''Z'')"

definition format_log_record :: "log_record \<Rightarrow> string" where
  "format_log_record r =
     ''['' @ format_log_timestamp (record_timestamp r) @ ''] ['' @ severity_name (record_severity r) @ ''] ['' @
     append_safe_diagnostic Style_log (record_subsystem r) @ ''] '' @
     append_safe_diagnostic Style_log (record_message r)"

record 'w logger =
  logger_sink :: "(log_record \<Rightarrow> 'w \<Rightarrow> 'w option) option"
  logger_minimum :: log_severity

definition logger_is_enabled :: "'w logger \<Rightarrow> log_severity \<Rightarrow> bool" where
  "logger_is_enabled logger severity \<longleftrightarrow> logger_sink logger \<noteq> None \<and> severity \<ge> logger_minimum logger"

text \<open>A sink that throws leaves the caller undisturbed.\<close>

definition logger_log :: "('w \<Rightarrow> 'w \<times> int) \<Rightarrow> 'w logger \<Rightarrow> log_event \<Rightarrow> 'w \<Rightarrow> 'w" where
  "logger_log wall_clock logger event w =
     (if \<not> logger_is_enabled logger (event_severity event) then w
      else
        (case wall_clock w of
           (w1, now) \<Rightarrow>
             (case logger_sink logger of
                None \<Rightarrow> w1
              | Some write \<Rightarrow>
                  (case write \<lparr>record_timestamp = now, record_severity = event_severity event,
                               record_subsystem = event_subsystem event,
                               record_message = event_message event\<rparr> w1 of
                     None \<Rightarrow> w1
                   | Some w2 \<Rightarrow> w2))))"

section \<open>The console\<close>

abbreviation ESC :: char where "ESC \<equiv> CHR 0x1B"

definition ansi_reset :: string where "ansi_reset = ESC # ''[0m''"

fun severity_color :: "log_severity \<Rightarrow> string" where
  "severity_color Severity_debug = ESC # ''[36m''"
| "severity_color Severity_info = ESC # ''[32m''"
| "severity_color Severity_warning = ESC # ''[33m''"
| "severity_color Severity_error = ESC # ''[31m''"

fun diagnostic_label :: "log_severity \<Rightarrow> string" where
  "diagnostic_label Severity_debug = ''debug:''"
| "diagnostic_label Severity_info = ''info:''"
| "diagnostic_label Severity_warning = ''warning:''"
| "diagnostic_label Severity_error = ''error:''"

definition insert_at :: "nat \<Rightarrow> string \<Rightarrow> string \<Rightarrow> string" where
  "insert_at position added s = take position s @ added @ drop position s"

definition colorize_severity :: "string \<Rightarrow> log_severity \<Rightarrow> string" where
  "colorize_severity formatted severity =
     (let color = severity_color severity; marker = ''['' @ severity_name severity @ '']'' in
      case sv_find_sub marker formatted 0 of
        None \<Rightarrow> formatted
      | Some position \<Rightarrow>
          insert_at position color (insert_at (position + length marker) ansi_reset formatted))"

lemma find_sub_bound: "find_sub pat s = Some i \<Longrightarrow> i + length pat \<le> length s"
proof (induction s arbitrary: i)
  case (Cons x xs)
  then show ?case by (auto split: if_splits dest: prefix_length_le)
qed (auto split: if_splits)

lemma sv_find_sub_bound:
  "sv_find_sub pat s position = Some found \<Longrightarrow> position \<le> found \<and> found + length pat \<le> length s"
  by (auto simp: sv_find_sub_def split: if_splits dest!: find_sub_bound)

text \<open>The search goes on behind the text just inserted, so less remains to be searched every time.\<close>

function colorize_labels :: "string \<Rightarrow> string \<Rightarrow> nat \<Rightarrow> string \<Rightarrow> string" where
  "colorize_labels label color position s =
     (if label = [] \<or> color = [] then s
      else
        (case sv_find_sub label s position of
           None \<Rightarrow> s
         | Some found \<Rightarrow>
             colorize_labels label color (found + length color + length label + length ansi_reset)
               (insert_at found color (insert_at (found + length label) ansi_reset s))))"
  by pat_completeness auto
termination
proof (relation "measure (\<lambda>(label, color, position, s). length s - position)", goal_cases)
  case (2 label color position s found)
  with sv_find_sub_bound [of label s position found] show ?case by (cases label) (auto simp: insert_at_def)
qed simp

declare colorize_labels.simps [simp del]

definition colorize_diagnostic :: "string \<Rightarrow> log_severity \<Rightarrow> string" where
  "colorize_diagnostic diagnostic severity =
     colorize_labels (diagnostic_label severity) (severity_color severity) 0 diagnostic"

datatype color_mode = Color_automatic | Color_enabled | Color_disabled

definition resolve_console_color_mode :: "color_mode \<Rightarrow> bool option \<Rightarrow> bool" where
  "resolve_console_color_mode mode detected =
     (case mode of
        Color_automatic \<Rightarrow> detected = Some True
      | Color_enabled \<Rightarrow> True
      | Color_disabled \<Rightarrow> False)"

definition write_console_diagnostic :: "bool \<Rightarrow> color_mode \<Rightarrow> string \<Rightarrow> log_severity \<Rightarrow> string" where
  "write_console_diagnostic terminal mode diagnostic severity =
     (if resolve_console_color_mode mode (Some terminal) then colorize_diagnostic diagnostic severity
      else diagnostic)"

definition console_sink_write :: "bool \<Rightarrow> log_record \<Rightarrow> string" where
  "console_sink_write colors_enabled r =
     (if colors_enabled then colorize_severity (format_log_record r) (record_severity r)
      else format_log_record r) @ [LF]"

section \<open>Network failures\<close>

fun network_operation_name :: "network_operation \<Rightarrow> string" where
  "network_operation_name Net_initialize = ''initialize''"
| "network_operation_name Net_resolve_address = ''resolve_address''"
| "network_operation_name Net_create_socket = ''create_socket''"
| "network_operation_name Net_configure_socket = ''configure_socket''"
| "network_operation_name Net_bind = ''bind''"
| "network_operation_name Net_listen = ''listen''"
| "network_operation_name Net_accept = ''accept''"
| "network_operation_name Net_receive = ''receive''"
| "network_operation_name Net_send = ''send''"
| "network_operation_name Net_shutdown_send = ''shutdown_send''"
| "network_operation_name Net_query_local_endpoint = ''query_local_endpoint''"
| "network_operation_name Net_query_peer_endpoint = ''query_peer_endpoint''"

fun network_domain_name :: "network_error_domain \<Rightarrow> string" where
  "network_domain_name Net_validation = ''validation''"
| "network_domain_name Net_address_resolution = ''address_resolution''"
| "network_domain_name Net_socket = ''socket''"
| "network_domain_name Net_state = ''state''"
| "network_domain_name Net_cancellation = ''cancellation''"
| "network_domain_name Net_timeout = ''timeout''"

fun dispatch_error_name :: "dispatch_error \<Rightarrow> string" where
  "dispatch_error_name Invalid_worker_count = ''invalid_worker_count''"
| "dispatch_error_name Invalid_pending_connection_limit = ''invalid_pending_connection_limit''"
| "dispatch_error_name Missing_connection_handler = ''missing_connection_handler''"
| "dispatch_error_name Invalid_connection = ''invalid_connection''"
| "dispatch_error_name Dispatcher_stopped = ''stopped''"
| "dispatch_error_name Dispatch_cancelled = ''cancelled''"
| "dispatch_error_name Worker_start_failed = ''worker_start_failed''"
| "dispatch_error_name Dispatch_allocation_failed = ''resource_allocation_failed''"
| "dispatch_error_name Invalid_admission_config = ''invalid_admission_config''"
| "dispatch_error_name Admission_start_failed = ''admission_start_failed''"

definition print_int :: "int \<Rightarrow> string" where
  "print_int i = (if i < 0 then ''-'' @ print_base 10 (nat (- i)) else print_base 10 (nat i))"

definition format_network_error :: "network_error \<Rightarrow> string" where
  "format_network_error e =
     ''operation='' @ network_operation_name (net_operation e) @ '' domain='' @ network_domain_name (net_domain e) @
     '' code='' @ print_int (net_code e)"

definition format_dispatch_error :: "dispatch_error \<times> int \<Rightarrow> string" where
  "format_dispatch_error e =
     ''dispatch_code='' @ dispatch_error_name (fst e) @ '' native_code='' @ print_int (snd e)"

datatype connection_failure_kind = Handler_error_failure | Handler_exception_failure

definition format_connection_failure :: "connection_failure_kind \<Rightarrow> network_error option \<Rightarrow> string" where
  "format_connection_failure kind network_error =
     (case (kind, network_error) of
        (Handler_error_failure, Some e) \<Rightarrow> ''handler_error '' @ format_network_error e
      | _ \<Rightarrow> ''handler_exception'')"

datatype server_failure_kind = Accept_error_failure | Dispatch_error_failure | Internal_exception_failure

record server_failure =
  failure_kind :: server_failure_kind
  failure_network :: "network_error option"
  failure_dispatch :: "(dispatch_error \<times> int) option"

definition format_server_failure :: "server_failure \<Rightarrow> string" where
  "format_server_failure f =
     (case failure_kind f of
        Accept_error_failure \<Rightarrow>
          (case failure_network f of
             Some e \<Rightarrow> ''accept_error '' @ format_network_error e
           | None \<Rightarrow> ''accept_error'')
      | Dispatch_error_failure \<Rightarrow>
          (case failure_dispatch f of
             Some e \<Rightarrow> ''dispatch_error '' @ format_dispatch_error e
           | None \<Rightarrow> ''dispatch_error'')
      | Internal_exception_failure \<Rightarrow> ''internal_exception'')"

definition log_connection_failure where
  "log_connection_failure wall_clock logger subsystem kind network_error w =
     logger_log wall_clock logger
       \<lparr>event_severity = Severity_error, event_subsystem = subsystem,
        event_message = format_connection_failure kind network_error\<rparr> w"

definition log_server_failure where
  "log_server_failure wall_clock logger subsystem failure w =
     logger_log wall_clock logger
       \<lparr>event_severity = Severity_error, event_subsystem = subsystem,
        event_message = format_server_failure failure\<rparr> w"

section \<open>The command line\<close>

datatype command_line_code = Missing_config | Missing_config_path | Duplicate_config | Unknown_argument

type_synonym command_line_error = "command_line_code \<times> string"

fun command_line_loop :: "string option \<Rightarrow> string list \<Rightarrow> (command_line_error, string option) result" where
  "command_line_loop config_path [] = Inr config_path"
| "command_line_loop config_path (argument # rest) =
     (if argument \<noteq> ''--config'' then Inl (Unknown_argument, argument)
      else if config_path \<noteq> None then Inl (Duplicate_config, argument)
      else
        (case rest of
           [] \<Rightarrow> Inl (Missing_config_path, ''--config'')
         | path # rest1 \<Rightarrow>
             (if path = ''--config'' then Inl (Duplicate_config, ''--config'')
              else if path = [] then Inl (Missing_config_path, ''--config'')
              else command_line_loop (Some path) rest1)))"

definition parse_command_line :: "string list \<Rightarrow> (command_line_error, string) result" where
  "parse_command_line arguments =
     (case command_line_loop None arguments of
        Inl e \<Rightarrow> Inl e
      | Inr None \<Rightarrow> Inl (Missing_config, [])
      | Inr (Some path) \<Rightarrow> Inr path)"

fun command_line_message :: "command_line_code \<Rightarrow> string" where
  "command_line_message Missing_config = ''the required --config option is missing''"
| "command_line_message Missing_config_path = ''--config requires a file path''"
| "command_line_message Duplicate_config = ''--config may be supplied only once''"
| "command_line_message Unknown_argument = ''unknown command-line argument''"

lemma parse_command_line_iff:
  "parse_command_line arguments = Inr path \<longleftrightarrow>
     arguments = [''--config'', path] \<and> path \<noteq> [] \<and> path \<noteq> ''--config''"
proof -
  have given: "command_line_loop (Some p) as = Inr r \<longleftrightarrow> as = [] \<and> r = Some p" for p as r
    by (cases as) auto
  show ?thesis
  proof (cases arguments)
    case (Cons a as)
    then show ?thesis
      by (cases as) (auto simp: parse_command_line_def given split: sum.splits option.splits)
  qed (simp add: parse_command_line_def)
qed

section \<open>Nothing is lost and nothing breaks the line\<close>

definition hex_value :: "char \<Rightarrow> nat" where
  "hex_value c = (if of_char c < (65::nat) then of_char c - 48 else of_char c - 55)"

text \<open>The reverse of the log style.\<close>

fun log_unescape :: "string \<Rightarrow> string" where
  "log_unescape [] = []"
| "log_unescape [c] = [c]"
| "log_unescape (c # e # rest) =
     (if c \<noteq> BACKSLASH then c # log_unescape (e # rest)
      else if e = BACKSLASH then BACKSLASH # log_unescape rest
      else if e = CHR ''n'' then LF # log_unescape rest
      else if e = CHR ''r'' then CR # log_unescape rest
      else if e = CHR ''t'' then HTAB # log_unescape rest
      else
        (case rest of
           h # l # rest1 \<Rightarrow> char_of (16 * hex_value h + hex_value l) # log_unescape rest1
         | _ \<Rightarrow> []))"

definition printable_byte :: "char \<Rightarrow> bool" where
  "printable_byte c \<longleftrightarrow> \<not> c < CHR 0x20 \<and> c \<noteq> CHR 0x7F"

lemma hex_digit: "n < 16 \<Longrightarrow> hex_value (hexadecimal_digits ! n) = n \<and> printable_byte (hexadecimal_digits ! n)"
proof -
  have "\<forall>n\<in>set [0..<16]. hex_value (hexadecimal_digits ! n) = n \<and> printable_byte (hexadecimal_digits ! n)"
    by code_simp
  then show "n < 16 \<Longrightarrow> ?thesis" by simp
qed

lemma hex_digits_of:
  "hex_value (hexadecimal_digits ! (of_char c div 16)) = of_char c div 16"
  "hex_value (hexadecimal_digits ! (of_char c mod 16)) = of_char c mod 16"
  "printable_byte (hexadecimal_digits ! (of_char c div 16))"
  "printable_byte (hexadecimal_digits ! (of_char c mod 16))"
proof -
  have "of_char c div 16 < (16::nat)" using nat_of_char_less_256 [of c] by linarith
  from hex_digit [OF this] hex_digit [of "of_char c mod 16"]
  show "hex_value (hexadecimal_digits ! (of_char c div 16)) = of_char c div 16"
    "hex_value (hexadecimal_digits ! (of_char c mod 16)) = of_char c mod 16"
    "printable_byte (hexadecimal_digits ! (of_char c div 16))"
    "printable_byte (hexadecimal_digits ! (of_char c mod 16))"
    by simp_all
qed

lemma unescape_plain: "c \<noteq> BACKSLASH \<Longrightarrow> log_unescape (c # s) = c # log_unescape s"
  by (cases s) auto

lemma unescape_hex: "log_unescape (append_hexadecimal_byte c @ s) = c # log_unescape s"
proof -
  have "16 * (of_char c div 16) + of_char c mod 16 = (of_char c :: nat)" by simp
  then show ?thesis by (simp add: append_hexadecimal_byte_def hex_digits_of)
qed

lemma unescape_single: "log_unescape (escape_single_byte Style_log c @ s) = c # log_unescape s"
proof -
  consider "c = BACKSLASH" | "c = LF" | "c = CR" | "c = HTAB" | "c \<notin> {BACKSLASH, LF, CR, HTAB}" by blast
  then show ?thesis
  proof cases
    case 5
    then have "escape_single_byte Style_log c = append_hexadecimal_byte c \<or> escape_single_byte Style_log c = [c]"
      by (auto simp: escape_single_byte_def)
    with 5 unescape_hex [of c s] unescape_plain [of c s] show ?thesis by auto
  qed (simp_all add: escape_single_byte_def)
qed

lemma unescape_raw: "BACKSLASH \<notin> set bytes \<Longrightarrow> log_unescape (bytes @ s) = bytes @ log_unescape s"
  by (induction bytes) (auto simp: unescape_plain)

lemma unescape_hex_bytes:
  "log_unescape (concat (map append_hexadecimal_byte bytes) @ s) = bytes @ log_unescape s"
  by (induction bytes) (auto simp: unescape_hex)

lemma multi_byte_scalar_bytes:
  assumes "multi_byte_scalar s = Some d" "c \<in> set (take (byte_count d) s)"
  shows "\<not> byte_u32 c < 0x80"
proof
  assume "byte_u32 c < 0x80"
  have d: "decode_one s = Some d" "1 < byte_count d"
    using assms(1) by (auto simp: multi_byte_scalar_def split: option.splits if_splits)
  from encode_decode [OF d(1)] assms(2) \<open>byte_u32 c < 0x80\<close>
  have "take (byte_count d) s = [c]" using ascii_in_encode [of "scalar_value d" c] by simp
  then have "length (take (byte_count d) s) = 1" by simp
  with d decode_one_count [OF d(1)] show False by simp
qed

lemma append_scalar_unescape:
  assumes "multi_byte_scalar s = Some d"
  shows "log_unescape (append_scalar_bytes (take (byte_count d) s) e @ t) = take (byte_count d) s @ log_unescape t"
proof -
  have "BACKSLASH \<notin> set (take (byte_count d) s)"
    using multi_byte_scalar_bytes [OF assms, of BACKSLASH] by (auto simp: byte_u32_def)
  then show ?thesis by (cases e) (simp_all add: append_scalar_bytes_def unescape_raw unescape_hex_bytes)
qed

lemma printable_hex: "list_all printable_byte (append_hexadecimal_byte c)"
proof -
  have "printable_byte BACKSLASH" "printable_byte (CHR ''x'')" by code_simp+
  then show ?thesis by (simp add: append_hexadecimal_byte_def hex_digits_of)
qed

lemma printable_single: "list_all printable_byte (escape_single_byte Style_log c)"
proof -
  have "list_all printable_byte [BACKSLASH, BACKSLASH]" "list_all printable_byte [BACKSLASH, CHR ''n'']"
    "list_all printable_byte [BACKSLASH, CHR ''r'']" "list_all printable_byte [BACKSLASH, CHR ''t'']"
    by code_simp+
  then show ?thesis using printable_hex [of c] by (simp add: escape_single_byte_def printable_byte_def)
qed

lemma high_printable: "\<not> byte_u32 c < 0x80 \<Longrightarrow> printable_byte c"
proof (rule ccontr)
  assume c: "\<not> byte_u32 c < 0x80" "\<not> printable_byte c"
  then have "of_char c < (128::nat)" by (auto simp: printable_byte_def less_char_def)
  then have "unat (byte_u32 c) < 128" by (simp add: byte_u32_def unat_of_nat)
  with c(1) show False by (simp add: word_less_nat_alt)
qed

lemma append_scalar_printable:
  "multi_byte_scalar s = Some d \<Longrightarrow> list_all printable_byte (append_scalar_bytes (take (byte_count d) s) e)"
  using multi_byte_scalar_bytes [of s d] high_printable printable_hex
  by (auto simp: append_scalar_bytes_def list_all_iff split: if_splits)

lemma safe_diagnostic_step:
  assumes "s \<noteq> []"
  obtains (scalar) d where "multi_byte_scalar s = Some d"
      "append_safe_diagnostic style s =
         append_scalar_bytes (take (byte_count d) s) (c1_control (scalar_value d)) @
         append_safe_diagnostic style (drop (byte_count d) s)"
    | (single) "append_safe_diagnostic style s =
         escape_single_byte style (hd s) @ append_safe_diagnostic style (tl s)"
  using assms append_safe_diagnostic.simps [of style s] by (cases "multi_byte_scalar s") simp_all

text \<open>
  C24. Log escaping is faithful and safe: the text written for a field of a log record contains no control
  character, so a message can neither start a second line nor send terminal sequences, and it
  determines the original bytes exactly.
\<close>

theorem log_escape_faithful:
  "log_unescape (append_safe_diagnostic Style_log s) = s \<and>
   list_all printable_byte (append_safe_diagnostic Style_log s)"
proof (induction "length s" arbitrary: s rule: less_induct)
  case less
  show ?case
  proof (cases "s = []")
    case True
    then show ?thesis by (simp add: append_safe_diagnostic.simps)
  next
    case False
    then show ?thesis
    proof (cases rule: safe_diagnostic_step [of s Style_log])
      case (scalar d)
      then have "1 < byte_count d" by (auto simp: multi_byte_scalar_def split: option.splits if_splits)
      then have "length (drop (byte_count d) s) < length s" using False by simp
      from less [OF this] scalar append_scalar_unescape append_scalar_printable show ?thesis by simp
    next
      case single
      have "length (tl s) < length s" using False by simp
      from less [OF this] single unescape_single printable_single False show ?thesis by simp
    qed
  qed
qed


end
