(* ===== verification/Config_Loader.thy ===== *)
theory Config_Loader
  imports Config_Validator Diagnostics
begin

text \<open>
  Loading \<^verbatim>\<open>spnode.conf\<close> and reporting what is wrong with it: \<^verbatim>\<open>src/configuration/config_loader.cpp\<close>, with the
  messages of lexer, parser and validator. The file is a parameter: whether it opens, whether reading
  fails, and its bytes.
\<close>

section \<open>Messages\<close>

fun lexer_message :: "lexer_error_code \<Rightarrow> string" where
  "lexer_message Input_too_large = ''configuration input exceeds the lexer size limit''"
| "lexer_message Invalid_utf8 = ''configuration input contains invalid UTF-8''"
| "lexer_message Unexpected_byte_order_mark = ''UTF-8 byte-order mark is only allowed at file start''"
| "lexer_message Lexer_embedded_null = ''configuration input contains an embedded null byte''"
| "lexer_message Unexpected_character = ''unexpected character in configuration input''"
| "lexer_message Invalid_escape_sequence = ''invalid escape sequence in string literal''"
| "lexer_message Unterminated_string = ''unterminated string literal''"
| "lexer_message Line_break_in_string = ''raw line break in string literal''"

fun parser_message :: "parser_error_code \<Rightarrow> string" where
  "parser_message Lexical_error = ''configuration tokenization failed''"
| "parser_message Unexpected_token = ''unexpected configuration token''"
| "parser_message Integer_out_of_range = ''configuration integer is out of range''"

fun expectation_message :: "expectation \<Rightarrow> string" where
  "expectation_message Expect_server_keyword = CHR 0x27 # ''server'' @ [CHR 0x27]"
| "expectation_message Expect_left_brace = CHR 0x27 # ''{'' @ [CHR 0x27]"
| "expectation_message Expect_right_brace = CHR 0x27 # ''}'' @ [CHR 0x27]"
| "expectation_message Expect_semicolon = CHR 0x27 # '';'' @ [CHR 0x27]"
| "expectation_message Expect_server_item = ''server directive or location block''"
| "expectation_message Expect_location_item = ''location directive''"
| "expectation_message Expect_string = ''string literal''"
| "expectation_message Expect_integer = ''integer literal''"
| "expectation_message Expect_boolean = ''boolean literal''"
| "expectation_message Expect_end_of_input = ''end of input''"

fun validation_message :: "validation_code \<Rightarrow> string" where
  "validation_message Duplicate_server_directive = ''server directive is repeated''"
| "validation_message Missing_location = ''at least one filesystem location is required''"
| "validation_message Invalid_bind_address = ''bind must be a numeric IPv4 or IPv6 address''"
| "validation_message Port_out_of_range = ''port must be between 1 and 65535''"
| "validation_message Missing_worker_threads = ''worker_threads is required when multithreading is enabled''"
| "validation_message Unexpected_worker_threads = ''worker_threads requires multithreading to be enabled''"
| "validation_message Worker_threads_out_of_range = ''worker_threads must be between 2 and 64''"
| "validation_message Invalid_log_level = ''log_level is not supported''"
| "validation_message Invalid_mime_types_file = ''mime_types_file must not be empty''"
| "validation_message Invalid_credentials_file = ''credentials_file must not be empty''"
| "validation_message Timeout_out_of_range = ''HTTP timeout must be between 1 and 86400000 milliseconds''"
| "validation_message Invalid_transport_mode = ''transport_mode is not supported''"
| "validation_message Invalid_trusted_proxy = ''trusted_proxy must be one numeric IPv4 or IPv6 address''"
| "validation_message Missing_trusted_proxy = ''trusted_proxy is required in trusted_proxy_https mode''"
| "validation_message Unexpected_trusted_proxy = ''trusted_proxy requires trusted_proxy_https mode''"
| "validation_message Unsafe_transport_bind =
     ''bind must be loopback in loopback_http mode and non-wildcard in trusted_proxy_https mode''"
| "validation_message Invalid_location_path = ''location must be a supported absolute HTTP path''"
| "validation_message Conflicting_location_path = ''location path conflicts with another filesystem location''"
| "validation_message Duplicate_location_directive = ''location directive is repeated''"
| "validation_message Missing_location_root = ''the required location filesystem path is missing''"
| "validation_message Invalid_location_root = ''location filesystem path must not be empty''"

section \<open>Loading\<close>

datatype config_file_error = Config_open_failed | Config_read_failed

fun config_file_message :: "config_file_error \<Rightarrow> string" where
  "config_file_message Config_open_failed = ''unable to open configuration file''"
| "config_file_message Config_read_failed = ''unable to read configuration file''"

datatype config_failure =
    File_failure config_file_error
  | Lexer_failure lexer_error
  | Parser_failure parser_error
  | Validation_failure "validation_error list"

definition read_config_source :: "(bool \<times> string) option \<Rightarrow> (config_file_error, string) result" where
  "read_config_source stream =
     (case stream of
        None \<Rightarrow> Inl Config_open_failed
      | Some (bad, bytes) \<Rightarrow>
          (if bad then Inl Config_read_failed else Inr (take (max_input_size_bytes + 1) bytes)))"

definition config_load ::
    "(bool \<times> string) option \<Rightarrow> (config_failure, server_settings list) result option" where
  "config_load stream =
     (case read_config_source stream of
        Inl e \<Rightarrow> Some (Inl (File_failure e))
      | Inr source \<Rightarrow>
          (case create_lexer source of
             Inl e \<Rightarrow> Some (Inl (Lexer_failure e))
           | Inr lexer \<Rightarrow>
               (case parse_config lexer of
                  Inl e \<Rightarrow>
                    (case error_lexer e of
                       Some le \<Rightarrow> Some (Inl (Lexer_failure le))
                     | None \<Rightarrow> Some (Inl (Parser_failure e)))
                | Inr parsed \<Rightarrow> map_option (map_sum Validation_failure id) (validate_config parsed))))"

section \<open>Reporting\<close>

definition append_diagnostic :: "string \<Rightarrow> source_location \<Rightarrow> string \<Rightarrow> string" where
  "append_diagnostic path location message =
     append_safe_diagnostic Style_path path @ '':'' @ print_base 10 (loc_line location) @ '':'' @
     print_base 10 (loc_column location) @ '': error: '' @ message"

definition format_validation_failures :: "string \<Rightarrow> validation_error list \<Rightarrow> string" where
  "format_validation_failures path failures =
     concat (map (\<lambda>(index, f).
       append_diagnostic path (ve_location f) (validation_message (ve_code f)) @
       (if index + 1 < length failures then [LF] else []))
       (zip [0..<length failures] failures))"

definition format_config_load_error :: "string \<Rightarrow> config_failure \<Rightarrow> string" where
  "format_config_load_error path failure =
     (case failure of
        File_failure e \<Rightarrow>
          ''error: '' @ config_file_message e @ '' '' @ [CHR 0x27] @ append_safe_diagnostic Style_path path @ [CHR 0x27]
      | Lexer_failure e \<Rightarrow> append_diagnostic path (lexer_error_location e) (lexer_message (lex_code e))
      | Parser_failure e \<Rightarrow>
          append_diagnostic path (parser_error_location e) (parser_message (parse_code e)) @
          (case error_expected e of None \<Rightarrow> [] | Some x \<Rightarrow> ''; expected '' @ expectation_message x)
      | Validation_failure failures \<Rightarrow> format_validation_failures path failures)"

section \<open>One line for each failure\<close>

lemma printable_single_style: "list_all printable_byte (escape_single_byte style c)"
proof (cases style)
  case Style_path
  then show ?thesis using printable_hex [of c] by (auto simp: escape_single_byte_def printable_byte_def)
qed (simp add: printable_single)

lemma safe_diagnostic_printable: "list_all printable_byte (append_safe_diagnostic style s)"
proof (induction "length s" arbitrary: s rule: less_induct)
  case less
  show ?case
  proof (cases "s = []")
    case True
    then show ?thesis by (simp add: append_safe_diagnostic.simps)
  next
    case False
    then show ?thesis
    proof (cases rule: safe_diagnostic_step [of s style])
      case (scalar d)
      then have "1 < byte_count d" by (auto simp: multi_byte_scalar_def split: option.splits if_splits)
      then have "length (drop (byte_count d) s) < length s" using False by simp
      from less [OF this] scalar append_scalar_printable show ?thesis by simp
    next
      case single
      have "length (tl s) < length s" using False by simp
      from less [OF this] single printable_single_style show ?thesis by simp
    qed
  qed
qed

lemma printable_lexer_message: "list_all printable_byte (lexer_message c)"
  by (induct c) code_simp+

lemma printable_parser_message: "list_all printable_byte (parser_message c)"
  by (induct c) code_simp+

lemma printable_expectation_message: "list_all printable_byte (expectation_message c)"
  by (induct c) code_simp+

lemma printable_validation_message: "list_all printable_byte (validation_message c)"
  by (induct c) code_simp+

lemma printable_file_message: "list_all printable_byte (config_file_message c)"
  by (induct c) code_simp+

lemmas printable_messages = printable_lexer_message printable_parser_message printable_expectation_message
  printable_validation_message printable_file_message

lemma printable_digits: "list_all printable_byte (print_base 10 n)"
proof -
  have "printable_byte c" if "std_digit 10 c \<noteq> None" for c
    using that by (auto simp: std_digit_def printable_byte_def less_char_def less_eq_char_def Let_def split: if_splits)
  with print_base_digits [of 10 n] show ?thesis by (simp add: list_all_iff)
qed

lemma printable_append_diagnostic:
  "list_all printable_byte m \<Longrightarrow> list_all printable_byte (append_diagnostic path location m)"
proof -
  have "list_all printable_byte '': error: ''" "list_all printable_byte '':''" by code_simp+
  then show "list_all printable_byte m \<Longrightarrow> ?thesis"
    by (simp add: append_diagnostic_def printable_digits safe_diagnostic_printable)
qed

fun join_lines :: "string list \<Rightarrow> string" where
  "join_lines [] = []"
| "join_lines [l] = l"
| "join_lines (l # ls) = l @ [LF] @ join_lines ls"

lemma format_validation_from:
  "concat (map (\<lambda>(index, f). d f @ (if index + 1 < n + length fs then [LF] else [])) (zip [n..<n + length fs] fs)) =
     join_lines (map d fs)"
proof (induction fs arbitrary: n)
  case (Cons f fs)
  have "[n..<n + length (f # fs)] = n # [Suc n..<Suc n + length fs]" by (simp add: upt_rec)
  with Cons.IH [of "Suc n"] show ?case by (cases fs) simp_all
qed simp

definition failure_count :: "config_failure \<Rightarrow> nat" where
  "failure_count failure = (case failure of Validation_failure fs \<Rightarrow> length fs | _ \<Rightarrow> 1)"

text \<open>
  C25. Configuration reports: loading ends for every file, in settings or in a failure, and the report of
  a failure has exactly one line for each thing that is wrong, without any control character that the
  name of the file could smuggle in.
\<close>

theorem config_reports:
  "\<exists>r. config_load stream = Some r \<and>
     (\<forall>path failure. \<exists>ls. format_config_load_error path failure = join_lines ls \<and>
        length ls = failure_count failure \<and> list_all (list_all printable_byte) ls)"
proof -
  have "\<exists>r. config_load stream = Some r"
    using parsed_configuration_valid
    by (fastforce simp: config_load_def split: sum.splits option.splits)
  moreover have "\<exists>ls. format_config_load_error path failure = join_lines ls \<and>
        length ls = failure_count failure \<and> list_all (list_all printable_byte) ls" for path failure
  proof (cases failure)
    case (Validation_failure fs)
    let ?d = "\<lambda>f. append_diagnostic path (ve_location f) (validation_message (ve_code f))"
    have "format_config_load_error path failure = join_lines (map ?d fs)"
      using format_validation_from [of ?d 0 fs] Validation_failure
      by (simp add: format_config_load_error_def format_validation_failures_def)
    with Validation_failure show ?thesis
      by (intro exI [of _ "map ?d fs"])
        (simp add: failure_count_def list_all_iff [of "list_all printable_byte"] printable_append_diagnostic
          printable_messages)
  next
    case (File_failure e)
    have "list_all printable_byte ''error: ''" "list_all printable_byte ('' '' @ [CHR 0x27])" by code_simp+
    with File_failure show ?thesis
      by (intro exI [of _ "[format_config_load_error path failure]"])
        (simp add: format_config_load_error_def failure_count_def printable_messages safe_diagnostic_printable)
  next
    case (Lexer_failure e)
    then show ?thesis
      by (intro exI [of _ "[format_config_load_error path failure]"])
        (simp add: format_config_load_error_def failure_count_def printable_messages printable_append_diagnostic)
  next
    case (Parser_failure e)
    have "list_all printable_byte ''; expected ''" by code_simp
    with Parser_failure show ?thesis
      by (intro exI [of _ "[format_config_load_error path failure]"])
        (simp add: format_config_load_error_def failure_count_def printable_messages printable_append_diagnostic
          split: option.splits)
  qed
  ultimately show ?thesis by blast
qed

end
