(* ===== verification/Credential_File.thy ===== *)
theory Credential_File
  imports Config_Lexer Authentication Posix_Files Json_Codec
begin

text \<open>
  The owner credential file: its strict grammar over the configuration tokens and the provider built
  from it (\<^verbatim>\<open>src/authentication/file_credential_provider.cpp\<close>), the exclusive creation of such a file
  (\<^verbatim>\<open>src/authentication/credential_file_provisioner.cpp\<close>), the Argon2id adapter
  (\<^verbatim>\<open>src/authentication/sodium_password_verifier.cpp\<close>), the password owner
  (\<^verbatim>\<open>src/authentication/sensitive_password.cpp\<close>) and the interactive tool
  (\<^verbatim>\<open>apps/sparenode-credentials/main.cpp\<close>). The POSIX variants of the file operations are modelled; paths
  are component lists, a relative path standing for its resolution against the working directory, so
  the directory \<^verbatim>\<open>.\<close> is the parent of a single component. libsodium's password functions are
  parameters, and so are the console and the standard input.
\<close>

section \<open>The provider\<close>

datatype credential_file_error =
    Credential_open_failed | Credential_not_regular_file | Credential_read_failed
  | Credential_file_too_large | Credential_malformed_file | Credential_missing_login
  | Credential_missing_verifier | Credential_invalid_login | Credential_invalid_verifier
  | Credential_resource_exhausted

definition maximum_credential_file_bytes :: nat where "maximum_credential_file_bytes = 4096"

record parsed_credentials =
  parsed_login :: "string option"
  parsed_verifier :: "string option"

record credential_parser =
  csp_lexer :: config_lexer
  csp_current :: config_token

text \<open>
  The parser's boolean operations: \<open>None\<close> is \<^verbatim>\<open>false\<close>, after which the caller drops the parser.
\<close>

definition csp_advance :: "config_lexer \<Rightarrow> credential_parser option" where
  "csp_advance l =
     (case next_token l of
        (l1, Inl _) \<Rightarrow> None
      | (l1, Inr token) \<Rightarrow> Some \<lparr>csp_lexer = l1, csp_current = token\<rparr>)"

definition csp_consume :: "token_kind \<Rightarrow> credential_parser \<Rightarrow> credential_parser option" where
  "csp_consume kind p =
     (if tok_kind (csp_current p) = kind then csp_advance (csp_lexer p) else None)"

definition csp_is_identifier :: "string \<Rightarrow> credential_parser \<Rightarrow> bool" where
  "csp_is_identifier v p \<longleftrightarrow>
     tok_kind (csp_current p) = Identifier \<and> lexeme (csp_current p) = v"

definition store_directive :: "string \<Rightarrow> string \<Rightarrow> parsed_credentials \<Rightarrow> parsed_credentials option" where
  "store_directive name v vals =
     (if name = ''login'' \<and> parsed_login vals = None then Some (vals\<lparr>parsed_login := Some v\<rparr>)
      else if name = ''password_verifier'' \<and> parsed_verifier vals = None
      then Some (vals\<lparr>parsed_verifier := Some v\<rparr>)
      else None)"

definition csp_parse_directive ::
    "parsed_credentials \<Rightarrow> credential_parser \<Rightarrow> (credential_parser \<times> parsed_credentials) option" where
  "csp_parse_directive vals p =
     (if tok_kind (csp_current p) \<noteq> Identifier then None
      else
        (case csp_advance (csp_lexer p) of
           None \<Rightarrow> None
         | Some p1 \<Rightarrow>
             (if tok_kind (csp_current p1) \<noteq> String_literal then None
              else
                (case decoded_string (csp_current p1) of
                   None \<Rightarrow> None
                 | Some v \<Rightarrow>
                     (case csp_advance (csp_lexer p1) of
                        None \<Rightarrow> None
                      | Some p2 \<Rightarrow>
                          (case csp_consume Semicolon p2 of
                             None \<Rightarrow> None
                           | Some p3 \<Rightarrow>
                               map_option (Pair p3) (store_directive (lexeme (csp_current p)) v vals)))))))"

lemma csp_advance_remaining:
  assumes "csp_advance l = Some p"
  shows "lexer_remaining (csp_lexer p) \<le> lexer_remaining l"
    and "tok_kind (csp_current p) \<noteq> End_of_input \<Longrightarrow> lexer_remaining (csp_lexer p) < lexer_remaining l"
  using assms next_token_remaining [of l] by (auto simp: csp_advance_def split: prod.splits sum.splits)

lemma csp_directive_remaining:
  assumes "csp_parse_directive vals p = Some (p', vals')"
  shows "lexer_remaining (csp_lexer p') < lexer_remaining (csp_lexer p)"
proof -
  obtain p1 p2 where p: "csp_advance (csp_lexer p) = Some p1" "tok_kind (csp_current p1) = String_literal"
    "csp_advance (csp_lexer p1) = Some p2" "csp_advance (csp_lexer p2) = Some p'"
    using assms by (auto simp: csp_parse_directive_def csp_consume_def split: if_splits option.splits)
  have "lexer_remaining (csp_lexer p1) < lexer_remaining (csp_lexer p)"
    using csp_advance_remaining(2) [OF p(1)] p(2) by simp
  with csp_advance_remaining(1) [OF p(3)] csp_advance_remaining(1) [OF p(4)] show ?thesis by linarith
qed

function csp_directives ::
    "parsed_credentials \<Rightarrow> credential_parser \<Rightarrow> (credential_parser \<times> parsed_credentials) option" where
  "csp_directives vals p =
     (if tok_kind (csp_current p) = Right_brace then Some (p, vals)
      else if tok_kind (csp_current p) = End_of_input then None
      else
        (case csp_parse_directive vals p of
           None \<Rightarrow> None
         | Some (p1, vals1) \<Rightarrow> csp_directives vals1 p1))"
  by pat_completeness auto
termination
  by (relation "measure (\<lambda>(vals, p). lexer_remaining (csp_lexer p))")
    (auto dest: csp_directive_remaining)

declare csp_directives.simps [simp del]

definition csp_open_block :: "config_lexer \<Rightarrow> credential_parser option" where
  "csp_open_block l =
     (case csp_advance l of
        None \<Rightarrow> None
      | Some p \<Rightarrow>
          (if \<not> csp_is_identifier ''owner'' p then None
           else
             (case csp_advance (csp_lexer p) of
                None \<Rightarrow> None
              | Some p1 \<Rightarrow> csp_consume Left_brace p1)))"

definition csp_parse :: "config_lexer \<Rightarrow> (credential_file_error, parsed_credentials) result" where
  "csp_parse l =
     (case csp_open_block l of
        None \<Rightarrow> Inl Credential_malformed_file
      | Some p \<Rightarrow>
          (case csp_directives \<lparr>parsed_login = None, parsed_verifier = None\<rparr> p of
             None \<Rightarrow> Inl Credential_malformed_file
           | Some (p1, vals) \<Rightarrow>
               (case csp_advance (csp_lexer p1) of
                  None \<Rightarrow> Inl Credential_malformed_file
                | Some p2 \<Rightarrow>
                    (if tok_kind (csp_current p2) \<noteq> End_of_input then Inl Credential_malformed_file
                     else Inr vals))))"

definition is_valid_owner_login :: "string \<Rightarrow> bool" where
  "is_valid_owner_login login =
     (if login = [] \<or> length login > maximum_owner_login_bytes then False
      else list_all (\<lambda>byte. \<not> (byte < CHR 0x20 \<or> byte = CHR 0x7F)) login)"

definition create_from_source ::
    "(string \<Rightarrow> bool) \<Rightarrow> string \<Rightarrow> (credential_file_error, credential_record) result" where
  "create_from_source is_usable source =
     (if length source > maximum_credential_file_bytes then Inl Credential_file_too_large
      else
        (case create_lexer source of
           Inl _ \<Rightarrow> Inl Credential_malformed_file
         | Inr lexer \<Rightarrow>
             (case csp_parse lexer of
                Inl e \<Rightarrow> Inl e
              | Inr vals \<Rightarrow>
                  (case parsed_login vals of
                     None \<Rightarrow> Inl Credential_missing_login
                   | Some login \<Rightarrow>
                       (case parsed_verifier vals of
                          None \<Rightarrow> Inl Credential_missing_verifier
                        | Some encoded \<Rightarrow>
                            (if \<not> is_valid_owner_login login then Inl Credential_invalid_login
                             else if \<not> is_usable encoded then Inl Credential_invalid_verifier
                             else Inr \<lparr>cred_identity = ''owner'', cred_canonical_login = login,
                                       cred_verifier = encoded\<rparr>))))))"

definition find_by_login :: "credential_record \<Rightarrow> string \<Rightarrow> (unit, credential_record option) result" where
  "find_by_login credential login =
     (if login \<noteq> cred_canonical_login credential then Inr None else Inr (Some credential))"

subsection \<open>Reading the file\<close>

abbreviation ELOOP :: errno where "ELOOP \<equiv> 40"

text \<open>Reads until the buffer of one byte more than the limit is full, the file ends or a read fails.\<close>

partial_function (option) credential_read_loop ::
    "'w posix \<Rightarrow> fd \<Rightarrow> string \<Rightarrow> 'w \<Rightarrow> ('w \<times> (credential_file_error, string) result) option" where
  "credential_read_loop px d source w =
     (if length source \<ge> maximum_credential_file_bytes + 1 then Some (w, Inr source)
      else
        (case px_read px d (maximum_credential_file_bytes + 1 - length source) w of
           (w1, Inr bytes) \<Rightarrow>
             (if bytes \<noteq> [] then credential_read_loop px d (source @ bytes) w1
              else Some (w1, Inr source))
         | (w1, Inl e) \<Rightarrow>
             (if e \<noteq> EINTR then Some (w1, Inl Credential_read_failed)
              else credential_read_loop px d source w1)))"

definition credential_read_opened ::
    "'w posix \<Rightarrow> fd \<Rightarrow> 'w \<Rightarrow> ('w \<times> (credential_file_error, string) result) option" where
  "credential_read_opened px d w =
     (case px_fstat px d w of
        (w1, Inl _) \<Rightarrow> Some (w1, Inl Credential_read_failed)
      | (w1, Inr attributes) \<Rightarrow>
          (if stat_kind attributes \<noteq> Stat_regular then Some (w1, Inl Credential_not_regular_file)
           else if stat_size attributes < 0 \<or> stat_size attributes > int maximum_credential_file_bytes
           then Some (w1, Inl Credential_file_too_large)
           else
             (case credential_read_loop px d [] w1 of
                None \<Rightarrow> None
              | Some (w2, Inl e) \<Rightarrow> Some (w2, Inl e)
              | Some (w2, Inr source) \<Rightarrow>
                  (if length source > maximum_credential_file_bytes
                   then Some (w2, Inl Credential_file_too_large)
                   else Some (w2, Inr source)))))"

definition read_credential_source ::
    "'w posix \<Rightarrow> string list \<Rightarrow> 'w \<Rightarrow> ('w \<times> (credential_file_error, string) result) option" where
  "read_credential_source px path w =
     (case px_open px path [O_RDONLY, O_CLOEXEC, O_NOFOLLOW] w of
        (w1, Inl e) \<Rightarrow>
          Some (w1, Inl (if e = ELOOP then Credential_not_regular_file else Credential_open_failed))
      | (w1, Inr d) \<Rightarrow> map_option (closing px d) (credential_read_opened px d w1))"

definition load_credentials ::
    "'w posix \<Rightarrow> (string \<Rightarrow> bool) \<Rightarrow> string list \<Rightarrow> 'w \<Rightarrow> ('w \<times> (credential_file_error, credential_record) result) option" where
  "load_credentials px is_usable path w =
     (case read_credential_source px path w of
        None \<Rightarrow> None
      | Some (w1, Inl e) \<Rightarrow> Some (w1, Inl e)
      | Some (w1, Inr source) \<Rightarrow> Some (w1, create_from_source is_usable source))"

section \<open>Password verification\<close>

datatype password_error =
    Password_initialization_failed | Password_empty | Password_too_large | Password_invalid_verifier
  | Password_hashing_failed | Password_resource_exhausted

text \<open>libsodium: \<^verbatim>\<open>crypto_pwhash_str_alg\<close>, \<^verbatim>\<open>crypto_pwhash_str_verify\<close>, \<^verbatim>\<open>crypto_pwhash_str_needs_rehash\<close>, \<open>0\<close> for success.\<close>

record sodium_pwhash =
  pwhash_str :: "string \<Rightarrow> string option"
  pwhash_verify :: "string \<Rightarrow> string \<Rightarrow> bool"
  pwhash_needs_rehash :: "string \<Rightarrow> int"

definition pwhash_STRBYTES :: nat where "pwhash_STRBYTES = 128"

definition supported_password_profile :: string where
  "supported_password_profile = ''$argon2id$v=19$m=65536,t=2,p=1$''"

definition copy_encoded_verifier :: "string \<Rightarrow> string option" where
  "copy_encoded_verifier encoded =
     (if encoded = [] \<or> length encoded \<ge> pwhash_STRBYTES \<or> NUL \<in> set encoded then None
      else Some encoded)"

definition sodium_hash :: "sodium_pwhash \<Rightarrow> string \<Rightarrow> (password_error, string) result" where
  "sodium_hash na password =
     (if password = [] then Inl Password_empty
      else if length password > maximum_password_bytes then Inl Password_too_large
      else (case pwhash_str na password of None \<Rightarrow> Inl Password_hashing_failed | Some s \<Rightarrow> Inr s))"

definition sodium_is_usable :: "sodium_pwhash \<Rightarrow> string \<Rightarrow> bool" where
  "sodium_is_usable na encoded =
     (if \<not> prefix supported_password_profile encoded then False
      else (case copy_encoded_verifier encoded of
              None \<Rightarrow> False
            | Some storage \<Rightarrow> pwhash_needs_rehash na storage = 0))"

definition sodium_verify :: "sodium_pwhash \<Rightarrow> string \<Rightarrow> string \<Rightarrow> (password_error, bool) result" where
  "sodium_verify na password encoded =
     (if length password > maximum_password_bytes then Inl Password_too_large
      else if \<not> sodium_is_usable na encoded then Inl Password_invalid_verifier
      else (case copy_encoded_verifier encoded of
              None \<Rightarrow> Inl Password_invalid_verifier
            | Some storage \<Rightarrow> Inr (pwhash_verify na storage password)))"

text \<open>\<^verbatim>\<open>SensitivePassword::equals\<close>: the differences of all bytes are collected before the decision.\<close>

definition byte8 :: "char \<Rightarrow> 8 word" where
  "byte8 c = of_nat (of_char c)"

definition password_equals :: "string \<Rightarrow> string \<Rightarrow> bool" where
  "password_equals a b =
     (if length a \<noteq> length b then False
      else fold (\<lambda>(x, y) difference. difference OR (byte8 x XOR byte8 y)) (zip a b) 0 = 0)"

section \<open>Provisioning\<close>

datatype provisioning_error =
    Provision_invalid_login | Provision_empty_password | Provision_password_too_large
  | Provision_output_exists | Provision_open_failed | Provision_write_failed
  | Provision_hashing_failed | Provision_resource_exhausted

definition escape_login :: "string \<Rightarrow> string" where
  "escape_login login =
     concat (map (\<lambda>byte. if byte = BACKSLASH \<or> byte = DQUOTE then [BACKSLASH, byte] else [byte]) login)"

definition credential_source :: "string \<Rightarrow> string \<Rightarrow> string" where
  "credential_source login encoded =
     ''owner {'' @ [LF] @ ''    login '' @ [DQUOTE] @ escape_login login @ [DQUOTE] @ '';'' @ [LF] @
     ''    password_verifier '' @ [DQUOTE] @ encoded @ [DQUOTE] @ '';'' @ [LF] @ ''}'' @ [LF]"

definition sync_parent_directory :: "'w posix \<Rightarrow> string list \<Rightarrow> 'w \<Rightarrow> 'w \<times> bool" where
  "sync_parent_directory px path w =
     (case px_open px (butlast path) [O_RDONLY, O_DIRECTORY, O_CLOEXEC] w of
        (w1, Inl _) \<Rightarrow> (w1, False)
      | (w1, Inr directory) \<Rightarrow>
          (case px_fsync px directory w1 of
             (w2, sync) \<Rightarrow>
               (case px_close px directory w2 of
                  (w3, closed) \<Rightarrow> (w3, \<not> isl sync \<and> \<not> isl closed))))"

partial_function (option) exclusive_write_loop ::
    "'w posix \<Rightarrow> fd \<Rightarrow> string \<Rightarrow> 'w \<Rightarrow> ('w \<times> bool) option" where
  "exclusive_write_loop px d content w =
     (if content = [] then Some (w, True)
      else
        (case px_write px d content w of
           (w1, Inr n) \<Rightarrow>
             (if n > 0 then exclusive_write_loop px d (drop n content) w1 else Some (w1, False))
         | (w1, Inl e) \<Rightarrow>
             (if e = EINTR then exclusive_write_loop px d content w1 else Some (w1, False))))"

definition write_exclusive_file ::
    "'w posix \<Rightarrow> string list \<Rightarrow> string \<Rightarrow> 'w \<Rightarrow> ('w \<times> (provisioning_error, unit) result) option" where
  "write_exclusive_file px path content w =
     (case px_open px path [O_WRONLY, O_CREAT, O_EXCL, O_CLOEXEC, O_NOFOLLOW] w of
        (w1, Inl e) \<Rightarrow>
          Some (w1, Inl (if e = EEXIST then Provision_output_exists else Provision_open_failed))
      | (w1, Inr d) \<Rightarrow>
          (case exclusive_write_loop px d content w1 of
             None \<Rightarrow> None
           | Some (w2, written) \<Rightarrow>
               (case (if written then map_prod id (\<lambda>r. \<not> isl r) (px_fsync px d w2) else (w2, False)) of
                  (w3, synced) \<Rightarrow>
                    (case px_close px d w3 of
                       (w4, closed) \<Rightarrow>
                         (case (if synced \<and> \<not> isl closed then sync_parent_directory px path w4 else (w4, False)) of
                            (w5, succeeded) \<Rightarrow>
                              (if succeeded then Some (w5, Inr ())
                               else Some (fst (px_remove px path w5), Inl Provision_write_failed)))))))"

fun map_verifier_error :: "password_error \<Rightarrow> provisioning_error" where
  "map_verifier_error Password_empty = Provision_empty_password"
| "map_verifier_error Password_too_large = Provision_password_too_large"
| "map_verifier_error Password_resource_exhausted = Provision_resource_exhausted"
| "map_verifier_error Password_initialization_failed = Provision_hashing_failed"
| "map_verifier_error Password_invalid_verifier = Provision_hashing_failed"
| "map_verifier_error Password_hashing_failed = Provision_hashing_failed"

definition provision ::
    "'w posix \<Rightarrow> sodium_pwhash \<Rightarrow> string list \<Rightarrow> string \<Rightarrow> string \<Rightarrow> 'w \<Rightarrow>
     ('w \<times> (provisioning_error, unit) result) option" where
  "provision px na output_path login password w =
     (if \<not> is_valid_owner_login login then Some (w, Inl Provision_invalid_login)
      else
        (case sodium_hash na password of
           Inl e \<Rightarrow> Some (w, Inl (map_verifier_error e))
         | Inr encoded \<Rightarrow> write_exclusive_file px output_path (credential_source login encoded) w))"

fun provisioning_message :: "provisioning_error \<Rightarrow> string" where
  "provisioning_message Provision_invalid_login = ''login is empty, oversized, or contains control bytes''"
| "provisioning_message Provision_empty_password = ''password must not be empty''"
| "provisioning_message Provision_password_too_large = ''password exceeds the supported size limit''"
| "provisioning_message Provision_output_exists = ''credential file already exists and was not replaced''"
| "provisioning_message Provision_open_failed = ''unable to create the credential file''"
| "provisioning_message Provision_write_failed = ''unable to persist the complete credential file''"
| "provisioning_message Provision_hashing_failed = ''password hashing could not complete''"
| "provisioning_message Provision_resource_exhausted =
     ''credential provisioning resources could not be allocated''"

section \<open>The provisioning tool\<close>

text \<open>
  The standard input as the bytes still to come, whether its end is a read failure instead of the end
  of the file, and whether echo can be switched off.
\<close>

record console =
  con_input :: string
  con_broken :: bool
  con_echo_disables :: bool

definition console_getline :: "console \<Rightarrow> console \<times> string option" where
  "console_getline c =
     (let line = takeWhile (\<lambda>byte. byte \<noteq> LF) (con_input c);
          rest = dropWhile (\<lambda>byte. byte \<noteq> LF) (con_input c)
      in if rest = [] then (c\<lparr>con_input := []\<rparr>, if line = [] \<or> con_broken c then None else Some line)
         else (c\<lparr>con_input := tl rest\<rparr>, Some line))"

datatype password_input_error =
  Input_console_unavailable | Input_read_failed | Input_password_too_large

text \<open>The input loop: what was kept, what follows, and whether a line feed ended it.\<close>

fun collect_password :: "string \<Rightarrow> string \<Rightarrow> string \<times> string \<times> bool" where
  "collect_password kept [] = (kept, [], False)"
| "collect_password kept (byte # rest) =
     (if byte = LF then (kept, rest, True)
      else if length kept > maximum_password_bytes then collect_password kept rest
      else collect_password (kept @ [byte]) rest)"

definition read_password :: "console \<Rightarrow> console \<times> (password_input_error, string) result" where
  "read_password c =
     (if \<not> con_echo_disables c then (c, Inl Input_console_unavailable)
      else
        (case collect_password [] (con_input c) of
           (kept, rest, line_ended) \<Rightarrow>
             (c\<lparr>con_input := rest\<rparr>,
              if \<not> line_ended \<and> con_broken c then Inl Input_read_failed
              else if length kept > maximum_password_bytes then Inl Input_password_too_large
              else Inr kept)))"

fun password_input_message :: "password_input_error \<Rightarrow> string" where
  "password_input_message Input_console_unavailable = ''password input requires an interactive terminal''"
| "password_input_message Input_read_failed = ''unable to read password input''"
| "password_input_message Input_password_too_large = ''password exceeds the supported size limit''"

text \<open>\<open>arguments\<close> are the ones after the program's name.\<close>

definition parse_output_path :: "string list \<Rightarrow> string option" where
  "parse_output_path arguments =
     (if arguments = [] then Some ''credentials.conf''
      else if arguments = [''--help''] then None
      else if length arguments = 2 \<and> arguments ! 0 = ''--output'' \<and> arguments ! 1 \<noteq> []
      then Some (arguments ! 1)
      else None)"

text \<open>The exit code and the error printed, after the questions have been answered.\<close>

definition tool_provision ::
    "'w posix \<Rightarrow> sodium_pwhash \<Rightarrow> string list \<Rightarrow> string \<Rightarrow> console \<Rightarrow> 'w \<Rightarrow> ('w \<times> int \<times> string option) option" where
  "tool_provision px na path login c w =
     (case read_password c of
        (c1, Inl e) \<Rightarrow> Some (w, 2, Some (password_input_message e))
      | (c1, Inr password) \<Rightarrow>
          (case read_password c1 of
             (c2, Inl e) \<Rightarrow> Some (w, 2, Some (password_input_message e))
           | (c2, Inr confirmation) \<Rightarrow>
               (if \<not> password_equals password confirmation
                then Some (w, 2, Some ''password confirmation does not match'')
                else
                  (case provision px na path login password w of
                     None \<Rightarrow> None
                   | Some (w1, Inl e) \<Rightarrow> Some (w1, 3, Some (provisioning_message e))
                   | Some (w1, Inr _) \<Rightarrow> Some (w1, 0, None)))))"

definition tool_main ::
    "'w posix \<Rightarrow> sodium_pwhash \<Rightarrow> bool \<Rightarrow> (string \<Rightarrow> string list) \<Rightarrow> string list \<Rightarrow> console \<Rightarrow> 'w \<Rightarrow>
     ('w \<times> int \<times> string option) option" where
  "tool_main px na initialized path_of arguments c w =
     (case parse_output_path arguments of
        None \<Rightarrow> Some (w, if arguments = [''--help''] then 0 else 2, None)
      | Some path \<Rightarrow>
          (if \<not> initialized then Some (w, 3, Some ''password cryptography could not be initialized'')
           else
             (case console_getline c of
                (c1, None) \<Rightarrow> Some (w, 2, Some ''unable to read login'')
              | (c1, Some login) \<Rightarrow>
                  (if \<not> is_valid_owner_login login
                   then Some (w, 2, Some ''login is empty, oversized, or contains control bytes'')
                   else tool_provision px na (path_of path) login c1 w))))"

section \<open>Comparing passwords\<close>

lemma byte8_inject: "byte8 x = byte8 y \<longleftrightarrow> x = y"
proof
  assume "byte8 x = byte8 y"
  then have "(of_nat (of_char x) :: 8 word) = of_nat (of_char y)" by (simp add: byte8_def)
  from arg_cong [OF this, of unat] have "of_char x mod (2 ^ 8) = (of_char y mod (2 ^ 8) :: nat)"
    by (simp only: unat_of_nat len_bit0 len_num1) simp
  then have "(of_char x :: nat) = of_char y" by simp
  then show "x = y" by simp
qed simp

lemma xor_zero: "(a XOR b :: 'a::len word) = 0 \<longleftrightarrow> a = b"
  by (auto simp: bit_eq_iff bit_simps)

lemma differences_zero:
  "fold (\<lambda>(x, y) difference. difference OR (byte8 x XOR byte8 y)) ps d = 0 \<longleftrightarrow>
     d = 0 \<and> list_all (\<lambda>(x, y). x = y) ps"
proof (induction ps arbitrary: d)
  case (Cons p ps)
  obtain x y where p: "p = (x, y)" by (cases p)
  have "d OR (byte8 x XOR byte8 y) = 0 \<longleftrightarrow> d = 0 \<and> x = y"
    using or_eq_0_iff [of d "byte8 x XOR byte8 y"] xor_zero [of "byte8 x" "byte8 y"] byte8_inject [of x y]
    by blast
  then show ?case
    unfolding p by (simp only: fold_Cons o_apply prod.case Cons.IH list.pred_inject conj_assoc)
qed simp

lemma zip_all_equal: "length a = length b \<Longrightarrow> list_all (\<lambda>(x, y). x = y) (zip a b) \<longleftrightarrow> a = b"
  by (induction a b rule: list_induct2) auto

lemma password_equals_iff: "password_equals a b \<longleftrightarrow> a = b"
  unfolding password_equals_def using differences_zero [of "zip a b" 0] zip_all_equal [of a b] by auto

section \<open>What the tool writes, the server reads\<close>

text \<open>The encoded verifier is printable ASCII without quotes and backslashes.\<close>

definition verifier_text :: "string \<Rightarrow> bool" where
  "verifier_text encoded \<longleftrightarrow>
     list_all (\<lambda>c. CHR 0x20 < c \<and> c < CHR 0x7F \<and> c \<noteq> DQUOTE \<and> c \<noteq> BACKSLASH) encoded"

lemma ascii_quotable:
  assumes "CHR 0x20 < c" "c < CHR 0x7F"
  shows "quotable (byte_u32 c) \<and> utf8_encode (byte_u32 c) = [c] \<and>
         (c \<noteq> DQUOTE \<longrightarrow> c \<noteq> BACKSLASH \<longrightarrow> escape_scalar (byte_u32 c) = [c])"
proof -
  have n: "of_char c < (127::nat)" "of_char c > (32::nat)" using assms by (simp_all add: less_char_def)
  then have u: "unat (byte_u32 c) = of_char c" by (simp add: byte_u32_def unat_of_nat)
  then have lt: "byte_u32 c < 0x80" and ne: "byte_u32 c \<noteq> 0" "byte_u32 c \<noteq> 0xFEFF" "byte_u32 c \<noteq> 0x0A"
    "byte_u32 c \<noteq> 0x0D"
    using n by (auto simp: word_less_nat_alt word_unat_eq_iff)
  have q: "c = DQUOTE" if "byte_u32 c = 0x22"
    using that u32_char_byte [of c] u32_char_byte [of DQUOTE] by simp
  have b: "c = BACKSLASH" if "byte_u32 c = 0x5C"
    using that u32_char_byte [of c] u32_char_byte [of BACKSLASH] by simp
  from ascii_encode [OF lt] ne q b show ?thesis by (auto simp: quotable_def escape_scalar_def)
qed

lemma verifier_quoted:
  assumes "verifier_text encoded"
  shows "list_all quotable (map byte_u32 encoded) \<and> concat (map utf8_encode (map byte_u32 encoded)) = encoded \<and>
         quote_string (map byte_u32 encoded) = DQUOTE # encoded @ [DQUOTE]"
proof -
  have "list_all quotable (map byte_u32 encoded) \<and> concat (map utf8_encode (map byte_u32 encoded)) = encoded \<and>
      concat (map escape_scalar (map byte_u32 encoded)) = encoded"
    using assms unfolding verifier_text_def
    by (induction encoded) (auto dest: ascii_quotable)
  then show ?thesis by (simp add: quote_string_def)
qed

lemma escape_login_append: "escape_login (a @ b) = escape_login a @ escape_login b"
  by (simp add: escape_login_def)

lemma escape_login_plain: "DQUOTE \<notin> set a \<Longrightarrow> BACKSLASH \<notin> set a \<Longrightarrow> escape_login a = a"
  by (induction a) (auto simp: escape_login_def)

lemma escape_scalar_login:
  assumes "quotable v" "list_all (\<lambda>byte. \<not> byte < CHR 0x20) (utf8_encode v)"
  shows "escape_login (utf8_encode v) = escape_scalar v"
proof -
  have v: "is_scalar_value v" using assms(1) by (simp add: quotable_def)
  consider "v = 0x22 \<or> v = 0x5C" | "v = 0x0A \<or> v = 0x0D" | "v \<notin> {0x22, 0x5C, 0x0A, 0x0D}" by blast
  then show ?thesis
  proof cases
    case 1
    then show ?thesis by (auto simp: escape_login_def escape_scalar_def)
  next
    case 2
    with assms(2) show ?thesis by (auto simp: less_char_def)
  next
    case 3
    have "c \<notin> set (utf8_encode v)" if "byte_u32 c \<in> {0x22, 0x5C}" for c
    proof
      assume "c \<in> set (utf8_encode v)"
      moreover have "byte_u32 c < 0x80" using that by auto
      ultimately have "utf8_encode v = [c]" using ascii_in_encode [OF v] by blast
      with encode_ascii_head [OF v this] that 3 \<open>byte_u32 c < 0x80\<close> show False by auto
    qed
    then have "DQUOTE \<notin> set (utf8_encode v)" "BACKSLASH \<notin> set (utf8_encode v)" by simp_all
    with 3 show ?thesis by (simp add: escape_login_plain escape_scalar_def)
  qed
qed

lemma escape_login_scalars:
  assumes "list_all quotable vs" "list_all (\<lambda>byte. \<not> byte < CHR 0x20) (concat (map utf8_encode vs))"
  shows "DQUOTE # escape_login (concat (map utf8_encode vs)) @ [DQUOTE] = quote_string vs"
proof -
  have "escape_login (concat (map utf8_encode vs)) = concat (map escape_scalar vs)"
    using assms
  proof (induction vs)
    case Nil
    show ?case by (simp add: escape_login_def)
  qed (simp add: escape_login_append escape_scalar_login)
  then show ?thesis by (simp add: quote_string_def)
qed

lemma escape_login_length: "length (escape_login login) \<le> 2 * length login"
  by (induction login) (auto simp: escape_login_def)


text \<open>One token read by the credential parser.\<close>

definition csp_at :: "token_kind \<Rightarrow> string \<Rightarrow> credential_parser \<Rightarrow> bool" where
  "csp_at k s p \<longleftrightarrow> tok_kind (csp_current p) = k \<and> reads s (csp_lexer p)"

lemma csp_advanceI:
  "next_token l = (l', Inr t) \<Longrightarrow> csp_advance l = Some \<lparr>csp_lexer = l', csp_current = t\<rparr>"
  by (simp add: csp_advance_def)

lemma csp_spaces:
  assumes "reads (ws @ s) l" "list_all (\<lambda>c. is_config_space c \<and> c \<noteq> CR) ws"
  shows "\<exists>l'. reads s l' \<and> csp_advance l = csp_advance l'"
  using assms
proof (induction ws arbitrary: l)
  case (Cons c ws)
  then obtain l1 where "reads (ws @ s) l1" "next_token l = next_token l1"
    using reads_space [of c "ws @ s" l] by auto
  with Cons show ?case by (force simp: csp_advance_def)
qed auto

lemma csp_punctuation:
  assumes "reads (ws @ c # s) l" "list_all (\<lambda>c. is_config_space c \<and> c \<noteq> CR) ws"
    "(c, k) \<in> {(CHR ''{'', Left_brace), (CHR ''}'', Right_brace), (CHR '';'', Semicolon)}"
  shows "\<exists>p. csp_advance l = Some p \<and> csp_at k s p"
proof -
  obtain l1 where l1: "reads (c # s) l1" "csp_advance l = csp_advance l1"
    using csp_spaces [OF assms(1,2)] by blast
  from reads_punctuation [OF l1(1) assms(3)] l1(2) csp_advanceI show ?thesis by (fastforce simp: csp_at_def)
qed

definition keyword_text :: "string \<Rightarrow> bool" where
  "keyword_text w \<longleftrightarrow>
     w \<noteq> [] \<and> is_identifier_start (hd w) \<and> list_all is_identifier_continuation (tl w) \<and> w \<notin> {''true'', ''false''}"

lemma directive_words: "keyword_text ''owner''" "keyword_text ''login''" "keyword_text ''password_verifier''"
  by code_simp+

lemma csp_word:
  assumes "reads (ws @ w @ CHR '' '' # s) l" "list_all (\<lambda>c. is_config_space c \<and> c \<noteq> CR) ws" "keyword_text w"
  shows "\<exists>p. csp_advance l = Some p \<and> csp_at Identifier (CHR '' '' # s) p \<and> lexeme (csp_current p) = w"
proof -
  obtain l1 where l1: "reads (w @ CHR '' '' # s) l1" "csp_advance l = csp_advance l1"
    using csp_spaces [OF assms(1,2)] by blast
  obtain x w' where w: "w = x # w'" using assms(3) by (cases w) (auto simp: keyword_text_def)
  have "\<not> is_identifier_continuation (CHR '' '')" by code_simp
  with reads_identifier [OF l1(1) w] assms(3) w l1(2) csp_advanceI show ?thesis
    by (fastforce simp: csp_at_def keyword_text_def)
qed

lemma csp_string:
  assumes "reads ('' '' @ quote_string vs @ s) l" "list_all quotable vs"
  shows "\<exists>p. csp_advance l = Some p \<and> csp_at String_literal s p \<and>
             decoded_string (csp_current p) = Some (concat (map utf8_encode vs))"
proof -
  have "list_all (\<lambda>c. is_config_space c \<and> c \<noteq> CR) '' ''" by (simp add: is_config_space_def)
  then obtain l1 where l1: "reads (quote_string vs @ s) l1" "csp_advance l = csp_advance l1"
    using csp_spaces [OF assms(1)] by blast
  from reads_quoted [OF l1(1) assms(2)] l1(2) csp_advanceI show ?thesis by (fastforce simp: csp_at_def)
qed

lemma csp_directive:
  assumes "csp_at Identifier ('' '' @ quote_string vs @ CHR '';'' # s) p" "list_all quotable vs"
    "store_directive (lexeme (csp_current p)) (concat (map utf8_encode vs)) vals = Some vals'"
  shows "\<exists>l. reads s l \<and> csp_parse_directive vals p = map_option (\<lambda>p'. (p', vals')) (csp_advance l)"
proof -
  have p: "tok_kind (csp_current p) = Identifier" "reads ('' '' @ quote_string vs @ CHR '';'' # s) (csp_lexer p)"
    using assms(1) by (auto simp: csp_at_def)
  obtain p1 where p1: "csp_advance (csp_lexer p) = Some p1" "csp_at String_literal (CHR '';'' # s) p1"
    "decoded_string (csp_current p1) = Some (concat (map utf8_encode vs))"
    using csp_string [OF p(2) assms(2)] by blast
  then obtain p2 where p2: "csp_advance (csp_lexer p1) = Some p2" "csp_at Semicolon s p2"
    using csp_punctuation [of "[]" "CHR '';''" s "csp_lexer p1" Semicolon] by (auto simp: csp_at_def)
  have "csp_parse_directive vals p = map_option (\<lambda>p'. (p', vals')) (csp_advance (csp_lexer p2))"
    using p(1) p1 p2 assms(3) by (simp add: csp_parse_directive_def csp_consume_def csp_at_def split: option.splits)
  with p2(2) show ?thesis by (auto simp: csp_at_def)
qed

definition indent :: string where "indent = [LF] @ ''    ''"

lemma indent_space: "list_all (\<lambda>c. is_config_space c \<and> c \<noteq> CR) indent"
  by (simp add: indent_def is_config_space_def)

lemma csp_owner_block:
  assumes "list_all quotable us" "list_all quotable vs"
    "reads (''owner'' @ '' {'' @ indent @ ''login'' @ '' '' @ quote_string us @ CHR '';'' #
       indent @ ''password_verifier'' @ '' '' @ quote_string vs @ CHR '';'' # [LF] @ ''}'' @ [LF]) l"
  shows "csp_parse l = Inr \<lparr>parsed_login = Some (concat (map utf8_encode us)),
           parsed_verifier = Some (concat (map utf8_encode vs))\<rparr>"
proof -
  let ?v0 = "\<lparr>parsed_login = None, parsed_verifier = None\<rparr>"
  let ?v1 = "?v0\<lparr>parsed_login := Some (concat (map utf8_encode us))\<rparr>"
  let ?v2 = "?v1\<lparr>parsed_verifier := Some (concat (map utf8_encode vs))\<rparr>"
  let ?s2 = "[LF] @ ''}'' @ [LF]"
  let ?s1 = "indent @ ''password_verifier'' @ '' '' @ quote_string vs @ CHR '';'' # ?s2"
  let ?s0 = "indent @ ''login'' @ '' '' @ quote_string us @ CHR '';'' # ?s1"
  have space: "list_all (\<lambda>c. is_config_space c \<and> c \<noteq> CR) '' ''" "list_all (\<lambda>c. is_config_space c \<and> c \<noteq> CR) [LF]"
    by (simp_all add: is_config_space_def)
  obtain p where p: "csp_advance l = Some p" "csp_at Identifier ('' {'' @ ?s0) p" "lexeme (csp_current p) = ''owner''"
    using csp_word [of "[]" "''owner''" "''{'' @ ?s0" l] assms(3) directive_words(1) by auto
  obtain p1 where p1: "csp_advance (csp_lexer p) = Some p1" "csp_at Left_brace ?s0 p1"
    using csp_punctuation [OF _ space(1), of "CHR ''{''" ?s0 "csp_lexer p" Left_brace] p(2) by (auto simp: csp_at_def)
  obtain p2 where p2: "csp_advance (csp_lexer p1) = Some p2"
    "csp_at Identifier ('' '' @ quote_string us @ CHR '';'' # ?s1) p2" "lexeme (csp_current p2) = ''login''"
    using csp_word [OF _ indent_space directive_words(2), of "quote_string us @ CHR '';'' # ?s1" "csp_lexer p1"] p1(2)
    by (auto simp: csp_at_def)
  obtain l3 where l3: "reads ?s1 l3" "csp_parse_directive ?v0 p2 = map_option (\<lambda>p'. (p', ?v1)) (csp_advance l3)"
    using csp_directive [OF p2(2) assms(1), of ?v0 ?v1] p2(3) unfolding store_directive_def by auto
  obtain p4 where p4: "csp_advance l3 = Some p4"
    "csp_at Identifier ('' '' @ quote_string vs @ CHR '';'' # ?s2) p4" "lexeme (csp_current p4) = ''password_verifier''"
    using csp_word [OF _ indent_space directive_words(3), of "quote_string vs @ CHR '';'' # ?s2" l3] l3(1) by auto
  obtain l5 where l5: "reads ?s2 l5" "csp_parse_directive ?v1 p4 = map_option (\<lambda>p'. (p', ?v2)) (csp_advance l5)"
    using csp_directive [OF p4(2) assms(2), of ?v1 ?v2] p4(3) unfolding store_directive_def by auto
  obtain p6 where p6: "csp_advance l5 = Some p6" "csp_at Right_brace [LF] p6"
    using csp_punctuation [OF _ space(2), of "CHR ''}''" "[LF]" l5 Right_brace] l5(1) by auto
  obtain l7 where "reads [] l7" "csp_advance (csp_lexer p6) = csp_advance l7"
    using csp_spaces [OF _ space(2), of "[]" "csp_lexer p6"] p6(2) by (auto simp: csp_at_def)
  then obtain p7 where p7: "csp_advance (csp_lexer p6) = Some p7" "tok_kind (csp_current p7) = End_of_input"
    using reads_end csp_advanceI by fastforce
  have "csp_open_block l = Some p2"
    using p p1 p2(1) by (simp add: csp_open_block_def csp_is_identifier_def csp_consume_def csp_at_def)
  moreover have "csp_directives ?v0 p2 = Some (p6, ?v2)"
    using p2 l3 p4 l5 p6 by (simp add: csp_directives.simps csp_at_def)
  ultimately show ?thesis using p7 by (simp add: csp_parse_def)
qed


text \<open>What libsodium documents of the strings it writes, and that they verify the hashed password.\<close>

definition pwhash_documented :: "sodium_pwhash \<Rightarrow> bool" where
  "pwhash_documented na \<longleftrightarrow>
     (\<forall>password s. pwhash_str na password = Some s \<longrightarrow>
        prefix supported_password_profile s \<and> length s < pwhash_STRBYTES \<and> verifier_text s \<and>
        pwhash_needs_rehash na s = 0 \<and> pwhash_verify na s password)"

definition password_check :: "sodium_pwhash \<Rightarrow> string \<Rightarrow> string \<Rightarrow> (unit, bool) result" where
  "password_check na password v = map_sum (\<lambda>_. ()) id (sodium_verify na password v)"

lemma hashed_usable:
  assumes "pwhash_documented na" "sodium_hash na password = Inr encoded"
  shows "sodium_is_usable na encoded \<and> verifier_text encoded \<and> length encoded < pwhash_STRBYTES \<and>
         sodium_verify na password encoded = Inr True"
proof -
  have e: "pwhash_str na password = Some encoded" "length password \<le> maximum_password_bytes"
    using assms(2) by (auto simp: sodium_hash_def split: if_splits option.splits)
  then have d: "prefix supported_password_profile encoded" "length encoded < pwhash_STRBYTES"
    "verifier_text encoded" "pwhash_needs_rehash na encoded = 0" "pwhash_verify na encoded password"
    using assms(1) by (auto simp: pwhash_documented_def)
  have "\<not> CHR 0x20 < NUL" by code_simp
  then have "NUL \<notin> set encoded" using d(3) unfolding verifier_text_def list_all_iff by blast
  moreover have "supported_password_profile \<noteq> []" by (simp add: supported_password_profile_def)
  then have "encoded \<noteq> []" using d(1) by (cases encoded) simp_all
  ultimately show ?thesis using e d
    by (simp add: sodium_is_usable_def sodium_verify_def copy_encoded_verifier_def)
qed

lemma create_from_credential_source:
  assumes "is_valid_owner_login login" "login = concat (map utf8_encode us)" "list_all quotable us"
    "verifier_text encoded" "length encoded < pwhash_STRBYTES" "is_usable encoded"
  shows "create_from_source is_usable (credential_source login encoded) =
           Inr \<lparr>cred_identity = ''owner'', cred_canonical_login = login, cred_verifier = encoded\<rparr>"
proof -
  note v = verifier_quoted [OF assms(4)]
  let ?src = "credential_source login encoded"
  have "length login \<le> 128" using assms(1)
    by (simp add: is_valid_owner_login_def maximum_owner_login_bytes_def split: if_splits)
  then have len: "length ?src \<le> 4096"
    using escape_login_length [of login] assms(5) by (simp add: credential_source_def pwhash_STRBYTES_def)
  have "list_all (\<lambda>byte. \<not> byte < CHR 0x20) login" using assms(1)
    by (auto simp: is_valid_owner_login_def list_all_iff split: if_splits)
  then have q: "DQUOTE # escape_login login @ [DQUOTE] = quote_string us"
    using escape_login_scalars assms(2,3) by simp
  have q': "DQUOTE # encoded @ [DQUOTE] = quote_string (map byte_u32 encoded)" using v by simp
  have "?src = ''owner'' @ '' {'' @ indent @ ''login'' @ '' '' @ (DQUOTE # escape_login login @ [DQUOTE]) @
      CHR '';'' # indent @ ''password_verifier'' @ '' '' @ (DQUOTE # encoded @ [DQUOTE]) @ CHR '';'' #
      [LF] @ ''}'' @ [LF]"
    by (simp add: credential_source_def indent_def)
  note src = this [unfolded q q']
  have "reads ?src (make_lexer ?src)" by (rule make_lexer_reads) (simp_all add: credential_source_def)
  from csp_owner_block [OF assms(3) conjunct1 [OF v] this [unfolded src]]
  have "csp_parse (make_lexer ?src) = Inr \<lparr>parsed_login = Some login, parsed_verifier = Some encoded\<rparr>"
    unfolding src using v assms(2) by simp
  moreover have "create_lexer ?src = Inr (make_lexer ?src)"
    using len by (simp add: create_lexer_def max_input_size_bytes_def)
  ultimately show ?thesis using len assms(1,6)
    by (simp add: create_from_source_def maximum_credential_file_bytes_def)
qed

lemma find_by_login_authenticates:
  assumes "snd (authenticate (find_by_login c) verify clock login password (w, a)) = Inr x"
  shows "login = cred_canonical_login c \<and> verify password (cred_verifier c) = Inr True"
  using assms
  by (auto simp: authenticate_def find_by_login_def Let_def split: prod.splits sum.splits if_splits bool.splits)

text \<open>
  C7. Provisioning round trip: for every login the server can express, a successful hash makes the tool
  write a text from which the provider reads back the owner's credential, and with it the owner
  authenticates with the password that was hashed, nobody with another login, and nobody with a
  password that the stored verifier does not accept.
\<close>

theorem provisioned_owner_authenticates:
  assumes "pwhash_documented na" "is_valid_owner_login login"
    and "login = concat (map utf8_encode vs)" "list_all quotable vs"
    and "sodium_hash na password = Inr encoded"
    and "snd (limiter_allows (snd (clock w)) (auth_limiter a))"
  shows "provision px na path login password z =
           write_exclusive_file px path (credential_source login encoded) z \<and>
         (\<exists>c. create_from_source (sodium_is_usable na) (credential_source login encoded) = Inr c \<and>
            snd (authenticate (find_by_login c) (password_check na) clock login password (w, a)) =
              Inr (''owner'', login) \<and>
            (\<forall>other attempt x.
               snd (authenticate (find_by_login c) (password_check na) clock other attempt (w, a)) = Inr x \<longrightarrow>
               other = login \<and> pwhash_verify na encoded attempt))"
proof -
  note u = hashed_usable [OF assms(1,5)]
  let ?c = "\<lparr>cred_identity = ''owner'', cred_canonical_login = login, cred_verifier = encoded\<rparr>"
  have c: "create_from_source (sodium_is_usable na) (credential_source login encoded) = Inr ?c"
    using create_from_credential_source [OF assms(2-4)] u by blast
  have ok: "snd (authenticate (find_by_login ?c) (password_check na) clock login password (w, a)) =
      Inr (''owner'', login)"
    using u assms(6)
    by (cases "clock w"; cases "limiter_allows (snd (clock w)) (auth_limiter a)")
      (simp add: authenticate_def find_by_login_def password_check_def Let_def)
  have "other = login \<and> pwhash_verify na encoded attempt"
    if "snd (authenticate (find_by_login ?c) (password_check na) clock other attempt (w, a)) = Inr x"
    for other attempt x
    using find_by_login_authenticates [OF that]
    by (auto simp: password_check_def sodium_verify_def copy_encoded_verifier_def
        split: sum.splits if_splits option.splits)
  with c ok show ?thesis using assms(2,5) by (auto simp: provision_def)
qed

definition sample_pwhash :: sodium_pwhash where
  "sample_pwhash = \<lparr>pwhash_str = (\<lambda>p. if p = ''pw'' then Some (supported_password_profile @ ''s'') else None),
     pwhash_verify = (\<lambda>v p. p = ''pw''), pwhash_needs_rehash = (\<lambda>v. 0)\<rparr>"

lemma sample_pwhash_documented: "pwhash_documented sample_pwhash"
proof -
  have "verifier_text (supported_password_profile @ ''s'')" by code_simp
  moreover have "length (supported_password_profile @ ''s'') < pwhash_STRBYTES" by code_simp
  ultimately show ?thesis by (simp add: pwhash_documented_def sample_pwhash_def)
qed

theorem provisioned_owner_authenticates_witness:
  "\<exists>c. create_from_source (sodium_is_usable sample_pwhash)
          (credential_source ''a'' (supported_password_profile @ ''s'')) = Inr c \<and>
       snd (authenticate (find_by_login c) (password_check sample_pwhash) (\<lambda>w. (w, 5)) ''a'' ''pw''
          ((), sample_service)) = Inr (''owner'', ''a'')"
proof -
  let ?v = "supported_password_profile @ ''s''"
  have facts: "''a'' = concat (map utf8_encode [0x61])" "list_all quotable [0x61]" "is_valid_owner_login ''a''"
    "snd (limiter_allows (snd ((), 5)) (auth_limiter sample_service))"
    by code_simp+
  have hash: "sodium_hash sample_pwhash ''pw'' = Inr ?v"
    by (simp add: sodium_hash_def sample_pwhash_def maximum_password_bytes_def)
  note p = provisioned_owner_authenticates [OF sample_pwhash_documented facts(3,1,2) hash,
      where clock = "\<lambda>w. (w, 5)" and w = "()" and a = sample_service, OF facts(4)]
  from conjunct2 [OF p] show ?thesis by blast
qed


section \<open>The loops return\<close>

text \<open>Interrupted calls are bounded by \<open>budget\<close>, and a read never returns more than it was asked for.\<close>

definition interruptible :: "('w \<Rightarrow> nat) \<Rightarrow> 'w posix \<Rightarrow> bool" where
  "interruptible budget px \<longleftrightarrow>
     (\<forall>d n w w' e. px_read px d n w = (w', Inl e) \<longrightarrow> e = EINTR \<longrightarrow> budget w' < budget w) \<and>
     (\<forall>d n w w' bytes. px_read px d n w = (w', Inr bytes) \<longrightarrow> length bytes \<le> n \<and> budget w' \<le> budget w) \<and>
     (\<forall>d b w w' e. px_write px d b w = (w', Inl e) \<longrightarrow> e = EINTR \<longrightarrow> budget w' < budget w) \<and>
     (\<forall>d b w w' n. px_write px d b w = (w', Inr n) \<longrightarrow> budget w' \<le> budget w)"

lemma credential_read_returns:
  assumes "interruptible budget px"
  shows "\<exists>w' r. credential_read_loop px d source w = Some (w', r)"
proof (induction "maximum_credential_file_bytes + 1 - length source + budget w" arbitrary: source w rule: less_induct)
  case less
  let ?n = "maximum_credential_file_bytes + 1 - length source"
  show ?case
  proof (cases "length source \<ge> maximum_credential_file_bytes + 1")
    case False
    obtain w1 r where r: "px_read px d ?n w = (w1, r)" by force
    show ?thesis
    proof (cases r)
      case (Inl e)
      then have "e = EINTR \<Longrightarrow> budget w1 < budget w" using r assms unfolding interruptible_def by blast
      with less [of source w1] r Inl False show ?thesis by (subst credential_read_loop.simps) auto
    next
      case (Inr bytes)
      then have "budget w1 \<le> budget w" using r assms unfolding interruptible_def by blast
      then have "bytes \<noteq> [] \<Longrightarrow>
          maximum_credential_file_bytes + 1 - length (source @ bytes) + budget w1 < ?n + budget w"
        using False by (cases bytes) auto
      with less [of "source @ bytes" w1] r Inr False show ?thesis by (subst credential_read_loop.simps) auto
    qed
  qed (subst credential_read_loop.simps, simp)
qed

lemma exclusive_write_returns:
  assumes "interruptible budget px"
  shows "\<exists>w' ok. exclusive_write_loop px d content w = Some (w', ok)"
proof (induction "length content + budget w" arbitrary: content w rule: less_induct)
  case less
  show ?case
  proof (cases "content = []")
    case False
    obtain w1 r where r: "px_write px d content w = (w1, r)" by force
    show ?thesis
    proof (cases r)
      case (Inl e)
      then have "e = EINTR \<Longrightarrow> budget w1 < budget w" using r assms unfolding interruptible_def by blast
      with less [of content w1] r Inl False show ?thesis by (subst exclusive_write_loop.simps) auto
    next
      case (Inr n)
      then have "budget w1 \<le> budget w" using r assms unfolding interruptible_def by blast
      then have "0 < n \<Longrightarrow> length (drop n content) + budget w1 < length content + budget w"
        using False by (cases content) auto
      with less [of "drop n content" w1] r Inr False show ?thesis by (subst exclusive_write_loop.simps) auto
    qed
  qed (subst exclusive_write_loop.simps, auto)
qed


end
