(* ===== verification/Socket_Io.thy ===== *)
theory Socket_Io
  imports Diagnostics Posix_Files
begin

text \<open>
  Sockets below the connection object: readiness polling (\<^verbatim>\<open>src/network/detail/socket_poller.cpp\<close>), waiting
  with cancellation and deadlines (\<^verbatim>\<open>src/network/detail/socket_wait.cpp\<close>), transfers
  (\<^verbatim>\<open>src/network/detail/connection_io.cpp\<close>), addresses (\<^verbatim>\<open>src/network/detail/socket_address.cpp\<close>), accepting
  (\<^verbatim>\<open>src/network/detail/accept_wait.cpp\<close>, \<^verbatim>\<open>src/network/tcp_listener.cpp\<close>) and the accept loop of a server
  (\<^verbatim>\<open>src/network/connection_server.cpp\<close>). The POSIX variants are modelled. The socket calls of the operating
  system are the record \<open>sockets\<close>; instants count nanoseconds, as everywhere.
\<close>

section \<open>Socket calls\<close>

abbreviation EAGAIN :: errno where "EAGAIN \<equiv> 11"
abbreviation EWOULDBLOCK :: errno where "EWOULDBLOCK \<equiv> 11"

type_synonym socket = nat

record ready_events =
  re_in :: bool
  re_out :: bool
  re_err :: bool
  re_hup :: bool
  re_nval :: bool

datatype sockaddr =
    Addr_ipv4 "u8 list" nat
  | Addr_ipv6 "u8 list" nat nat
  | Addr_other

record address_candidate =
  ai_ipv6 :: bool
  ai_address :: sockaddr

text \<open>
  \<open>sk_poll\<close> gets the sockets with the read and write interest and the timeout in milliseconds; \<open>None\<close> is
  a result of zero descriptors. \<open>sk_datagram\<close> opens an \<^verbatim>\<open>AF_INET\<close> datagram socket.
\<close>

record 'w sockets =
  sk_poll :: "(socket \<times> bool \<times> bool) list \<Rightarrow> int \<Rightarrow> 'w \<Rightarrow> 'w \<times> (errno, ready_events list option) result"
  sk_recv :: "socket \<Rightarrow> nat \<Rightarrow> 'w \<Rightarrow> 'w \<times> (errno, string) result"
  sk_send :: "socket \<Rightarrow> string \<Rightarrow> 'w \<Rightarrow> 'w \<times> (errno, nat) result"
  sk_shutdown :: "socket \<Rightarrow> 'w \<Rightarrow> 'w \<times> (errno, unit) result"
  sk_close :: "socket \<Rightarrow> 'w \<Rightarrow> 'w"
  sk_get_flags :: "socket \<Rightarrow> 'w \<Rightarrow> 'w \<times> (errno, open_flag list) result"
  sk_set_flags :: "socket \<Rightarrow> open_flag list \<Rightarrow> 'w \<Rightarrow> 'w \<times> (errno, unit) result"
  sk_datagram :: "'w \<Rightarrow> 'w \<times> (errno, socket) result"
  sk_stream :: "address_candidate \<Rightarrow> 'w \<Rightarrow> 'w \<times> (errno, socket) result"
  sk_reuse_address :: "socket \<Rightarrow> 'w \<Rightarrow> 'w \<times> (errno, unit) result"
  sk_ipv6_only :: "socket \<Rightarrow> 'w \<Rightarrow> 'w \<times> (errno, unit) result"
  sk_bind :: "socket \<Rightarrow> sockaddr \<Rightarrow> 'w \<Rightarrow> 'w \<times> (errno, unit) result"
  sk_listen :: "socket \<Rightarrow> int \<Rightarrow> 'w \<Rightarrow> 'w \<times> (errno, unit) result"
  sk_connect :: "socket \<Rightarrow> sockaddr \<Rightarrow> 'w \<Rightarrow> 'w \<times> (errno, unit) result"
  sk_getsockname :: "socket \<Rightarrow> 'w \<Rightarrow> 'w \<times> (errno, sockaddr) result"
  sk_accept :: "socket \<Rightarrow> 'w \<Rightarrow> 'w \<times> (errno, socket \<times> sockaddr) result"
  sk_getaddrinfo :: "string \<Rightarrow> string \<Rightarrow> 'w \<Rightarrow> 'w \<times> (int, address_candidate list) result"
  sk_ntop :: "u8 list \<Rightarrow> (errno, string) result"
  sk_host :: "'w host"

definition socket_error_would_block :: "errno \<Rightarrow> bool" where
  "socket_error_would_block e \<longleftrightarrow> e = EAGAIN \<or> e = EWOULDBLOCK"

definition socket_error_interrupted :: "errno \<Rightarrow> bool" where
  "socket_error_interrupted e \<longleftrightarrow> e = EINTR"

definition configure_socket_nonblocking :: "'w sockets \<Rightarrow> socket \<Rightarrow> 'w \<Rightarrow> 'w \<times> (errno, unit) result" where
  "configure_socket_nonblocking sk s w =
     (case sk_get_flags sk s w of
        (w1, Inl e) \<Rightarrow> (w1, Inl e)
      | (w1, Inr flags) \<Rightarrow> sk_set_flags sk s (O_NONBLOCK # flags) w1)"

definition configure_socket_security ::
    "'w sockets \<Rightarrow> socket \<Rightarrow> bool \<Rightarrow> 'w \<Rightarrow> 'w \<times> (errno, unit) result" where
  "configure_socket_security sk s ipv6 w =
     (case sk_reuse_address sk s w of
        (w1, Inl e) \<Rightarrow> (w1, Inl e)
      | (w1, Inr _) \<Rightarrow> (if \<not> ipv6 then (w1, Inr ()) else sk_ipv6_only sk s w1))"

section \<open>Polling\<close>

record poll_entry =
  pe_socket :: socket
  watch_readable :: bool
  watch_writable :: bool
  pe_events :: ready_events

definition no_events :: ready_events where
  "no_events = \<lparr>re_in = False, re_out = False, re_err = False, re_hup = False, re_nval = False\<rparr>"

definition int_max :: int where "int_max = 2 ^ 31 - 1"

text \<open>The remaining time is rounded up to milliseconds.\<close>

definition native_timeout_milliseconds :: "'w sockets \<Rightarrow> int option \<Rightarrow> 'w \<Rightarrow> 'w \<times> int" where
  "native_timeout_milliseconds sk deadline w =
     (case deadline of
        None \<Rightarrow> (w, -1)
      | Some d \<Rightarrow>
          (case host_now (sk_host sk) w of
             (w1, now) \<Rightarrow>
               (if d \<le> now then (w1, 0)
                else
                  (let remaining_milliseconds = - ((now - d) div 1000000) in
                   (w1, if remaining_milliseconds \<ge> int_max then int_max else remaining_milliseconds)))))"

datatype poll_status = Poll_events "ready_events list" | Poll_timed_out

partial_function (option) poll_loop ::
    "'w sockets \<Rightarrow> (socket \<times> bool \<times> bool) list \<Rightarrow> network_operation \<Rightarrow> int option \<Rightarrow> 'w \<Rightarrow>
     ('w \<times> (network_error, poll_status) result) option" where
  "poll_loop sk requests operation deadline w =
     (case native_timeout_milliseconds sk deadline w of
        (w1, timeout) \<Rightarrow>
          (case sk_poll sk requests timeout w1 of
             (w2, Inr (Some events)) \<Rightarrow> Some (w2, Inr (Poll_events events))
           | (w2, Inr None) \<Rightarrow>
               (case deadline of
                  None \<Rightarrow> Some (w2, Inr Poll_timed_out)
                | Some d \<Rightarrow>
                    (case host_now (sk_host sk) w2 of
                       (w3, now) \<Rightarrow>
                         (if now < d then poll_loop sk requests operation deadline w3
                          else Some (w3, Inr Poll_timed_out))))
           | (w2, Inl e) \<Rightarrow>
               (if e \<noteq> EINTR then Some (w2, Inl (net_error operation Net_socket e))
                else poll_loop sk requests operation deadline w2)))"

definition poller_wait ::
    "'w sockets \<Rightarrow> poll_entry list \<Rightarrow> network_operation \<Rightarrow> int option \<Rightarrow> 'w \<Rightarrow>
     ('w \<times> (network_error, poll_entry list option) result) option" where
  "poller_wait sk entries operation deadline w =
     (if entries = [] then Some (w, Inl (net_error operation Net_validation 1))
      else
        (case poll_loop sk (map (\<lambda>e. (pe_socket e, watch_readable e, watch_writable e)) entries)
                operation deadline w of
           None \<Rightarrow> None
         | Some (w1, Inl e) \<Rightarrow> Some (w1, Inl e)
         | Some (w1, Inr Poll_timed_out) \<Rightarrow> Some (w1, Inr None)
         | Some (w1, Inr (Poll_events events)) \<Rightarrow>
             Some (w1, Inr (Some (map2 (\<lambda>e r. e\<lparr>pe_events := r\<rparr>) entries events)))))"

section \<open>The wake channel\<close>

text \<open>
  Two connected datagram sockets on the loopback interface, the reader and the writer. \<open>close_on_error\<close>
  is what the owners of the sockets do when a later step fails.
\<close>

definition loopback_endpoint :: sockaddr where
  "loopback_endpoint = Addr_ipv4 [127, 0, 0, 1] 0"

definition bound_datagram_socket :: "'w sockets \<Rightarrow> 'w \<Rightarrow> 'w \<times> (errno, socket \<times> sockaddr) result" where
  "bound_datagram_socket sk w =
     (case sk_datagram sk w of
        (w1, Inl e) \<Rightarrow> (w1, Inl e)
      | (w1, Inr s) \<Rightarrow>
          (case configure_socket_nonblocking sk s w1 of
             (w2, Inl e) \<Rightarrow> (sk_close sk s w2, Inl e)
           | (w2, Inr _) \<Rightarrow>
               (case sk_bind sk s loopback_endpoint w2 of
                  (w3, Inl e) \<Rightarrow> (sk_close sk s w3, Inl e)
                | (w3, Inr _) \<Rightarrow>
                    (case sk_getsockname sk s w3 of
                       (w4, Inl e) \<Rightarrow> (sk_close sk s w4, Inl e)
                     | (w4, Inr endpoint) \<Rightarrow> (w4, Inr (s, endpoint))))))"

definition create_wake_channel ::
    "'w sockets \<Rightarrow> network_operation \<Rightarrow> 'w \<Rightarrow> 'w \<times> (network_error, socket \<times> socket) result" where
  "create_wake_channel sk operation w =
     (case bound_datagram_socket sk w of
        (w1, Inl e) \<Rightarrow> (w1, Inl (net_error operation Net_socket e))
      | (w1, Inr (reader, reader_endpoint)) \<Rightarrow>
          (case bound_datagram_socket sk w1 of
             (w2, Inl e) \<Rightarrow> (sk_close sk reader w2, Inl (net_error operation Net_socket e))
           | (w2, Inr (writer, writer_endpoint)) \<Rightarrow>
               (case sk_connect sk reader writer_endpoint w2 of
                  (w3, Inl e) \<Rightarrow>
                    (sk_close sk reader (sk_close sk writer w3), Inl (net_error operation Net_socket e))
                | (w3, Inr _) \<Rightarrow>
                    (case sk_connect sk writer reader_endpoint w3 of
                       (w4, Inl e) \<Rightarrow>
                         (sk_close sk reader (sk_close sk writer w4), Inl (net_error operation Net_socket e))
                     | (w4, Inr _) \<Rightarrow> (w4, Inr (reader, writer))))))"

type_synonym wake_channel = "(socket \<times> socket) option"

definition ensure_initialized ::
    "'w sockets \<Rightarrow> network_operation \<Rightarrow> wake_channel \<Rightarrow> 'w \<Rightarrow>
     'w \<times> (network_error, socket \<times> socket) result" where
  "ensure_initialized sk operation channel w =
     (case channel of
        Some c \<Rightarrow> (w, Inr c)
      | None \<Rightarrow> create_wake_channel sk operation w)"

definition wake_notify :: "'w sockets \<Rightarrow> wake_channel \<Rightarrow> 'w \<Rightarrow> 'w" where
  "wake_notify sk channel w =
     (case channel of None \<Rightarrow> w | Some (reader, writer) \<Rightarrow> fst (sk_send sk writer [CHR 0x01] w))"

partial_function (option) wake_drain_loop :: "'w sockets \<Rightarrow> socket \<Rightarrow> 'w \<Rightarrow> 'w option" where
  "wake_drain_loop sk reader w =
     (case sk_recv sk reader 16 w of
        (w1, Inl e) \<Rightarrow> Some w1
      | (w1, Inr bytes) \<Rightarrow> (if bytes = [] then Some w1 else wake_drain_loop sk reader w1))"

section \<open>Waiting\<close>

datatype wait_interest = Wait_readable | Wait_writable

datatype wait_status =
  Wait_ready | Wait_socket_error | Wait_socket_hangup | Wait_cancelled | Wait_timed_out

definition operation_entry :: "socket \<Rightarrow> wait_interest \<Rightarrow> poll_entry" where
  "operation_entry s interest =
     \<lparr>pe_socket = s, watch_readable = (interest = Wait_readable),
      watch_writable = (interest = Wait_writable), pe_events = no_events\<rparr>"

definition ready_status :: "ready_events \<Rightarrow> wait_interest \<Rightarrow> wait_status option" where
  "ready_status events interest =
     (if re_err events then Some Wait_socket_error
      else if re_hup events then Some Wait_socket_hangup
      else if (if interest = Wait_readable then re_in events else re_out events) then Some Wait_ready
      else None)"

definition inspect_operation_entry ::
    "ready_events \<Rightarrow> wait_interest \<Rightarrow> network_operation \<Rightarrow> (network_error, wait_status) result" where
  "inspect_operation_entry events interest operation =
     (if re_nval events then Inl (net_error operation Net_socket 0)
      else (case ready_status events interest of
              Some status \<Rightarrow> Inr status
            | None \<Rightarrow> Inl (net_error operation Net_socket 0)))"

datatype wake_status = Inspect_operation | Wake_retry | Wake_cancelled

definition inspect_wake_entry ::
    "'w sockets \<Rightarrow> io_options \<Rightarrow> socket \<Rightarrow> ready_events \<Rightarrow> network_operation \<Rightarrow> 'w \<Rightarrow>
     ('w \<times> (network_error, wake_status) result) option" where
  "inspect_wake_entry sk opts reader events operation w =
     (case (if re_in events then wake_drain_loop sk reader w else Some w) of
        None \<Rightarrow> None
      | Some w1 \<Rightarrow>
          (case host_stop (sk_host sk) w1 of
             (w2, stop) \<Rightarrow>
               (if stop then Some (w2, Inr Wake_cancelled)
                else if re_nval events \<or> re_err events \<or> re_hup events
                then Some (w2, Inl (net_error operation Net_socket 0))
                else Some (w2, Inr (if re_in events then Wake_retry else Inspect_operation)))))"

definition wait_for_operation ::
    "'w sockets \<Rightarrow> socket \<Rightarrow> wait_interest \<Rightarrow> network_operation \<Rightarrow> int option \<Rightarrow> 'w \<Rightarrow>
     ('w \<times> (network_error, wait_status) result) option" where
  "wait_for_operation sk s interest operation deadline w =
     (case poller_wait sk [operation_entry s interest] operation deadline w of
        None \<Rightarrow> None
      | Some (w1, Inl e) \<Rightarrow> Some (w1, Inl e)
      | Some (w1, Inr None) \<Rightarrow> Some (w1, Inr Wait_timed_out)
      | Some (w1, Inr (Some entries)) \<Rightarrow>
          Some (w1, inspect_operation_entry (pe_events (hd entries)) interest operation))"

text \<open>The loop with a wake channel: the second entry is the channel's reader.\<close>

partial_function (option) wait_loop ::
    "'w sockets \<Rightarrow> io_options \<Rightarrow> socket \<Rightarrow> socket \<Rightarrow> wait_interest \<Rightarrow> network_operation \<Rightarrow> 'w \<Rightarrow>
     ('w \<times> (network_error, wait_status) result) option" where
  "wait_loop sk opts s reader interest operation w =
     (case poller_wait sk [operation_entry s interest, operation_entry reader Wait_readable] operation
             (io_deadline opts) w of
        None \<Rightarrow> None
      | Some (w1, Inl e) \<Rightarrow> Some (w1, Inl e)
      | Some (w1, Inr None) \<Rightarrow>
          (case host_stop (sk_host sk) w1 of
             (w2, stop) \<Rightarrow> Some (w2, Inr (if stop then Wait_cancelled else Wait_timed_out)))
      | Some (w1, Inr (Some entries)) \<Rightarrow>
          (case inspect_wake_entry sk opts reader (pe_events (entries ! 1)) operation w1 of
             None \<Rightarrow> None
           | Some (w2, Inl e) \<Rightarrow> Some (w2, Inl e)
           | Some (w2, Inr Wake_cancelled) \<Rightarrow> Some (w2, Inr Wait_cancelled)
           | Some (w2, Inr Wake_retry) \<Rightarrow> wait_loop sk opts s reader interest operation w2
           | Some (w2, Inr Inspect_operation) \<Rightarrow>
               Some (w2, inspect_operation_entry (pe_events (entries ! 0)) interest operation)))"

text \<open>The wake channel is kept by the caller and created by the first wait that can be cancelled.\<close>

definition wait_for_socket_with_options ::
    "'w sockets \<Rightarrow> io_options \<Rightarrow> socket \<Rightarrow> wait_interest \<Rightarrow> network_operation \<Rightarrow> wake_channel \<Rightarrow> 'w \<Rightarrow>
     ('w \<times> wake_channel \<times> (network_error, wait_status) result) option" where
  "wait_for_socket_with_options sk opts s interest operation channel w =
     (case interruption_of (sk_host sk) opts w of
        (w1, Interruption_cancelled) \<Rightarrow> Some (w1, channel, Inr Wait_cancelled)
      | (w1, Interruption_deadline) \<Rightarrow> Some (w1, channel, Inr Wait_timed_out)
      | (w1, Not_interrupted) \<Rightarrow>
          (if \<not> io_stop_possible opts
           then map_option (\<lambda>(w2, r). (w2, channel, r))
                  (wait_for_operation sk s interest operation (io_deadline opts) w1)
           else
             (case ensure_initialized sk operation channel w1 of
                (w2, Inl e) \<Rightarrow> Some (w2, channel, Inl e)
              | (w2, Inr (reader, writer)) \<Rightarrow>
                  map_option (\<lambda>(w3, r). (w3, Some (reader, writer), r))
                    (wait_loop sk opts s reader interest operation w2))))"

section \<open>Transfers\<close>

definition terminal_readiness :: "wait_status \<Rightarrow> bool" where
  "terminal_readiness status \<longleftrightarrow> status = Wait_socket_error \<or> status = Wait_socket_hangup"

partial_function (option) perform_io ::
    "'w sockets \<Rightarrow> io_options \<Rightarrow> socket \<Rightarrow> wait_interest \<Rightarrow> network_operation \<Rightarrow>
     ('w \<Rightarrow> 'w \<times> (errno, 'a) result) \<Rightarrow> wake_channel \<Rightarrow> 'w \<Rightarrow>
     ('w \<times> wake_channel \<times> (network_error, 'a) result) option" where
  "perform_io sk opts s interest operation transfer channel w =
     (case wait_for_socket_with_options sk opts s interest operation channel w of
        None \<Rightarrow> None
      | Some (w1, channel1, Inl e) \<Rightarrow> Some (w1, channel1, Inl e)
      | Some (w1, channel1, Inr status) \<Rightarrow>
          (if status = Wait_cancelled
           then Some (w1, channel1, Inl (net_error operation Net_cancellation 0))
           else if status = Wait_timed_out
           then Some (w1, channel1, Inl (net_error operation Net_timeout 0))
           else
             (case transfer w1 of
                (w2, Inr transferred) \<Rightarrow> Some (w2, channel1, Inr transferred)
              | (w2, Inl e) \<Rightarrow>
                  (if socket_error_interrupted e \<or> socket_error_would_block e \<and> \<not> terminal_readiness status
                   then perform_io sk opts s interest operation transfer channel1 w2
                   else Some (w2, channel1, Inl (net_error operation Net_socket e))))))"

definition io_receive_with_options where
  "io_receive_with_options sk opts s buffer_size channel w =
     perform_io sk opts s Wait_readable Net_receive (sk_recv sk s buffer_size) channel w"

definition io_send_with_options where
  "io_send_with_options sk opts s bytes channel w =
     perform_io sk opts s Wait_writable Net_send (sk_send sk s bytes) channel w"

section \<open>Listening and accepting\<close>

record tcp_endpoint =
  endpoint_address :: string
  endpoint_port :: nat

definition endpoint_from_address ::
    "'w sockets \<Rightarrow> sockaddr \<Rightarrow> network_operation \<Rightarrow> (network_error, tcp_endpoint) result" where
  "endpoint_from_address sk address operation =
     (let endpoint = (\<lambda>raw port scope_id.
        case sk_ntop sk raw of
          Inl e \<Rightarrow> Inl (net_error operation Net_socket e)
        | Inr textual \<Rightarrow>
            Inr \<lparr>endpoint_address =
                   (if scope_id \<noteq> 0 then textual @ ''%'' @ print_base 10 scope_id else textual),
                 endpoint_port = port\<rparr>) in
      case address of
        Addr_ipv4 raw port \<Rightarrow> endpoint raw port (0 :: nat)
      | Addr_ipv6 raw port scope_id \<Rightarrow> endpoint raw port scope_id
      | Addr_other \<Rightarrow> Inl (net_error operation Net_state 1))"

definition create_listening_socket ::
    "'w sockets \<Rightarrow> address_candidate \<Rightarrow> int \<Rightarrow> 'w \<Rightarrow> 'w \<times> (network_error, socket) result" where
  "create_listening_socket sk candidate backlog w =
     (case sk_stream sk candidate w of
        (w1, Inl e) \<Rightarrow> (w1, Inl (net_error Net_create_socket Net_socket e))
      | (w1, Inr s) \<Rightarrow>
          (case configure_socket_security sk s (ai_ipv6 candidate) w1 of
             (w2, Inl e) \<Rightarrow> (sk_close sk s w2, Inl (net_error Net_configure_socket Net_socket e))
           | (w2, Inr _) \<Rightarrow>
               (case sk_bind sk s (ai_address candidate) w2 of
                  (w3, Inl e) \<Rightarrow> (sk_close sk s w3, Inl (net_error Net_bind Net_socket e))
                | (w3, Inr _) \<Rightarrow>
                    (case sk_listen sk s backlog w3 of
                       (w4, Inl e) \<Rightarrow> (sk_close sk s w4, Inl (net_error Net_listen Net_socket e))
                     | (w4, Inr _) \<Rightarrow>
                         (case configure_socket_nonblocking sk s w4 of
                            (w5, Inl e) \<Rightarrow> (sk_close sk s w5, Inl (net_error Net_configure_socket Net_socket e))
                          | (w5, Inr _) \<Rightarrow> (w5, Inr s))))))"

fun bind_candidates ::
    "'w sockets \<Rightarrow> int \<Rightarrow> network_error \<Rightarrow> address_candidate list \<Rightarrow> 'w \<Rightarrow> 'w \<times> (network_error, socket) result" where
  "bind_candidates sk backlog last_error [] w = (w, Inl last_error)"
| "bind_candidates sk backlog last_error (candidate # candidates) w =
     (case create_listening_socket sk candidate backlog w of
        (w1, Inl e) \<Rightarrow> bind_candidates sk backlog e candidates w1
      | (w1, Inr s) \<Rightarrow> (w1, Inr s))"

definition tcp_listener_bind ::
    "'w sockets \<Rightarrow> tcp_endpoint \<Rightarrow> int \<Rightarrow> 'w \<Rightarrow> 'w \<times> (network_error, socket) result" where
  "tcp_listener_bind sk endpoint backlog w =
     (if endpoint_address endpoint = [] \<or> backlog \<le> 0 then (w, Inl (net_error Net_bind Net_validation 1))
      else
        (case sk_getaddrinfo sk (endpoint_address endpoint) (print_base 10 (endpoint_port endpoint)) w of
           (w1, Inl e) \<Rightarrow> (w1, Inl (net_error Net_resolve_address Net_address_resolution e))
         | (w1, Inr candidates) \<Rightarrow>
             bind_candidates sk backlog (net_error Net_create_socket Net_socket 0) candidates w1))"

definition tcp_local_endpoint ::
    "'w sockets \<Rightarrow> socket option \<Rightarrow> 'w \<Rightarrow> 'w \<times> (network_error, tcp_endpoint) result" where
  "tcp_local_endpoint sk listener w =
     (case listener of
        None \<Rightarrow> (w, Inl (net_error Net_query_local_endpoint Net_state 1))
      | Some s \<Rightarrow>
          (case sk_getsockname sk s w of
             (w1, Inl e) \<Rightarrow> (w1, Inl (net_error Net_query_local_endpoint Net_socket e))
           | (w1, Inr address) \<Rightarrow> (w1, endpoint_from_address sk address Net_query_local_endpoint)))"

text \<open>\<^verbatim>\<open>retry_interrupted_operation\<close> around \<^verbatim>\<open>accept\<close>.\<close>

partial_function (option) accept_retry ::
    "'w sockets \<Rightarrow> socket \<Rightarrow> 'w \<Rightarrow> ('w \<times> (errno, socket \<times> sockaddr) result) option" where
  "accept_retry sk s w =
     (case sk_accept sk s w of
        (w1, Inr accepted) \<Rightarrow> Some (w1, Inr accepted)
      | (w1, Inl e) \<Rightarrow> (if e = EINTR then accept_retry sk s w1 else Some (w1, Inl e)))"

definition accept_ready_connection ::
    "'w sockets \<Rightarrow> socket \<Rightarrow> 'w \<Rightarrow> ('w \<times> (network_error, connection \<times> tcp_endpoint) result) option" where
  "accept_ready_connection sk s w =
     (case accept_retry sk s w of
        None \<Rightarrow> None
      | Some (w1, Inl e) \<Rightarrow> Some (w1, Inl (net_error Net_accept Net_socket e))
      | Some (w1, Inr (accepted, peer)) \<Rightarrow>
          (case configure_socket_nonblocking sk accepted w1 of
             (w2, Inl e) \<Rightarrow> Some (sk_close sk accepted w2, Inl (net_error Net_configure_socket Net_socket e))
           | (w2, Inr _) \<Rightarrow>
               (case endpoint_from_address sk peer Net_query_peer_endpoint of
                  Inl e \<Rightarrow> Some (sk_close sk accepted w2, Inl e)
                | Inr endpoint \<Rightarrow>
                    (case host_now (sk_host sk) w2 of
                       (w3, now) \<Rightarrow>
                         Some (w3, Inr (\<lparr>conn_id = accepted, conn_open = True, conn_accepted_at = now,
                           conn_prefetched = [], conn_prefetched_offset = 0,
                           conn_last_progress = now\<rparr>, endpoint))))))"

datatype accept_status = Accept_ready | Accept_cancelled

definition to_accept_status :: "wait_status \<Rightarrow> accept_status" where
  "to_accept_status status = (if status = Wait_cancelled then Accept_cancelled else Accept_ready)"

definition wait_for_accept ::
    "'w sockets \<Rightarrow> socket \<Rightarrow> wake_channel \<Rightarrow> 'w \<Rightarrow>
     ('w \<times> wake_channel \<times> (network_error, accept_status) result) option" where
  "wait_for_accept sk s channel w =
     (case wait_for_socket_with_options sk \<lparr>io_stop_possible = True, io_deadline = None\<rparr> s Wait_readable
             Net_accept channel w of
        None \<Rightarrow> None
      | Some (w1, channel1, r) \<Rightarrow> Some (w1, channel1, map_sum id to_accept_status r))"

definition accept_would_block :: "(network_error, 'a) result \<Rightarrow> bool" where
  "accept_would_block r \<longleftrightarrow>
     (case r of Inl e \<Rightarrow> net_domain e = Net_socket \<and> socket_error_would_block (net_code e) | Inr _ \<Rightarrow> False)"

text \<open>A connection accepted after the stop request is closed again.\<close>

definition discard_accepted ::
    "'w sockets \<Rightarrow> (network_error, connection \<times> tcp_endpoint) result \<Rightarrow> 'w \<Rightarrow> 'w" where
  "discard_accepted sk r w = (case r of Inl _ \<Rightarrow> w | Inr (c, _) \<Rightarrow> sk_close sk (conn_id c) w)"

partial_function (option) accept_loop ::
    "'w sockets \<Rightarrow> socket \<Rightarrow> wake_channel \<Rightarrow> 'w \<Rightarrow>
     ('w \<times> wake_channel \<times> (network_error, connection \<times> tcp_endpoint) result) option" where
  "accept_loop sk s channel w =
     (case wait_for_accept sk s channel w of
        None \<Rightarrow> None
      | Some (w1, channel1, Inl e) \<Rightarrow> Some (w1, channel1, Inl e)
      | Some (w1, channel1, Inr status) \<Rightarrow>
          (case host_stop (sk_host sk) w1 of
             (w2, stop) \<Rightarrow>
               (if status = Accept_cancelled \<or> stop
                then Some (w2, channel1, Inl (net_error Net_accept Net_cancellation 0))
                else
                  (case accept_ready_connection sk s w2 of
                     None \<Rightarrow> None
                   | Some (w3, r) \<Rightarrow>
                       (if accept_would_block r then accept_loop sk s channel1 w3
                        else
                          (case host_stop (sk_host sk) w3 of
                             (w4, later_stop) \<Rightarrow>
                               (if later_stop
                                then Some (discard_accepted sk r w4, channel1,
                                       Inl (net_error Net_accept Net_cancellation 0))
                                else Some (w4, channel1, r))))))))"

definition tcp_accept where
  "tcp_accept sk listener channel w =
     (case listener of
        None \<Rightarrow> Some (w, channel, Inl (net_error Net_accept Net_state 1))
      | Some s \<Rightarrow> accept_loop sk s channel w)"

section \<open>The connection server\<close>

definition effective_worker_count :: "bool \<Rightarrow> nat \<Rightarrow> nat" where
  "effective_worker_count multithreading worker_threads = (if multithreading then worker_threads else 1)"

datatype server_start_error =
    Listener_start_failed network_error
  | Dispatcher_start_failed dispatch_error
  | Accept_thread_start_failed int
  | Server_allocation_failed

record server_config =
  sc_endpoint :: tcp_endpoint
  sc_listen_backlog :: int
  sc_multithreading :: bool
  sc_worker_count :: nat
  sc_pending_limit :: nat
  sc_admission :: "admission_options option"

definition connection_server_start ::
    "'w sockets \<Rightarrow> ('w \<Rightarrow> 'w \<times> (int, unit) result) \<Rightarrow> server_config \<Rightarrow> 'w \<Rightarrow>
     'w \<times> (server_start_error, socket \<times> tcp_endpoint \<times> dispatcher) result" where
  "connection_server_start sk start_thread config w =
     (case tcp_listener_bind sk (sc_endpoint config) (sc_listen_backlog config) w of
        (w1, Inl e) \<Rightarrow> (w1, Inl (Listener_start_failed e))
      | (w1, Inr s) \<Rightarrow>
          (case tcp_local_endpoint sk (Some s) w1 of
             (w2, Inl e) \<Rightarrow> (sk_close sk s w2, Inl (Listener_start_failed e))
           | (w2, Inr endpoint) \<Rightarrow>
               (case create_dispatcher
                       (effective_worker_count (sc_multithreading config) (sc_worker_count config))
                       (sc_pending_limit config) True (sc_admission config) of
                  Inl e \<Rightarrow> (sk_close sk s w2, Inl (Dispatcher_start_failed e))
                | Inr dispatcher \<Rightarrow>
                    (case start_thread w2 of
                       (w3, Inl e) \<Rightarrow> (sk_close sk s w3, Inl (Accept_thread_start_failed e))
                     | (w3, Inr _) \<Rightarrow> (w3, Inr (s, endpoint, dispatcher))))))"

text \<open>
  The accept thread, over what it observes: the stop flag before a round, the result of \<^verbatim>\<open>accept\<close>, the stop
  flag while \<^verbatim>\<open>submit\<close> waits, and the stop flag after a failure. \<open>Submitting c\<close> is a thread blocked in
  \<^verbatim>\<open>submit\<close>, which tries again when the dispatcher changes; \<open>Ended None\<close> is a return without a report.
\<close>

datatype accept_progress = Accepting | Submitting connection | Ended "server_failure option"

definition stop_after_failure :: "server_failure \<Rightarrow> dispatcher \<Rightarrow> dispatcher \<times> accept_progress" where
  "stop_after_failure failure d = (request_stop d, Ended (Some failure))"

definition submit_iteration :: "connection \<Rightarrow> bool \<Rightarrow> bool \<Rightarrow> dispatcher \<Rightarrow> dispatcher \<times> accept_progress" where
  "submit_iteration c stop_waiting stop_after d =
     (case submit c stop_waiting stop_waiting d of
        (d1, Submitted) \<Rightarrow> (d1, Accepting)
      | (d1, Blocked) \<Rightarrow> (d1, Submitting c)
      | (d1, Submit_failed e) \<Rightarrow>
          (if stop_after \<and> (e = Dispatch_cancelled \<or> e = Dispatcher_stopped) then (d1, Ended None)
           else stop_after_failure
                  \<lparr>failure_kind = Dispatch_error_failure, failure_network = None,
                   failure_dispatch = Some (e, 0)\<rparr> d1))"

definition accept_iteration ::
    "bool \<Rightarrow> (network_error, connection) result \<Rightarrow> bool \<Rightarrow> bool \<Rightarrow> dispatcher \<Rightarrow> dispatcher \<times> accept_progress" where
  "accept_iteration stop_before accepted stop_waiting stop_after d =
     (if stop_before then (d, Ended None)
      else
        (case accepted of
           Inl e \<Rightarrow>
             (if stop_after \<and> net_domain e = Net_cancellation then (d, Ended None)
              else stop_after_failure
                     \<lparr>failure_kind = Accept_error_failure, failure_network = Some e, failure_dispatch = None\<rparr> d)
         | Inr c \<Rightarrow> submit_iteration c stop_waiting stop_after d))"

text \<open>An accept thread that ends with a report has stopped the dispatcher first.\<close>

lemma accept_iteration_failure:
  assumes "accept_iteration stop_before accepted stop_waiting stop_after d = (d', Ended (Some f))"
  shows "stopping d'"
  using assms
  by (auto simp: accept_iteration_def submit_iteration_def stop_after_failure_def request_stop_def
      split: if_splits sum.splits prod.splits submit_outcome.splits)

section \<open>Interruptions are genuine\<close>

text \<open>
  The host tells the truth: a stop it reports has been requested, and a reading of the clock lies in
  the past. \<open>stop\<close> and \<open>time\<close> are the facts. A poll without a timeout does not time out.
\<close>

definition truthful :: "('w \<Rightarrow> bool) \<Rightarrow> ('w \<Rightarrow> int) \<Rightarrow> 'w sockets \<Rightarrow> bool" where
  "truthful stop time sk \<longleftrightarrow>
     (\<forall>w w' b. host_stop (sk_host sk) w = (w', b) \<longrightarrow> (b \<longrightarrow> stop w') \<and> time w \<le> time w') \<and>
     (\<forall>w w' t. host_now (sk_host sk) w = (w', t) \<longrightarrow> t \<le> time w') \<and>
     (\<forall>requests w w'. sk_poll sk requests (-1) w \<noteq> (w', Inr None))"

definition passed :: "('w \<Rightarrow> int) \<Rightarrow> int option \<Rightarrow> 'w \<Rightarrow> bool" where
  "passed time deadline w \<longleftrightarrow> (\<exists>d. deadline = Some d \<and> d \<le> time w)"

abbreviation local_fault :: "network_error \<Rightarrow> bool" where
  "local_fault e \<equiv> net_domain e \<in> {Net_socket, Net_validation}"

lemma native_timeout_none: "native_timeout_milliseconds sk None w = (w, -1)"
  by (simp add: native_timeout_milliseconds_def)

lemma poll_loop_sound:
  assumes "poll_loop sk requests operation deadline w = Some y" "truthful stop time sk"
  shows "(snd y = Inr Poll_timed_out \<longrightarrow> passed time deadline (fst y)) \<and> (\<forall>e. snd y = Inl e \<longrightarrow> local_fault e)"
  using assms
proof (induction rule: poll_loop.raw_induct [rotated, consumes 1, case_names step])
  case (step self sk requests operation deadline w y)
  obtain w1 t where n: "native_timeout_milliseconds sk deadline w = (w1, t)" by force
  obtain w2 r where p: "sk_poll sk requests t w1 = (w2, r)" by force
  consider events where "r = Inr (Some events)" | "r = Inr None" | e where "r = Inl e"
    by (metis (no_types) not_None_eq old.sum.exhaust)
  then show ?case
  proof cases
    case 1
    with step.hyps n p show ?thesis by auto
  next
    case 2
    show ?thesis
    proof (cases deadline)
      case None
      with n have "t = -1" by (simp add: native_timeout_none)
      with p 2 step.prems have False by (auto simp: truthful_def)
      then show ?thesis ..
    next
      case (Some d)
      obtain w3 now where h: "host_now (sk_host sk) w2 = (w3, now)" by force
      with step.prems have "now \<le> time w3" by (auto simp: truthful_def)
      show ?thesis
      proof (cases "now < d")
        case True
        with step.hyps n p 2 Some h have "self sk requests operation deadline w3 = Some y" by simp
        from step.IH [OF this step.prems] show ?thesis .
      next
        case False
        with step.hyps n p 2 Some h \<open>now \<le> time w3\<close> show ?thesis by (auto simp: passed_def)
      qed
    qed
  next
    case (3 e)
    with step.IH step.hyps n p step.prems show ?thesis by (cases "e = EINTR") auto
  qed
qed

lemma poller_wait_sound:
  assumes "poller_wait sk entries operation deadline w = Some (w', r)" "truthful stop time sk"
  shows "(r = Inr None \<longrightarrow> passed time deadline w') \<and> (\<forall>e. r = Inl e \<longrightarrow> local_fault e)"
proof (cases "entries = []")
  case True
  with assms(1) show ?thesis by (auto simp: poller_wait_def)
next
  case False
  let ?rq = "map (\<lambda>e. (pe_socket e, watch_readable e, watch_writable e)) entries"
  obtain w1 q where l: "poll_loop sk ?rq operation deadline w = Some (w1, q)"
    using assms(1) False by (cases "poll_loop sk ?rq operation deadline w") (auto simp: poller_wait_def)
  with poll_loop_sound [OF l assms(2)] assms(1) False show ?thesis
    by (cases q) (auto simp: poller_wait_def split: poll_status.splits)
qed

lemma inspect_operation_status:
  "inspect_operation_entry events interest operation = r \<Longrightarrow>
     r \<noteq> Inr Wait_cancelled \<and> r \<noteq> Inr Wait_timed_out \<and> (\<forall>e. r = Inl e \<longrightarrow> local_fault e)"
  by (auto simp: inspect_operation_entry_def ready_status_def split: if_splits)

text \<open>The outcomes of a wait that the host's facts justify.\<close>

definition justified where
  "justified stop time opts w r \<longleftrightarrow>
     (r = Inr Wait_cancelled \<longrightarrow> io_stop_possible opts \<and> stop w) \<and>
     (r = Inr Wait_timed_out \<longrightarrow> passed time (io_deadline opts) w) \<and>
     (\<forall>e. r = Inl e \<longrightarrow> local_fault e)"

lemma wait_for_operation_sound:
  assumes "wait_for_operation sk s interest operation (io_deadline opts) w = Some (w', r)" "truthful stop time sk"
  shows "justified stop time opts w' r"
proof -
  let ?p = "poller_wait sk [operation_entry s interest] operation (io_deadline opts) w"
  obtain w1 q where p: "?p = Some (w1, q)" using assms(1) by (cases ?p) (auto simp: wait_for_operation_def)
  from poller_wait_sound [OF p assms(2)] assms(1) p
  show ?thesis
    by (auto simp: wait_for_operation_def justified_def split: sum.splits option.splits
        dest!: inspect_operation_status)
qed

lemma inspect_wake_sound:
  assumes "inspect_wake_entry sk opts reader events operation w = Some (w', r)" "truthful stop time sk"
  shows "(r = Inr Wake_cancelled \<longrightarrow> stop w') \<and> (\<forall>e. r = Inl e \<longrightarrow> local_fault e)"
  using assms by (auto simp: inspect_wake_entry_def truthful_def split: option.splits prod.splits if_splits)

lemma wait_loop_sound:
  assumes "wait_loop sk opts s reader interest operation w = Some y" "truthful stop time sk" "io_stop_possible opts"
  shows "justified stop time opts (fst y) (snd y)"
  using assms
proof (induction rule: wait_loop.raw_induct [rotated, consumes 1, case_names step])
  case (step self sk opts s reader interest operation w y)
  let ?p = "poller_wait sk [operation_entry s interest, operation_entry reader Wait_readable] operation
      (io_deadline opts) w"
  obtain w1 q where p: "?p = Some (w1, q)" using step.hyps by (cases ?p) auto
  note ps = poller_wait_sound [OF p step.prems(1)]
  consider e where "q = Inl e" | "q = Inr None" | entries where "q = Inr (Some entries)"
    by (metis (no_types) not_None_eq old.sum.exhaust)
  then show ?case
  proof cases
    case 1
    with step.hyps p ps show ?thesis by (auto simp: justified_def)
  next
    case 2
    obtain w2 b where b: "host_stop (sk_host sk) w1 = (w2, b)" by force
    with step.prems have "(b \<longrightarrow> stop w2) \<and> time w1 \<le> time w2" by (auto simp: truthful_def)
    with 2 step.hyps p ps b step.prems show ?thesis
      by (auto simp: justified_def passed_def intro: order_trans)
  next
    case (3 entries)
    let ?i = "inspect_wake_entry sk opts reader (pe_events (entries ! 1)) operation w1"
    obtain w2 x where i: "?i = Some (w2, x)" using step.hyps p 3 by (cases ?i) auto
    note iw = inspect_wake_sound [OF i step.prems(1)]
    show ?thesis
    proof (cases x)
      case (Inl e)
      with step.hyps p 3 i iw show ?thesis by (auto simp: justified_def)
    next
      case (Inr st)
      then show ?thesis
      proof (cases st)
        case Wake_cancelled
        with Inr step.hyps p 3 i iw step.prems show ?thesis by (auto simp: justified_def)
      next
        case Wake_retry
        with Inr step.IH step.hyps p 3 i step.prems show ?thesis by auto
      next
        case Inspect_operation
        with Inr step.hyps p 3 i have
          "y = (w2, inspect_operation_entry (pe_events (entries ! 0)) interest operation)" by simp
        with inspect_operation_status [OF refl] show ?thesis by (auto simp: justified_def)
      qed
    qed
  qed
qed

lemma bound_socket_fault: "create_wake_channel sk operation w = (w', Inl e) \<Longrightarrow> local_fault e"
  by (auto simp: create_wake_channel_def split: prod.splits sum.splits)

lemma interruption_sound:
  assumes "interruption_of (sk_host sk) opts w = (w', i)" "truthful stop time sk"
  shows "(i = Interruption_cancelled \<longrightarrow> io_stop_possible opts \<and> stop w') \<and>
         (i = Interruption_deadline \<longrightarrow> passed time (io_deadline opts) w')"
proof -
  obtain w1 now where n: "host_now (sk_host sk) w = (w1, now)" by force
  obtain w2 b where b: "host_stop (sk_host sk) w1 = (w2, b)" by force
  have "now \<le> time w1" "(b \<longrightarrow> stop w2) \<and> time w1 \<le> time w2"
    using n b assms(2) by (auto simp: truthful_def)
  with assms(1) n b show ?thesis
    by (auto simp: interruption_of_def interruption_status_def passed_def split: if_splits option.splits)
qed

lemma wait_sound:
  assumes "wait_for_socket_with_options sk opts s interest operation channel w = Some (w', c', r)"
    and "truthful stop time sk"
  shows "justified stop time opts w' r"
proof -
  obtain w1 i where i: "interruption_of (sk_host sk) opts w = (w1, i)" by force
  note iw = interruption_sound [OF i assms(2)]
  show ?thesis
  proof (cases i)
    case Not_interrupted
    show ?thesis
    proof (cases "io_stop_possible opts")
      case False
      with assms(1) i Not_interrupted
      have "wait_for_operation sk s interest operation (io_deadline opts) w1 = Some (w', r)"
        by (auto simp: wait_for_socket_with_options_def)
      from wait_for_operation_sound [OF this assms(2)] show ?thesis .
    next
      case True
      obtain w2 x where e: "ensure_initialized sk operation channel w1 = (w2, x)" by force
      show ?thesis
      proof (cases x)
        case (Inl err)
        then have "local_fault err"
          using e bound_socket_fault [of sk operation w1 w2 err]
          by (auto simp: ensure_initialized_def split: option.splits)
        with assms(1) i Not_interrupted True e Inl show ?thesis
          by (auto simp: wait_for_socket_with_options_def justified_def)
      next
        case (Inr rw)
        with assms(1) i Not_interrupted True e
        have "wait_loop sk opts s (fst rw) interest operation w2 = Some (w', r)"
          by (cases rw) (auto simp: wait_for_socket_with_options_def)
        from wait_loop_sound [OF this assms(2) True] show ?thesis by simp
      qed
    qed
  qed (use assms(1) i iw in \<open>auto simp: wait_for_socket_with_options_def justified_def\<close>)
qed

lemma perform_io_genuine:
  assumes "truthful stop time sk"
    and "perform_io sk opts s interest operation transfer channel w = Some (w', c', r)"
  shows "(\<forall>e. r = Inl e \<longrightarrow> net_domain e = Net_cancellation \<longrightarrow> io_stop_possible opts \<and> stop w') \<and>
         (\<forall>e. r = Inl e \<longrightarrow> net_domain e = Net_timeout \<longrightarrow> passed time (io_deadline opts) w') \<and>
         (\<forall>x. r = Inr x \<longrightarrow> (\<exists>v. transfer v = (w', Inr x)))"
proof -
  have "case y of (w', c', r) \<Rightarrow>
      (\<forall>e. r = Inl e \<longrightarrow> net_domain e = Net_cancellation \<longrightarrow> io_stop_possible opts \<and> stop w') \<and>
      (\<forall>e. r = Inl e \<longrightarrow> net_domain e = Net_timeout \<longrightarrow> passed time (io_deadline opts) w') \<and>
      (\<forall>x. r = Inr x \<longrightarrow> (\<exists>v. transfer v = (w', Inr x)))"
    if "perform_io sk opts s interest operation transfer channel w = Some y" "truthful stop time sk" for y
    using that
  proof (induction rule: perform_io.raw_induct [rotated, consumes 1, case_names step])
    case (step self sk opts s interest operation transfer channel w y)
    let ?p = "wait_for_socket_with_options sk opts s interest operation channel w"
    obtain w1 c1 q where p: "?p = Some (w1, c1, q)" using step.hyps by (cases ?p) auto
    note j = wait_sound [OF p step.prems(1), unfolded justified_def]
    show ?case
    proof (cases q)
      case (Inl e)
      with step.hyps p j show ?thesis by auto
    next
      case (Inr status)
      obtain w2 x where t: "transfer w1 = (w2, x)" by force
      consider "status = Wait_cancelled" | "status = Wait_timed_out" | "status \<notin> {Wait_cancelled, Wait_timed_out}"
        by blast
      then show ?thesis
      proof cases
        case 3
        show ?thesis
        proof (cases x)
          case (Inr d)
          with step.hyps p \<open>q = Inr status\<close> 3 t show ?thesis by auto
        next
          case (Inl e)
          show ?thesis
          proof (cases "socket_error_interrupted e \<or> socket_error_would_block e \<and> \<not> terminal_readiness status")
            case True
            with step.IH step.hyps p \<open>q = Inr status\<close> 3 t Inl step.prems show ?thesis by simp
          next
            case False
            with step.hyps p \<open>q = Inr status\<close> 3 t Inl show ?thesis by auto
          qed
        qed
      qed (use step.hyps p Inr j in auto)
    qed
  qed
  from this [OF assms(2,1)] show ?thesis by simp
qed

section \<open>Transfers return\<close>

text \<open>
  A host that lets a transfer settle: \<open>budget\<close> bounds the interrupted polls, the polls that return before
  the deadline, the wake-ups and the transfers that fail to start; no call of the waiting code raises it.
  \<open>wakes\<close> are the datagram sockets of wake channels, which hold finitely many datagrams. A poll reports on
  every entry.
\<close>

definition poll_round where
  "poll_round sk deadline requests w =
     (case native_timeout_milliseconds sk deadline w of (w1, timeout) \<Rightarrow> sk_poll sk requests timeout w1)"

definition poll_settles where
  "poll_settles budget deadline sk requests w \<longleftrightarrow>
     (case poll_round sk deadline requests w of
        (w', Inl e) \<Rightarrow> budget w' \<le> budget w \<and> (e = EINTR \<longrightarrow> budget w' < budget w)
      | (w', Inr (Some events)) \<Rightarrow>
          budget w' \<le> budget w \<and> length events = length requests \<and>
          (length requests = 2 \<and> re_in (events ! 1) \<longrightarrow> budget w' < budget w)
      | (w', Inr None) \<Rightarrow>
          budget w' \<le> budget w \<and>
          (case deadline of
             None \<Rightarrow> True
           | Some d \<Rightarrow>
               (case host_now (sk_host sk) w' of
                  (w'', now) \<Rightarrow> budget w'' \<le> budget w \<and> (now < d \<longrightarrow> budget w'' < budget w))))"

definition recv_settles where
  "recv_settles budget sk s n w \<longleftrightarrow>
     (case sk_recv sk s n w of
        (w', Inl e) \<Rightarrow> budget w' \<le> budget w
      | (w', Inr bytes) \<Rightarrow> if bytes = [] then budget w' \<le> budget w else budget w' < budget w)"

definition channel_settles where
  "channel_settles budget wakes sk operation w \<longleftrightarrow>
     (case create_wake_channel sk operation w of
        (w', r) \<Rightarrow> budget w' \<le> budget w \<and> (case r of Inr (reader, _) \<Rightarrow> reader \<in> wakes | Inl _ \<Rightarrow> True))"

definition transfer_settles where
  "transfer_settles budget transfer w \<longleftrightarrow>
     (case transfer w of
        (w', Inl e) \<Rightarrow> socket_error_interrupted e \<or> socket_error_would_block e \<longrightarrow> budget w' < budget w
      | _ \<Rightarrow> True)"

definition settles ::
    "('w \<Rightarrow> nat) \<Rightarrow> socket set \<Rightarrow> int option \<Rightarrow> 'w sockets \<Rightarrow> ('w \<Rightarrow> 'w \<times> (errno, 'a) result) \<Rightarrow> bool" where
  "settles budget wakes deadline sk transfer \<longleftrightarrow>
     (\<forall>requests w. poll_settles budget deadline sk requests w) \<and>
     (\<forall>s\<in>wakes. \<forall>n w. recv_settles budget sk s n w) \<and>
     (\<forall>w. budget (fst (host_now (sk_host sk) w)) \<le> budget w \<and> budget (fst (host_stop (sk_host sk) w)) \<le> budget w) \<and>
     (\<forall>operation w. channel_settles budget wakes sk operation w) \<and>
     (\<forall>w. transfer_settles budget transfer w)"

lemma settles_poll:
  assumes "settles budget wakes deadline sk transfer" "poll_round sk deadline requests w = (w', r)"
  shows "budget w' \<le> budget w" "r = Inl EINTR \<Longrightarrow> budget w' < budget w"
    "r = Inr (Some events) \<Longrightarrow> length events = length requests"
    "r = Inr (Some events) \<Longrightarrow> length requests = 2 \<Longrightarrow> re_in (events ! 1) \<Longrightarrow> budget w' < budget w"
    "r = Inr None \<Longrightarrow> deadline = Some d \<Longrightarrow> host_now (sk_host sk) w' = (w'', now) \<Longrightarrow> budget w'' \<le> budget w"
    "r = Inr None \<Longrightarrow> deadline = Some d \<Longrightarrow> host_now (sk_host sk) w' = (w'', now) \<Longrightarrow> now < d \<Longrightarrow> budget w'' < budget w"
proof -
  have p: "poll_settles budget deadline sk requests w" using assms(1) unfolding settles_def by blast
  note law = p [unfolded poll_settles_def assms(2) prod.case]
  show "budget w' \<le> budget w" using law by (cases r) (auto split: option.splits)
  show "r = Inl EINTR \<Longrightarrow> budget w' < budget w"
    "r = Inr (Some events) \<Longrightarrow> length events = length requests"
    "r = Inr (Some events) \<Longrightarrow> length requests = 2 \<Longrightarrow> re_in (events ! 1) \<Longrightarrow> budget w' < budget w"
    "r = Inr None \<Longrightarrow> deadline = Some d \<Longrightarrow> host_now (sk_host sk) w' = (w'', now) \<Longrightarrow> budget w'' \<le> budget w"
    "r = Inr None \<Longrightarrow> deadline = Some d \<Longrightarrow> host_now (sk_host sk) w' = (w'', now) \<Longrightarrow> now < d \<Longrightarrow> budget w'' < budget w"
    using law by simp_all
qed

lemma settles_recv:
  assumes "settles budget wakes deadline sk transfer" "s \<in> wakes" "sk_recv sk s n w = (w', r)"
  shows "budget w' \<le> budget w" "r = Inr bytes \<Longrightarrow> bytes \<noteq> [] \<Longrightarrow> budget w' < budget w"
proof -
  have p: "recv_settles budget sk s n w" using assms(1,2) unfolding settles_def by blast
  then show "budget w' \<le> budget w" "r = Inr bytes \<Longrightarrow> bytes \<noteq> [] \<Longrightarrow> budget w' < budget w"
    using assms(3) by (auto simp: recv_settles_def split: sum.splits if_splits)
qed

lemma settles_host:
  assumes "settles budget wakes deadline sk transfer"
  shows "host_now (sk_host sk) w = (w', t) \<Longrightarrow> budget w' \<le> budget w"
    "host_stop (sk_host sk) w = (w', b) \<Longrightarrow> budget w' \<le> budget w"
  using assms unfolding settles_def by (metis fst_conv)+

lemma settles_channel:
  assumes "settles budget wakes deadline sk transfer" "create_wake_channel sk operation w = (w', r)"
  shows "budget w' \<le> budget w" "r = Inr (reader, writer) \<Longrightarrow> reader \<in> wakes"
proof -
  have "channel_settles budget wakes sk operation w" using assms(1) unfolding settles_def by blast
  then show "budget w' \<le> budget w" "r = Inr (reader, writer) \<Longrightarrow> reader \<in> wakes"
    using assms(2) by (simp_all add: channel_settles_def)
qed

lemma settles_transfer:
  assumes "settles budget wakes deadline sk transfer" "transfer w = (w', Inl e)"
    "socket_error_interrupted e \<or> socket_error_would_block e"
  shows "budget w' < budget w"
proof -
  have "transfer_settles budget transfer w" using assms(1) unfolding settles_def by blast
  with assms(2,3) show ?thesis by (auto simp: transfer_settles_def)
qed

lemma poll_loop_returns:
  assumes "settles budget wakes deadline sk transfer"
  shows "\<exists>w' r. poll_loop sk requests operation deadline w = Some (w', r) \<and> budget w' \<le> budget w \<and>
           (\<forall>events. r = Inr (Poll_events events) \<longrightarrow> length events = length requests \<and>
              (length requests = 2 \<longrightarrow> re_in (events ! 1) \<longrightarrow> budget w' < budget w))"
proof (induction "budget w" arbitrary: w rule: less_induct)
  case less
  obtain w1 t where n: "native_timeout_milliseconds sk deadline w = (w1, t)" by force
  obtain w2 r where p: "sk_poll sk requests t w1 = (w2, r)" by force
  then have round: "poll_round sk deadline requests w = (w2, r)" using n by (simp add: poll_round_def)
  note law = settles_poll [OF assms round]
  consider events where "r = Inr (Some events)" | "r = Inr None" | e where "r = Inl e"
    by (metis (no_types) not_None_eq old.sum.exhaust)
  then show ?case
  proof cases
    case 1
    with n p law show ?thesis by (subst poll_loop.simps) simp
  next
    case 2
    show ?thesis
    proof (cases deadline)
      case None
      with n p 2 law(1) show ?thesis by (subst poll_loop.simps) simp
    next
      case (Some d)
      obtain w3 now where h: "host_now (sk_host sk) w2 = (w3, now)" by force
      show ?thesis
      proof (cases "now < d")
        case True
        from law(6) [OF 2 Some h True] have less3: "budget w3 < budget w" .
        from less [OF this] n p 2 Some h True less3 show ?thesis by (subst poll_loop.simps) auto
      next
        case False
        with n p 2 Some h law(5) [OF 2 Some h] show ?thesis by (subst poll_loop.simps) simp
      qed
    qed
  next
    case (3 e)
    show ?thesis
    proof (cases "e = EINTR")
      case True
      with law(2) 3 have less2: "budget w2 < budget w" by simp
      from less [OF this] n p 3 True less2 show ?thesis by (subst poll_loop.simps) auto
    next
      case False
      with n p 3 law(1) show ?thesis by (subst poll_loop.simps) simp
    qed
  qed
qed

lemma poller_wait_returns:
  assumes "settles budget wakes deadline sk transfer" "entries \<noteq> []"
  shows "\<exists>w' r. poller_wait sk entries operation deadline w = Some (w', r) \<and> budget w' \<le> budget w \<and>
           (\<forall>es. r = Inr (Some es) \<longrightarrow> length entries = 2 \<longrightarrow> re_in (pe_events (es ! 1)) \<longrightarrow> budget w' < budget w)"
proof -
  let ?rq = "map (\<lambda>e. (pe_socket e, watch_readable e, watch_writable e)) entries"
  from poll_loop_returns [OF assms(1), of ?rq operation w] obtain w1 q where
    q: "poll_loop sk ?rq operation deadline w = Some (w1, q)" "budget w1 \<le> budget w"
      "\<forall>events. q = Inr (Poll_events events) \<longrightarrow> length events = length entries \<and>
        (length entries = 2 \<longrightarrow> re_in (events ! 1) \<longrightarrow> budget w1 < budget w)" by auto
  with assms(2) show ?thesis
    by (cases q) (auto simp: poller_wait_def split: poll_status.splits)
qed

lemma wake_drain_returns:
  assumes "settles budget wakes deadline sk transfer" "reader \<in> wakes"
  shows "\<exists>w'. wake_drain_loop sk reader w = Some w' \<and> budget w' \<le> budget w"
proof (induction "budget w" arbitrary: w rule: less_induct)
  case less
  obtain w1 r where r: "sk_recv sk reader 16 w = (w1, r)" by force
  note law = settles_recv [OF assms r]
  show ?case
  proof (cases "\<exists>bytes. r = Inr bytes \<and> bytes \<noteq> []")
    case True
    then obtain bytes where b: "r = Inr bytes" "bytes \<noteq> []" by blast
    with law(2) have l: "budget w1 < budget w" by blast
    from less [OF this] r b l show ?thesis by (subst wake_drain_loop.simps) auto
  next
    case False
    with r law(1) show ?thesis by (subst wake_drain_loop.simps) (cases r, auto)
  qed
qed

lemma inspect_wake_returns:
  assumes "settles budget wakes deadline sk transfer" "reader \<in> wakes"
  shows "\<exists>w' r. inspect_wake_entry sk opts reader events operation w = Some (w', r) \<and> budget w' \<le> budget w \<and>
           (r = Inr Wake_retry \<longrightarrow> re_in events)"
proof -
  obtain w1 where w1: "(if re_in events then wake_drain_loop sk reader w else Some w) = Some w1" "budget w1 \<le> budget w"
    using wake_drain_returns [OF assms, of w] by (cases "re_in events") auto
  obtain w2 b where b: "host_stop (sk_host sk) w1 = (w2, b)" by force
  from settles_host(2) [OF assms(1) b] w1 b show ?thesis by (simp add: inspect_wake_entry_def)
qed

lemma wait_loop_returns:
  assumes "settles budget wakes (io_deadline opts) sk transfer" "reader \<in> wakes"
  shows "\<exists>w' r. wait_loop sk opts s reader interest operation w = Some (w', r) \<and> budget w' \<le> budget w"
proof (induction "budget w" arbitrary: w rule: less_induct)
  case less
  let ?entries = "[operation_entry s interest, operation_entry reader Wait_readable]"
  from poller_wait_returns [OF assms(1), of ?entries operation w] obtain w1 q where
    q: "poller_wait sk ?entries operation (io_deadline opts) w = Some (w1, q)" "budget w1 \<le> budget w"
      "\<forall>es. q = Inr (Some es) \<longrightarrow> re_in (pe_events (es ! 1)) \<longrightarrow> budget w1 < budget w" by auto
  consider e where "q = Inl e" | "q = Inr None" | es where "q = Inr (Some es)"
    by (metis (no_types) not_None_eq old.sum.exhaust)
  then show ?case
  proof cases
    case 1
    with q show ?thesis by (subst wait_loop.simps) simp
  next
    case 2
    obtain w2 b where b: "host_stop (sk_host sk) w1 = (w2, b)" by force
    from settles_host(2) [OF assms(1) b] 2 q b show ?thesis by (subst wait_loop.simps) simp
  next
    case (3 es)
    from inspect_wake_returns [OF assms, of opts "pe_events (es ! 1)" operation w1] obtain w2 x where
      x: "inspect_wake_entry sk opts reader (pe_events (es ! 1)) operation w1 = Some (w2, x)" "budget w2 \<le> budget w1"
        "x = Inr Wake_retry \<longrightarrow> re_in (pe_events (es ! 1))" by blast
    show ?thesis
    proof (cases "x = Inr Wake_retry")
      case True
      with x 3 q have l: "budget w2 < budget w" by auto
      from less [OF this] q 3 x True l show ?thesis by (subst wait_loop.simps) auto
    next
      case False
      with q 3 x show ?thesis
        by (subst wait_loop.simps) (auto split: sum.splits wake_status.splits)
    qed
  qed
qed

lemma wait_returns:
  assumes "settles budget wakes (io_deadline opts) sk transfer" "\<forall>reader writer. channel = Some (reader, writer) \<longrightarrow> reader \<in> wakes"
  shows "\<exists>w' c' r. wait_for_socket_with_options sk opts s interest operation channel w = Some (w', c', r) \<and>
           budget w' \<le> budget w \<and> (\<forall>reader writer. c' = Some (reader, writer) \<longrightarrow> reader \<in> wakes)"
proof -
  obtain w1 i where i: "interruption_of (sk_host sk) opts w = (w1, i)" by force
  have w1: "budget w1 \<le> budget w"
  proof -
    obtain v now where now: "host_now (sk_host sk) w = (v, now)" by force
    obtain v' stop where stop: "host_stop (sk_host sk) v = (v', stop)" by force
    have "budget v \<le> budget w" "budget v' \<le> budget v"
      using settles_host [OF assms(1)] now stop by blast+
    with i now stop show ?thesis by (auto simp: interruption_of_def split: if_splits)
  qed
  show ?thesis
  proof (cases "i = Not_interrupted")
    case True
    show ?thesis
    proof (cases "io_stop_possible opts")
      case False
      from poller_wait_returns [OF assms(1), of "[operation_entry s interest]" operation w1] obtain w2 q where
        "poller_wait sk [operation_entry s interest] operation (io_deadline opts) w1 = Some (w2, q)" "budget w2 \<le> budget w1"
        by auto
      with i True False w1 assms(2) show ?thesis
        by (auto simp: wait_for_socket_with_options_def wait_for_operation_def split: sum.splits option.splits)
    next
      case stop: True
      obtain w2 x where e: "ensure_initialized sk operation channel w1 = (w2, x)" by force
      have x: "budget w2 \<le> budget w1 \<and> (\<forall>reader writer. x = Inr (reader, writer) \<longrightarrow> reader \<in> wakes)"
        using e assms(2) settles_channel [OF assms(1)]
        by (cases channel) (auto simp: ensure_initialized_def)
      show ?thesis
      proof (cases x)
        case (Inl err)
        with i True stop e x w1 assms(2) show ?thesis by (auto simp: wait_for_socket_with_options_def)
      next
        case (Inr rw)
        obtain reader writer where rw: "rw = (reader, writer)" by force
        with x Inr have "reader \<in> wakes" by blast
        from wait_loop_returns [OF assms(1) this, of s interest operation w2]
        obtain w3 r where "wait_loop sk opts s reader interest operation w2 = Some (w3, r)" "budget w3 \<le> budget w2" by blast
        with i True stop e x w1 Inr rw \<open>reader \<in> wakes\<close> show ?thesis by (auto simp: wait_for_socket_with_options_def)
      qed
    qed
  next
    case False
    with i w1 assms(2) show ?thesis by (cases i) (auto simp: wait_for_socket_with_options_def)
  qed
qed

lemma perform_io_returns:
  assumes "settles budget wakes (io_deadline opts) sk transfer" "\<forall>reader writer. channel = Some (reader, writer) \<longrightarrow> reader \<in> wakes"
  shows "\<exists>w' c' r. perform_io sk opts s interest operation transfer channel w = Some (w', c', r)"
  using assms(2)
proof (induction "budget w" arbitrary: w channel rule: less_induct)
  case less
  from wait_returns [OF assms(1) less.prems, of s interest operation w] obtain w1 c1 q where
    q: "wait_for_socket_with_options sk opts s interest operation channel w = Some (w1, c1, q)" "budget w1 \<le> budget w"
      "\<forall>reader writer. c1 = Some (reader, writer) \<longrightarrow> reader \<in> wakes" by blast
  show ?case
  proof (cases q)
    case (Inl e)
    with q(1) show ?thesis by (subst perform_io.simps) simp
  next
    case (Inr status)
    obtain w2 x where t: "transfer w1 = (w2, x)" by force
    show ?thesis
    proof (cases "status \<notin> {Wait_cancelled, Wait_timed_out} \<and>
        (\<exists>e. x = Inl e \<and> (socket_error_interrupted e \<or> socket_error_would_block e \<and> \<not> terminal_readiness status))")
      case True
      then obtain e where e: "x = Inl e"
        "socket_error_interrupted e \<or> socket_error_would_block e \<and> \<not> terminal_readiness status" by blast
      with settles_transfer [OF assms(1), of w1 w2 e] t q(2) have "budget w2 < budget w" by auto
      from less.hyps [OF this q(3)] q(1) Inr t e True show ?thesis by (subst perform_io.simps) auto
    next
      case False
      with q(1) Inr t show ?thesis by (subst perform_io.simps) (auto split: sum.splits)
    qed
  qed
qed


text \<open>A world that is its clock: polls that can time out do, receiving yields one byte.\<close>

definition sample_sockets :: "int sockets" where
  "sample_sockets =
     \<lparr>sk_poll = (\<lambda>requests timeout w.
        if timeout < 0 then (w, Inr (Some (map (\<lambda>_. no_events\<lparr>re_in := True\<rparr>) requests)))
        else (w + timeout * 1000000, Inr None)),
      sk_recv = (\<lambda>s n w. (w, if s = 1 then Inl EAGAIN else Inr ''x'')), sk_send = (\<lambda>s b w. (w, Inr 1)),
      sk_shutdown = (\<lambda>s w. (w, Inr ())), sk_close = (\<lambda>s w. w),
      sk_get_flags = (\<lambda>s w. (w, Inr [])), sk_set_flags = (\<lambda>s f w. (w, Inr ())),
      sk_datagram = (\<lambda>w. (w, Inr 1)), sk_stream = (\<lambda>a w. (w, Inr 1)),
      sk_reuse_address = (\<lambda>s w. (w, Inr ())), sk_ipv6_only = (\<lambda>s w. (w, Inr ())),
      sk_bind = (\<lambda>s a w. (w, Inr ())), sk_listen = (\<lambda>s b w. (w, Inr ())),
      sk_connect = (\<lambda>s a w. (w, Inr ())), sk_getsockname = (\<lambda>s w. (w, Inr loopback_endpoint)),
      sk_accept = (\<lambda>s w. (w, Inr (2, loopback_endpoint))), sk_getaddrinfo = (\<lambda>a s w. (w, Inr [])),
      sk_ntop = (\<lambda>b. Inr ''127.0.0.1''),
      sk_host = \<lparr>host_now = (\<lambda>w. (w, w)), host_stop = (\<lambda>w. (w, False))\<rparr>\<rparr>"

lemma sample_sockets_truthful: "truthful (\<lambda>w. False) id sample_sockets"
  by (auto simp: truthful_def sample_sockets_def)

abbreviation sample_deadline :: io_options where
  "sample_deadline \<equiv> \<lparr>io_stop_possible = False, io_deadline = Some 5000000\<rparr>"

lemma sample_sockets_settle:
  "settles (\<lambda>w. nat (5000000 - w)) {1} (Some 5000000) sample_sockets (sk_recv sample_sockets 7 9)"
proof -
  have round: "\<exists>t\<ge>0. poll_round sample_sockets (Some 5000000) requests w = (w + t * 1000000, Inr None) \<and>
      (w < 5000000 \<longrightarrow> t > 0)" for requests w
  proof -
    let ?t = "snd (native_timeout_milliseconds sample_sockets (Some 5000000) w)"
    have "?t \<ge> 0 \<and> (w < 5000000 \<longrightarrow> ?t > 0)"
      by (auto simp: native_timeout_milliseconds_def sample_sockets_def int_max_def Let_def)
    moreover have "fst (native_timeout_milliseconds sample_sockets (Some 5000000) w) = w"
      by (auto simp: native_timeout_milliseconds_def sample_sockets_def Let_def)
    ultimately show ?thesis
      by (intro exI [of _ ?t]) (auto simp: poll_round_def split_beta sample_sockets_def)
  qed
  have now: "host_now (sk_host sample_sockets) w = (w, w)" for w by (simp add: sample_sockets_def)
  have "poll_settles (\<lambda>w. nat (5000000 - w)) (Some 5000000) sample_sockets requests w" for requests w
  proof -
    from round [of requests w] obtain t where "t \<ge> 0" "w < 5000000 \<longrightarrow> t > 0"
      "poll_round sample_sockets (Some 5000000) requests w = (w + t * 1000000, Inr None)" by blast
    then show ?thesis by (simp add: poll_settles_def now)
  qed
  moreover have "recv_settles (\<lambda>w. nat (5000000 - w)) sample_sockets 1 n w" for n w
    by (simp add: recv_settles_def sample_sockets_def)
  moreover have "channel_settles (\<lambda>w. nat (5000000 - w)) {1} sample_sockets operation w" for operation w
    by (simp add: channel_settles_def create_wake_channel_def bound_datagram_socket_def
        configure_socket_nonblocking_def sample_sockets_def)
  moreover have "transfer_settles (\<lambda>w. nat (5000000 - w)) (sk_recv sample_sockets 7 9) w" for w
    by (simp add: transfer_settles_def sample_sockets_def)
  moreover have "fst (host_now (sk_host sample_sockets) w) = w" "fst (host_stop (sk_host sample_sockets) w) = w" for w
    by (simp_all add: sample_sockets_def)
  ultimately show ?thesis by (simp add: settles_def)
qed

declare poll_loop.simps [code] perform_io.simps [code]

lemma sample_times_out:
  "perform_io sample_sockets sample_deadline 7 Wait_readable Net_receive
     (sk_recv sample_sockets 7 9) None 0 = Some (5000000, None, Inl (net_error Net_receive Net_timeout 0))"
  by code_simp


end
