(* ===== verification/Runtime_Bootstrap.thy ===== *)
theory Runtime_Bootstrap
  imports Config_Loader Credential_File Socket_Io Filesystem_Api
begin

text \<open>
  From validated settings to a running application: shared roots (\<^verbatim>\<open>src/filesystem/shared_root.cpp\<close>), the
  file-backed authentication service (\<^verbatim>\<open>src/authentication/file_authentication.cpp\<close>), the runtime plan
  (\<^verbatim>\<open>src/bootstrap/runtime_bootstrap.cpp\<close>), the start of the servers
  (\<^verbatim>\<open>src/application/running_application.cpp\<close>) and the process (\<^verbatim>\<open>apps/sparenode/server.cpp\<close>). Paths of the
  configuration are POSIX texts, canonical paths are component lists. What startup asks of
  \<^verbatim>\<open>std::filesystem\<close> is the record \<open>startup_view\<close>, which does not change during startup; the credential file
  is read through the \<open>posix\<close> record. Allocation failures are not modelled.
\<close>

section \<open>Paths\<close>

abbreviation SLASH :: char where "SLASH \<equiv> CHR ''/''"

definition path_is_absolute :: "string \<Rightarrow> bool" where
  "path_is_absolute p \<longleftrightarrow> p \<noteq> [] \<and> hd p = SLASH"

text \<open>The text before the last separator, without trailing separators; the root is its own parent.\<close>

definition path_parent :: "string \<Rightarrow> string" where
  "path_parent p =
     (let up_to_slash = dropWhile (\<lambda>c. c \<noteq> SLASH) (rev p);
          trimmed = dropWhile (\<lambda>c. c = SLASH) up_to_slash
      in if trimmed \<noteq> [] then rev trimmed else if up_to_slash \<noteq> [] then [SLASH] else [])"

definition path_filename :: "string \<Rightarrow> string" where
  "path_filename p = rev (takeWhile (\<lambda>c. c \<noteq> SLASH) (rev p))"

definition path_join :: "string \<Rightarrow> string \<Rightarrow> string" where
  "path_join a b =
     (if path_is_absolute b then b
      else if a = [] \<or> last a = SLASH then a @ b
      else a @ [SLASH] @ b)"

definition resolve_path :: "configured_path \<Rightarrow> string \<Rightarrow> string" where
  "resolve_path configured configuration_path =
     (if path_is_absolute (fst configured) then fst configured
      else path_join (path_parent configuration_path) (fst configured))"

section \<open>Shared roots\<close>

text \<open>
  \<open>sv_canonical\<close> fails with whether the path does not exist; \<open>sv_open\<close> opens a text file: whether reading
  fails, and its bytes.
\<close>

record startup_view =
  sv_canonical :: "string \<Rightarrow> (bool, string list) result"
  sv_is_directory :: "string list \<Rightarrow> (unit, bool) result"
  sv_equivalent :: "string list \<Rightarrow> string list \<Rightarrow> (unit, bool) result"
  sv_open :: "string \<Rightarrow> (bool \<times> string) option"

datatype shared_root_error =
  Root_empty_path | Root_not_found | Root_not_directory | Root_canonicalization_failed

definition shared_root_create :: "startup_view \<Rightarrow> string \<Rightarrow> (shared_root_error, string list) result" where
  "shared_root_create sv input_path =
     (if input_path = [] then Inl Root_empty_path
      else
        (case sv_canonical sv input_path of
           Inl missing \<Rightarrow> Inl (if missing then Root_not_found else Root_canonicalization_failed)
         | Inr canonical_path \<Rightarrow>
             (case sv_is_directory sv canonical_path of
                Inl _ \<Rightarrow> Inl Root_canonicalization_failed
              | Inr path_is_directory \<Rightarrow>
                  (if \<not> path_is_directory then Inl Root_not_directory else Inr canonical_path))))"

fun shared_root_message :: "shared_root_error \<Rightarrow> string" where
  "shared_root_message Root_empty_path = ''the shared-root path is empty''"
| "shared_root_message Root_not_found = ''the shared-root path does not exist''"
| "shared_root_message Root_not_directory = ''the shared-root path is not a directory''"
| "shared_root_message Root_canonicalization_failed = ''the shared-root path could not be resolved''"

section \<open>File authentication\<close>

datatype file_auth_error =
    Cryptography_unavailable | Auth_open_failed | Auth_not_regular | Auth_credential_is_shared
  | Auth_read_failed | Auth_file_too_large | Auth_malformed_file | Auth_missing_login
  | Auth_missing_verifier | Auth_invalid_login | Auth_invalid_verifier | Auth_resource_exhausted

definition resolve_credential_path :: "startup_view \<Rightarrow> string \<Rightarrow> (file_auth_error, string list) result" where
  "resolve_credential_path sv credential_path =
     (let parent = (if path_parent credential_path = [] then ''.'' else path_parent credential_path) in
      case sv_canonical sv parent of
        Inl _ \<Rightarrow> Inl Auth_open_failed
      | Inr canonical_parent \<Rightarrow> Inr (canonical_parent @ [path_filename credential_path]))"

text \<open>The walk from a directory, given by its components in reverse, up to the file system's root.\<close>

fun ancestor_is_root :: "startup_view \<Rightarrow> string list \<Rightarrow> string list \<Rightarrow> (file_auth_error, bool) result" where
  "ancestor_is_root sv root [] =
     (case sv_equivalent sv [] root of Inl _ \<Rightarrow> Inl Auth_read_failed | Inr same \<Rightarrow> Inr same)"
| "ancestor_is_root sv root (c # cs) =
     (case sv_equivalent sv (rev (c # cs)) root of
        Inl _ \<Rightarrow> Inl Auth_read_failed
      | Inr same \<Rightarrow> (if same then Inr True else ancestor_is_root sv root cs))"

fun credential_is_shared ::
    "startup_view \<Rightarrow> string list \<Rightarrow> string list list \<Rightarrow> (file_auth_error, bool) result" where
  "credential_is_shared sv resolved [] = Inr False"
| "credential_is_shared sv resolved (root # roots) =
     (case ancestor_is_root sv root (rev (butlast resolved)) of
        Inl e \<Rightarrow> Inl e
      | Inr shared \<Rightarrow> (if shared then Inr True else credential_is_shared sv resolved roots))"

fun map_provisioning_error :: "credential_file_error \<Rightarrow> file_auth_error" where
  "map_provisioning_error Credential_open_failed = Auth_open_failed"
| "map_provisioning_error Credential_not_regular_file = Auth_not_regular"
| "map_provisioning_error Credential_read_failed = Auth_read_failed"
| "map_provisioning_error Credential_file_too_large = Auth_file_too_large"
| "map_provisioning_error Credential_malformed_file = Auth_malformed_file"
| "map_provisioning_error Credential_missing_login = Auth_missing_login"
| "map_provisioning_error Credential_missing_verifier = Auth_missing_verifier"
| "map_provisioning_error Credential_invalid_login = Auth_invalid_login"
| "map_provisioning_error Credential_invalid_verifier = Auth_invalid_verifier"
| "map_provisioning_error Credential_resource_exhausted = Auth_resource_exhausted"

definition default_limit_policy :: limit_policy where
  "default_limit_policy = \<lparr>maximum_failures = 5, cooldown = 30 * 1000000000\<rparr>"

definition create_file_authentication_service ::
    "startup_view \<Rightarrow> 'w posix \<Rightarrow> sodium_pwhash option \<Rightarrow> string \<Rightarrow> string list list \<Rightarrow> 'w \<Rightarrow>
     ('w \<times> (file_auth_error, credential_record \<times> auth_service) result) option" where
  "create_file_authentication_service sv px verifier credential_path shared_roots w =
     (case verifier of
        None \<Rightarrow> Some (w, Inl Cryptography_unavailable)
      | Some na \<Rightarrow>
          (case resolve_credential_path sv credential_path of
             Inl e \<Rightarrow> Some (w, Inl e)
           | Inr resolved \<Rightarrow>
               (case credential_is_shared sv resolved shared_roots of
                  Inl e \<Rightarrow> Some (w, Inl e)
                | Inr shared \<Rightarrow>
                    (if shared then Some (w, Inl Auth_credential_is_shared)
                     else
                       (case load_credentials px (sodium_is_usable na) resolved w of
                          None \<Rightarrow> None
                        | Some (w1, Inl e) \<Rightarrow> Some (w1, Inl (map_provisioning_error e))
                        | Some (w1, Inr provider) \<Rightarrow>
                            (case create_auth_service (Some provider)
                                    (Some (\<lambda>p. map_sum (\<lambda>_. ()) id (sodium_hash na p))) default_limit_policy of
                               Inl _ \<Rightarrow> Some (w1, Inl Auth_resource_exhausted)
                             | Inr service \<Rightarrow> Some (w1, Inr (provider, service))))))))"

fun file_auth_message :: "file_auth_error \<Rightarrow> string" where
  "file_auth_message Cryptography_unavailable = ''password cryptography could not be initialized''"
| "file_auth_message Auth_open_failed = ''unable to open the configured credential file''"
| "file_auth_message Auth_not_regular = ''configured credential source must be a regular file''"
| "file_auth_message Auth_credential_is_shared =
     ''credential file must be outside every configured filesystem location''"
| "file_auth_message Auth_read_failed = ''unable to read the configured credential file''"
| "file_auth_message Auth_file_too_large = ''credential file exceeds its size limit''"
| "file_auth_message Auth_malformed_file = ''credential file syntax is invalid''"
| "file_auth_message Auth_missing_login = ''credential file must contain one owner login''"
| "file_auth_message Auth_missing_verifier = ''credential file must contain one password verifier''"
| "file_auth_message Auth_invalid_login = ''owner login is empty, oversized, or contains control bytes''"
| "file_auth_message Auth_invalid_verifier = ''owner password verifier is malformed or unsupported''"
| "file_auth_message Auth_resource_exhausted = ''authentication resources could not be allocated''"

section \<open>The runtime plan\<close>

fun map_log_level :: "log_level \<Rightarrow> log_severity" where
  "map_log_level Log_debug = Severity_debug"
| "map_log_level Log_info = Severity_info"
| "map_log_level Log_warning = Severity_warning"
| "map_log_level Log_error = Severity_error"

fun map_transport_mode :: "transport_mode \<Rightarrow> http_transport_mode" where
  "map_transport_mode Loopback_http = Http_loopback"
| "map_transport_mode Trusted_lan_http = Http_trusted_lan"
| "map_transport_mode Trusted_proxy_https = Http_trusted_proxy"

record location_config =
  lc_api_path :: string
  lc_root :: "string list"
  lc_permissions :: location_permissions

record runtime_server =
  rs_endpoint :: tcp_endpoint
  rs_multithreading :: bool
  rs_worker_threads :: nat
  rs_severity :: log_severity
  rs_locations :: "location_config list"
  rs_timeouts :: request_timeouts
  rs_response_timeout :: int
  rs_mime_types :: "mime_mapping list"
  rs_transport :: transport_policy
  rs_credentials_file :: string

datatype bootstrap_error =
    Invalid_root string source_location shared_root_error
  | Mime_types_load_failed string source_location "load_error_code \<times> nat"
  | Authentication_failed string source_location file_auth_error
  | Session_initialization_failed

fun build_locations ::
    "startup_view \<Rightarrow> string \<Rightarrow> location_settings list \<Rightarrow> (bootstrap_error, location_config list) result" where
  "build_locations sv config_path [] = Inr []"
| "build_locations sv config_path (l # ls) =
     (case shared_root_create sv (resolve_path (ls_root l) config_path) of
        Inl e \<Rightarrow> Inl (Invalid_root config_path (snd (ls_root l)) e)
      | Inr root \<Rightarrow>
          (case build_locations sv config_path ls of
             Inl e \<Rightarrow> Inl e
           | Inr locations \<Rightarrow>
               Inr (\<lparr>lc_api_path = ls_api_path l, lc_root = root,
                     lc_permissions = \<lparr>allows_read = allow_read l, allows_write = allow_write l,
                                        allows_delete = allow_delete l\<rparr>\<rparr> # locations)))"

definition bootstrap_mime_types ::
    "startup_view \<Rightarrow> string \<Rightarrow> server_settings \<Rightarrow> (bootstrap_error, mime_mapping list) result" where
  "bootstrap_mime_types sv config_path configured =
     (case ss_mime_types_file configured of
        None \<Rightarrow> Inr []
      | Some f \<Rightarrow>
          (let mime_path = resolve_path f config_path in
           case load_mime_types (sv_open sv mime_path) of
             Inl e \<Rightarrow> Inl (Mime_types_load_failed mime_path (snd f) e)
           | Inr mime_types \<Rightarrow> Inr mime_types))"

definition resolve_credentials :: "string \<Rightarrow> server_settings \<Rightarrow> string \<times> source_location" where
  "resolve_credentials config_path configured =
     (case ss_credentials_file configured of
        Some f \<Rightarrow> (resolve_path f config_path, snd f)
      | None \<Rightarrow> (path_join (path_parent config_path) ''credentials.conf'', ss_location configured))"

definition build_server ::
    "startup_view \<Rightarrow> string \<Rightarrow> server_settings \<Rightarrow> (bootstrap_error, runtime_server) result" where
  "build_server sv config_path configured =
     (case build_locations sv config_path (ss_locations configured) of
        Inl e \<Rightarrow> Inl e
      | Inr locations \<Rightarrow>
          (case bootstrap_mime_types sv config_path configured of
             Inl e \<Rightarrow> Inl e
           | Inr mime_types \<Rightarrow>
               Inr \<lparr>rs_endpoint = \<lparr>endpoint_address = bind_address configured, endpoint_port = ss_port configured\<rparr>,
                    rs_multithreading = multithreading_enabled configured,
                    rs_worker_threads = ss_worker_threads configured,
                    rs_severity = map_log_level (ss_log_level configured),
                    rs_locations = locations,
                    rs_timeouts = \<lparr>headers_timeout = int (ss_header_timeout_ms configured),
                                   body_timeout = int (ss_body_timeout_ms configured),
                                   receive_timeout = int (ss_request_timeout_ms configured)\<rparr>,
                    rs_response_timeout = int (ss_response_timeout_ms configured),
                    rs_mime_types = mime_types,
                    rs_transport = \<lparr>policy_mode = map_transport_mode (ss_transport_mode configured),
                                    policy_trusted_proxy = ss_trusted_proxy configured\<rparr>,
                    rs_credentials_file = fst (resolve_credentials config_path configured)\<rparr>))"

fun build_servers ::
    "startup_view \<Rightarrow> string \<Rightarrow> server_settings list \<Rightarrow> (bootstrap_error, runtime_server list) result" where
  "build_servers sv config_path [] = Inr []"
| "build_servers sv config_path (s # ss) =
     (case build_server sv config_path s of
        Inl e \<Rightarrow> Inl e
      | Inr server \<Rightarrow>
          (case build_servers sv config_path ss of
             Inl e \<Rightarrow> Inl e
           | Inr servers \<Rightarrow> Inr (server # servers)))"

definition default_session_policy :: session_policy where
  "default_session_policy =
     \<lparr>absolute_lifetime = 12 * 3600 * 1000000000, idle_timeout = 30 * 60 * 1000000000, maximum_sessions = 64\<rparr>"

text \<open>\<open>codec\<close> tells whether the session credential codec could be created.\<close>

definition build_sessions :: "bool \<Rightarrow> (bootstrap_error, ('d, string) session_store) result" where
  "build_sessions codec =
     (if \<not> codec then Inl Session_initialization_failed
      else (case create_store default_session_policy of
              Inl _ \<Rightarrow> Inl Session_initialization_failed
            | Inr store \<Rightarrow> Inr store))"

record 'd runtime_plan =
  plan_servers :: "runtime_server list"
  plan_credential :: credential_record
  plan_authentication :: auth_service
  plan_sessions :: "('d, string) session_store"
  plan_severity :: log_severity

text \<open>Every server overwrites the credential path, so that of the last one counts; the first one's severity does.\<close>

definition last_credentials :: "string \<Rightarrow> server_settings list \<Rightarrow> string \<times> source_location" where
  "last_credentials config_path configured =
     fold (\<lambda>s _. resolve_credentials config_path s) configured ([], default_location)"

definition process_severity :: "runtime_server list \<Rightarrow> log_severity" where
  "process_severity servers = (case servers of [] \<Rightarrow> Severity_info | s # _ \<Rightarrow> rs_severity s)"

definition runtime_build ::
    "startup_view \<Rightarrow> 'w posix \<Rightarrow> sodium_pwhash option \<Rightarrow> bool \<Rightarrow> string \<Rightarrow> server_settings list \<Rightarrow> 'w \<Rightarrow>
     ('w \<times> (bootstrap_error, 'd runtime_plan) result) option" where
  "runtime_build sv px verifier codec config_path configured w =
     (case build_servers sv config_path configured of
        Inl e \<Rightarrow> Some (w, Inl e)
      | Inr servers \<Rightarrow>
          (let roots = concat (map (\<lambda>s. map lc_root (rs_locations s)) servers);
               credentials = last_credentials config_path configured in
           case create_file_authentication_service sv px verifier (fst credentials) roots w of
             None \<Rightarrow> None
           | Some (w1, Inl e) \<Rightarrow> Some (w1, Inl (Authentication_failed (fst credentials) (snd credentials) e))
           | Some (w1, Inr (provider, service)) \<Rightarrow>
               (case build_sessions codec of
                  Inl e \<Rightarrow> Some (w1, Inl e)
                | Inr store \<Rightarrow>
                    Some (w1, Inr \<lparr>plan_servers = servers, plan_credential = provider,
                      plan_authentication = service, plan_sessions = store,
                      plan_severity = process_severity servers\<rparr>))))"

section \<open>Starting the servers\<close>

definition make_filesystem_api_settings :: "runtime_server \<Rightarrow> api_location list" where
  "make_filesystem_api_settings server =
     map (\<lambda>l. \<lparr>location_api_path = lc_api_path l,
                location_service = \<lparr>service_root = lc_root l, service_permissions = lc_permissions l\<rparr>\<rparr>)
       (rs_locations server)"

definition listen_backlog :: int where "listen_backlog = 128"
definition pending_connection_limit :: nat where "pending_connection_limit = 128"

definition make_server_config :: "admission_options option \<Rightarrow> runtime_server \<Rightarrow> server_config" where
  "make_server_config admission server =
     \<lparr>sc_endpoint = rs_endpoint server, sc_listen_backlog = listen_backlog,
      sc_multithreading = rs_multithreading server, sc_worker_count = rs_worker_threads server,
      sc_pending_limit = pending_connection_limit, sc_admission = admission\<rparr>"

datatype application_start_error = Missing_server | Server_start_failed nat server_start_error

text \<open>A failed start closes the servers started before; a vector destroys its elements front to back here.\<close>

fun start_servers ::
    "'w sockets \<Rightarrow> ('w \<Rightarrow> 'w \<times> (int, unit) result) \<Rightarrow> nat \<Rightarrow> (socket \<times> tcp_endpoint \<times> dispatcher) list \<Rightarrow>
     server_config list \<Rightarrow> 'w \<Rightarrow>
     'w \<times> (application_start_error, (socket \<times> tcp_endpoint \<times> dispatcher) list) result" where
  "start_servers sk start_thread index started [] w = (w, Inr started)"
| "start_servers sk start_thread index started (config # configs) w =
     (case connection_server_start sk start_thread config w of
        (w1, Inl e) \<Rightarrow>
          (fold (\<lambda>(s, _) v. sk_close sk s v) started w1, Inl (Server_start_failed index e))
      | (w1, Inr server) \<Rightarrow>
          start_servers sk start_thread (index + 1) (started @ [server]) configs w1)"

definition application_start where
  "application_start sk start_thread configs w =
     (if configs = [] then (w, Inl Missing_server)
      else start_servers sk start_thread 0 [] configs w)"

section \<open>The credential file stays out of reach\<close>

lemma ancestor_not_root:
  assumes "ancestor_is_root sv root rs = Inr False" "prefix q (rev rs)"
  shows "sv_equivalent sv q root = Inr False"
  using assms
proof (induction rs)
  case (Cons c cs)
  then show ?case by (auto split: sum.splits if_splits)
qed (auto split: sum.splits)

lemma credential_not_shared:
  assumes "credential_is_shared sv resolved roots = Inr False" "root \<in> set roots" "prefix q (butlast resolved)"
  shows "sv_equivalent sv q root = Inr False"
  using assms
proof (induction roots)
  case (Cons r rs)
  then have "ancestor_is_root sv r (rev (butlast resolved)) = Inr False" "credential_is_shared sv resolved rs = Inr False"
    by (auto split: sum.splits if_splits)
  with Cons ancestor_not_root [of sv r "rev (butlast resolved)" q] show ?case by auto
qed simp

lemma file_authentication_service:
  assumes "create_file_authentication_service sv px verifier path roots w = Some (w', Inr (provider, service))"
  obtains na resolved where "verifier = Some na" "resolve_credential_path sv path = Inr resolved"
    "credential_is_shared sv resolved roots = Inr False"
    "load_credentials px (sodium_is_usable na) resolved w = Some (w', Inr provider)"
    "auth_limiter service = make_limiter default_limit_policy"
  using assms
  by (auto simp: create_file_authentication_service_def create_auth_service_def
      split: option.splits sum.splits if_splits prod.splits)

lemma runtime_build_cases:
  assumes "runtime_build sv px verifier codec config_path configured w = Some (w', Inr plan)"
  obtains "build_servers sv config_path configured = Inr (plan_servers plan)"
    "create_file_authentication_service sv px verifier (fst (last_credentials config_path configured))
       (concat (map (\<lambda>s. map lc_root (rs_locations s)) (plan_servers plan))) w =
       Some (w', Inr (plan_credential plan, plan_authentication plan))"
    "build_sessions codec = Inr (plan_sessions plan)"
  using assms
  by (auto simp: runtime_build_def Let_def split: sum.splits option.splits prod.splits)

lemma build_locations_canonical:
  assumes "build_locations sv config_path ls = Inr locations" "loc \<in> set locations"
  shows "\<exists>p. sv_canonical sv p = Inr (lc_root loc)"
  using assms
proof (induction ls arbitrary: locations)
  case (Cons l ls)
  then show ?case
    by (auto 4 4 simp: shared_root_create_def split: sum.splits if_splits)
qed simp

lemma build_servers_locations:
  assumes "build_servers sv config_path ss = Inr servers" "s \<in> set servers"
  shows "\<exists>c\<in>set ss. build_server sv config_path c = Inr s"
  using assms
proof (induction ss arbitrary: servers)
  case (Cons c ss)
  then show ?case by (auto split: sum.splits)
qed simp

text \<open>
  C3. The credential file stays out of reach: when startup succeeds, the owner's credential was read
  from a file whose directory is not inside any shared root of any server, so whatever path a client
  requests below a root, resolving it never yields that file.
\<close>

theorem credential_file_unreachable:
  assumes "runtime_build sv px verifier codec config_path configured w = Some (w', Inr plan)"
    and "\<forall>q b. sv_equivalent sv q q = Inr b \<longrightarrow> b"
    and "\<forall>p q. sv_canonical sv p = Inr q \<longrightarrow> list_all path_name q" "canonical_names fs"
    and "s \<in> set (plan_servers plan)" "loc \<in> set (rs_locations s)"
    and "safe_path_resolve fs (lc_root loc) requested = Inr p" "p \<noteq> lc_root loc"
  shows "\<exists>na source. verifier = Some na \<and>
           load_credentials px (sodium_is_usable na) source w = Some (w', Inr (plan_credential plan)) \<and>
           \<not> prefix (lc_root loc) (butlast source) \<and> p \<noteq> source"
proof -
  from runtime_build_cases [OF assms(1)] have
    b: "build_servers sv config_path configured = Inr (plan_servers plan)" and
    a: "create_file_authentication_service sv px verifier (fst (last_credentials config_path configured))
       (concat (map (\<lambda>s. map lc_root (rs_locations s)) (plan_servers plan))) w =
       Some (w', Inr (plan_credential plan, plan_authentication plan))" by blast+
  from file_authentication_service [OF a] obtain na source where
    f: "verifier = Some na" "resolve_credential_path sv (fst (last_credentials config_path configured)) = Inr source"
    "credential_is_shared sv source (concat (map (\<lambda>s. map lc_root (rs_locations s)) (plan_servers plan))) = Inr False"
    "load_credentials px (sodium_is_usable na) source w = Some (w', Inr (plan_credential plan))" by blast
  have out: "\<not> prefix (lc_root loc) (butlast source)"
  proof
    assume pre: "prefix (lc_root loc) (butlast source)"
    have "lc_root loc \<in> set (concat (map (\<lambda>s. map lc_root (rs_locations s)) (plan_servers plan)))"
      using assms(5,6) by auto
    from credential_not_shared [OF f(3) this pre] assms(2) show False by blast
  qed
  obtain c where "build_server sv config_path c = Inr s"
    using build_servers_locations [OF b assms(5)] by blast
  then have "build_locations sv config_path (ss_locations c) = Inr (rs_locations s)"
    by (auto simp: build_server_def split: sum.splits)
  from build_locations_canonical [OF this assms(6)] assms(3) have names: "list_all path_name (lc_root loc)" by blast
  have "prefix (lc_root loc) p" using safe_path_resolved [OF assms(4) names assms(7)] by blast
  moreover have "source = butlast source @ [last source]"
    using f(2) by (auto simp: resolve_credential_path_def Let_def split: sum.splits)
  ultimately have "p \<noteq> source" using out assms(8) by (metis prefix_snoc)
  with f out show ?thesis by blast
qed

section \<open>What the plan takes over from the configuration\<close>

lemma build_locations_settings:
  "build_locations sv config_path ls = Inr locations \<Longrightarrow>
     map lc_api_path locations = map ls_api_path ls \<and>
     map lc_permissions locations =
       map (\<lambda>l. \<lparr>allows_read = allow_read l, allows_write = allow_write l, allows_delete = allow_delete l\<rparr>) ls"
  by (induction ls arbitrary: locations) (auto split: sum.splits)

lemma config_load_settings:
  assumes "config_load stream = Some (Inr settings)"
  obtains s where "settings = [s]" "values_ok s" "threads_ok s" "transport_ok s" "ss_locations s \<noteq> []"
    "locations_ok (ss_locations s)"
proof -
  obtain cfg where "validate_config cfg = Some (Inr settings)"
    using assms by (auto simp: config_load_def split: sum.splits option.splits)
      (auto simp: map_sum_def split: sum.splits)
  from validate_config_settings [OF this] that show thesis by blast
qed



section \<open>Examples\<close>

definition startup_pwhash :: sodium_pwhash where
  "startup_pwhash = \<lparr>pwhash_str = (\<lambda>p. Some (supported_password_profile @ ''s'')),
     pwhash_verify = (\<lambda>v p. True), pwhash_needs_rehash = (\<lambda>v. 0)\<rparr>"

text \<open>A host with one file, which holds a credential; the world counts the reads.\<close>

definition startup_px :: "nat posix" where
  "startup_px =
     \<lparr>px_open = (\<lambda>p f w. (w, Inr 3)), px_openat = (\<lambda>d n f w. (w, Inl ENOENT)), px_close = (\<lambda>d w. (w, Inr ())),
      px_fstat = (\<lambda>d w. (w, Inr \<lparr>stat_kind = Stat_regular, stat_size = 100, stat_mtime = 0\<rparr>)),
      px_read_link = (\<lambda>d w. (w, Inl ENOENT)), px_get_flags = (\<lambda>d w. (w, Inr [])),
      px_set_flags = (\<lambda>d f w. (w, Inr ())),
      px_read = (\<lambda>d n w. (w + 1, Inr (if w = 0 then credential_source ''a'' (supported_password_profile @ ''s'') else []))),
      px_write = (\<lambda>d b w. (w, Inr (length b))), px_fsync = (\<lambda>d w. (w, Inr ())),
      px_mkdirat = (\<lambda>d n w. (w, Inl ENOENT)), px_unlinkat = (\<lambda>d n r w. (w, Inl ENOENT)),
      px_linkat = (\<lambda>e s d n w. (w, Inl ENOENT)), px_remove = (\<lambda>p w. (w, Inl ENOENT)),
      px_create_ruleset = (\<lambda>w. (w, Inl ENOENT)), px_add_rule = (\<lambda>r d w. (w, Inl ENOENT)),
      px_no_new_privs = (\<lambda>w. (w, Inl ENOENT)), px_restrict_self = (\<lambda>r w. (w, Inl ENOENT)),
      px_start_thread = (\<lambda>w. (w, Inl ENOENT)), px_status = (\<lambda>p w. (w, Inr None)),
      px_iterate = (\<lambda>p w. (w, Inl ENOENT)), px_temp_directory = (\<lambda>w. (w, Inl ENOENT)),
      px_name_seed = (\<lambda>w. (w, 0, 0, 0, 0)), px_errno = (\<lambda>w. 0), px_view = (\<lambda>w. sample_fs),
      px_host = \<lparr>host_now = (\<lambda>w. (w, 0)), host_stop = (\<lambda>w. (w, False))\<rparr>\<rparr>"

definition sample_startup :: startup_view where
  "sample_startup =
     \<lparr>sv_canonical = (\<lambda>p. if p = ''/a'' then Inr [''a''] else if p = ''/'' then Inr [] else Inl True),
      sv_is_directory = (\<lambda>p. Inr True), sv_equivalent = (\<lambda>p q. Inr (p = q)),
      sv_open = (\<lambda>p. if p = ''/c'' then Some (False, sample_config) else None)\<rparr>"

definition startup_owner :: credential_record where
  "startup_owner = \<lparr>cred_identity = ''owner'', cred_canonical_login = ''a'',
     cred_verifier = supported_password_profile @ ''s''\<rparr>"

lemma startup_credential:
  "load_credentials startup_px (sodium_is_usable startup_pwhash) [''credentials.conf''] 0 =
     Some (2, Inr startup_owner)"
proof -
  let ?v = "supported_password_profile @ ''s''"
  let ?src = "credential_source ''a'' ?v"
  have facts: "is_valid_owner_login ''a''" "''a'' = concat (map utf8_encode [0x61])" "list_all quotable [0x61]"
    "verifier_text ?v" "length ?v < pwhash_STRBYTES" "sodium_is_usable startup_pwhash ?v"
    by code_simp+
  have len: "length ?src \<le> maximum_credential_file_bytes" "?src \<noteq> []" by code_simp+
  have read: "px_read startup_px d n w = (w + 1, Inr (if w = 0 then ?src else []))" for d n w
    by (simp add: startup_px_def)
  have "credential_read_loop startup_px 3 [] 0 = credential_read_loop startup_px 3 ?src 1"
    using len by (subst credential_read_loop.simps) (simp add: read)
  also have "\<dots> = Some (2, Inr ?src)"
    using len by (subst credential_read_loop.simps) (simp add: read)
  finally have loop: "credential_read_loop startup_px 3 [] 0 = Some (2, Inr ?src)" .
  have "px_open startup_px p f w = (w, Inr 3)" "px_close startup_px d w = (w, Inr ())"
    "px_fstat startup_px d w = (w, Inr \<lparr>stat_kind = Stat_regular, stat_size = 100, stat_mtime = 0\<rparr>)" for p f d w
    by (simp_all add: startup_px_def)
  then have "read_credential_source startup_px [''credentials.conf''] 0 = Some (2, Inr ?src)"
    using loop len by (simp add: read_credential_source_def credential_read_opened_def closing_def
        maximum_credential_file_bytes_def)
  with create_from_credential_source [where is_usable = "sodium_is_usable startup_pwhash", OF facts]
  show ?thesis by (simp add: load_credentials_def startup_owner_def)
qed

lemma startup_authentication:
  "\<exists>service. create_file_authentication_service sample_startup startup_px (Some startup_pwhash) ''/credentials.conf''
         [[''a'']] 0 = Some (2, Inr (startup_owner, service))"
proof -
  have path: "resolve_credential_path sample_startup ''/credentials.conf'' = Inr [''credentials.conf'']"
    "credential_is_shared sample_startup [''credentials.conf''] [[''a'']] = Inr False" by code_simp+
  have "sodium_hash startup_pwhash ''SpareNode unknown-login verification'' = Inr (supported_password_profile @ ''s'')"
    by code_simp
  then obtain service where "create_auth_service (Some c)
      (Some (\<lambda>p. map_sum (\<lambda>_. ()) id (sodium_hash startup_pwhash p))) default_limit_policy = Inr service" for c :: credential_record
    by (auto simp: create_auth_service_def default_limit_policy_def)
  with path startup_credential show ?thesis
    by (simp add: create_file_authentication_service_def del: credential_is_shared.simps)
qed

definition startup_server :: runtime_server where
  "startup_server =
     (case build_servers sample_startup ''/c'' sample_settings of Inr (s # _) \<Rightarrow> s | _ \<Rightarrow> undefined)"

definition startup_locations :: "api_location list" where
  "startup_locations =
     [\<lparr>location_api_path = ''/'',
       location_service =
         \<lparr>service_root = [''a''],
          service_permissions = \<lparr>allows_read = True, allows_write = False, allows_delete = False\<rparr>\<rparr>\<rparr>]"

lemma startup_servers:
  "build_servers sample_startup ''/c'' sample_settings = Inr [startup_server]"
  and startup_server_roots: "map lc_root (rs_locations startup_server) = [[''a'']]"
  and startup_server_settings:
    "make_filesystem_api_settings startup_server = startup_locations" "rs_mime_types startup_server = []"
  and startup_server_sizes:
    "endpoint_address (rs_endpoint startup_server) \<noteq> []"
    "effective_worker_count (rs_multithreading startup_server) (rs_worker_threads startup_server) \<noteq> 0"
    "headers_timeout (rs_timeouts startup_server) > 0" "receive_timeout (rs_timeouts startup_server) > 0"
proof -
  let ?r = "build_servers sample_startup ''/c'' sample_settings"
  let ?P = "\<lambda>s. map lc_root (rs_locations s) = [[''a'']] \<and> make_filesystem_api_settings s = startup_locations \<and>
    rs_mime_types s = [] \<and> endpoint_address (rs_endpoint s) \<noteq> [] \<and>
    effective_worker_count (rs_multithreading s) (rs_worker_threads s) \<noteq> 0 \<and>
    headers_timeout (rs_timeouts s) > 0 \<and> receive_timeout (rs_timeouts s) > 0"
  have "case ?r of Inr [s] \<Rightarrow> ?P s | _ \<Rightarrow> False" by code_simp
  then obtain s where r: "?r = Inr [s]" and s: "?P s" by (cases ?r) (auto split: list.splits)
  from r have "startup_server = s" by (simp add: startup_server_def)
  with r show "?r = Inr [startup_server]" by simp
  from s have "?P startup_server" unfolding \<open>startup_server = s\<close> .
  then show "map lc_root (rs_locations startup_server) = [[''a'']]"
    "make_filesystem_api_settings startup_server = startup_locations" "rs_mime_types startup_server = []"
    "endpoint_address (rs_endpoint startup_server) \<noteq> []"
    "effective_worker_count (rs_multithreading startup_server) (rs_worker_threads startup_server) \<noteq> 0"
    "headers_timeout (rs_timeouts startup_server) > 0" "receive_timeout (rs_timeouts startup_server) > 0"
    by blast+
qed

lemma startup_credentials: "fst (last_credentials ''/c'' sample_settings) = ''/credentials.conf''"
  by code_simp

lemma startup_plan:
  obtains plan :: "nat runtime_plan" where
    "runtime_build sample_startup startup_px (Some startup_pwhash) True ''/c'' sample_settings 0 = Some (2, Inr plan)"
    "plan_servers plan = [startup_server]" "plan_credential plan = startup_owner"
proof -
  from startup_authentication obtain service where
    "create_file_authentication_service sample_startup startup_px (Some startup_pwhash) ''/credentials.conf''
       [[''a'']] 0 = Some (2, Inr (startup_owner, service))" by blast
  moreover obtain store :: "(nat, string) session_store" where "build_sessions True = Inr store"
    by (auto simp: build_sessions_def create_store_def default_session_policy_def)
  ultimately have "\<exists>plan :: nat runtime_plan.
      runtime_build sample_startup startup_px (Some startup_pwhash) True ''/c'' sample_settings 0 = Some (2, Inr plan) \<and>
      plan_servers plan = [startup_server] \<and> plan_credential plan = startup_owner"
    using startup_servers startup_server_roots startup_credentials by (simp add: runtime_build_def split_beta)
  then show thesis by (elim exE conjE) (rule that)
qed

theorem credential_file_unreachable_witness:
  "\<exists>na source. Some startup_pwhash = Some na \<and>
     (\<exists>r. load_credentials startup_px (sodium_is_usable na) source 0 = Some (2, Inr r)) \<and>
     \<not> prefix [''a''] (butlast source) \<and> [''a'', ''x''] \<noteq> source"
proof -
  from startup_plan obtain plan :: "nat runtime_plan" where
    p: "runtime_build sample_startup startup_px (Some startup_pwhash) True ''/c'' sample_settings 0 = Some (2, Inr plan)"
      "plan_servers plan = [startup_server]" by blast
  from startup_server_roots obtain loc where loc: "loc \<in> set (rs_locations startup_server)" "lc_root loc = [''a'']"
    by auto
  have laws: "\<forall>q b. sv_equivalent sample_startup q q = Inr b \<longrightarrow> b"
    "\<forall>p q. sv_canonical sample_startup p = Inr q \<longrightarrow> list_all path_name q" "canonical_names sample_fs"
    by (auto simp: sample_startup_def canonical_names_def sample_fs_def path_name_def)
  have "safe_path_resolve sample_fs [''a''] ''x'' = Inr [''a'', ''x'']" by code_simp
  then have "safe_path_resolve sample_fs (lc_root loc) ''x'' = Inr [''a'', ''x'']" by (simp add: loc(2))
  from credential_file_unreachable [OF p(1) laws(1-3) _ loc(1) this] p(2) loc(2) show ?thesis by auto
qed

lemma sample_config_loads: "config_load (Some (False, sample_config)) = Some (Inr sample_settings)"
proof -
  have "read_config_source (Some (False, sample_config)) = Inr sample_config"
    "create_lexer sample_config = Inr (make_lexer sample_config)" by code_simp+
  then show ?thesis using sample_parsed_ok sample_settings_ok by (simp add: config_load_def)
qed


end
