(* ===== verification/Server_Process.thy ===== *)
theory Server_Process
  imports Runtime_Bootstrap
begin

text \<open>
  The server process: the composition of each server (\<^verbatim>\<open>apps/sparenode/server.cpp\<close>), its diagnostics and
  exit codes, and \<^verbatim>\<open>main\<close> (\<^verbatim>\<open>apps/sparenode/main.cpp\<close>). The process is followed until its servers are started
  or startup has failed; the console prompt, the two lifecycle log lines and the shutdown after it are not
  modelled.
\<close>

section \<open>Diagnostics of startup\<close>

fun mime_load_message :: "load_error_code \<Rightarrow> string" where
  "mime_load_message Mime_open_failed = ''unable to open MIME types file''"
| "mime_load_message Mime_read_failed = ''unable to read MIME types file''"
| "mime_load_message Mime_file_too_large = ''MIME types file exceeds the size limit''"
| "mime_load_message Mime_line_too_long = ''MIME types line exceeds the length limit''"
| "mime_load_message Mime_invalid_line = ''MIME types line requires a media type and at least one extension''"
| "mime_load_message (Mime_registry Invalid_extension) = ''invalid MIME filename extension''"
| "mime_load_message (Mime_registry Invalid_media_type) = ''invalid MIME media type''"
| "mime_load_message (Mime_registry Duplicate_extension) = ''duplicate MIME filename extension''"
| "mime_load_message (Mime_registry Too_many_entries) = ''too many MIME type mappings''"

fun bootstrap_message :: "bootstrap_error \<Rightarrow> string" where
  "bootstrap_message (Invalid_root _ _ _) = ''configured filesystem location could not be constructed''"
| "bootstrap_message (Mime_types_load_failed _ _ _) = ''configured MIME registry could not be constructed''"
| "bootstrap_message (Authentication_failed _ _ _) = ''configured authentication service could not be constructed''"
| "bootstrap_message Session_initialization_failed = ''bounded session service could not be constructed''"

text \<open>The generic form of a POSIX path is its text.\<close>

fun format_runtime_bootstrap_error :: "bootstrap_error \<Rightarrow> string" where
  "format_runtime_bootstrap_error (Mime_types_load_failed path _ (code, line)) =
     append_safe_diagnostic Style_path path @ '':'' @ print_base 10 line @ '':1: error: '' @ mime_load_message code"
| "format_runtime_bootstrap_error (Invalid_root path location e) =
     append_safe_diagnostic Style_path path @ '':'' @ print_base 10 (loc_line location) @ '':'' @
     print_base 10 (loc_column location) @ '': error: '' @ shared_root_message e"
| "format_runtime_bootstrap_error (Authentication_failed _ _ e) = ''error: '' @ file_auth_message e"
| "format_runtime_bootstrap_error Session_initialization_failed =
     ''error: '' @ bootstrap_message Session_initialization_failed"

fun application_start_message :: "application_start_error \<Rightarrow> string" where
  "application_start_message Missing_server = ''runtime configuration contains no server''"
| "application_start_message (Server_start_failed _ _) = ''configured server could not be started''"

definition operation_number :: "network_operation \<Rightarrow> nat" where
  "operation_number x =
     (case x of
        Net_initialize \<Rightarrow> 0 | Net_resolve_address \<Rightarrow> 1 | Net_create_socket \<Rightarrow> 2 | Net_configure_socket \<Rightarrow> 3
      | Net_bind \<Rightarrow> 4 | Net_listen \<Rightarrow> 5 | Net_accept \<Rightarrow> 6 | Net_receive \<Rightarrow> 7 | Net_send \<Rightarrow> 8
      | Net_query_local_endpoint \<Rightarrow> 9 | Net_query_peer_endpoint \<Rightarrow> 10 | Net_shutdown_send \<Rightarrow> 11)"

definition domain_number :: "network_error_domain \<Rightarrow> nat" where
  "domain_number x =
     (case x of
        Net_validation \<Rightarrow> 0 | Net_address_resolution \<Rightarrow> 1 | Net_socket \<Rightarrow> 2 | Net_state \<Rightarrow> 3
      | Net_cancellation \<Rightarrow> 4 | Net_timeout \<Rightarrow> 5)"

definition dispatch_number :: "dispatch_error \<Rightarrow> nat" where
  "dispatch_number x =
     (case x of
        Invalid_worker_count \<Rightarrow> 0 | Invalid_pending_connection_limit \<Rightarrow> 1 | Missing_connection_handler \<Rightarrow> 2
      | Invalid_connection \<Rightarrow> 3 | Dispatcher_stopped \<Rightarrow> 4 | Dispatch_cancelled \<Rightarrow> 5 | Worker_start_failed \<Rightarrow> 6
      | Dispatch_allocation_failed \<Rightarrow> 7 | Invalid_admission_config \<Rightarrow> 8 | Admission_start_failed \<Rightarrow> 9)"

text \<open>The dispatcher's configuration errors, the only ones of its creation here, carry the native code \<open>0\<close>.\<close>

definition server_start_detail :: "server_start_error \<Rightarrow> string" where
  "server_start_detail e =
     (let head = (\<lambda>code native. '' server_error_code='' @ print_base 10 code @ '' native_code='' @ print_int native) in
      case e of
        Listener_start_failed n \<Rightarrow>
          head 0 0 @ '' network_operation='' @ print_base 10 (operation_number (net_operation n)) @
          '' network_domain='' @ print_base 10 (domain_number (net_domain n)) @
          '' network_code='' @ print_int (net_code n)
      | Dispatcher_start_failed d \<Rightarrow>
          head 1 0 @ '' dispatch_code='' @ print_base 10 (dispatch_number d) @ '' dispatch_native_code='' @ print_int 0
      | Accept_thread_start_failed native \<Rightarrow> head 2 native
      | Server_allocation_failed \<Rightarrow> head 3 0)"

definition format_application_start_error :: "application_start_error \<Rightarrow> string" where
  "format_application_start_error e =
     application_start_message e @ '' server_index='' @
     (case e of
        Missing_server \<Rightarrow> print_base 10 0
      | Server_start_failed index server_error \<Rightarrow> print_base 10 index @ server_start_detail server_error)"

fun authentication_api_message :: "authentication_api_error \<Rightarrow> string" where
  "authentication_api_message Missing_service = ''authentication API requires a session service''"
| "authentication_api_message (Route_registration_failed _) = ''authentication API route registration failed''"

fun filesystem_api_message :: "filesystem_api_error \<Rightarrow> string" where
  "filesystem_api_message Missing_location = ''filesystem API requires a configured location''"
| "filesystem_api_message (Location_registration_failed _) = ''filesystem API route registration failed''"

fun plan_message :: "plan_error \<Rightarrow> string" where
  "plan_message (Authentication_api e) = authentication_api_message e"
| "plan_message (Filesystem_api e) = filesystem_api_message e"

definition write_startup_failure :: "bool \<Rightarrow> string \<Rightarrow> string" where
  "write_startup_failure terminal diagnostic =
     write_console_diagnostic terminal Color_automatic diagnostic Severity_error @
     [LF] @ ''SpareNode was not started.'' @ [LF]"

section \<open>The composition of a server\<close>

text \<open>
  What the process relies on: the startup queries, the files, libsodium's password hashing and session
  credentials when they initialise, the clock of sessions, the file operations of requests, the sockets and
  threads, the date of responses and whether standard error is a colour terminal.
\<close>

record ('w, 'c, 'd, 'x) process_env =
  pe_view :: startup_view
  pe_posix :: "'w posix"
  pe_verifier :: "sodium_pwhash option"
  pe_codec :: "(('c \<Rightarrow> 'c \<times> (credential_error, string \<times> 'd) result) \<times>
                (string \<Rightarrow> (credential_error, 'd) result)) option"
  pe_clock :: "'c \<Rightarrow> 'c \<times> int"
  pe_files :: "'x files_api_env"
  pe_sockets :: "'w sockets"
  pe_start_thread :: "'w \<Rightarrow> 'w \<times> (int, unit) result"
  pe_date :: string
  pe_terminal :: bool

text \<open>
  The session authentication of a plan: its credential, and the verifier and codec the plan was built
  with. A plan exists only when both were created.
\<close>

definition session_authentication ::
    "('w, 'c, 'd, 'x) process_env \<Rightarrow> 'd runtime_plan \<Rightarrow> ('c, 'd) auth_env" where
  "session_authentication env plan =
     \<lparr>auth_find = find_by_login (plan_credential plan),
      auth_verify = (case pe_verifier env of Some na \<Rightarrow> password_check na | None \<Rightarrow> (\<lambda>_ _. Inl ())),
      auth_generate = (case pe_codec env of Some (generate, _) \<Rightarrow> generate | None \<Rightarrow> (\<lambda>c. (c, Inl credential_error.Cryptography_unavailable))),
      auth_digest = (case pe_codec env of Some (_, digest) \<Rightarrow> digest | None \<Rightarrow> (\<lambda>_. Inl credential_error.Cryptography_unavailable)),
      auth_clock = pe_clock env\<rparr>"

record ('c, 'd, 'x) server_plan =
  sp_routes :: "(temporary_file, ('c, 'd, 'x) server_world, file_read) api_routes"
  sp_handler :: "('c, 'd, 'x) server_world handler_config"
  sp_config :: server_config

definition make_server_runtime_plan ::
    "('w, 'c, 'd, 'x) process_env \<Rightarrow> ('c, 'd) auth_env \<Rightarrow> runtime_server \<Rightarrow>
     (string, ('c, 'd, 'x) server_plan) result" where
  "make_server_runtime_plan env auth server =
     (case make_server_routes (pe_date env) auth (pe_files env) (rs_mime_types server)
             (make_filesystem_api_settings server) of
        Inl e \<Rightarrow> Inl (plan_message e)
      | Inr routes \<Rightarrow>
          (let handler =
             \<lparr>parser_limits = default_limits, body_policy_selector = Some authentication_body_storage_policy,
              receive_chunk_bytes = 16 * 1024, cfg_timeouts = rs_timeouts server, deadline_provider = None,
              response_timeout = rs_response_timeout server, max_drain_bytes = 64 * 1024, drain_timeout = 100,
              cfg_transport_policy = rs_transport server\<rparr> in
           Inr \<lparr>sp_routes = routes, sp_handler = handler,
                sp_config = make_server_config (Some (make_http_connection_admission handler)) server\<rparr>))"

fun make_server_runtime_plans ::
    "('w, 'c, 'd, 'x) process_env \<Rightarrow> ('c, 'd) auth_env \<Rightarrow> runtime_server list \<Rightarrow>
     (string, ('c, 'd, 'x) server_plan list) result" where
  "make_server_runtime_plans env auth [] = Inr []"
| "make_server_runtime_plans env auth (server # servers) =
     (case make_server_runtime_plan env auth server of
        Inl e \<Rightarrow> Inl e
      | Inr plan \<Rightarrow>
          (case make_server_runtime_plans env auth servers of
             Inl e \<Rightarrow> Inl e
           | Inr plans \<Rightarrow> Inr (plan # plans)))"

section \<open>The process\<close>

text \<open>An exit code with what was written to standard error, or the running servers with their plans.\<close>

datatype ('c, 'd, 'x) process_outcome =
    Not_started int string
  | Serving "('c, 'd, 'x) server_plan list" "(socket \<times> tcp_endpoint \<times> dispatcher) list"

definition run_server ::
    "('w, 'c, 'd, 'x) process_env \<Rightarrow> string \<Rightarrow> 'w \<Rightarrow> ('w \<times> ('c, 'd, 'x) process_outcome) option" where
  "run_server env config_path w =
     (let not_started = (\<lambda>code diagnostic. Not_started code (write_startup_failure (pe_terminal env) diagnostic)) in
      case config_load (sv_open (pe_view env) config_path) of
        None \<Rightarrow> None
      | Some (Inl e) \<Rightarrow> Some (w, not_started 2 (format_config_load_error config_path e))
      | Some (Inr settings) \<Rightarrow>
          (case runtime_build (pe_view env) (pe_posix env) (pe_verifier env) (pe_codec env \<noteq> None) config_path settings w of
             None \<Rightarrow> None
           | Some (w1, Inl e) \<Rightarrow> Some (w1, not_started 3 (format_runtime_bootstrap_error e))
           | Some (w1, Inr plan) \<Rightarrow>
               (case make_server_runtime_plans env (session_authentication env plan) (plan_servers plan) of
                  Inl e \<Rightarrow> Some (w1, not_started 3 (''error: '' @ e))
                | Inr plans \<Rightarrow>
                    (case application_start (pe_sockets env) (pe_start_thread env) (map sp_config plans) w1 of
                       (w2, Inl e) \<Rightarrow> Some (w2, not_started 3 (''error: '' @ format_application_start_error e))
                     | (w2, Inr servers) \<Rightarrow> Some (w2, Serving plans servers)))))"

text \<open>The arguments are those after the name of the executable.\<close>

definition sparenode_main ::
    "('w, 'c, 'd, 'x) process_env \<Rightarrow> string list \<Rightarrow> 'w \<Rightarrow> ('w \<times> ('c, 'd, 'x) process_outcome) option" where
  "sparenode_main env arguments w =
     (case parse_command_line arguments of
        Inl e \<Rightarrow>
          Some (w, Not_started 2
            (write_console_diagnostic (pe_terminal env) Color_automatic
               (''error: '' @ command_line_message (fst e)) Severity_error @
             [LF] @ ''usage: sparenode --config <path-to-spnode.conf>'' @ [LF]))
      | Inr config_path \<Rightarrow> run_server env config_path w)"

section \<open>Where sessions come from\<close>

definition store_digests :: "('d, 'p) session_store \<Rightarrow> 'd set" where
  "store_digests s = entry_digest ` set (store_entries s)"

abbreviation session_digests :: "('c, 'd, 'x) api_world \<Rightarrow> 'd set" where
  "session_digests w \<equiv> store_digests (world_sessions w)"

abbreviation login_handler where
  "login_handler date auth \<equiv> (\<lambda>request parameters w. map_prod id without_source (api_login date auth request w))"

abbreviation logout_handler where
  "logout_handler date auth \<equiv> (\<lambda>request parameters w. map_prod id without_source (api_logout date auth request w))"

lemma remove_expired_digests: "store_digests (remove_expired now s) \<subseteq> store_digests s"
  by (auto simp: store_digests_def set_remove_expired)

lemma touched_digests:
  assumes "i < length (store_entries s)"
  shows "store_digests (s\<lparr>store_entries := (store_entries s)[i := (store_entries s ! i)\<lparr>entry_last_activity := now\<rparr>]\<rparr>) =
     store_digests s"
proof -
  have "map entry_digest ((store_entries s)[i := (store_entries s ! i)\<lparr>entry_last_activity := now\<rparr>]) =
      map entry_digest (store_entries s)"
    using assms by (simp add: map_update list_update_same_conv)
  then have "set (map entry_digest ((store_entries s)[i := (store_entries s ! i)\<lparr>entry_last_activity := now\<rparr>])) =
      set (map entry_digest (store_entries s))" by (rule arg_cong)
  then show ?thesis unfolding store_digests_def list.set_map by simp
qed

lemma erased_digests: "store_digests (s\<lparr>store_entries := erase_at i (store_entries s)\<rparr>) \<subseteq> store_digests s"
  unfolding store_digests_def using set_erase_at [of i "store_entries s"] by auto

lemma authenticate_digests:
  assumes "session_authenticate digest clock credential (c, s) = ((c', s'), r)"
  shows "store_digests s' \<subseteq> store_digests s"
proof (cases "digest credential")
  case (Inr d)
  obtain c1 now where now: "clock c = (c1, now)" by force
  let ?s = "remove_expired now s"
  have "store_digests s' \<subseteq> store_digests ?s"
  proof (cases "find_index (\<lambda>e. entry_digest e = d) (store_entries ?s)")
    case (Some i)
    then have "s' = ?s\<lparr>store_entries := (store_entries ?s)[i := (store_entries ?s ! i)\<lparr>entry_last_activity := now\<rparr>]\<rparr>"
      using Inr now assms by (simp add: session_authenticate_def Let_def)
    with touched_digests [OF find_index_less [OF Some], of now] show ?thesis by simp
  qed (use Inr now assms in \<open>auto simp: session_authenticate_def Let_def split: prod.splits\<close>)
  then show ?thesis by (rule order_trans) (rule remove_expired_digests)
qed (use assms in \<open>simp add: session_authenticate_def\<close>)

lemma invalidate_digests:
  assumes "session_invalidate digest clock credential (c, s) = ((c', s'), r)"
  shows "store_digests s' \<subseteq> store_digests s"
proof -
  have "s' = s \<or> (\<exists>now i. s' = remove_expired now s \<or>
      s' = (remove_expired now s)\<lparr>store_entries := erase_at i (store_entries (remove_expired now s))\<rparr>)"
    using assms by (auto simp: session_invalidate_def Let_def split: sum.splits prod.splits option.splits)
  with erased_digests remove_expired_digests show ?thesis by (metis order_refl order_trans)
qed

lemma policy_decision_digests: "session_digests (fst (policy_decision date auth request w)) \<subseteq> session_digests w"
  by (auto simp: policy_decision_def dest!: authenticate_digests split: option.splits list.splits prod.splits)

lemma logout_digests: "session_digests (fst (api_logout date auth request w)) \<subseteq> session_digests w"
  by (auto simp: api_logout_def session_logout_def dest!: invalidate_digests
      split: option.splits prod.splits sum.splits)

lemma decorated_digests:
  "session_digests (fst (decorate (server_policies date auth)
     (\<lambda>request parameters. on_files (operation request (g parameters))) request parameters w)) \<subseteq> session_digests w"
  using policy_decision_digests [of date auth request w]
  by (auto simp: decorate_decision on_files_def split: prod.splits sum.splits)

lemma login_answer_state:
  "fst (case x of
          (w1, Inl Invalid_credentials) \<Rightarrow> (w1, a)
        | (w1, Inl Throttled) \<Rightarrow> (w1, b)
        | (w1, Inl Unavailable) \<Rightarrow> (w1, c)
        | (w1, Inr credential) \<Rightarrow> (w1, d credential)) = fst x"
  by (auto split: prod.splits sum.splits auth_error.splits)

text \<open>Only a verified login adds a session.\<close>

lemma login_digests:
  assumes "\<not> session_digests (fst (api_login date auth request w)) \<subseteq> session_digests w"
  obtains login password c where "parse_login (view_body request) = Some (login, password)"
    "auth_find auth login = Inr (Some c)" "auth_verify auth password (cred_verifier c) = Inr True"
proof -
  from assms obtain login password previous where
    l: "parse_login (view_body request) = Some (login, password)"
      "\<not> session_digests (fst (login_service auth login password previous w)) \<subseteq> session_digests w"
    by (simp add: api_login_def login_answer_state split: if_splits option.splits prod.splits)
  obtain ws x where x: "authenticate (auth_find auth) (auth_verify auth) (auth_clock auth) login password
      (world_host w, world_auth w) = (ws, x)"
    by (rule prod.exhaust)
  have "\<exists>i n. x = Inr (i, n)"
  proof (rule ccontr)
    assume "\<not> ?thesis"
    then obtain e where "x = Inl e" by (cases x) auto
    with x l(2) show False by (cases ws) (auto simp: login_service_def session_login_def)
  qed
  with x authenticate_success l(1) that show thesis by blast
qed

section \<open>Where the routes of a server come from\<close>

definition session_safe where
  "session_safe date auth r \<longleftrightarrow>
     (\<forall>request p w. session_digests (fst (route_handler r request p w)) \<subseteq> session_digests w) \<or>
     (route_handler r = login_handler date auth \<and> route_method r = Post \<and>
      \<not> route_wildcard r \<and> route_prefix r = login_path)"

definition builder_session_safe where
  "builder_session_safe date auth b \<longleftrightarrow>
     builder_decorator b = Some (decorate (server_policies date auth)) \<and>
     (\<forall>r\<in>set (builder_routes b). session_safe date auth r)"

lemma register_route_safe:
  assumes "register_route m pattern (Some h) routes = (routes', x)" "\<forall>r\<in>set routes. session_safe date auth r"
    and "(\<forall>request p w. session_digests (fst (h request p w)) \<subseteq> session_digests w) \<or>
         (h = login_handler date auth \<and> m = Post \<and> pattern = login_path)"
  shows "\<forall>r\<in>set routes'. session_safe date auth r"
proof -
  have "\<not> suffix ''/*'' login_path" by code_simp
  then have new: "session_safe date auth \<lparr>route_method = m,
      route_prefix = (if suffix ''/*'' pattern then take (length pattern - 1) pattern else pattern),
      route_wildcard = suffix ''/*'' pattern, route_handler = h\<rparr>"
    using assms(3) unfolding session_safe_def by auto
  then show ?thesis using assms(1,2)
    by (simp add: register_route_def Let_def split: if_splits) auto
qed

lemma register_protected_safe:
  assumes "register_protected m pattern (\<lambda>request parameters. on_files (operation request (g parameters))) b = (b', x)"
    and "builder_session_safe date auth b"
  shows "builder_session_safe date auth b'"
proof -
  let ?h = "decorate (server_policies date auth) (\<lambda>request parameters. on_files (operation request (g parameters)))"
  obtain routes y where r: "register_route m pattern (Some ?h) (builder_routes b) = (routes, y)" by force
  have "\<forall>r\<in>set routes. session_safe date auth r"
    using register_route_safe [OF r] assms(2) decorated_digests unfolding builder_session_safe_def by metis
  with r assms show ?thesis
    by (auto simp: register_protected_def builder_session_safe_def split: sum.splits)
qed

lemma register_location_safe:
  assumes "register_location_routes m path operation b = (b', x)" "builder_session_safe date auth b"
  shows "builder_session_safe date auth b'"
  using assms register_protected_safe [where g = "\<lambda>_. []"] register_protected_safe [where g = id]
  by (fastforce simp: register_location_routes_def split: prod.splits sum.splits)

lemma register_locations_safe:
  assumes "register_locations date env mime_types ls b = (b', Inr u)" "builder_session_safe pdate auth b"
  shows "builder_session_safe pdate auth b'"
  using assms
proof (induction ls arbitrary: b)
  case (Cons loc ls)
  from Cons.prems(1) obtain b1 b2 b3 b4 where
    r: "register_read_routes date env mime_types loc b = (b1, Inr ())"
      "register_upload_routes date env loc b1 = (b2, Inr ())"
      "register_directory_creation_routes date env loc b2 = (b3, Inr ())"
      "register_deletion_routes date env loc b3 = (b4, Inr ())"
      "register_locations date env mime_types ls b4 = (b', Inr u)"
    by (auto split: prod.splits sum.splits)
  note defs = register_read_routes_def register_upload_routes_def register_directory_creation_routes_def
    register_deletion_routes_def
  have "builder_session_safe pdate auth b4"
    using Cons.prems(2) r(1-4) [unfolded defs] register_location_safe by metis
  then show ?case by (rule Cons.IH [OF r(5)])
qed simp

lemma server_routes_safe:
  assumes "make_server_routes date auth env mime_types locations = Inr routes"
  shows "\<forall>r\<in>set routes. session_safe date auth r"
proof -
  let ?b0 = "make_builder (Some (decorate (server_policies date auth)))"
  from assms obtain b1 b2 b3 u where
    r: "register_public Post login_path (Some (login_handler date auth)) ?b0 = (b1, Inr ())"
      "register_public Post logout_path (Some (logout_handler date auth)) b1 = (b2, Inr ())"
      "register_locations date env mime_types locations b2 = (b3, Inr u)" "routes = builder_routes b3"
    by (auto simp: make_server_routes_def register_authentication_api_routes_def
        register_filesystem_api_routes_def build_router_def split: prod.splits sum.splits if_splits)
  have public: "builder_session_safe date auth b'"
    if "register_public m pattern (Some h) b = (b', x)" "builder_session_safe date auth b"
      "(\<forall>request p w. session_digests (fst (h request p w)) \<subseteq> session_digests w) \<or>
       (h = login_handler date auth \<and> m = Post \<and> pattern = login_path)" for m pattern h b b' x
    using that register_route_safe [OF _ _ that(3)]
    by (auto simp: register_public_def builder_session_safe_def split: prod.splits sum.splits)
  have "builder_session_safe date auth ?b0" by (simp add: builder_session_safe_def make_builder_def)
  from public [OF r(1) this] have "builder_session_safe date auth b1" by blast
  from public [OF r(2) this] have "builder_session_safe date auth b2" using logout_digests by fastforce
  from register_locations_safe [OF r(3) this] r(4) show ?thesis by (simp add: builder_session_safe_def)
qed

section \<open>From the configuration to the files\<close>

text \<open>
  A history of a server: it dispatches requests one after another. Between two of them anything may
  change but the sessions: the clock, the disk and the login limiter.
\<close>

inductive serves ::
    "(temporary_file, ('c, 'd, 'x) server_world, file_read) api_routes \<Rightarrow> ('c, 'd, 'x) server_world \<Rightarrow>
     temporary_file request_view list \<Rightarrow> ('c, 'd, 'x) server_world \<Rightarrow> bool" for routes where
  serves_start: "serves routes u [] u"
| serves_request:
    "serves routes u requests v \<Longrightarrow> dispatch_api date routes request v = (v1, r) \<Longrightarrow>
     world_sessions v2 = world_sessions v1 \<Longrightarrow> serves routes u (requests @ [request]) v2"

text \<open>A login with the owner's name and a password that the stored verifier accepts.\<close>

definition owner_login :: "sodium_pwhash \<Rightarrow> credential_record \<Rightarrow> 'f request_view \<Rightarrow> bool" where
  "owner_login na credential request \<longleftrightarrow>
     view_method request = Post \<and> request_path (view_target request) = login_path \<and>
     (case parse_login (view_body request) of
        None \<Rightarrow> False
      | Some (login, password) \<Rightarrow>
          login = cred_canonical_login credential \<and> pwhash_verify na (cred_verifier credential) password)"

lemma dispatch_digests:
  assumes "make_server_routes date auth env mime_types locations = Inr routes"
    and "auth_find auth = find_by_login credential" "auth_verify auth = password_check na"
    and "dispatch_api date2 routes request w = (w', r)" "\<not> session_digests w' \<subseteq> session_digests w"
  shows "owner_login na credential request"
proof -
  let ?path = "request_path (view_target request)"
  from assms(4,5) obtain x where x: "select_route routes (view_method request) ?path = Some x"
    "\<not> session_digests (fst (route_handler x request (captured_suffix (route_wildcard x) (route_prefix x) ?path) w))
      \<subseteq> session_digests w"
    by (auto simp: dispatch_api_def dispatch_def Let_def split: if_splits option.splits)
  from x(1) have c: "x \<in> set routes" "route_candidate (view_method request) ?path x"
    using select_route_max [of routes "view_method request" ?path] by auto
  with server_routes_safe [OF assms(1)] x(2) have login: "route_handler x = login_handler date auth"
    "route_method x = Post" "\<not> route_wildcard x" "route_prefix x = login_path"
    unfolding session_safe_def by blast+
  from x(2) have "\<not> session_digests (fst (api_login date auth request w)) \<subseteq> session_digests w"
    by (simp add: login(1))
  from login_digests [OF this] obtain name password cr where
    "parse_login (view_body request) = Some (name, password)"
    "auth_find auth name = Inr (Some cr)" "auth_verify auth password (cred_verifier cr) = Inr True" by blast
  with c(2) login show ?thesis
    by (auto simp: assms(2,3) owner_login_def route_candidate_def path_matches_def find_by_login_def password_check_def
        sodium_verify_def copy_encoded_verifier_def split: if_splits sum.splits option.splits)
qed

lemma serves_sessions:
  assumes "serves routes u requests v" "make_server_routes date auth env mime_types locations = Inr routes"
    and "auth_find auth = find_by_login credential" "auth_verify auth = password_check na"
    and "session_digests u = {}" "session_digests v \<noteq> {}"
  shows "\<exists>request\<in>set requests. owner_login na credential request"
  using assms(1,5,6)
proof (induction rule: serves.induct)
  case (serves_request u requests v date2 request v1 r v2)
  show ?case
  proof (cases "session_digests v = {}")
    case True
    with serves_request.prems serves_request.hyps(3) have "\<not> session_digests v1 \<subseteq> session_digests v" by simp
    from dispatch_digests [OF assms(2-4) serves_request.hyps(2) this] show ?thesis by simp
  qed (use serves_request in auto)
qed simp

lemma run_server_serving:
  assumes "run_server env config_path w = Some (w', Serving plans servers)"
  obtains settings w1 plan where
    "config_load (sv_open (pe_view env) config_path) = Some (Inr settings)"
    "runtime_build (pe_view env) (pe_posix env) (pe_verifier env) (pe_codec env \<noteq> None) config_path settings w =
       Some (w1, Inr plan)"
    "make_server_runtime_plans env (session_authentication env plan) (plan_servers plan) = Inr plans"
    "application_start (pe_sockets env) (pe_start_thread env) (map sp_config plans) w1 = (w', Inr servers)"
  using assms by (auto simp: run_server_def Let_def split: option.splits sum.splits prod.splits)

lemma server_plans_routes:
  assumes "make_server_runtime_plans env auth servers = Inr plans" "sp \<in> set plans"
  shows "\<exists>s\<in>set servers. make_server_routes (pe_date env) auth (pe_files env) (rs_mime_types s)
           (make_filesystem_api_settings s) = Inr (sp_routes sp)"
  using assms
proof (induction servers arbitrary: plans)
  case (Cons s servers)
  then show ?case
    by (auto simp: make_server_runtime_plan_def Let_def split: sum.splits)
qed simp

lemma server_location_configured:
  assumes "build_server sv config_path c = Inr s" "loc \<in> set (make_filesystem_api_settings s)"
  shows "\<exists>l\<in>set (ss_locations c). location_api_path loc = ls_api_path l \<and>
           service_permissions (location_service loc) =
             \<lparr>allows_read = allow_read l, allows_write = allow_write l, allows_delete = allow_delete l\<rparr>"
proof -
  let ?perm = "\<lambda>l. \<lparr>allows_read = allow_read l, allows_write = allow_write l, allows_delete = allow_delete l\<rparr>"
  from assms(1) have "build_locations sv config_path (ss_locations c) = Inr (rs_locations s)"
    by (auto simp: build_server_def split: sum.splits)
  from build_locations_settings [OF this]
  have "map (\<lambda>x. (lc_api_path x, lc_permissions x)) (rs_locations s) = map (\<lambda>l. (ls_api_path l, ?perm l)) (ss_locations c)"
    by (simp add: list_eq_iff_nth_eq)
  from arg_cong [OF this, of set]
  have same: "(\<lambda>x. (lc_api_path x, lc_permissions x)) ` set (rs_locations s) =
      (\<lambda>l. (ls_api_path l, ?perm l)) ` set (ss_locations c)" unfolding list.set_map .
  from assms(2) obtain x where x: "x \<in> set (rs_locations s)" "location_api_path loc = lc_api_path x"
    "service_permissions (location_service loc) = lc_permissions x"
    by (auto simp: make_filesystem_api_settings_def)
  from imageI [OF x(1), of "\<lambda>x. (lc_api_path x, lc_permissions x)"]
  have "(lc_api_path x, lc_permissions x) \<in> (\<lambda>l. (ls_api_path l, ?perm l)) ` set (ss_locations c)"
    unfolding same .
  with x(2,3) show ?thesis by auto
qed

text \<open>
  C1. From the configuration file to a client's file: once the process serves, whatever requests its
  server has dispatched since it started with no session, if one more request changes files, disk or
  leases, then that request carries a live session, its path lies below a location of the configuration
  file that allows its method there, and an earlier request was a login with the owner's name and a
  password that the verifier of the loaded credential file accepts.
\<close>

theorem served_files_authorised:
  assumes "run_server env config_path w = Some (w', Serving plans servers)" "sp \<in> set plans"
    and "serves (sp_routes sp) u requests v" "session_digests u = {}"
    and "dispatch_api date (sp_routes sp) request v = (v', r)" "world_files v' \<noteq> world_files v"
  shows "\<exists>c plan na source w1.
    config_load (sv_open (pe_view env) config_path) = Some (Inr [c]) \<and>
    pe_verifier env = Some na \<and>
    load_credentials (pe_posix env) (sodium_is_usable na) source w = Some (w1, Inr (plan_credential plan)) \<and>
    (\<exists>l\<in>set (ss_locations c). below_location (ls_api_path l) (request_path (view_target request)) \<and>
       permits \<lparr>allows_read = allow_read l, allows_write = allow_write l, allows_delete = allow_delete l\<rparr>
         (view_method request)) \<and>
    live_session (session_authentication env plan) request v \<and>
    (\<exists>login\<in>set requests. owner_login na (plan_credential plan) login)"
proof -
  from run_server_serving [OF assms(1)] obtain settings w1 plan where
    load: "config_load (sv_open (pe_view env) config_path) = Some (Inr settings)" and
    build: "runtime_build (pe_view env) (pe_posix env) (pe_verifier env) (pe_codec env \<noteq> None) config_path settings w =
       Some (w1, Inr plan)" and
    plans: "make_server_runtime_plans env (session_authentication env plan) (plan_servers plan) = Inr plans" by blast
  let ?auth = "session_authentication env plan"
  from config_load_settings [OF load] obtain c where c: "settings = [c]" by blast
  from runtime_build_cases [OF build] have
    servers: "build_servers (pe_view env) config_path settings = Inr (plan_servers plan)" and
    auth: "create_file_authentication_service (pe_view env) (pe_posix env) (pe_verifier env)
       (fst (last_credentials config_path settings))
       (concat (map (\<lambda>s. map lc_root (rs_locations s)) (plan_servers plan))) w =
       Some (w1, Inr (plan_credential plan, plan_authentication plan))" by blast+
  from file_authentication_service [OF auth] obtain na source where na: "pe_verifier env = Some na"
    "load_credentials (pe_posix env) (sodium_is_usable na) source w = Some (w1, Inr (plan_credential plan))" by blast
  from server_plans_routes [OF plans assms(2)] obtain s where s: "s \<in> set (plan_servers plan)"
    "make_server_routes (pe_date env) ?auth (pe_files env) (rs_mime_types s) (make_filesystem_api_settings s) =
       Inr (sp_routes sp)" by blast
  from dispatch_guarded [OF s(2) assms(5,6)] obtain loc where loc: "live_session ?auth request v"
    "loc \<in> set (make_filesystem_api_settings s)"
    "below_location (location_api_path loc) (request_path (view_target request))"
    "permits (service_permissions (location_service loc)) (view_method request)" by blast
  from build_servers_locations [OF servers s(1)] c have "build_server (pe_view env) config_path c = Inr s" by simp
  from server_location_configured [OF this loc(2)] loc(3,4)
  have l: "\<exists>l\<in>set (ss_locations c). below_location (ls_api_path l) (request_path (view_target request)) \<and>
       permits \<lparr>allows_read = allow_read l, allows_write = allow_write l, allows_delete = allow_delete l\<rparr>
         (view_method request)" by (metis (no_types))
  have "session_digests v \<noteq> {}" using loc(1) by (auto simp: live_session_def store_digests_def)
  with serves_sessions [OF assms(3) s(2) _ _ assms(4)] na(1)
  have "\<exists>login\<in>set requests. owner_login na (plan_credential plan) login"
    by (simp add: session_authentication_def)
  with load c na l loc(1) show ?thesis by blast
qed

section \<open>Examples\<close>

text \<open>The host of \<open>sample_startup\<close>, with one address to bind, and the codec and files of the earlier examples.\<close>

definition startup_sockets :: "nat sockets" where
  "startup_sockets =
     \<lparr>sk_poll = (\<lambda>requests timeout w. (w, Inr None)),
      sk_recv = (\<lambda>s n w. (w, Inr [])), sk_send = (\<lambda>s b w. (w, Inr 0)),
      sk_shutdown = (\<lambda>s w. (w, Inr ())), sk_close = (\<lambda>s w. w),
      sk_get_flags = (\<lambda>s w. (w, Inr [])), sk_set_flags = (\<lambda>s f w. (w, Inr ())),
      sk_datagram = (\<lambda>w. (w, Inr 1)), sk_stream = (\<lambda>a w. (w, Inr 1)),
      sk_reuse_address = (\<lambda>s w. (w, Inr ())), sk_ipv6_only = (\<lambda>s w. (w, Inr ())),
      sk_bind = (\<lambda>s a w. (w, Inr ())), sk_listen = (\<lambda>s b w. (w, Inr ())),
      sk_connect = (\<lambda>s a w. (w, Inr ())), sk_getsockname = (\<lambda>s w. (w, Inr loopback_endpoint)),
      sk_accept = (\<lambda>s w. (w, Inl EAGAIN)),
      sk_getaddrinfo = (\<lambda>a s w. (w, Inr [\<lparr>ai_ipv6 = False, ai_address = loopback_endpoint\<rparr>])),
      sk_ntop = (\<lambda>b. Inr ''127.0.0.1''),
      sk_host = \<lparr>host_now = (\<lambda>w. (w, 0)), host_stop = (\<lambda>w. (w, False))\<rparr>\<rparr>"

definition startup_env :: "(nat, nat, nat, sample_world) process_env" where
  "startup_env =
     \<lparr>pe_view = sample_startup, pe_posix = startup_px, pe_verifier = Some startup_pwhash,
      pe_codec = Some (sample_generate, sample_digest), pe_clock = sample_clock, pe_files = sample_files_env,
      pe_sockets = startup_sockets, pe_start_thread = (\<lambda>w. (w, Inr ())), pe_date = ''d'', pe_terminal = False\<rparr>"

definition startup_auth :: "(nat, nat) auth_env" where
  "startup_auth =
     \<lparr>auth_find = find_by_login startup_owner, auth_verify = password_check startup_pwhash,
      auth_generate = sample_generate, auth_digest = sample_digest, auth_clock = sample_clock\<rparr>"

definition startup_routes :: "(temporary_file, (nat, nat, sample_world) server_world, file_read) api_routes" where
  "startup_routes =
     (case make_server_routes ''d'' startup_auth sample_files_env [] startup_locations of Inr r \<Rightarrow> r | Inl _ \<Rightarrow> [])"

lemma startup_routes_ok:
  "make_server_routes ''d'' startup_auth sample_files_env [] startup_locations = Inr startup_routes"
proof -
  have "case make_server_routes ''d'' startup_auth sample_files_env [] startup_locations of
      Inr _ \<Rightarrow> True | Inl _ \<Rightarrow> False" by code_simp
  then show ?thesis by (auto simp: startup_routes_def split: sum.splits)
qed

definition startup_world :: "(nat, nat, sample_world) server_world" where
  "startup_world =
     \<lparr>world_host = 5, world_auth = sample_service,
      world_sessions = \<lparr>store_policy = default_session_policy, store_entries = []\<rparr>,
      world_files = \<lparr>files_os = sample_upload_world, files_registry = empty_coordinator\<rparr>\<rparr>"

definition startup_login :: "temporary_file request_view" where
  "startup_login =
     (let body = print_object (\<lambda>i. []) [(''login'', ''a''), (''password'', ''pw'')] in
      \<lparr>view_method = Post, view_target = login_path,
       view_fields = [\<lparr>field_name = ''Content-Type'', field_value = ''application/json''\<rparr>], view_body = body,
       view_body_size = length body, view_temporary_body = None, view_file_options = None,
       view_response_options = None, view_transport = None\<rparr>)"

definition startup_logged_in :: "(nat, nat, sample_world) server_world" where
  "startup_logged_in = fst (dispatch_api ''d'' startup_routes startup_login startup_world)"

lemma startup_get:
  "next_identifier (files_registry (world_files startup_logged_in)) = 1 \<and>
   next_identifier (files_registry (world_files (fst (dispatch_api ''d'' startup_routes sample_get startup_logged_in)))) = 2"
proof -
  have "case dispatch_api ''d'' startup_routes startup_login startup_world of (w, r) \<Rightarrow>
      next_identifier (files_registry (world_files w)) = 1 \<and>
      next_identifier (files_registry (world_files (fst (dispatch_api ''d'' startup_routes sample_get w)))) = 2"
    by code_simp
  then show ?thesis by (simp add: startup_logged_in_def split_beta)
qed

definition startup_admission :: admission_options where
  "startup_admission =
     \<lparr>max_prefix_bytes = maximum_http_request_head_bytes default_limits, completion_marker = [CR, LF, CR, LF],
      inactivity_timeout = headers_timeout (rs_timeouts startup_server) * 1000000,
      total_timeout = receive_timeout (rs_timeouts startup_server) * 1000000\<rparr>"

lemma startup_starts:
  "\<exists>server. connection_server_start startup_sockets (\<lambda>w. (w, Inr ()))
     (make_server_config (Some startup_admission) startup_server) w = (w, Inr server)"
proof -
  have "maximum_http_request_head_bytes default_limits \<ge> 4" by code_simp
  with startup_server_sizes obtain dispatcher where "create_dispatcher
      (effective_worker_count (rs_multithreading startup_server) (rs_worker_threads startup_server))
      pending_connection_limit True (Some startup_admission) = Inr dispatcher"
    by (simp add: create_dispatcher_def startup_admission_def pending_connection_limit_def)
  moreover have "tcp_listener_bind startup_sockets endpoint 128 w = (w, Inr 1)" if "endpoint_address endpoint \<noteq> []" for endpoint
    using that
    by (simp add: tcp_listener_bind_def startup_sockets_def create_listening_socket_def
        configure_socket_security_def configure_socket_nonblocking_def)
  moreover have "\<exists>endpoint. tcp_local_endpoint startup_sockets (Some 1) w = (w, Inr endpoint)"
    by (cases loopback_endpoint)
      (simp_all add: tcp_local_endpoint_def endpoint_from_address_def startup_sockets_def loopback_endpoint_def)
  ultimately show ?thesis using startup_server_sizes(1)
    by (auto simp: connection_server_start_def make_server_config_def listen_backlog_def)
qed

lemma startup_serves:
  obtains plans servers sp where "run_server startup_env ''/c'' 0 = Some (2, Serving plans servers)"
    "sp \<in> set plans" "sp_routes sp = startup_routes"
proof -
  from startup_plan obtain plan :: "nat runtime_plan" where
    p: "runtime_build sample_startup startup_px (Some startup_pwhash) True ''/c'' sample_settings 0 = Some (2, Inr plan)"
      "plan_servers plan = [startup_server]" "plan_credential plan = startup_owner" by blast
  have auth: "session_authentication startup_env plan = startup_auth"
    using p(3) by (simp add: session_authentication_def startup_env_def startup_auth_def)
  from startup_routes_ok startup_server_settings obtain sp where
    sp: "make_server_runtime_plan startup_env startup_auth startup_server = Inr sp" "sp_routes sp = startup_routes"
      "sp_config sp = make_server_config (Some startup_admission) startup_server"
    by (simp add: make_server_runtime_plan_def startup_env_def make_http_connection_admission_def
        startup_admission_def Let_def)
  from startup_starts [of 2] obtain server where
    "application_start startup_sockets (\<lambda>w. (w, Inr ())) [sp_config sp] 2 = (2, Inr [server])"
    by (auto simp: application_start_def sp(3))
  moreover have "sv_open sample_startup ''/c'' = Some (False, sample_config)" by (simp add: sample_startup_def)
  ultimately have "run_server startup_env ''/c'' 0 = Some (2, Serving [sp] [server])"
    using sample_config_loads p auth sp(1) by (simp add: run_server_def startup_env_def Let_def)
  with sp(2) that [of "[sp]" "[server]" sp] show thesis by simp
qed

theorem served_files_authorised_witness:
  "\<exists>c plan na source w1.
    config_load (sv_open (pe_view startup_env) ''/c'') = Some (Inr [c]) \<and>
    pe_verifier startup_env = Some na \<and>
    load_credentials (pe_posix startup_env) (sodium_is_usable na) source 0 = Some (w1, Inr (plan_credential plan)) \<and>
    (\<exists>l\<in>set (ss_locations c). below_location (ls_api_path l) (request_path (view_target sample_get)) \<and>
       permits \<lparr>allows_read = allow_read l, allows_write = allow_write l, allows_delete = allow_delete l\<rparr>
         (view_method sample_get)) \<and>
    live_session (session_authentication startup_env plan) sample_get startup_logged_in \<and>
    (\<exists>login\<in>set [startup_login]. owner_login na (plan_credential plan) login)"
proof -
  from startup_serves obtain plans servers and sp :: "(nat, nat, sample_world) server_plan" where
    run: "run_server startup_env ''/c'' 0 = Some (2, Serving plans servers)" "sp \<in> set plans"
      "sp_routes sp = startup_routes" by blast
  have served: "serves (sp_routes sp) startup_world [startup_login] startup_logged_in"
    using serves_request [OF serves_start surjective_pairing, of startup_logged_in "''d''" startup_routes startup_login
        startup_world] by (simp add: startup_logged_in_def run(3))
  have empty: "session_digests startup_world = {}" by (simp add: startup_world_def store_digests_def)
  have change: "world_files (fst (dispatch_api ''d'' (sp_routes sp) sample_get startup_logged_in)) \<noteq>
      world_files startup_logged_in" using startup_get by (auto simp: run(3))
  show ?thesis by (rule served_files_authorised [OF run(1,2) served empty surjective_pairing change])
qed

end
