(* ===== verification/Spec2Isabelle.thy ===== *)
theory Spec2Isabelle
  imports Utf8 Ip_Address Body_Decoder Http_Router Authentication Resource_Coordinator
    Connection_Safety Config_Validator Filesystem_Api Server_Process
begin

text \<open>
  SpareNode is a file server in C++: it reads a configuration file, listens on one TCP endpoint, parses
  HTTP/1.1 requests under strict limits, authenticates its owner with a password and sessions, and lists,
  downloads, uploads, creates and deletes files below the shared roots of its configuration. This library
  models the POSIX build of the program and proves what each part promises and what the parts promise
  together. Each theory names the sources it follows; the definitions keep the names of the code.

  \<^bold>\<open>How the program is put together.\<close>
  The process (\<^verbatim>\<open>apps/sparenode/main.cpp\<close>, \<^verbatim>\<open>server.cpp\<close>; \<^verbatim>\<open>Server_Process\<close>) parses its command line, loads and
  validates the configuration (\<^verbatim>\<open>Config_Lexer\<close>, \<^verbatim>\<open>Config_Parser\<close>, \<^verbatim>\<open>Config_Validator\<close>, \<^verbatim>\<open>Config_Loader\<close>), builds a runtime
  plan from it (\<^verbatim>\<open>Runtime_Bootstrap\<close>: shared roots, media types, the credential file of \<^verbatim>\<open>Credential_File\<close>,
  sessions), composes the routes (\<^verbatim>\<open>Api_Routing\<close>, \<^verbatim>\<open>Auth_Api\<close>, \<^verbatim>\<open>Filesystem_Api\<close>) and starts a connection server
  (\<^verbatim>\<open>Socket_Io\<close>). Its accept thread hands connections to the dispatcher (\<^verbatim>\<open>Ring_Queue\<close>, \<^verbatim>\<open>Connection_Dispatcher\<close>),
  whose admission stage waits for complete heads and whose workers run the connection handler
  (\<^verbatim>\<open>Connection_Handler\<close>). The handler reads a request (\<^verbatim>\<open>Buffered_Request\<close> over \<^verbatim>\<open>Request_Parser\<close>, \<^verbatim>\<open>Request_Target\<close>,
  \<^verbatim>\<open>Host_Authority\<close>, \<^verbatim>\<open>Body_Decoder\<close>, \<^verbatim>\<open>Body_Ingestor\<close>, \<^verbatim>\<open>Temporary_Storage\<close>, under \<^verbatim>\<open>Request_Deadlines\<close>), decides
  whom it speaks with (\<^verbatim>\<open>Transport_Policy\<close>), routes it (\<^verbatim>\<open>Http_Router\<close>) and writes the answer (\<^verbatim>\<open>Http_Response\<close>).
  Protected routes check the session (\<^verbatim>\<open>Session_Store\<close>, \<^verbatim>\<open>Authentication\<close>) and reach files through
  \<^verbatim>\<open>Filesystem_Service\<close>, which takes leases (\<^verbatim>\<open>Resource_Coordinator\<close>) and works below a root by
  \<^verbatim>\<open>Safe_Path\<close>, \<^verbatim>\<open>Posix_Files\<close>, \<^verbatim>\<open>Upload_Publication\<close> and \<^verbatim>\<open>Filesystem_Operations\<close>.

  \<^bold>\<open>Foundations.\<close>
  \<^verbatim>\<open>Prelude\<close> holds the result type, searching in strings, the parts of the C++ library the sources call
  (\<^verbatim>\<open>string_view::find\<close>, \<^verbatim>\<open>from_chars\<close>, unsigned wrap-around), the collections \<open>scan_facts\<close> and others, and the
  interfaces \<open>op_system\<close> (an invariant every operation keeps), \<open>bounded_system\<close> (with a capacity) and
  \<open>incremental_parser\<close> (a parser that may ask for more input and never changes its mind). They are
  interpreted on the body decoder, the router, the resource coordinator, the session store and the two
  request parsers; \<open>token_source\<close> (\<^verbatim>\<open>Config_Lexer\<close>) and \<open>bounded_fifo\<close> (\<^verbatim>\<open>Ring_Queue\<close>) are the contracts of the
  lexer and of the ring buffers. \<^verbatim>\<open>Ascii\<close>, \<^verbatim>\<open>Utf8\<close> and \<^verbatim>\<open>Ip_Address\<close> model \<^verbatim>\<open>foundation/text\<close> and the HTTP character
  classes: the UTF-8 validator accepts exactly the encodings of scalar values. \<^verbatim>\<open>Http_Types\<close> holds the request data,
  \<^verbatim>\<open>Json_Codec\<close> the listing writer and the login parser, \<^verbatim>\<open>Mime_Types\<close> the media types, \<^verbatim>\<open>Diagnostics\<close> logging and the
  command line.

  \<^bold>\<open>Receiving.\<close>
  Heads: every accepted head obeys the configured limits, has one valid host and unambiguous framing, is
  accepted in the same way however its bytes are split, and printing a head and parsing it gives it back.
  Bodies: the optimised decoder equals a byte-by-byte reference, decoding is independent of fragmentation,
  and a chunked request round-trips. \<^verbatim>\<open>Buffered_Request\<close> and \<^verbatim>\<open>Body_Ingestor\<close> show that the handler sees exactly
  the request that was sent, in memory or on disk.

  \<^bold>\<open>Answering.\<close>
  Response heads cannot be split by a header value, and the framing the writer announces is what it sends.
  \<^verbatim>\<open>Connection_Safety\<close> follows the bytes of a whole connection: one response, preceded by at most one interim
  response. The handler returns for every host that answers its calls. The router selects the most specific route.

  \<^bold>\<open>Dispatching.\<close>
  The dispatcher never holds more connections than its limits, loses and duplicates none, hands them on
  in order, and an admission whose deadline has passed becomes ready. \<^verbatim>\<open>Socket_Io\<close> shows that a connection
  operation returns, and reports a cancellation or a timeout only when there was one.

  \<^bold>\<open>Identity.\<close>
  Login requires the stored verifier to accept the password, opens exactly the verified account's session
  and replaces the one presented; logout ends it at every later time; the limiter bounds the guesses. The
  provisioning tool's file is read back as the owner it was written for.

  \<^bold>\<open>Files.\<close>
  A resolved path is inside its root whatever links lie on the way; leases of conflicting operations
  exclude each other; an upload publishes one complete file or nothing; over every route files change only
  for a live session and a location that permits the method. The credential file cannot be reached through
  any root. \<open>served_files_authorised\<close> joins these: from the configuration file on disk to a
  change of a file, with the owner's login in between.

  \<^bold>\<open>Configuration.\<close>
  Lexing ends, what parses is well typed, what validates obeys the ranges and relationships the
  documentation states and has locations that do not overlap, the plan built from it is that
  configuration, and every failure is reported in printable lines.

  \<^bold>\<open>Conventions.\<close>
  Errors are the left of a sum, exceptions and early returns its branches; objects are records that
  operations return updated; \<^verbatim>\<open>std::size_t\<close> is \<open>nat\<close> with the bounds the code checks, and words keep their width
  where the code computes with bits. What the program asks of its host is a record of functions over an
  abstract world: \<open>posix\<close> (\<^verbatim>\<open>Posix_Files\<close>), \<open>sockets\<close> (\<^verbatim>\<open>Socket_Io\<close>), \<open>startup_view\<close> and \<open>process_env\<close>, the clock, the
  console and libsodium. What a theorem needs of them is a named hypothesis (\<open>posix_laws\<close>, \<open>truthful\<close>, \<open>settles\<close>,
  \<open>interruptible\<close>, \<open>codec_consistent\<close>, \<open>pwhash_documented\<close>, \<open>canonical_names\<close>) that states documented behaviour
  of the call; its witness gives a host that has it.

  \<^bold>\<open>Loops.\<close>
  A loop over data is a function with a measure (remaining bytes, tokens, components or attempts). A loop
  around a system call that may be interrupted is a \<open>partial_function\<close> into \<open>option\<close>, where \<open>None\<close> is a loop
  that never ends; that it returns is proved from a budget of interruptions of the world (for connections,
  socket transfers, uploads, credential files). The bounded retries of the code (creation of temporary names, generation of
  session credentials) keep their limits of the source. No fuel is used beyond these.

  \<^bold>\<open>Concurrency.\<close>
  The dispatcher, the coordinator and the session store are state machines whose steps are the critical
  sections of their locks; properties hold for every sequence of steps. Requests of one server are
  dispatched one after another in \<open>serves\<close>, with arbitrary changes of clock and disk between them.

  \<^bold>\<open>Not modelled.\<close>
  The Windows adapters (\<^verbatim>\<open>src/filesystem/detail/windows_*\<close>, Winsock, console handles, ACLs), which would need a
  second operating system; failures of memory allocation; the scheduling of the temporary writer's worker thread, whose
  answers are those of the environment; erasure of secrets, which has no meaning for values; the wait on the
  console after startup and the joining of threads at its end; libsodium, the kernel and \<^verbatim>\<open>std::filesystem\<close>, which are parameters.
\<close>

end
